(* ===== verification/Prelude.thy ===== *)
theory Prelude
  imports Main "HOL-Library.Word"
begin

text \<open>
  The vocabulary shared by every component: bytes and buffers, the status codes
  of \<open>include/shibadb.h\<close>, the result type of fallible operations, and the
  lemmas about reading and overwriting ranges of a buffer.

  A C pair of a pointer and a size is one byte list; \<open>memcpy\<close> into a buffer at
  an offset is \<open>blit\<close>, the bytes at an offset are \<open>slice\<close>. A \<open>size_t\<close> is a
  natural number and the code's own overflow tests against \<open>SIZE_MAX\<close> are kept.
\<close>

unbundle bit_operations_syntax

named_theorems buffer_simps \<open>reading back what was written to a buffer\<close>
named_theorems result_simps \<open>evaluation of results\<close>

type_synonym byte = "8 word"
type_synonym bytes = "byte list"
type_synonym u16 = "16 word"
type_synonym u32 = "32 word"
type_synonym u64 = "64 word"

section \<open>Status codes and results\<close>

datatype sdb_status =
    SDB_OK
  | SDB_E_INVALID_ARGUMENT
  | SDB_E_BUFFER_TOO_SMALL
  | SDB_E_BAD_MAGIC
  | SDB_E_UNSUPPORTED_VERSION
  | SDB_E_CORRUPT
  | SDB_E_OVERFLOW
  | SDB_E_IO
  | SDB_E_INTERNAL
  | SDB_E_TRUNCATED
  | SDB_E_NOT_FOUND
  | SDB_E_AUTHENTICATION
  | SDB_E_CONFLICT
  | SDB_E_BUSY
  | SDB_E_OUT_OF_MEMORY

text \<open>
  An operation that returns a status and fills output arguments is a function
  into \<open>'a result\<close>: \<open>Inr v\<close> is \<open>SDB_OK\<close> with the outputs \<open>v\<close>, \<open>Inl e\<close> an early
  return with the error \<open>e\<close>.
\<close>

type_synonym 'a result = "sdb_status + 'a"

primrec rbind :: "'a result \<Rightarrow> ('a \<Rightarrow> 'b result) \<Rightarrow> 'b result" where
  "rbind (Inl e) f = Inl e"
| "rbind (Inr v) f = f v"

definition ensure :: "bool \<Rightarrow> sdb_status \<Rightarrow> unit result" where
  "ensure c e = (if c then Inr () else Inl e)"

primrec is_ok :: "'a result \<Rightarrow> bool" where
  "is_ok (Inl e) = False"
| "is_ok (Inr v) = True"

primrec status_of :: "'a result \<Rightarrow> sdb_status" where
  "status_of (Inl e) = e"
| "status_of (Inr v) = SDB_OK"

lemma rbind_eq_Inr [result_simps]:
  "rbind m f = Inr v \<longleftrightarrow> (\<exists>w. m = Inr w \<and> f w = Inr v)"
  by (cases m) auto

lemma ensure_eq_Inr [result_simps]: "ensure c e = Inr u \<longleftrightarrow> c"
  by (simp add: ensure_def)

lemma ensure_simps [simp]:
  "ensure True e = Inr ()"
  "ensure False e = Inl e"
  by (simp_all add: ensure_def)

lemma rbind_ensure: "rbind (ensure c e) f = (if c then f () else Inl e)"
  by (simp add: ensure_def)

lemma rbind_assoc: "rbind (rbind m f) g = rbind m (\<lambda>x. rbind (f x) g)"
  by (cases m) simp_all

lemma rbind_cong [fundef_cong]:
  "m = m' \<Longrightarrow> (\<And>v. m' = Inr v \<Longrightarrow> f v = g v) \<Longrightarrow> rbind m f = rbind m' g"
  by (cases m') simp_all

lemma is_ok_iff: "is_ok r \<longleftrightarrow> (\<exists>v. r = Inr v)"
  by (cases r) simp_all

section \<open>Ranges of a buffer\<close>

definition slice :: "nat \<Rightarrow> nat \<Rightarrow> 'a list \<Rightarrow> 'a list" where
  "slice off n xs = take n (drop off xs)"

definition blit :: "nat \<Rightarrow> 'a list \<Rightarrow> 'a list \<Rightarrow> 'a list" where
  "blit off src dst = take off dst @ src @ drop (off + length src) dst"

definition zeros :: "nat \<Rightarrow> bytes" where
  "zeros n = replicate n 0"

lemma length_zeros [simp]: "length (zeros n) = n"
  by (simp add: zeros_def)

lemma nth_zeros [simp]: "i < n \<Longrightarrow> zeros n ! i = 0"
  by (simp add: zeros_def)

lemma zeros_0 [simp]: "zeros 0 = []"
  by (simp add: zeros_def)

lemma set_zeros: "set (zeros n) \<subseteq> {0}"
  by (auto simp: zeros_def)

lemma zeros_append: "zeros m @ zeros n = zeros (m + n)"
  by (simp add: zeros_def replicate_add)

lemma all_zero_iff: "(\<forall>b \<in> set xs. b = 0) \<longleftrightarrow> xs = zeros (length xs)"
  by (induction xs) (auto simp: zeros_def)

lemma slice_zeros: "off + n \<le> m \<Longrightarrow> slice off n (zeros m) = zeros n"
  by (simp add: slice_def zeros_def)

lemma length_slice [simp]: "length (slice off n xs) = min n (length xs - off)"
  by (simp add: slice_def min.commute)

lemma nth_slice: "i < n \<Longrightarrow> off + i < length xs \<Longrightarrow> slice off n xs ! i = xs ! (off + i)"
  by (simp add: slice_def)

lemma slice_0_length [simp]: "slice 0 (length xs) xs = xs"
  by (simp add: slice_def)

lemma slice_0 [simp]: "slice off 0 xs = []"
  by (simp add: slice_def)

lemma slice_slice:
  "a + n \<le> m \<Longrightarrow> slice a n (slice off m xs) = slice (off + a) n xs"
  by (simp add: slice_def drop_take min_def add.commute)

lemma slice_append_slice:
  "slice off m xs @ slice (off + m) n xs = slice off (m + n) xs"
  by (simp add: slice_def take_add add.commute)

lemma slice_trim: "slice off (length (slice off n xs)) xs = slice off n xs"
  by (simp add: slice_def min_def)

lemma slice_extend:
  assumes "out = slice off (length out) xs"
  shows "out @ slice (off + length out) n xs = slice off (length (out @ slice (off + length out) n xs)) xs"
proof -
  have "out @ slice (off + length out) n xs = slice off (length out + n) xs"
    by (subst assms) (rule slice_append_slice)
  then show ?thesis
    by (simp only: slice_trim)
qed

lemma length_blit [simp]: "off + length src \<le> length dst \<Longrightarrow> length (blit off src dst) = length dst"
  by (simp add: blit_def)

lemma nth_blit:
  "off + length src \<le> length dst \<Longrightarrow> i < length dst \<Longrightarrow>
    blit off src dst ! i = (if off \<le> i \<and> i < off + length src then src ! (i - off) else dst ! i)"
  by (auto simp: blit_def nth_append)

lemma slice_blit_same:
  "off + length src \<le> length dst \<Longrightarrow> n = length src \<Longrightarrow> slice off n (blit off src dst) = src"
  by (simp add: slice_def blit_def)

lemma slice_blit_before:
  "off + length src \<le> length dst \<Longrightarrow> p + n \<le> off \<Longrightarrow> slice p n (blit off src dst) = slice p n dst"
  by (rule nth_equalityI) (auto simp: nth_slice nth_blit)

lemma slice_blit_after:
  "off + length src \<le> length dst \<Longrightarrow> off + length src \<le> p \<Longrightarrow>
    slice p n (blit off src dst) = slice p n dst"
  by (rule nth_equalityI) (auto simp: nth_slice nth_blit)

lemma slice_blit_inside:
  "off + length src \<le> length dst \<Longrightarrow> off \<le> p \<Longrightarrow> p + n \<le> off + length src \<Longrightarrow>
    slice p n (blit off src dst) = slice (p - off) n src"
  by (rule nth_equalityI) (auto simp: nth_slice nth_blit)

lemmas slice_blit = slice_blit_same slice_blit_before slice_blit_after

declare slice_blit [buffer_simps]

lemma blit_Nil [simp]: "blit off [] dst = dst"
  by (simp add: blit_def)

lemma blit_slice_id: "off + n \<le> length xs \<Longrightarrow> blit off (slice off n xs) xs = xs"
  by (rule nth_equalityI) (auto simp: nth_slice nth_blit)

lemma blit_blit_same:
  "off + length src \<le> length dst \<Longrightarrow> length src' = length src \<Longrightarrow>
    blit off src (blit off src' dst) = blit off src dst"
  by (rule nth_equalityI) (auto simp: nth_blit)

lemma blit_blit_comm:
  "off + length src \<le> off' \<Longrightarrow> off' + length src' \<le> length dst \<Longrightarrow>
    blit off src (blit off' src' dst) = blit off' src' (blit off src dst)"
  by (rule nth_equalityI) (auto simp: nth_blit)

lemma blit_append:
  "off + length a + length b \<le> length dst \<Longrightarrow>
    blit (off + length a) b (blit off a dst) = blit off (a @ b) dst"
  by (rule nth_equalityI) (auto simp: nth_blit nth_append)

lemma blit_0_full: "length src = length dst \<Longrightarrow> blit 0 src dst = src"
  by (simp add: blit_def)

lemma list_update_blit:
  "i < length xs \<Longrightarrow> xs[i := v] = blit i [v] xs"
  by (rule nth_equalityI) (auto simp: nth_blit nth_list_update)

lemma buffer_eq_slices:
  "length xs = length ys \<Longrightarrow> slice 0 n xs = slice 0 n ys \<Longrightarrow>
    slice n (length xs - n) xs = slice n (length ys - n) ys \<Longrightarrow> xs = ys"
  by (metis append_take_drop_id drop0 length_drop slice_def take_all_iff order_refl)

text \<open>Buffers laid out as a concatenation of fields.\<close>

named_theorems layout_simps \<open>reading and writing a field of a concatenation\<close>

lemma slice_append_right [layout_simps]:
  "length xs \<le> off \<Longrightarrow> slice off n (xs @ ys) = slice (off - length xs) n ys"
  by (simp add: slice_def)

lemma slice_append_here [layout_simps]: "length xs = n \<Longrightarrow> slice 0 n (xs @ ys) = xs"
  by (simp add: slice_def)

lemma slice_all [layout_simps]: "length xs = n \<Longrightarrow> slice 0 n xs = xs"
  by (simp add: slice_def)

lemma blit_append_right [layout_simps]:
  "length xs \<le> off \<Longrightarrow> blit off src (xs @ ys) = xs @ blit (off - length xs) src ys"
  by (simp add: blit_def)

lemma blit_append_here [layout_simps]: "length src = length xs \<Longrightarrow> blit 0 src (xs @ ys) = src @ ys"
  by (simp add: blit_def)

lemma blit_all [layout_simps]: "length src = length xs \<Longrightarrow> blit 0 src xs = src"
  by (simp add: blit_def)

lemma drop_slice: "drop off xs = slice off n xs @ drop (off + n) xs"
  by (metis append_take_drop_id drop_drop add.commute slice_def)

lemma slice_0_prefix: "slice 0 n xs = take n xs"
  by (simp add: slice_def)

lemma xor_0_iff: "(x XOR y = 0) = (x = (y :: 'a::len word))"
  by (simp add: bit_eq_iff bit_simps)

section \<open>Little-endian byte strings\<close>

primrec le_bytes :: "nat \<Rightarrow> 'a::len word \<Rightarrow> bytes" where
  "le_bytes 0 w = []"
| "le_bytes (Suc n) w = ucast w # le_bytes n (drop_bit 8 w)"

primrec le_word :: "bytes \<Rightarrow> 'a::len word" where
  "le_word [] = 0"
| "le_word (b # bs) = ucast b OR push_bit 8 (le_word bs)"

lemma length_le_bytes [simp]: "length (le_bytes n w) = n"
  by (induction n arbitrary: w) simp_all

lemma bit_le_word:
  "bit (le_word bs :: 'a::len word) i \<longleftrightarrow>
    i < LENGTH('a) \<and> i div 8 < length bs \<and> bit (bs ! (i div 8)) (i mod 8)"
proof (induction bs arbitrary: i)
  case (Cons b bs)
  show ?case
  proof (cases "i < 8")
    case False
    then have "i div 8 = Suc ((i - 8) div 8)" "i mod 8 = (i - 8) mod 8"
      by (simp_all add: le_div_geq le_mod_geq)
    with Cons.IH [of "i - 8"] False show ?thesis
      by (auto simp: bit_simps dest: bit_imp_le_length)
  qed (auto simp: bit_simps)
qed simp

lemma nth_le_bytes: "i < n \<Longrightarrow> le_bytes n w ! i = ucast (drop_bit (8 * i) w)"
proof (induction n arbitrary: w i)
  case (Suc n)
  show ?case
    by (cases i) (use Suc in \<open>simp_all add: drop_bit_drop_bit add.commute\<close>)
qed simp

lemma le_word_le_bytes [simp]:
  "LENGTH('a) \<le> 8 * n \<Longrightarrow> le_word (le_bytes n w) = (w :: 'a::len word)"
  by (rule bit_word_eqI) (auto simp: bit_le_word nth_le_bytes bit_simps)

lemma le_bytes_le_word [simp]:
  "length bs = n \<Longrightarrow> 8 * n \<le> LENGTH('a) \<Longrightarrow> le_bytes n (le_word bs :: 'a::len word) = bs"
proof (rule nth_equalityI)
  fix i assume n: "length bs = n" "8 * n \<le> LENGTH('a)"
    and "i < length (le_bytes n (le_word bs :: 'a word))"
  then have i: "i < n" by simp
  show "le_bytes n (le_word bs :: 'a word) ! i = bs ! i"
  proof (rule bit_word_eqI)
    fix k assume k: "k < LENGTH(8)"
    then have "8 * i + k < LENGTH('a)" "(8 * i + k) div 8 = i" "(8 * i + k) mod 8 = k"
      using n i by auto
    then show "bit (le_bytes n (le_word bs :: 'a word) ! i) k = bit (bs ! i) k"
      using n i k by (simp add: nth_le_bytes bit_simps bit_le_word)
  qed
qed simp

lemma le_bytes_inject:
  "LENGTH('a) \<le> 8 * n \<Longrightarrow> le_bytes n (v :: 'a::len word) = le_bytes n w \<longleftrightarrow> v = w"
  by (metis le_word_le_bytes)

lemma le_word_zeros [simp]: "le_word (zeros n) = 0"
  by (rule bit_word_eqI) (simp add: bit_le_word less_mult_imp_div_less)

lemma four_slices:
  "xs = slice 0 a xs @ slice a b xs @ slice (a + b) c xs @ slice (a + b + c) d xs @ drop (a + b + c + d) xs"
  by (metis add_0 drop0 drop_slice)

lemma length_concat_lower:
  "(\<And>x. x \<in> set xs \<Longrightarrow> m \<le> length (f x)) \<Longrightarrow> length xs * m \<le> length (concat (map f xs))"
proof (induction xs)
  case (Cons x xs)
  then have "m \<le> length (f x)" "length xs * m \<le> length (concat (map f xs))"
    by simp_all
  then show ?case
    by simp
qed simp

lemma unat_of_nat_u16: "n < 2 ^ 16 \<Longrightarrow> unat (of_nat n :: u16) = n"
  by (simp add: unat_of_nat)

lemma unat_of_nat_u32: "n < 2 ^ 32 \<Longrightarrow> unat (of_nat n :: u32) = n"
  by (simp add: unat_of_nat)

end
