(* ===== verification/Codec.thy ===== *)
theory Codec
  imports Prelude
begin

text \<open>
  Integer codec of \<open>src/codec.c\<close>: overflow-checked size arithmetic and the
  little-endian readers and writers every on-disk format is built from. A
  reader takes the buffer and the offset its pointer argument points at; a
  writer returns the buffer with the bytes at the offset replaced.
\<close>

section \<open>Checked size arithmetic\<close>

definition SIZE_MAX :: nat where
  "SIZE_MAX = 2 ^ 64 - 1"

definition sdb_checked_add_size :: "nat \<Rightarrow> nat \<Rightarrow> nat option" where
  "sdb_checked_add_size left right =
    (if right > SIZE_MAX - left then None else Some (left + right))"

definition sdb_checked_mul_size :: "nat \<Rightarrow> nat \<Rightarrow> nat option" where
  "sdb_checked_mul_size left right =
    (if left \<noteq> 0 \<and> right > SIZE_MAX div left then None else Some (left * right))"

section \<open>Little-endian readers and writers\<close>

definition sdb_read_u16_le :: "bytes \<Rightarrow> nat \<Rightarrow> u16" where
  "sdb_read_u16_le input p =
    ucast (input ! p) OR push_bit 8 (ucast (input ! (p + 1)))"

definition sdb_read_u32_le :: "bytes \<Rightarrow> nat \<Rightarrow> u32" where
  "sdb_read_u32_le input p =
    ucast (input ! p)
    OR push_bit 8 (ucast (input ! (p + 1)))
    OR push_bit 16 (ucast (input ! (p + 2)))
    OR push_bit 24 (ucast (input ! (p + 3)))"

definition sdb_read_u64_le :: "bytes \<Rightarrow> nat \<Rightarrow> u64" where
  "sdb_read_u64_le input p =
    fold (\<lambda>index value. value OR push_bit (index * 8) (ucast (input ! (p + index)))) [0..<8] 0"

definition sdb_write_u16_le :: "bytes \<Rightarrow> nat \<Rightarrow> u16 \<Rightarrow> bytes" where
  "sdb_write_u16_le output p value =
    output[p := ucast (value AND 0xff), p + 1 := ucast (drop_bit 8 value AND 0xff)]"

definition sdb_write_u32_le :: "bytes \<Rightarrow> nat \<Rightarrow> u32 \<Rightarrow> bytes" where
  "sdb_write_u32_le output p value =
    fold (\<lambda>index out. out[p + index := ucast (drop_bit (index * 8) value AND 0xff)]) [0..<4] output"

definition sdb_write_u64_le :: "bytes \<Rightarrow> nat \<Rightarrow> u64 \<Rightarrow> bytes" where
  "sdb_write_u64_le output p value =
    fold (\<lambda>index out. out[p + index := ucast (drop_bit (index * 8) value AND 0xff)]) [0..<8] output"

section \<open>The contract of a fixed-width field\<close>

text \<open>
  What the page, superblock, node and log formats rely on: a reader decodes the
  bytes of its slice, and a writer replaces exactly that slice by the encoding.
\<close>

locale le_field =
  fixes rd :: "bytes \<Rightarrow> nat \<Rightarrow> 'a::len word"
    and wr :: "bytes \<Rightarrow> nat \<Rightarrow> 'a word \<Rightarrow> bytes"
    and width :: nat
  assumes bits: "LENGTH('a) = 8 * width"
    and rd_slice: "p + width \<le> length buf \<Longrightarrow> rd buf p = le_word (slice p width buf)"
    and wr_blit: "p + width \<le> length buf \<Longrightarrow> wr buf p v = blit p (le_bytes width v) buf"
begin

lemma length_wr: "p + width \<le> length buf \<Longrightarrow> length (wr buf p v) = length buf"
  by (simp add: wr_blit)

lemma rd_wr: "p + width \<le> length buf \<Longrightarrow> rd (wr buf p v) p = v"
  by (simp add: rd_slice wr_blit slice_blit bits)

lemma rd_blit_other:
  "p + width \<le> length buf \<Longrightarrow> off + length src \<le> length buf \<Longrightarrow>
    p + width \<le> off \<or> off + length src \<le> p \<Longrightarrow> rd (blit off src buf) p = rd buf p"
  by (auto simp: rd_slice slice_blit)

lemma wr_rd: "p + width \<le> length buf \<Longrightarrow> wr buf p (rd buf p) = buf"
  by (simp add: rd_slice wr_blit bits blit_slice_id)

lemma le_bytes_rd: "p + width \<le> length buf \<Longrightarrow> le_bytes width (rd buf p) = slice p width buf"
  by (simp add: rd_slice bits)

lemma rd_slice_shift:
  "p + width \<le> n \<Longrightarrow> off + n \<le> length buf \<Longrightarrow> rd (slice off n buf) p = rd buf (off + p)"
  by (simp add: rd_slice slice_slice)

lemma rd_append1: "p + width \<le> length xs \<Longrightarrow> rd (xs @ ys) p = rd xs p"
  by (simp add: rd_slice slice_def)

lemma rd_eq_iff:
  "p + width \<le> length buf \<Longrightarrow> rd buf p = v \<longleftrightarrow> slice p width buf = le_bytes width v"
  by (metis bits le_bytes_rd le_word_le_bytes order_refl rd_slice)

end

text \<open>The loops of the codec, and that they meet the contract.\<close>

lemma ucast_and_ff: "(ucast (w AND 0xff) :: byte) = ucast (w :: 'a::len word)"
proof -
  have ff: "(0xff :: 'a word) = mask 8"
    by (simp add: mask_eq_exp_minus_1)
  show ?thesis
    unfolding ff by (auto intro!: bit_word_eqI simp: bit_simps dest: bit_imp_le_length)
qed

lemma le_word_snoc:
  "le_word (bs @ [b]) = le_word bs OR push_bit (8 * length bs) (ucast b)"
  by (induction bs) (simp_all add: push_bit_or push_bit_push_bit or.assoc add.commute)

lemma le_word_fold:
  "fold (\<lambda>i v. v OR push_bit (i * 8) (ucast (f i))) [0..<n] 0 = le_word (map f [0..<n])"
  by (induction n) (simp_all add: le_word_snoc mult.commute)

lemma le_bytes_map: "le_bytes n v = map (\<lambda>i. ucast (drop_bit (i * 8) v)) [0..<n]"
  by (rule nth_equalityI) (simp_all add: nth_le_bytes mult.commute)

lemma slice_map: "p + n \<le> length xs \<Longrightarrow> slice p n xs = map (\<lambda>i. xs ! (p + i)) [0..<n]"
  by (rule nth_equalityI) (simp_all add: nth_slice)

lemma fold_update_blit:
  "p + n \<le> length out \<Longrightarrow>
    fold (\<lambda>i out. out[p + i := f i]) [0..<n] out = blit p (map f [0..<n]) out"
proof (induction n)
  case (Suc n)
  then show ?case
    using blit_append [of p "map f [0..<n]" "[f n]" out]
    by (simp add: list_update_blit)
qed simp

interpretation le16: le_field sdb_read_u16_le sdb_write_u16_le 2
proof unfold_locales
  fix p buf and v :: u16
  assume "p + 2 \<le> length (buf :: bytes)"
  then show "sdb_read_u16_le buf p = le_word (slice p 2 buf)"
    using le_word_fold [of "\<lambda>i. buf ! (p + i)" 2]
    by (simp add: sdb_read_u16_le_def slice_map upt_rec)
  show "sdb_write_u16_le buf p v = blit p (le_bytes 2 v) buf"
    using fold_update_blit [OF \<open>p + 2 \<le> length buf\<close>, of "\<lambda>i. ucast (drop_bit (i * 8) v)"]
    by (simp add: sdb_write_u16_le_def le_bytes_map ucast_and_ff upt_rec)
qed simp

interpretation le32: le_field sdb_read_u32_le sdb_write_u32_le 4
proof unfold_locales
  fix p buf and v :: u32
  assume "p + 4 \<le> length (buf :: bytes)"
  then show "sdb_read_u32_le buf p = le_word (slice p 4 buf)"
    using le_word_fold [of "\<lambda>i. buf ! (p + i)" 4]
    by (simp add: sdb_read_u32_le_def slice_map upt_rec or.assoc numeral_3_eq_3)
  show "sdb_write_u32_le buf p v = blit p (le_bytes 4 v) buf"
    using fold_update_blit [OF \<open>p + 4 \<le> length buf\<close>]
    by (simp add: sdb_write_u32_le_def le_bytes_map ucast_and_ff)
qed simp

interpretation le64: le_field sdb_read_u64_le sdb_write_u64_le 8
proof unfold_locales
  fix p buf and v :: u64
  assume "p + 8 \<le> length (buf :: bytes)"
  then show "sdb_read_u64_le buf p = le_word (slice p 8 buf)"
    by (simp only: sdb_read_u64_le_def slice_map le_word_fold)
  show "sdb_write_u64_le buf p v = blit p (le_bytes 8 v) buf"
    using fold_update_blit [OF \<open>p + 8 \<le> length buf\<close>]
    by (simp add: sdb_write_u64_le_def le_bytes_map ucast_and_ff)
qed simp

lemmas rd_slices = le16.rd_slice le32.rd_slice le64.rd_slice
lemmas wr_blits = le16.wr_blit le32.wr_blit le64.wr_blit
lemmas le_bytes_rds = le16.le_bytes_rd le32.le_bytes_rd le64.le_bytes_rd

declare rd_slices [buffer_simps] wr_blits [buffer_simps]

section \<open>Properties\<close>

lemma checked_add_size_iff:
  assumes "left \<le> SIZE_MAX"
  shows "sdb_checked_add_size left right = (if left + right < 2 ^ 64 then Some (left + right) else None)"
  using assms by (auto simp: sdb_checked_add_size_def SIZE_MAX_def)

lemma checked_mul_size_iff:
  "sdb_checked_mul_size left right = (if left * right < 2 ^ 64 then Some (left * right) else None)"
proof (cases "left = 0")
  case False
  then have "right > SIZE_MAX div left \<longleftrightarrow> left * right > SIZE_MAX"
    by (simp add: div_less_iff_less_mult mult.commute)
  with False show ?thesis
    by (auto simp: sdb_checked_mul_size_def SIZE_MAX_def)
qed (simp add: sdb_checked_mul_size_def)

end
