(* ===== verification/Btree_Page.thy ===== *)
theory Btree_Page
  imports Codec "HOL-Library.List_Lexorder"
begin

text \<open>
  The node format of \<open>src/btree_page.c\<close>: a 20-byte header (magic, kind, entry
  count, a reserved zero word, the right sibling of a leaf or the first child of
  an internal node) followed by the entries in key order. Keys are ordered as
  byte strings; the order of the library on lists is that order.

  Allocation is a parameter: \<open>malloc_ok n\<close> says whether an allocation of \<open>n\<close>
  bytes succeeds.
\<close>

section \<open>Model\<close>

definition SDB_BTREE_NODE_HEADER_SIZE :: nat where
  "SDB_BTREE_NODE_HEADER_SIZE = 20"

datatype sdb_btree_node_kind = SDB_BTREE_LEAF | SDB_BTREE_INTERNAL

primrec kind_code :: "sdb_btree_node_kind \<Rightarrow> u16" where
  "kind_code SDB_BTREE_LEAF = 1"
| "kind_code SDB_BTREE_INTERNAL = 2"

record sdb_btree_entry =
  ekey :: bytes
  evalue :: bytes
  right_child :: u64

record sdb_btree_node =
  node_kind :: sdb_btree_node_kind
  right_sibling :: u64
  first_child :: u64
  entries :: "sdb_btree_entry list"

definition sizeof_btree_entry :: nat where
  "sizeof_btree_entry = 40"

definition sdb_btree_magic :: bytes where
  "sdb_btree_magic = [0x53, 0x42, 0x54, 0x31]"

definition sdb_btree_copy_bytes :: "(nat \<Rightarrow> bool) \<Rightarrow> bytes \<Rightarrow> bytes result" where
  "sdb_btree_copy_bytes malloc_ok source =
    (if length source = 0 then Inr []
     else if \<not> malloc_ok (length source) then Inl SDB_E_OUT_OF_MEMORY
     else Inr source)"

fun memcmp :: "bytes \<Rightarrow> bytes \<Rightarrow> int" where
  "memcmp (x # xs) (y # ys) = (if x = y then memcmp xs ys else uint x - uint y)"
| "memcmp _ _ = 0"

definition sdb_btree_page_compare_keys :: "bytes \<Rightarrow> bytes \<Rightarrow> int" where
  "sdb_btree_page_compare_keys left right =
    (let common = (if length left < length right then length left else length right);
         compared = memcmp (take common left) (take common right)
     in if compared \<noteq> 0 then compared
        else if length left < length right then -1
        else if length left > length right then 1 else 0)"

text \<open>The loop over the entries of a payload: \<open>cursor\<close> is what remains of it.\<close>

fun decode_entries ::
  "(nat \<Rightarrow> bool) \<Rightarrow> sdb_btree_node_kind \<Rightarrow> nat \<Rightarrow> bytes \<Rightarrow> (sdb_btree_entry list \<times> bytes) result"
where
  "decode_entries malloc_ok kind 0 cursor = Inr ([], cursor)"
| "decode_entries malloc_ok kind (Suc count) cursor =
    (let fixed_size = (if kind = SDB_BTREE_LEAF then 6 else 12);
         remaining = length cursor
     in if remaining < fixed_size then Inl SDB_E_CORRUPT
     else let key_size = unat (sdb_read_u16_le cursor 0)
     in if key_size = 0 then Inl SDB_E_CORRUPT
     else if kind = SDB_BTREE_INTERNAL \<and> sdb_read_u16_le cursor 2 \<noteq> 0 then Inl SDB_E_CORRUPT
     else let value_size = (if kind = SDB_BTREE_LEAF then unat (sdb_read_u32_le cursor 2) else 0)
     in if key_size > remaining - fixed_size \<or> value_size > remaining - fixed_size - key_size
        then Inl SDB_E_CORRUPT
     else rbind (sdb_btree_copy_bytes malloc_ok (slice fixed_size key_size cursor)) (\<lambda>key.
       rbind (if kind = SDB_BTREE_LEAF
              then sdb_btree_copy_bytes malloc_ok (slice (fixed_size + key_size) value_size cursor)
              else Inr []) (\<lambda>value.
       let child = (if kind = SDB_BTREE_INTERNAL then sdb_read_u64_le cursor 4 else 0)
       in if kind = SDB_BTREE_INTERNAL \<and> child = 0 then Inl SDB_E_CORRUPT
       else rbind (decode_entries malloc_ok kind count (drop (fixed_size + key_size + value_size) cursor))
         (\<lambda>(es, rest). Inr (\<lparr>ekey = key, evalue = value, right_child = child\<rparr> # es, rest)))))"

fun keys_ascending :: "sdb_btree_entry list \<Rightarrow> bool" where
  "keys_ascending (a # b # es) \<longleftrightarrow>
    \<not> sdb_btree_page_compare_keys (ekey a) (ekey b) \<ge> 0 \<and> keys_ascending (b # es)"
| "keys_ascending _ \<longleftrightarrow> True"

definition sdb_btree_node_decode :: "(nat \<Rightarrow> bool) \<Rightarrow> bytes \<Rightarrow> sdb_btree_node result" where
  "sdb_btree_node_decode malloc_ok payload =
    (if length payload < SDB_BTREE_NODE_HEADER_SIZE then Inl SDB_E_INVALID_ARGUMENT
     else if slice 0 4 payload \<noteq> sdb_btree_magic then Inl SDB_E_BAD_MAGIC
     else let code = sdb_read_u16_le payload 4;
              count = unat (sdb_read_u16_le payload 6)
     in if (code \<noteq> kind_code SDB_BTREE_LEAF \<and> code \<noteq> kind_code SDB_BTREE_INTERNAL)
           \<or> sdb_read_u32_le payload 8 \<noteq> 0 then Inl SDB_E_CORRUPT
     else let kind = (if code = kind_code SDB_BTREE_LEAF then SDB_BTREE_LEAF else SDB_BTREE_INTERNAL);
              link = sdb_read_u64_le payload 12
     in if kind = SDB_BTREE_INTERNAL \<and> link = 0 then Inl SDB_E_CORRUPT
     else if count > (length payload - SDB_BTREE_NODE_HEADER_SIZE)
             div (if kind = SDB_BTREE_LEAF then 7 else 13) then Inl SDB_E_CORRUPT
     else if count \<noteq> 0 \<and> \<not> malloc_ok (count * sizeof_btree_entry) then Inl SDB_E_OUT_OF_MEMORY
     else rbind (decode_entries malloc_ok kind count (drop SDB_BTREE_NODE_HEADER_SIZE payload))
       (\<lambda>(es, rest).
         if length rest \<noteq> 0 then Inl SDB_E_CORRUPT
         else if \<not> keys_ascending es then Inl SDB_E_CORRUPT
         else Inr \<lparr>node_kind = kind,
                   right_sibling = (if kind = SDB_BTREE_LEAF then link else 0),
                   first_child = (if kind = SDB_BTREE_LEAF then 0 else link),
                   entries = es\<rparr>))"

text \<open>The loop of \<open>sdb_btree_node_encoded_size\<close>; \<open>prev\<close> is the key of the entry before.\<close>

fun encoded_size_loop ::
  "sdb_btree_node_kind \<Rightarrow> bytes option \<Rightarrow> sdb_btree_entry list \<Rightarrow> nat \<Rightarrow> nat result" where
  "encoded_size_loop kind prev [] tot = Inr tot"
| "encoded_size_loop kind prev (entry # es) tot =
    (let entry_size = (if kind = SDB_BTREE_LEAF then 6 else 12);
         key_size = length (ekey entry);
         value_size = length (evalue entry)
     in if key_size = 0 \<or> key_size > 0xffff then Inl SDB_E_INVALID_ARGUMENT
     else if kind = SDB_BTREE_LEAF \<and> (right_child entry \<noteq> 0 \<or> value_size > 0xffffffff)
       then Inl SDB_E_INVALID_ARGUMENT
     else if kind = SDB_BTREE_INTERNAL \<and> (right_child entry = 0 \<or> value_size \<noteq> 0)
       then Inl SDB_E_INVALID_ARGUMENT
     else if (case prev of None \<Rightarrow> False
              | Some k \<Rightarrow> sdb_btree_page_compare_keys k (ekey entry) \<ge> 0)
       then Inl SDB_E_INVALID_ARGUMENT
     else case sdb_checked_add_size entry_size key_size of
       None \<Rightarrow> Inl SDB_E_INVALID_ARGUMENT
     | Some s1 \<Rightarrow>
         (case sdb_checked_add_size s1 (if kind = SDB_BTREE_LEAF then value_size else 0) of
           None \<Rightarrow> Inl SDB_E_INVALID_ARGUMENT
         | Some s2 \<Rightarrow>
             (case sdb_checked_add_size tot s2 of
               None \<Rightarrow> Inl SDB_E_INVALID_ARGUMENT
             | Some tot' \<Rightarrow> encoded_size_loop kind (Some (ekey entry)) es tot')))"

definition sdb_btree_node_encoded_size :: "sdb_btree_node \<Rightarrow> nat result" where
  "sdb_btree_node_encoded_size node =
    (if length (entries node) > 0xffff
        \<or> (node_kind node = SDB_BTREE_LEAF \<and> first_child node \<noteq> 0)
        \<or> (node_kind node = SDB_BTREE_INTERNAL \<and> (first_child node = 0 \<or> right_sibling node \<noteq> 0))
     then Inl SDB_E_INVALID_ARGUMENT
     else encoded_size_loop (node_kind node) None (entries node) SDB_BTREE_NODE_HEADER_SIZE)"

fun encode_entries ::
  "sdb_btree_node_kind \<Rightarrow> sdb_btree_entry list \<Rightarrow> nat \<Rightarrow> bytes \<Rightarrow> bytes" where
  "encode_entries kind [] cursor output = output"
| "encode_entries kind (entry # es) cursor output =
    (let key_size = length (ekey entry);
         value_size = length (evalue entry);
         output = sdb_write_u16_le output cursor (of_nat key_size)
     in if kind = SDB_BTREE_LEAF
        then let output = sdb_write_u32_le output (cursor + 2) (of_nat value_size);
                 output = blit (cursor + 6) (ekey entry) output;
                 output = (if value_size \<noteq> 0 then blit (cursor + 6 + key_size) (evalue entry) output
                           else output)
             in encode_entries kind es (cursor + 6 + key_size + value_size) output
        else let output = sdb_write_u64_le output (cursor + 4) (right_child entry);
                 output = blit (cursor + 12) (ekey entry) output
             in encode_entries kind es (cursor + 12 + key_size) output)"

definition sdb_btree_node_encode :: "sdb_btree_node \<Rightarrow> bytes \<Rightarrow> (bytes \<times> nat) result" where
  "sdb_btree_node_encode node output =
    rbind (sdb_btree_node_encoded_size node) (\<lambda>required.
      if length output < required then Inl SDB_E_BUFFER_TOO_SMALL
      else let output = blit 0 (zeros required) output;
               output = blit 0 sdb_btree_magic output;
               output = sdb_write_u16_le output 4 (kind_code (node_kind node));
               output = sdb_write_u16_le output 6 (of_nat (length (entries node)));
               output = sdb_write_u64_le output 12
                 (if node_kind node = SDB_BTREE_LEAF then right_sibling node else first_child node)
           in Inr (encode_entries (node_kind node) (entries node) SDB_BTREE_NODE_HEADER_SIZE output,
                   required))"

section \<open>Key order\<close>

lemma compare_keys_simps [simp]:
  "sdb_btree_page_compare_keys (x # xs) (y # ys) =
    (if x = y then sdb_btree_page_compare_keys xs ys else uint x - uint y)"
  "sdb_btree_page_compare_keys [] (y # ys) = -1"
  "sdb_btree_page_compare_keys (x # xs) [] = 1"
  "sdb_btree_page_compare_keys [] [] = 0"
  by (auto simp: sdb_btree_page_compare_keys_def Let_def word_uint_eq_iff)

lemma compare_keys_order:
  "(sdb_btree_page_compare_keys xs ys < 0 \<longleftrightarrow> xs < ys) \<and> (sdb_btree_page_compare_keys xs ys = 0 \<longleftrightarrow> xs = ys)"
proof (induction xs arbitrary: ys)
  case Nil
  show ?case by (cases ys) simp_all
next
  case (Cons x xs)
  then show ?case by (cases ys) (auto simp: word_less_def word_uint_eq_iff)
qed

section \<open>The byte layout of a node\<close>

definition entry_bytes :: "sdb_btree_node_kind \<Rightarrow> sdb_btree_entry \<Rightarrow> bytes" where
  "entry_bytes kind e =
    (if kind = SDB_BTREE_LEAF
     then le_bytes 2 (of_nat (length (ekey e)) :: u16) @ le_bytes 4 (of_nat (length (evalue e)) :: u32)
          @ ekey e @ evalue e
     else le_bytes 2 (of_nat (length (ekey e)) :: u16) @ zeros 2 @ le_bytes 8 (right_child e) @ ekey e)"

definition node_bytes :: "sdb_btree_node \<Rightarrow> bytes" where
  "node_bytes node =
    sdb_btree_magic @ le_bytes 2 (kind_code (node_kind node))
    @ le_bytes 2 (of_nat (length (entries node)) :: u16) @ zeros 4
    @ le_bytes 8 (if node_kind node = SDB_BTREE_LEAF then right_sibling node else first_child node)
    @ concat (map (entry_bytes (node_kind node)) (entries node))"

definition entry_ok :: "sdb_btree_node_kind \<Rightarrow> sdb_btree_entry \<Rightarrow> bool" where
  "entry_ok kind e \<longleftrightarrow> ekey e \<noteq> [] \<and> length (ekey e) < 2 ^ 16 \<and>
    (if kind = SDB_BTREE_LEAF then right_child e = 0 \<and> length (evalue e) < 2 ^ 32
     else right_child e \<noteq> 0 \<and> evalue e = [])"

definition node_ok :: "sdb_btree_node \<Rightarrow> bool" where
  "node_ok node \<longleftrightarrow> length (entries node) < 2 ^ 16 \<and>
    (if node_kind node = SDB_BTREE_LEAF then first_child node = 0
     else first_child node \<noteq> 0 \<and> right_sibling node = 0) \<and>
    (\<forall>e \<in> set (entries node). entry_ok (node_kind node) e) \<and>
    sorted_wrt (<) (map ekey (entries node))"

lemma compare_ge_0: "sdb_btree_page_compare_keys k l \<ge> 0 \<longleftrightarrow> \<not> k < l"
  using compare_keys_order [of k l] by linarith

lemma keys_ascending_iff: "keys_ascending es \<longleftrightarrow> sorted_wrt (<) (map ekey es)"
  by (induction es rule: keys_ascending.induct) (auto simp: compare_ge_0 simp del: sorted_wrt.simps(2) simp: sorted_wrt2 sorted_wrt1)

lemma length_entry_bytes:
  "length (entry_bytes kind e) =
    (if kind = SDB_BTREE_LEAF then 6 + length (ekey e) + length (evalue e) else 12 + length (ekey e))"
  by (simp add: entry_bytes_def)

lemma encoded_size_loop_Cons:
  assumes "entry_ok kind e" "\<And>k. prev = Some k \<Longrightarrow> k < ekey e" "tot \<le> SIZE_MAX"
  shows "encoded_size_loop kind prev (e # es) tot =
    (if tot + length (entry_bytes kind e) \<le> SIZE_MAX
     then encoded_size_loop kind (Some (ekey e)) es (tot + length (entry_bytes kind e))
     else Inl SDB_E_INVALID_ARGUMENT)"
proof -
  have "sdb_checked_add_size (if kind = SDB_BTREE_LEAF then 6 else 12) (length (ekey e)) =
      Some ((if kind = SDB_BTREE_LEAF then 6 else 12) + length (ekey e))"
    using assms(1) by (simp add: entry_ok_def sdb_checked_add_size_def SIZE_MAX_def)
  moreover have "sdb_checked_add_size ((if kind = SDB_BTREE_LEAF then 6 else 12) + length (ekey e))
      (if kind = SDB_BTREE_LEAF then length (evalue e) else 0) = Some (length (entry_bytes kind e))"
    using assms(1) by (auto simp: entry_ok_def sdb_checked_add_size_def SIZE_MAX_def length_entry_bytes)
  moreover have "sdb_checked_add_size tot (length (entry_bytes kind e)) =
      (if tot + length (entry_bytes kind e) \<le> SIZE_MAX then Some (tot + length (entry_bytes kind e)) else None)"
    using assms(3) by (auto simp: sdb_checked_add_size_def)
  ultimately show ?thesis
    using assms(1,2) by (cases kind) (auto simp: entry_ok_def compare_ge_0 split: option.splits)
qed

lemma encoded_size_loop_bad:
  assumes "\<not> entry_ok kind e \<or> (\<exists>k. prev = Some k \<and> \<not> k < ekey e)"
  shows "encoded_size_loop kind prev (e # es) tot = Inl SDB_E_INVALID_ARGUMENT"
  using assms by (cases kind) (auto simp: entry_ok_def compare_ge_0 Let_def)

lemma sorted_ekey_Cons:
  "sorted_wrt (<) (map ekey (e # es)) \<longleftrightarrow>
    sorted_wrt (<) (map ekey es) \<and> (es = [] \<or> ekey e < ekey (hd es))"
  by (cases es) (auto simp: sorted_wrt2 simp del: sorted_wrt.simps(2) simp: sorted_wrt1)

lemma encoded_size_loop_iff:
  assumes "tot \<le> SIZE_MAX"
  shows "encoded_size_loop kind prev es tot = Inr n \<longleftrightarrow>
    (\<forall>e \<in> set es. entry_ok kind e) \<and> sorted_wrt (<) (map ekey es) \<and>
    (\<forall>k. prev = Some k \<longrightarrow> es \<noteq> [] \<longrightarrow> k < ekey (hd es)) \<and>
    n = tot + length (concat (map (entry_bytes kind) es)) \<and> n \<le> SIZE_MAX"
  using assms
proof (induction es arbitrary: prev tot)
  case (Cons e es)
  show ?case
  proof (cases "entry_ok kind e \<and> (\<forall>k. prev = Some k \<longrightarrow> k < ekey e)")
    case False
    then show ?thesis
      using encoded_size_loop_bad [of kind e prev es tot] by auto
  next
    case True
    then have step: "encoded_size_loop kind prev (e # es) tot =
      (if tot + length (entry_bytes kind e) \<le> SIZE_MAX
       then encoded_size_loop kind (Some (ekey e)) es (tot + length (entry_bytes kind e))
       else Inl SDB_E_INVALID_ARGUMENT)"
      using Cons.prems by (intro encoded_size_loop_Cons) auto
    show ?thesis
      unfolding step sorted_ekey_Cons using True Cons.IH [of "tot + length (entry_bytes kind e)" "Some (ekey e)"]
      by auto
  qed
qed auto

lemma encoded_size_iff:
  "sdb_btree_node_encoded_size node = Inr n \<longleftrightarrow> node_ok node \<and> n = length (node_bytes node) \<and> n \<le> SIZE_MAX"
proof -
  have "SDB_BTREE_NODE_HEADER_SIZE \<le> SIZE_MAX"
    by (simp add: SDB_BTREE_NODE_HEADER_SIZE_def SIZE_MAX_def)
  from encoded_size_loop_iff [OF this] show ?thesis
    by (cases "node_kind node")
      (auto simp: sdb_btree_node_encoded_size_def node_ok_def node_bytes_def sdb_btree_magic_def
        SDB_BTREE_NODE_HEADER_SIZE_def)
qed

lemma encode_entries_layout:
  assumes "\<forall>e \<in> set es. entry_ok kind e"
  shows "encode_entries kind es (length pre) (pre @ zeros (length (concat (map (entry_bytes kind) es))) @ post)
    = pre @ concat (map (entry_bytes kind) es) @ post"
  using assms
proof (induction es arbitrary: pre)
  case (Cons e es)
  let ?rest = "length (concat (map (entry_bytes kind) es))"
  let ?k = "length (ekey e)" and ?v = "length (evalue e)"
  have IH: "encode_entries kind es (length pre') (pre' @ zeros ?rest @ post) = pre' @ concat (map (entry_bytes kind) es) @ post" for pre'
    using Cons by simp
  show ?case
  proof (cases kind)
    case SDB_BTREE_LEAF
    have z: "zeros (length (concat (map (entry_bytes kind) (e # es)))) = zeros 2 @ zeros 4 @ zeros ?k @ zeros ?v @ zeros ?rest"
      by (simp add: SDB_BTREE_LEAF length_entry_bytes zeros_append algebra_simps)
    show ?thesis
      using IH [of "pre @ entry_bytes kind e"]
      unfolding z by (cases "evalue e = []")
        (simp_all add: SDB_BTREE_LEAF Let_def wr_blits layout_simps entry_bytes_def [of _ e] add.assoc)
  next
    case SDB_BTREE_INTERNAL
    have z: "zeros (length (concat (map (entry_bytes kind) (e # es)))) = zeros 2 @ zeros 2 @ zeros 8 @ zeros ?k @ zeros ?rest"
      by (simp add: SDB_BTREE_INTERNAL length_entry_bytes zeros_append algebra_simps)
    show ?thesis
      using IH [of "pre @ entry_bytes kind e"]
      unfolding z
      by (simp add: SDB_BTREE_INTERNAL Let_def wr_blits layout_simps entry_bytes_def [of _ e] add.assoc)
  qed
qed simp

lemma node_encode_layout:
  assumes "sdb_btree_node_encoded_size node = Inr n" "n \<le> length output"
  shows "sdb_btree_node_encode node output = Inr (node_bytes node @ drop n output, n)"
proof -
  let ?es = "concat (map (entry_bytes (node_kind node)) (entries node))"
  have ok: "node_ok node" and n: "n = length (node_bytes node)"
    using assms(1) by (simp_all add: encoded_size_iff)
  have z: "zeros n = zeros 4 @ zeros 2 @ zeros 2 @ zeros 4 @ zeros 8 @ zeros (length ?es)"
    by (simp add: n node_bytes_def sdb_btree_magic_def zeros_append)
  have b: "blit 0 (zeros n) output =
      zeros 4 @ zeros 2 @ zeros 2 @ zeros 4 @ zeros 8 @ zeros (length ?es) @ drop n output"
    using assms(2) by (simp add: blit_def) (simp add: z)
  have "\<forall>e \<in> set (entries node). entry_ok (node_kind node) e"
    using ok by (simp add: node_ok_def)
  note e = encode_entries_layout [OF this]
  let ?h = "sdb_btree_magic @ le_bytes 2 (kind_code (node_kind node))
    @ le_bytes 2 (of_nat (length (entries node)) :: u16) @ zeros 4
    @ le_bytes 8 (if node_kind node = SDB_BTREE_LEAF then right_sibling node else first_child node)"
  have m: "length sdb_btree_magic = 4" and h: "length ?h = SDB_BTREE_NODE_HEADER_SIZE"
    by (simp_all add: sdb_btree_magic_def SDB_BTREE_NODE_HEADER_SIZE_def)
  show ?thesis
    using e [of ?h "drop n output", unfolded h] assms
    by (cases "node_kind node")
      (simp_all add: sdb_btree_node_encode_def b m Let_def wr_blits layout_simps node_bytes_def)
qed

lemma copy_bytes_all: "(\<And>n. malloc_ok n) \<Longrightarrow> sdb_btree_copy_bytes malloc_ok xs = Inr xs"
  by (simp add: sdb_btree_copy_bytes_def)

lemma copy_bytes_Inr: "sdb_btree_copy_bytes malloc_ok xs = Inr ys \<Longrightarrow> ys = xs"
  by (auto simp: sdb_btree_copy_bytes_def split: if_splits)

lemma decode_entries_bytes:
  assumes "\<And>n. malloc_ok n" "\<forall>e \<in> set es. entry_ok kind e"
  shows "decode_entries malloc_ok kind (length es) (concat (map (entry_bytes kind) es) @ rest) = Inr (es, rest)"
  using assms(2)
proof (induction es)
  case (Cons e es)
  have ok: "entry_ok kind e" and IH: "decode_entries malloc_ok kind (length es)
      (concat (map (entry_bytes kind) es) @ rest) = Inr (es, rest)"
    using Cons by simp_all
  show ?case
    using ok IH
    by (cases kind)
      (auto simp: entry_ok_def entry_bytes_def [of _ e] Let_def rd_slices layout_simps unat_of_nat_u16
        unat_of_nat_u32 copy_bytes_all [OF assms(1)])
qed simp


lemma decode_entries_inv:
  "decode_entries malloc_ok kind n cursor = Inr (es, rest) \<Longrightarrow>
    length es = n \<and> (\<forall>e \<in> set es. entry_ok kind e) \<and> cursor = concat (map (entry_bytes kind) es) @ rest"
proof (induction n arbitrary: cursor es)
  case (Suc n)
  let ?fixed = "if kind = SDB_BTREE_LEAF then 6 else 12 :: nat"
  let ?k = "unat (sdb_read_u16_le cursor 0)"
  let ?v = "if kind = SDB_BTREE_LEAF then unat (sdb_read_u32_le cursor 2) else 0"
  let ?c = "if kind = SDB_BTREE_INTERNAL then sdb_read_u64_le cursor 4 else 0"
  obtain es' key val where
    len: "?fixed \<le> length cursor" and k0: "?k \<noteq> 0"
    and res: "kind = SDB_BTREE_INTERNAL \<Longrightarrow> sdb_read_u16_le cursor 2 = 0"
    and fits: "?k + ?v \<le> length cursor - ?fixed"
    and key: "key = slice ?fixed ?k cursor"
    and val: "val = (if kind = SDB_BTREE_LEAF then slice (?fixed + ?k) ?v cursor else [])"
    and c0: "kind = SDB_BTREE_INTERNAL \<Longrightarrow> ?c \<noteq> 0"
    and es: "es = \<lparr>ekey = key, evalue = val, right_child = ?c\<rparr> # es'"
    and tail: "decode_entries malloc_ok kind n (drop (?fixed + ?k + ?v) cursor) = Inr (es', rest)"
    using Suc.prems
    by (cases kind) (auto simp: Let_def result_simps split: if_splits dest!: copy_bytes_Inr)
  note IH = Suc.IH [OF tail]
  let ?e = "\<lparr>ekey = key, evalue = val, right_child = ?c\<rparr>"
  have k: "length key = ?k" and v: "length val = ?v"
    using fits len by (auto simp: key val)
  have k16: "?k < 2 ^ 16"
    using unsigned_less [of "sdb_read_u16_le cursor 0"] by simp
  have ok: "entry_ok kind ?e"
    using k0 k v c0 k16 unsigned_less [of "sdb_read_u32_le cursor 2"]
    by (cases kind) (auto simp: entry_ok_def val simp flip: length_greater_0_conv)
  have "cursor = entry_bytes kind ?e @ drop (?fixed + ?k + ?v) cursor"
  proof (cases kind)
    case SDB_BTREE_LEAF
    have "cursor = slice 0 2 cursor @ slice 2 4 cursor @ slice (2 + 4) ?k cursor
        @ slice (2 + 4 + ?k) ?v cursor @ drop (2 + 4 + ?k + ?v) cursor"
      by (rule four_slices)
    also have "\<dots> = entry_bytes kind ?e @ drop (?fixed + ?k + ?v) cursor"
      using SDB_BTREE_LEAF len k v by (simp add: entry_bytes_def key val le_bytes_rds)
    finally show ?thesis .
  next
    case SDB_BTREE_INTERNAL
    have "cursor = slice 0 2 cursor @ slice 2 2 cursor @ slice (2 + 2) 8 cursor
        @ slice (2 + 2 + 8) ?k cursor @ drop (2 + 2 + 8 + ?k) cursor"
      by (rule four_slices)
    also have "slice 2 2 cursor = zeros 2"
      using SDB_BTREE_INTERNAL len res le16.rd_eq_iff [of 2 cursor 0] by (simp add: zeros_def numeral_2_eq_2)
    also have "slice 0 2 cursor @ zeros 2 @ slice (2 + 2) 8 cursor @ slice (2 + 2 + 8) ?k cursor
        @ drop (2 + 2 + 8 + ?k) cursor
        = entry_bytes kind ?e @ drop (?fixed + ?k + ?v) cursor"
      using SDB_BTREE_INTERNAL len k v by (simp add: entry_bytes_def key le_bytes_rds)
    finally show ?thesis .
  qed
  with IH ok es show ?case
    by simp
qed simp


lemma length_btree_magic [simp]: "length sdb_btree_magic = 4"
  by (simp add: sdb_btree_magic_def)

lemma entry_bytes_min:
  "entry_ok kind e \<Longrightarrow> (if kind = SDB_BTREE_LEAF then 7 else 13) \<le> length (entry_bytes kind e)"
  by (auto simp: length_entry_bytes entry_ok_def Suc_le_eq simp flip: length_greater_0_conv)

lemma node_decode_bytes:
  assumes "node_ok node" "\<And>n. malloc_ok n"
  shows "sdb_btree_node_decode malloc_ok (node_bytes node) = Inr node"
proof -
  let ?k = "node_kind node" and ?es = "entries node"
  have es: "\<forall>e \<in> set ?es. entry_ok ?k e" and n: "length ?es < 2 ^ 16"
    and asc: "keys_ascending ?es"
    using assms(1) by (simp_all add: node_ok_def keys_ascending_iff)
  have "length ?es * (if ?k = SDB_BTREE_LEAF then 7 else 13) \<le> length (concat (map (entry_bytes ?k) ?es))"
    using es by (intro length_concat_lower entry_bytes_min) simp
  then have room: "length ?es \<le> length (concat (map (entry_bytes ?k) ?es)) div (if ?k = SDB_BTREE_LEAF then 7 else 13)"
    by (simp add: less_eq_div_iff_mult_less_eq)
  have dec: "decode_entries malloc_ok ?k (length ?es) (concat (map (entry_bytes ?k) ?es)) = Inr (?es, [])"
    using decode_entries_bytes [where rest = "[]", OF assms(2) es] by simp
  show ?thesis
    using assms(1) room dec asc n
    by (cases ?k)
      (simp_all add: sdb_btree_node_decode_def node_bytes_def node_ok_def Let_def rd_slices layout_simps
        SDB_BTREE_NODE_HEADER_SIZE_def assms(2) unat_of_nat_u16)
qed

lemma node_decode_inv:
  assumes "sdb_btree_node_decode malloc_ok p = Inr node"
  shows "node_ok node \<and> node_bytes node = p"
proof -
  let ?kind = "if sdb_read_u16_le p 4 = 1 then SDB_BTREE_LEAF else SDB_BTREE_INTERNAL"
  let ?link = "sdb_read_u64_le p 12" and ?n = "unat (sdb_read_u16_le p 6)"
  obtain es where len: "20 \<le> length p" and magic: "slice 0 4 p = sdb_btree_magic"
    and code: "sdb_read_u16_le p 4 = kind_code ?kind" and res: "sdb_read_u32_le p 8 = 0"
    and link: "?kind = SDB_BTREE_INTERNAL \<Longrightarrow> ?link \<noteq> 0"
    and dec: "decode_entries malloc_ok ?kind ?n (drop 20 p) = Inr (es, [])"
    and asc: "keys_ascending es"
    and node: "node = \<lparr>node_kind = ?kind, right_sibling = (if ?kind = SDB_BTREE_LEAF then ?link else 0),
                  first_child = (if ?kind = SDB_BTREE_LEAF then 0 else ?link), entries = es\<rparr>"
    using assms
    by (auto simp: sdb_btree_node_decode_def SDB_BTREE_NODE_HEADER_SIZE_def Let_def result_simps
        split: if_splits)
  note inv = decode_entries_inv [OF dec]
  have n16: "?n < 2 ^ 16"
    using unsigned_less [of "sdb_read_u16_le p 6"] by simp
  have "node_ok node"
    using inv asc n16 link by (auto simp: node node_ok_def keys_ascending_iff)
  moreover have "node_bytes node = p"
  proof -
    have z: "slice 8 4 p = zeros 4"
      using len res le32.rd_eq_iff [of 8 p 0] by (simp add: zeros_def eval_nat_numeral)
    have "p = slice 0 4 p @ slice 4 2 p @ slice (4 + 2) 2 p @ slice (4 + 2 + 2) 4 p @ drop (4 + 2 + 2 + 4) p"
      by (rule four_slices)
    also have "drop (4 + 2 + 2 + 4) p = slice 12 8 p @ drop 20 p"
      using drop_slice [of 12 p 8] by simp
    also have "slice 0 4 p @ slice 4 2 p @ slice (4 + 2) 2 p @ slice (4 + 2 + 2) 4 p @ slice 12 8 p @ drop 20 p
        = node_bytes node"
      using inv len z by (auto simp: node node_bytes_def magic le_bytes_rds code [symmetric])
    finally show ?thesis
      by simp
  qed
  ultimately show ?thesis ..
qed

section \<open>Properties\<close>

text \<open>
  C20: A node whose size can be computed is written by the encoder as exactly that
  many bytes, the rest of the buffer untouched, and the decoder returns the node
  from them (when its allocations succeed).
\<close>

theorem btree_node_roundtrip:
  assumes "sdb_btree_node_encoded_size node = Inr n" "n \<le> length output" "\<And>m. malloc_ok m"
  shows "\<exists>out. sdb_btree_node_encode node output = Inr (out, n) \<and> length out = length output \<and>
    drop n out = drop n output \<and> sdb_btree_node_decode malloc_ok (take n out) = Inr node"
  using assms node_encode_layout [OF assms(1,2)] by (simp add: encoded_size_iff node_decode_bytes)

definition example_leaf :: sdb_btree_node where
  "example_leaf = \<lparr>node_kind = SDB_BTREE_LEAF, right_sibling = 9, first_child = 0,
    entries = [\<lparr>ekey = [1], evalue = [5, 6], right_child = 0\<rparr>,
               \<lparr>ekey = [1, 0], evalue = [], right_child = 0\<rparr>]\<rparr>"

lemma example_leaf_size: "sdb_btree_node_encoded_size example_leaf = Inr 37"
  by (simp add: sdb_btree_node_encoded_size_def example_leaf_def sdb_checked_add_size_def
      SDB_BTREE_NODE_HEADER_SIZE_def SIZE_MAX_def)

theorem btree_node_roundtrip_witness:
  "sdb_btree_node_encoded_size example_leaf = Inr 37 \<and>
    (\<exists>out. sdb_btree_node_encode example_leaf (zeros 64) = Inr (out, 37) \<and> length out = 64 \<and>
      sdb_btree_node_decode (\<lambda>_. True) (take 37 out) = Inr example_leaf)"
  using btree_node_roundtrip [OF example_leaf_size, of "zeros 64" "\<lambda>_. True"] example_leaf_size
  by auto

text \<open>
  C21: The decoder accepts only well-formed nodes: what it returns satisfies the
  field bounds of its kind, its keys are strictly ascending as byte strings, and
  the payload is the node's own encoding, so no two payloads decode to one node.
\<close>

theorem btree_node_decode_canonical:
  assumes "sdb_btree_node_decode malloc_ok payload = Inr node" "length payload \<le> SIZE_MAX"
  shows "sorted_wrt (<) (map ekey (entries node)) \<and>
    (\<forall>e \<in> set (entries node). entry_ok (node_kind node) e) \<and>
    sdb_btree_node_encoded_size node = Inr (length payload) \<and>
    sdb_btree_node_encode node (zeros (length payload)) = Inr (payload, length payload)"
proof -
  have inv: "node_ok node" "node_bytes node = payload"
    using node_decode_inv [OF assms(1)] by simp_all
  then have sz: "sdb_btree_node_encoded_size node = Inr (length payload)"
    using assms(2) by (simp add: encoded_size_iff)
  then show ?thesis
    using inv node_encode_layout [OF sz, of "zeros (length payload)"]
    by (simp add: node_ok_def zeros_def)
qed

lemma example_leaf_decode: "sdb_btree_node_decode (\<lambda>_. True) (node_bytes example_leaf) = Inr example_leaf"
  using example_leaf_size by (intro node_decode_bytes) (simp_all add: encoded_size_iff)

lemma example_leaf_length: "length (node_bytes example_leaf) = 37"
  using example_leaf_size by (simp add: encoded_size_iff)

theorem btree_node_decode_canonical_witness:
  "sdb_btree_node_decode (\<lambda>_. True) (node_bytes example_leaf) = Inr example_leaf \<and>
    sdb_btree_node_encode example_leaf (zeros 37) = Inr (node_bytes example_leaf, 37)"
  using btree_node_decode_canonical [OF example_leaf_decode] example_leaf_decode
  by (simp add: example_leaf_length SIZE_MAX_def)

end
