(* ===== verification/Checksum.thy ===== *)
theory Checksum
  imports Crc_Tables
begin

text \<open>
  The slice-by-8 CRC-32 of \<open>src/checksum.c\<close>. \<open>sdb_crc32_continue\<close> consumes
  eight bytes per round through the tables and the rest one at a time; it is
  proved equal to the bit-at-a-time reference \<open>crc_ref\<close>, and the checksum is
  shown to separate any two messages that differ in at most four adjacent bytes.
\<close>

section \<open>Model\<close>

function sdb_crc32_continue :: "u32 \<Rightarrow> bytes \<Rightarrow> u32" where
  "sdb_crc32_continue crc data =
    (if 8 \<le> length data then
       let crc = crc XOR (ucast (data ! 0) OR push_bit 8 (ucast (data ! 1))
                 OR push_bit 16 (ucast (data ! 2)) OR push_bit 24 (ucast (data ! 3)))
       in sdb_crc32_continue
            (sdb_crc32_slice_7 ! unat (crc AND 0xff)
             XOR sdb_crc32_slice_6 ! unat (drop_bit 8 crc AND 0xff)
             XOR sdb_crc32_slice_5 ! unat (drop_bit 16 crc AND 0xff)
             XOR sdb_crc32_slice_4 ! unat (drop_bit 24 crc AND 0xff)
             XOR sdb_crc32_slice_3 ! unat (data ! 4)
             XOR sdb_crc32_slice_2 ! unat (data ! 5)
             XOR sdb_crc32_slice_1 ! unat (data ! 6)
             XOR sdb_crc32_slice_0 ! unat (data ! 7))
            (drop 8 data)
     else
       fold (\<lambda>b crc. drop_bit 8 crc XOR sdb_crc32_slice_0 ! unat ((crc XOR ucast b) AND 0xff)) data crc)"
  by pat_completeness auto
termination
  by (relation "measure (\<lambda>(crc, data). length data)") auto

declare sdb_crc32_continue.simps [simp del]

definition sdb_crc32 :: "bytes \<Rightarrow> u32" where
  "sdb_crc32 data = NOT (sdb_crc32_continue 0xffffffff data)"

definition sdb_crc32_zeroed_range :: "bytes \<Rightarrow> nat \<Rightarrow> nat \<Rightarrow> u32" where
  "sdb_crc32_zeroed_range data zero_offset zero_size =
    (if zero_offset > length data \<or> zero_size > length data - zero_offset then 0
     else
       let zero_end = zero_offset + zero_size;
           crc = sdb_crc32_continue 0xffffffff (take zero_offset data);
           crc = fold (\<lambda>_ crc. drop_bit 8 crc XOR sdb_crc32_slice_0 ! unat (crc AND 0xff))
                   [zero_offset..<zero_end] crc
       in NOT (sdb_crc32_continue crc (drop zero_end data)))"

section \<open>The bit-at-a-time reference\<close>

definition crc_step :: "byte \<Rightarrow> u32 \<Rightarrow> u32" where
  "crc_step b c = crc_byte (c XOR ucast b)"

definition crc_ref :: "u32 \<Rightarrow> bytes \<Rightarrow> u32" where
  "crc_ref c data = fold crc_step data c"

lemma crc_ref_append: "crc_ref c (xs @ ys) = crc_ref (crc_ref c xs) ys"
  by (simp add: crc_ref_def)

lemma unat_ucast_byte: "unat (ucast (b :: byte) :: u32) = unat b"
proof -
  have "unat b < 2 ^ 8"
    using unsigned_less [of b] by simp
  then show ?thesis
    by (simp add: unsigned_ucast_eq take_bit_nat_eq_self_iff)
qed

lemma unat_and_ff: "unat (c AND 0xff :: u32) = unat (ucast c :: byte)"
proof -
  have "ucast (ucast c :: byte) = c AND (mask 8 :: u32)"
    by (rule bit_word_eqI) (auto simp: bit_simps dest: bit_imp_le_length)
  moreover have "unat (ucast (ucast c :: byte) :: u32) = unat (ucast c :: byte)"
    by (rule unat_ucast_byte)
  ultimately show ?thesis
    by (simp add: mask_eq_exp_minus_1)
qed

lemma ucast_ucast_and_ff: "ucast (ucast c :: byte) = (c AND 0xff :: u32)"
proof -
  have "ucast (ucast c :: byte) = c AND (mask 8 :: u32)"
    by (rule bit_word_eqI) (auto simp: bit_simps dest: bit_imp_le_length)
  then show ?thesis
    by (simp add: mask_eq_exp_minus_1)
qed

lemma table_step: "drop_bit 8 c XOR sdb_crc32_slice_0 ! unat (c AND 0xff) = crc_byte c"
  using crc_byte_split [of c]
  by (simp add: unat_and_ff crc_slice_nth ucast_ucast_and_ff xor.commute)

lemma drop_bit_8_ucast: "drop_bit 8 (ucast (b :: byte) :: u32) = 0"
  by (rule bit_word_eqI) (auto simp: bit_simps dest: bit_imp_le_length)

lemma byte_step:
  "drop_bit 8 c XOR sdb_crc32_slice_0 ! unat ((c XOR ucast b) AND 0xff) = crc_step b c"
  using table_step [of "c XOR ucast b"] by (simp add: crc_step_def drop_bit_8_ucast)

lemma crc_pow_split:
  "(crc_byte ^^ Suc n) c =
    (crc_byte ^^ Suc n) (ucast (ucast c :: byte)) XOR (crc_byte ^^ n) (drop_bit 8 c)"
proof -
  have "(crc_byte ^^ Suc n) c = (crc_byte ^^ n) (crc_byte (c AND 0xff) XOR drop_bit 8 c)"
    by (simp add: funpow_swap1 flip: crc_byte_split)
  then show ?thesis
    by (simp add: crc_byte_pow_xor funpow_swap1 ucast_ucast_and_ff)
qed

lemma crc_pow_pack:
  assumes "\<And>i. bit y i \<Longrightarrow> i < 24"
  shows "(crc_byte ^^ Suc n) (ucast (b :: byte) OR push_bit 8 y) =
    (crc_byte ^^ Suc n) (ucast b) XOR (crc_byte ^^ n) y"
proof -
  have "(ucast (ucast b OR push_bit 8 y :: u32) :: byte) = b"
    by (rule bit_word_eqI) (auto simp: bit_simps dest: bit_imp_le_length)
  moreover have "drop_bit 8 (ucast b OR push_bit 8 y :: u32) = y"
    by (rule bit_word_eqI) (auto simp: bit_simps dest: bit_imp_le_length assms)
  ultimately show ?thesis
    using crc_pow_split [of n "ucast b OR push_bit 8 y"] by simp
qed

lemma slice8_high:
  "(crc_byte ^^ 8) c =
    sdb_crc32_slice_7 ! unat (c AND 0xff)
    XOR sdb_crc32_slice_6 ! unat (drop_bit 8 c AND 0xff)
    XOR sdb_crc32_slice_5 ! unat (drop_bit 16 c AND 0xff)
    XOR sdb_crc32_slice_4 ! unat (drop_bit 24 c AND 0xff)"
proof -
  have "drop_bit 32 c = 0"
    by (rule bit_word_eqI) (auto simp: bit_simps dest: bit_imp_le_length)
  then show ?thesis
    using crc_pow_split [of 7 c] crc_pow_split [of 6 "drop_bit 8 c"]
      crc_pow_split [of 5 "drop_bit 16 c"] crc_pow_split [of 4 "drop_bit 24 c"]
    by (simp add: unat_and_ff crc_slice_nth drop_bit_drop_bit xor.assoc)
qed

lemma pack_nested:
  "ucast a OR push_bit 8 (ucast b) OR push_bit 16 (ucast c) OR push_bit 24 (ucast d) =
    (ucast (a :: byte) OR push_bit 8 (ucast (b :: byte)
      OR push_bit 8 (ucast (c :: byte) OR push_bit 8 (ucast (d :: byte)))) :: u32)"
  by (simp add: push_bit_or push_bit_push_bit or.assoc)

lemma slice8_low:
  "(crc_byte ^^ 8) (ucast a OR push_bit 8 (ucast b) OR push_bit 16 (ucast c) OR push_bit 24 (ucast d)) =
    (crc_byte ^^ 8) (ucast (a :: byte)) XOR (crc_byte ^^ 7) (ucast (b :: byte))
    XOR (crc_byte ^^ 6) (ucast (c :: byte)) XOR (crc_byte ^^ 5) (ucast (d :: byte))"
proof -
  have "bit (ucast d :: u32) i \<Longrightarrow> i < 24" for i
    by (auto simp: bit_simps dest: bit_imp_le_length)
  then have d: "(crc_byte ^^ Suc n) (ucast c OR push_bit 8 (ucast d)) =
      (crc_byte ^^ Suc n) (ucast c) XOR (crc_byte ^^ n) (ucast d)" for n
    by (rule crc_pow_pack)
  have "bit (ucast c OR push_bit 8 (ucast d) :: u32) i \<Longrightarrow> i < 24" for i
    by (auto simp: bit_simps dest: bit_imp_le_length)
  then have c: "(crc_byte ^^ Suc n) (ucast b OR push_bit 8 (ucast c OR push_bit 8 (ucast d))) =
      (crc_byte ^^ Suc n) (ucast b) XOR (crc_byte ^^ n) (ucast c OR push_bit 8 (ucast d))" for n
    by (rule crc_pow_pack)
  have "bit (ucast b OR push_bit 8 (ucast c OR push_bit 8 (ucast d)) :: u32) i \<Longrightarrow> i < 24" for i
    by (auto simp: bit_simps dest: bit_imp_le_length)
  then have "(crc_byte ^^ Suc 7) (ucast a OR push_bit 8 (ucast b OR push_bit 8 (ucast c OR push_bit 8 (ucast d)))) =
      (crc_byte ^^ Suc 7) (ucast a) XOR (crc_byte ^^ 7) (ucast b OR push_bit 8 (ucast c OR push_bit 8 (ucast d)))"
    by (rule crc_pow_pack)
  then show ?thesis
    unfolding pack_nested using c [of 6] d [of 5] by (simp add: xor.assoc)
qed

lemma crc_step_xor: "crc_step b c = crc_byte c XOR crc_byte (ucast b)"
  by (simp add: crc_step_def crc_byte_xor)

lemma crc_ref_8:
  "crc_ref c [d0, d1, d2, d3, d4, d5, d6, d7] =
    (crc_byte ^^ 8) c XOR (crc_byte ^^ 8) (ucast d0) XOR (crc_byte ^^ 7) (ucast d1)
    XOR (crc_byte ^^ 6) (ucast d2) XOR (crc_byte ^^ 5) (ucast d3) XOR (crc_byte ^^ 4) (ucast d4)
    XOR (crc_byte ^^ 3) (ucast d5) XOR (crc_byte ^^ 2) (ucast d6) XOR (crc_byte ^^ 1) (ucast d7)"
  by (simp add: crc_ref_def crc_step_xor crc_byte_xor eval_nat_numeral xor.assoc)

lemma list_8: "8 \<le> length xs \<Longrightarrow>
  xs = [xs ! 0, xs ! 1, xs ! 2, xs ! 3, xs ! 4, xs ! 5, xs ! 6, xs ! 7] @ drop 8 xs"
  by (subst append_take_drop_id [of 8, symmetric], subst append_same_eq)
    (rule nth_equalityI, auto simp: less_Suc_eq eval_nat_numeral)

lemma crc32_continue_ref: "sdb_crc32_continue crc data = crc_ref crc data"
proof (induction crc data rule: sdb_crc32_continue.induct)
  case (1 crc data)
  show ?case
  proof (cases "8 \<le> length data")
    case False
    then show ?thesis
      by (simp add: sdb_crc32_continue.simps byte_step crc_ref_def fun_eq_iff cong: fold_cong)
  next
    case True
    let ?pack = "ucast (data ! 0) OR push_bit 8 (ucast (data ! 1))
                 OR push_bit 16 (ucast (data ! 2)) OR push_bit 24 (ucast (data ! 3)) :: u32"
    let ?crc = "crc XOR ?pack"
    let ?next = "sdb_crc32_slice_7 ! unat (?crc AND 0xff)
             XOR sdb_crc32_slice_6 ! unat (drop_bit 8 ?crc AND 0xff)
             XOR sdb_crc32_slice_5 ! unat (drop_bit 16 ?crc AND 0xff)
             XOR sdb_crc32_slice_4 ! unat (drop_bit 24 ?crc AND 0xff)
             XOR sdb_crc32_slice_3 ! unat (data ! 4)
             XOR sdb_crc32_slice_2 ! unat (data ! 5)
             XOR sdb_crc32_slice_1 ! unat (data ! 6)
             XOR sdb_crc32_slice_0 ! unat (data ! 7)"
    have "?next = (crc_byte ^^ 8) ?crc
        XOR (crc_byte ^^ 4) (ucast (data ! 4)) XOR (crc_byte ^^ 3) (ucast (data ! 5))
        XOR (crc_byte ^^ 2) (ucast (data ! 6)) XOR (crc_byte ^^ 1) (ucast (data ! 7))"
      by (simp only: slice8_high [of ?crc] xor.assoc crc_slice_nth)
    also have "\<dots> = crc_ref crc [data ! 0, data ! 1, data ! 2, data ! 3, data ! 4, data ! 5, data ! 6, data ! 7]"
      by (simp only: crc_byte_pow_xor slice8_low crc_ref_8 xor.assoc)
    finally have step: "?next = crc_ref crc
        [data ! 0, data ! 1, data ! 2, data ! 3, data ! 4, data ! 5, data ! 6, data ! 7]" .
    have "sdb_crc32_continue crc data = sdb_crc32_continue ?next (drop 8 data)"
      using True by (subst sdb_crc32_continue.simps) (simp only: Let_def if_True)
    also have "\<dots> = crc_ref ?next (drop 8 data)"
      using 1 [OF True refl] .
    also have "\<dots> = crc_ref crc data"
      unfolding step by (subst (2) list_8 [OF True]) (simp only: crc_ref_append)
    finally show ?thesis .
  qed
qed

section \<open>Correctness of the entry points\<close>

lemma crc32_ref: "sdb_crc32 data = NOT (crc_ref 0xffffffff data)"
  by (simp add: sdb_crc32_def crc32_continue_ref)

lemma zero_steps:
  "fold (\<lambda>_ crc. drop_bit 8 crc XOR sdb_crc32_slice_0 ! unat (crc AND 0xff)) [a..<b] c =
    crc_ref c (zeros (b - a))"
proof (induction b)
  case (Suc b)
  show ?case
  proof (cases "a \<le> b")
    case True
    then have "zeros (Suc b - a) = zeros (b - a) @ [0]"
      by (simp add: zeros_def Suc_diff_le replicate_append_same)
    with True Suc show ?thesis
      by (simp add: table_step crc_ref_append) (simp add: crc_ref_def crc_step_def)
  qed (simp add: crc_ref_def)
qed (simp add: crc_ref_def)

lemma crc32_zeroed_range_blit:
  assumes "off + n \<le> length data"
  shows "sdb_crc32_zeroed_range data off n = sdb_crc32 (blit off (zeros n) data)"
proof -
  have "\<not> (off > length data \<or> n > length data - off)"
    using assms by auto
  then show ?thesis
    by (simp add: sdb_crc32_zeroed_range_def Let_def crc32_continue_ref zero_steps crc32_ref
        blit_def crc_ref_append)
qed

section \<open>Error detection\<close>

lemma crc_ref_linear:
  "length xs = length ys \<Longrightarrow>
    crc_ref c xs XOR crc_ref d ys = crc_ref (c XOR d) (map2 (XOR) xs ys)"
proof (induction xs ys arbitrary: c d rule: list_induct2)
  case (Cons x xs y ys)
  have "crc_step x c XOR crc_step y d = crc_step (x XOR y) (c XOR d)"
    by (simp add: crc_step_def ac_simps unsigned_xor_eq flip: crc_byte_xor)
  with Cons.IH [of "crc_step x c" "crc_step y d"] show ?case
    by (simp add: crc_ref_def)
qed (simp add: crc_ref_def)

lemma crc_ref_zeros: "crc_ref c (zeros n) = (crc_byte ^^ n) c"
  by (induction n arbitrary: c) (simp_all add: crc_ref_def zeros_def crc_step_def funpow_swap1)

lemma crc_ref_short:
  "length w \<le> 4 \<Longrightarrow> crc_ref 0 w = (crc_byte ^^ length w) (le_word w)"
proof (induction w rule: rev_induct)
  case (snoc b w)
  let ?n = "length w"
  have n: "?n < 4"
    using snoc.prems by simp
  have "(crc_byte ^^ ?n) (push_bit (8 * ?n) (ucast b)) = ucast b"
  proof -
    have "(crc_byte ^^ k) (push_bit (8 * k) (ucast b)) = ucast b" if "k < 4" for k
      using that
    proof (induction k)
      case (Suc k)
      have "take_bit 24 (push_bit (8 * k) (ucast b) :: u32) = push_bit (8 * k) (ucast b)"
        using Suc.prems by (intro bit_word_eqI) (auto simp: bit_simps dest: bit_imp_le_length)
      then have "crc_byte (push_bit 8 (push_bit (8 * k) (ucast b))) = push_bit (8 * k) (ucast b)"
        by (rule crc_byte_push8)
      with Suc show ?case
        by (simp add: funpow_swap1 push_bit_push_bit)
    qed simp
    with n show ?thesis
      by blast
  qed
  moreover have "le_word (w @ [b]) = le_word w XOR (push_bit (8 * ?n) (ucast b) :: u32)"
    unfolding le_word_snoc
    by (rule bit_word_eqI) (auto simp: bit_simps bit_le_word less_mult_imp_div_less
        dest: bit_imp_le_length)
  ultimately show ?case
    using snoc by (simp add: crc_ref_append crc_byte_pow_xor)
      (simp add: crc_ref_def crc_step_def)
qed (simp add: crc_ref_def)

lemma map2_xor_self: "map2 (XOR) xs xs = zeros (length xs :: nat)"
  by (induction xs) (simp_all add: zeros_def)

lemma crc_ref_burst:
  assumes "length w = length w'" "length w \<le> 4" "w \<noteq> w'"
  shows "crc_ref c (pre @ w @ post) \<noteq> crc_ref c (pre @ w' @ post)"
proof
  let ?x = "map2 (XOR) w w'"
  assume "crc_ref c (pre @ w @ post) = crc_ref c (pre @ w' @ post)"
  then have "crc_ref c (pre @ w @ post) XOR crc_ref c (pre @ w' @ post) = 0"
    by simp
  then have "crc_ref (c XOR c) (zeros (length pre) @ ?x @ zeros (length post)) = 0"
    using assms(1) by (subst (asm) crc_ref_linear) (simp_all add: map2_xor_self zip_append)
  then have "(crc_byte ^^ length post) ((crc_byte ^^ length w) (le_word ?x)) = 0"
    using assms crc_ref_short [of ?x] by (simp add: crc_ref_append crc_ref_zeros)
  then have "(le_word ?x :: u32) = 0"
    by (blast dest: crc_byte_pow_inj)
  then have "le_bytes (length w) (le_word ?x :: u32) = le_bytes (length w) (0 :: u32)"
    by simp
  then have "?x = zeros (length w)"
    using assms by (subst (asm) le_bytes_le_word) (simp_all add: le_bytes_map zeros_def map_replicate_const)
  then have "w ! i = w' ! i" if "i < length w" for i
    using that assms(1) by (metis (no_types) length_map length_zip min.idem nth_map nth_zip
        nth_zeros prod.case xor_0_iff)
  with assms show False
    by (auto simp: list_eq_iff_nth_eq)
qed

lemma crc32_burst:
  assumes "length w = length w'" "length w \<le> 4" "w \<noteq> w'"
  shows "sdb_crc32 (pre @ w @ post) \<noteq> sdb_crc32 (pre @ w' @ post)"
  using crc_ref_burst [OF assms] by (simp add: crc32_ref)

lemma crc32_blit_burst:
  assumes "off + length w \<le> length data" "length w \<le> 4" "w \<noteq> slice off (length w) data"
  shows "sdb_crc32 (blit off w data) \<noteq> sdb_crc32 data"
proof -
  have "data = take off data @ slice off (length w) data @ drop (off + length w) data"
    by (metis append_take_drop_id drop_drop add.commute slice_def)
  then show ?thesis
    using assms crc32_burst [of w "slice off (length w) data" "take off data" "drop (off + length w) data"]
    by (simp add: blit_def)
qed

section \<open>Properties\<close>

text \<open>
  C22: The slice-by-eight routine with its eight tables computes the CRC-32 of the
  bitwise definition (reflected polynomial, eight shifts per byte), and the
  variant that skips a range computes the checksum of the buffer with that range
  set to zero, without copying it.
\<close>

theorem crc32_slice8_correct:
  "sdb_crc32 data = NOT (crc_ref 0xffffffff data) \<and>
    (off + n \<le> length data \<longrightarrow>
      sdb_crc32_zeroed_range data off n = NOT (crc_ref 0xffffffff (blit off (zeros n) data)))"
  by (simp add: crc32_zeroed_range_blit crc32_ref)

theorem crc32_slice8_correct_witness:
  "2 + 3 \<le> length ([1, 2, 3, 4, 5, 6, 7, 8, 9] :: bytes) \<and>
    sdb_crc32_zeroed_range [1, 2, 3, 4, 5, 6, 7, 8, 9] 2 3 =
      NOT (crc_ref 0xffffffff [1, 2, 0, 0, 0, 6, 7, 8, 9])"
  using crc32_slice8_correct [of "[1, 2, 3, 4, 5, 6, 7, 8, 9]" 2 3]
  by (simp add: blit_def zeros_def numeral_3_eq_3)

end
