(* ===== verification/Page.thy ===== *)
theory Page
  imports Checksum
begin

text \<open>
  The page format of \<open>src/page.h\<close> and \<open>src/page.c\<close>. A page is 32 bytes of
  header, the payload and zero padding; the checksum at offset 28 covers the
  whole page with the checksum field itself read as zero.
\<close>

section \<open>Model\<close>

definition SDB_MIN_PAGE_SIZE :: nat where
  "SDB_MIN_PAGE_SIZE = 4096"

definition SDB_MAX_PAGE_SIZE :: nat where
  "SDB_MAX_PAGE_SIZE = 65536"

definition SDB_PAGE_HEADER_SIZE :: nat where
  "SDB_PAGE_HEADER_SIZE = 32"

definition SDB_PAGE_CHECKSUM_OFFSET :: nat where
  "SDB_PAGE_CHECKSUM_OFFSET = 28"

definition SDB_PAGE_TYPE_DATA :: u16 where "SDB_PAGE_TYPE_DATA = 1"
definition SDB_PAGE_TYPE_FREE :: u16 where "SDB_PAGE_TYPE_FREE = 2"
definition SDB_PAGE_TYPE_ENCRYPTED :: u16 where "SDB_PAGE_TYPE_ENCRYPTED = 3"

record sdb_page_view =
  pv_type :: u16
  pv_flags :: u16
  pv_page_id :: u64
  pv_page_lsn :: u64
  pv_payload :: bytes
  pv_payload_size :: u32

definition sdb_page_magic :: bytes where
  "sdb_page_magic = [0x53, 0x50, 0x47, 0x31]"

definition sdb_page_type_valid :: "u16 \<Rightarrow> bool" where
  "sdb_page_type_valid type \<longleftrightarrow>
    type = SDB_PAGE_TYPE_DATA \<or> type = SDB_PAGE_TYPE_FREE \<or> type = SDB_PAGE_TYPE_ENCRYPTED"

text \<open>The page size test both routines repeat.\<close>

definition page_size_ok :: "nat \<Rightarrow> bool" where
  "page_size_ok page_size \<longleftrightarrow>
    \<not> (page_size < SDB_MIN_PAGE_SIZE \<or> page_size > SDB_MAX_PAGE_SIZE
       \<or> page_size AND (page_size - 1) \<noteq> 0)"

definition sdb_page_encode ::
    "nat \<Rightarrow> u16 \<Rightarrow> u64 \<Rightarrow> u64 \<Rightarrow> bytes \<Rightarrow> bytes result" where
  "sdb_page_encode page_size type page_id page_lsn payload =
    (if page_id = 0 \<or> \<not> sdb_page_type_valid type then Inl SDB_E_INVALID_ARGUMENT
     else if \<not> page_size_ok page_size then Inl SDB_E_INVALID_ARGUMENT
     else if length payload > page_size - SDB_PAGE_HEADER_SIZE \<or> length payload > 2 ^ 32 - 1
       then Inl SDB_E_INVALID_ARGUMENT
     else
       let page = zeros page_size;
           page = blit 0 sdb_page_magic page;
           page = sdb_write_u16_le page 4 type;
           page = sdb_write_u16_le page 6 0;
           page = sdb_write_u64_le page 8 page_id;
           page = sdb_write_u64_le page 16 page_lsn;
           page = sdb_write_u32_le page 24 (word_of_nat (length payload));
           page = (if length payload \<noteq> 0 then blit SDB_PAGE_HEADER_SIZE payload page else page);
           checksum = sdb_crc32_zeroed_range page SDB_PAGE_CHECKSUM_OFFSET 4
       in Inr (sdb_write_u32_le page SDB_PAGE_CHECKSUM_OFFSET checksum))"

text \<open>
  The view's payload pointer is the page's bytes from the header on; a reader
  may use the first \<open>pv_payload_size\<close> of them, which is what the model keeps.
\<close>

definition sdb_page_decode :: "bytes \<Rightarrow> u64 \<Rightarrow> sdb_page_view result" where
  "sdb_page_decode page expected_page_id =
    (if expected_page_id = 0 then Inl SDB_E_INVALID_ARGUMENT
     else if \<not> page_size_ok (length page) then Inl SDB_E_INVALID_ARGUMENT
     else if take 4 page \<noteq> sdb_page_magic then Inl SDB_E_BAD_MAGIC
     else
       let type = sdb_read_u16_le page 4;
           flags = sdb_read_u16_le page 6;
           page_id = sdb_read_u64_le page 8;
           payload_size = sdb_read_u32_le page 24
       in if \<not> sdb_page_type_valid type \<or> flags \<noteq> 0 \<or> page_id \<noteq> expected_page_id
             \<or> unat payload_size > length page - SDB_PAGE_HEADER_SIZE
          then Inl SDB_E_CORRUPT
          else if sdb_read_u32_le page SDB_PAGE_CHECKSUM_OFFSET
                  \<noteq> sdb_crc32_zeroed_range page SDB_PAGE_CHECKSUM_OFFSET 4
          then Inl SDB_E_CORRUPT
          else if \<not> list_all (\<lambda>b. b = 0) (drop (SDB_PAGE_HEADER_SIZE + unat payload_size) page)
          then Inl SDB_E_CORRUPT
          else Inr \<lparr> pv_type = type, pv_flags = flags, pv_page_id = page_id,
                     pv_page_lsn = sdb_read_u64_le page 16,
                     pv_payload = slice SDB_PAGE_HEADER_SIZE (unat payload_size) page,
                     pv_payload_size = payload_size \<rparr>)"

lemmas page_consts = SDB_MIN_PAGE_SIZE_def SDB_MAX_PAGE_SIZE_def SDB_PAGE_HEADER_SIZE_def
  SDB_PAGE_CHECKSUM_OFFSET_def SDB_PAGE_TYPE_DATA_def SDB_PAGE_TYPE_FREE_def
  SDB_PAGE_TYPE_ENCRYPTED_def

section \<open>The encoded image\<close>

text \<open>Everything of a page except the checksum, whose bytes are \<open>c\<close>.\<close>

definition page_layout :: "nat \<Rightarrow> u16 \<Rightarrow> u16 \<Rightarrow> u64 \<Rightarrow> u64 \<Rightarrow> bytes \<Rightarrow> bytes \<Rightarrow> bytes" where
  "page_layout page_size type flags page_id page_lsn payload c =
    sdb_page_magic @ le_bytes 2 type @ le_bytes 2 flags @ le_bytes 8 page_id @ le_bytes 8 page_lsn
    @ le_bytes 4 (word_of_nat (length payload) :: u32) @ c @ payload
    @ zeros (page_size - 32 - length payload)"

definition page_image :: "nat \<Rightarrow> u16 \<Rightarrow> u64 \<Rightarrow> u64 \<Rightarrow> bytes \<Rightarrow> bytes" where
  "page_image page_size type page_id page_lsn payload =
    page_layout page_size type 0 page_id page_lsn payload
      (le_bytes 4 (sdb_crc32 (page_layout page_size type 0 page_id page_lsn payload (zeros 4))))"

lemma length_page_magic [simp]: "length sdb_page_magic = 4"
  by (simp add: sdb_page_magic_def)

lemma length_page_layout [simp]:
  "32 + length payload \<le> page_size \<Longrightarrow> length c = 4 \<Longrightarrow>
    length (page_layout page_size type flags page_id page_lsn payload c) = page_size"
  by (simp add: page_layout_def)

lemma page_size_ok_bounds: "page_size_ok n \<Longrightarrow> 4096 \<le> n \<and> n \<le> 65536"
  by (auto simp: page_size_ok_def page_consts)

lemma zeros_page:
  "32 + n \<le> page_size \<Longrightarrow> zeros page_size =
    zeros 4 @ zeros 2 @ zeros 2 @ zeros 8 @ zeros 8 @ zeros 4 @ zeros 4 @ zeros n @ zeros (page_size - 32 - n)"
  by (simp only: zeros_append) (rule arg_cong [where f = zeros], simp)

lemma blit_layout_checksum:
  "length c = 4 \<Longrightarrow> length d = 4 \<Longrightarrow> 32 + length payload \<le> page_size \<Longrightarrow>
    blit 28 d (page_layout page_size type flags page_id page_lsn payload c) =
    page_layout page_size type flags page_id page_lsn payload d"
  by (simp add: page_layout_def layout_simps)

definition page_args_ok :: "nat \<Rightarrow> u16 \<Rightarrow> u64 \<Rightarrow> bytes \<Rightarrow> bool" where
  "page_args_ok page_size type page_id payload \<longleftrightarrow>
    page_id \<noteq> 0 \<and> sdb_page_type_valid type \<and> page_size_ok page_size
    \<and> length payload \<le> page_size - 32"

lemma page_encode_image:
  "sdb_page_encode page_size type page_id page_lsn payload =
    (if page_args_ok page_size type page_id payload
     then Inr (page_image page_size type page_id page_lsn payload)
     else Inl SDB_E_INVALID_ARGUMENT)"
proof (cases "page_args_ok page_size type page_id payload")
  case True
  then have sz: "32 + length payload \<le> page_size" "page_size \<le> 65536"
    using page_size_ok_bounds [of page_size] by (auto simp: page_args_ok_def)
  let ?L = "page_layout page_size type 0 page_id page_lsn payload"
  have blits: "(let page = zeros page_size;
           page = blit 0 sdb_page_magic page;
           page = sdb_write_u16_le page 4 type;
           page = sdb_write_u16_le page 6 0;
           page = sdb_write_u64_le page 8 page_id;
           page = sdb_write_u64_le page 16 page_lsn;
           page = sdb_write_u32_le page 24 (word_of_nat (length payload))
       in (if length payload \<noteq> 0 then blit SDB_PAGE_HEADER_SIZE payload page else page)) = ?L (zeros 4)"
    using sz unfolding Let_def zeros_page [OF sz(1)]
    by (simp add: page_consts wr_blits layout_simps page_layout_def)
  have "sdb_crc32_zeroed_range (?L (zeros 4)) 28 4 = sdb_crc32 (?L (zeros 4))"
    using sz by (simp add: crc32_zeroed_range_blit blit_layout_checksum)
  then have "sdb_write_u32_le (?L (zeros 4)) 28 (sdb_crc32_zeroed_range (?L (zeros 4)) 28 4)
      = page_image page_size type page_id page_lsn payload"
    using sz by (simp add: wr_blits blit_layout_checksum page_image_def)
  with True sz blits show ?thesis
    by (simp add: sdb_page_encode_def page_args_ok_def page_consts Let_def)
qed (auto simp: sdb_page_encode_def page_args_ok_def page_consts dest: page_size_ok_bounds)

section \<open>Decoding\<close>

lemma page_image_layout:
  assumes p: "p = page_layout page_size type flags page_id page_lsn payload c"
    and sz: "32 + length payload \<le> page_size" "length c = 4"
  shows "length p = page_size"
    and "take 4 p = sdb_page_magic"
    and "sdb_read_u16_le p 4 = type"
    and "sdb_read_u16_le p 6 = flags"
    and "sdb_read_u64_le p 8 = page_id"
    and "sdb_read_u64_le p 16 = page_lsn"
    and "sdb_read_u32_le p 24 = word_of_nat (length payload)"
    and "sdb_read_u32_le p 28 = le_word c"
    and "slice 32 (length payload) p = payload"
    and "drop (32 + length payload) p = zeros (page_size - 32 - length payload)"
    and "sdb_crc32_zeroed_range p 28 4 =
          sdb_crc32 (page_layout page_size type flags page_id page_lsn payload (zeros 4))"
proof -
  show len: "length p = page_size"
    using sz by (simp add: p)
  show "take 4 p = sdb_page_magic"
    by (simp add: p page_layout_def)
  show "sdb_read_u16_le p 4 = type" "sdb_read_u16_le p 6 = flags"
    "sdb_read_u64_le p 8 = page_id" "sdb_read_u64_le p 16 = page_lsn"
    "sdb_read_u32_le p 24 = word_of_nat (length payload)" "sdb_read_u32_le p 28 = le_word c"
    using sz len by (simp_all add: rd_slices) (simp_all add: p page_layout_def layout_simps)
  show "slice 32 (length payload) p = payload"
    using sz by (simp add: p page_layout_def layout_simps)
  show "drop (32 + length payload) p = zeros (page_size - 32 - length payload)"
    using sz by (simp add: p page_layout_def)
  show "sdb_crc32_zeroed_range p 28 4 =
      sdb_crc32 (page_layout page_size type flags page_id page_lsn payload (zeros 4))"
    using sz len by (simp add: crc32_zeroed_range_blit) (simp add: p blit_layout_checksum)
qed

lemma list_all_zeros [simp]: "list_all (\<lambda>b. b = 0) (zeros n)"
  by (simp add: zeros_def list_all_iff)

lemma list_all_zero_iff: "list_all (\<lambda>b. b = 0) xs \<longleftrightarrow> xs = zeros (length xs)"
  using all_zero_iff [of xs] by (simp add: list_all_iff)

lemma page_decode_image:
  assumes "page_args_ok page_size type page_id payload"
  shows "sdb_page_decode (page_image page_size type page_id page_lsn payload) page_id =
    Inr \<lparr> pv_type = type, pv_flags = 0, pv_page_id = page_id, pv_page_lsn = page_lsn,
          pv_payload = payload, pv_payload_size = word_of_nat (length payload) \<rparr>"
proof -
  have sz: "32 + length payload \<le> page_size" "page_size \<le> 65536" "4096 \<le> page_size"
    and pid: "page_id \<noteq> 0" and type: "sdb_page_type_valid type" and ok: "page_size_ok page_size"
    using assms page_size_ok_bounds [of page_size] by (auto simp: page_args_ok_def)
  have n: "unat (word_of_nat (length payload) :: u32) = length payload"
    using sz by (simp add: unat_of_nat)
  note facts = page_image_layout [OF refl sz(1) length_le_bytes]
  show ?thesis
    unfolding page_image_def sdb_page_decode_def page_consts Let_def
    using sz pid type ok by (simp add: facts n)
qed

lemma page_decode_inv:
  assumes "sdb_page_decode p expected = Inr v"
  shows "page_args_ok (length p) (pv_type v) expected (pv_payload v)"
    and "pv_flags v = 0" and "pv_page_id v = expected"
    and "pv_payload_size v = word_of_nat (length (pv_payload v))"
    and "p = page_image (length p) (pv_type v) expected (pv_page_lsn v) (pv_payload v)"
proof -
  let ?n = "unat (sdb_read_u32_le p 24)"
  have ok: "page_size_ok (length p)" and ex: "expected \<noteq> 0" and m: "take 4 p = sdb_page_magic"
    and ty: "sdb_page_type_valid (sdb_read_u16_le p 4)" and fl: "sdb_read_u16_le p 6 = 0"
    and id: "sdb_read_u64_le p 8 = expected" and n: "?n \<le> length p - 32"
    and crc: "sdb_read_u32_le p 28 = sdb_crc32_zeroed_range p 28 4"
    and pad: "list_all (\<lambda>b. b = 0) (drop (32 + ?n) p)"
    and v: "v = \<lparr> pv_type = sdb_read_u16_le p 4, pv_flags = sdb_read_u16_le p 6,
      pv_page_id = sdb_read_u64_le p 8, pv_page_lsn = sdb_read_u64_le p 16,
      pv_payload = slice 32 ?n p, pv_payload_size = sdb_read_u32_le p 24 \<rparr>"
    using assms unfolding sdb_page_decode_def page_consts Let_def
    by (auto split: if_splits)
  have sz: "4096 \<le> length p" "length p \<le> 65536"
    using page_size_ok_bounds [OF ok] by auto
  have len: "length (pv_payload v) = ?n"
    using n sz by (simp add: v)
  show "page_args_ok (length p) (pv_type v) expected (pv_payload v)"
    using ok ex ty n len by (simp add: page_args_ok_def v)
  show "pv_flags v = 0" "pv_page_id v = expected"
    by (simp_all add: v fl id)
  show size: "pv_payload_size v = word_of_nat (length (pv_payload v))"
    unfolding len by (simp add: v)
  have "p = slice 0 4 p @ slice 4 2 p @ slice 6 2 p @ slice 8 8 p @ slice 16 8 p @ slice 24 4 p
      @ slice 28 4 p @ slice 32 ?n p @ drop (32 + ?n) p"
    using drop_slice [of 0 p 4] drop_slice [of 4 p 2] drop_slice [of 6 p 2] drop_slice [of 8 p 8]
      drop_slice [of 16 p 8] drop_slice [of 24 p 4] drop_slice [of 28 p 4] drop_slice [of 32 p ?n]
    by simp
  also have "\<dots> = page_layout (length p) (pv_type v) 0 expected (pv_page_lsn v) (pv_payload v) (slice 28 4 p)"
    using sz pad unfolding list_all_zero_iff page_layout_def len
    by (simp add: v m slice_0_prefix le_bytes_rds fl [symmetric] id [symmetric])
  finally have p: "p = page_layout (length p) (pv_type v) 0 expected (pv_page_lsn v) (pv_payload v) (slice 28 4 p)" .
  have "slice 28 4 p = le_bytes 4 (sdb_crc32_zeroed_range p 28 4)"
    using sz by (simp add: le_bytes_rds flip: crc)
  also have "sdb_crc32_zeroed_range p 28 4 =
      sdb_crc32 (page_layout (length p) (pv_type v) 0 expected (pv_page_lsn v) (pv_payload v) (zeros 4))"
    using sz n len by (intro page_image_layout(11) [OF p]) simp_all
  finally show "p = page_image (length p) (pv_type v) expected (pv_page_lsn v) (pv_payload v)"
    using p by (simp add: page_image_def)
qed

lemma length_page_image:
  "page_args_ok page_size type page_id payload \<Longrightarrow>
    length (page_image page_size type page_id page_lsn payload) = page_size"
  using page_size_ok_bounds [of page_size] by (auto simp: page_args_ok_def page_image_def)

section \<open>Corruption\<close>

lemma page_decode_checksum:
  assumes "sdb_page_decode p e = Inr v"
  shows "4096 \<le> length p"
    and "slice 28 4 p = le_bytes 4 (sdb_crc32 (blit 28 (zeros 4) p))"
proof -
  show l: "4096 \<le> length p"
    using assms by (auto simp: sdb_page_decode_def Let_def split: if_splits dest: page_size_ok_bounds)
  have "sdb_read_u32_le p 28 = sdb_crc32_zeroed_range p 28 4"
    using assms by (simp add: sdb_page_decode_def page_consts Let_def split: if_splits)
  with l show "slice 28 4 p = le_bytes 4 (sdb_crc32 (blit 28 (zeros 4) p))"
    by (simp add: le32.rd_eq_iff crc32_zeroed_range_blit)
qed

definition within_checksum_field :: "nat \<Rightarrow> nat \<Rightarrow> bool" where
  "within_checksum_field off n \<longleftrightarrow> 28 \<le> off \<and> off + n \<le> 32"

definition outside_checksum_field :: "nat \<Rightarrow> nat \<Rightarrow> bool" where
  "outside_checksum_field off n \<longleftrightarrow> off + n \<le> 28 \<or> 32 \<le> off"

lemma blit_outside_field:
  assumes "outside_checksum_field off (length w)" "off + length w \<le> length p" "32 \<le> length p"
  shows "blit 28 (zeros 4) (blit off w p) = blit off w (blit 28 (zeros 4) p)"
    and "slice 28 4 (blit off w p) = slice 28 4 p"
    and "slice off (length w) (blit 28 (zeros 4) p) = slice off (length w) p"
  using assms blit_blit_comm [of off w 28 "zeros 4" p] blit_blit_comm [of 28 "zeros 4" off w p]
  by (auto simp: outside_checksum_field_def slice_blit)

lemma page_burst_outside:
  assumes ok: "sdb_page_decode p e = Inr v" and ok': "sdb_page_decode (blit off w p) e' = Inr v'"
    and w: "off + length w \<le> length p" "length w \<le> 4" "w \<noteq> slice off (length w) p"
    and out: "outside_checksum_field off (length w)"
  shows False
proof -
  have l: "32 \<le> length p"
    using page_decode_checksum(1) [OF ok] by simp
  note o = blit_outside_field [OF out w(1) l]
  have "le_bytes 4 (sdb_crc32 (blit off w (blit 28 (zeros 4) p))) = le_bytes 4 (sdb_crc32 (blit 28 (zeros 4) p))"
    using page_decode_checksum(2) [OF ok] page_decode_checksum(2) [OF ok'] by (simp add: o)
  then have "sdb_crc32 (blit off w (blit 28 (zeros 4) p)) = sdb_crc32 (blit 28 (zeros 4) p)"
    by (simp add: le_bytes_inject)
  with crc32_blit_burst [of off w "blit 28 (zeros 4) p"] w l o(3) show False
    by simp
qed

lemma page_burst_within:
  assumes ok: "sdb_page_decode p e = Inr v" and ok': "sdb_page_decode (blit off w p) e' = Inr v'"
    and w: "off + length w \<le> length p" "w \<noteq> slice off (length w) p"
    and inn: "within_checksum_field off (length w)"
  shows False
proof -
  have l: "32 \<le> length p"
    using page_decode_checksum(1) [OF ok] by simp
  have "blit 28 (zeros 4) (blit off w p) = blit 28 (zeros 4) p"
    using w l inn by (intro nth_equalityI) (auto simp: nth_blit within_checksum_field_def)
  then have "slice 28 4 (blit off w p) = slice 28 4 p"
    using page_decode_checksum(2) [OF ok] page_decode_checksum(2) [OF ok'] by simp
  then have "slice (off - 28) (length w) (slice 28 4 (blit off w p)) = slice (off - 28) (length w) (slice 28 4 p)"
    by simp
  moreover have "off - 28 + length w \<le> 4" "28 \<le> off"
    using inn by (auto simp: within_checksum_field_def)
  ultimately have "slice off (length w) (blit off w p) = slice off (length w) p"
    by (simp add: slice_slice)
  with w show False
    by (simp add: slice_blit)
qed

section \<open>Properties\<close>

text \<open>
  C11: encoding succeeds on every admissible page and decoding the image under
  its own page id returns exactly the type, id, log sequence number and payload
  that were encoded.
\<close>

theorem page_roundtrip:
  assumes "page_args_ok page_size type page_id payload"
  shows "\<exists>p. sdb_page_encode page_size type page_id page_lsn payload = Inr p
    \<and> length p = page_size
    \<and> sdb_page_decode p page_id =
        Inr \<lparr> pv_type = type, pv_flags = 0, pv_page_id = page_id, pv_page_lsn = page_lsn,
              pv_payload = payload, pv_payload_size = word_of_nat (length payload) \<rparr>"
  using page_decode_image [OF assms] length_page_image [OF assms] by (simp add: page_encode_image assms)

lemma page_args_ok_example: "page_args_ok 4096 1 7 [1, 2, 3]"
  by (simp add: page_args_ok_def page_size_ok_def page_consts sdb_page_type_valid_def)

theorem page_roundtrip_witness:
  "\<exists>p. sdb_page_encode 4096 1 7 9 [1, 2, 3] = Inr p \<and> length p = 4096
    \<and> sdb_page_decode p 7 = Inr \<lparr> pv_type = 1, pv_flags = 0, pv_page_id = 7, pv_page_lsn = 9,
          pv_payload = [1, 2, 3], pv_payload_size = 3 \<rparr>"
  using page_roundtrip [OF page_args_ok_example, of 9] by simp

text \<open>
  C12: the format is canonical. A buffer that decodes is the encoding of what it
  decodes to, so no two distinct pages decode to the same view.
\<close>

theorem page_canonical:
  assumes "sdb_page_decode p expected = Inr v"
  shows "sdb_page_encode (length p) (pv_type v) expected (pv_page_lsn v) (pv_payload v) = Inr p"
  using page_decode_inv [OF assms] by (simp add: page_encode_image)

theorem page_canonical_witness:
  "sdb_page_encode 4096 1 7 9 [1, 2, 3] = Inr (page_image 4096 1 7 9 [1, 2, 3])"
  using page_canonical [OF page_decode_image [OF page_args_ok_example, of 9]]
  by (simp add: page_image_def)

text \<open>
  C10: overwriting up to four adjacent bytes of a page that decodes, either all
  inside the checksum field or all outside it, by different bytes always makes
  it undecodable, under any expected page id. In particular every corruption of
  a single byte is detected.
\<close>

theorem page_corruption_detected:
  assumes "sdb_page_decode p e = Inr v"
    and "off + length w \<le> length p" "length w \<le> 4" "w \<noteq> slice off (length w) p"
    and "outside_checksum_field off (length w) \<or> within_checksum_field off (length w)"
  shows "\<exists>err. sdb_page_decode (blit off w p) e' = Inl err"
proof (cases "sdb_page_decode (blit off w p) e'")
  case (Inr v')
  then show ?thesis
    using assms page_burst_outside [OF assms(1) Inr] page_burst_within [OF assms(1) Inr] by blast
qed simp

theorem page_corruption_detected_witness:
  "\<exists>err. sdb_page_decode (blit 33 [5] (page_image 4096 1 7 9 [1, 2, 3])) 7 = Inl err"
proof (rule page_corruption_detected [OF page_decode_image [OF page_args_ok_example, of 9]])
  show "[5] \<noteq> slice 33 (length [5 :: byte]) (page_image 4096 1 7 9 [1, 2, 3])"
    by (simp add: page_image_def page_layout_def layout_simps) (simp add: slice_def)
qed (simp_all add: page_image_def outside_checksum_field_def)

end
