(* ===== verification/Superblock.thy ===== *)
theory Superblock
  imports Page
begin

text \<open>
  The superblock of \<open>include/shibadb.h\<close> and \<open>src/superblock.c\<close>: the record, its
  validation, and the 160-byte checksummed header it is stored as.
\<close>

section \<open>Model\<close>

definition SDB_SUPERBLOCK_HEADER_SIZE :: nat where
  "SDB_SUPERBLOCK_HEADER_SIZE = 160"

definition SDB_SUPERBLOCK_CHECKSUM_OFFSET :: nat where
  "SDB_SUPERBLOCK_CHECKSUM_OFFSET = 88"

definition SDB_SUPERBLOCK_SLOT_SIZE :: nat where
  "SDB_SUPERBLOCK_SLOT_SIZE = 4096"

definition SDB_SUPERBLOCK_SLOT_COUNT :: nat where
  "SDB_SUPERBLOCK_SLOT_COUNT = 2"

definition SDB_FORMAT_VERSION_V1 :: u16 where "SDB_FORMAT_VERSION_V1 = 1"
definition SDB_FORMAT_VERSION_V2 :: u16 where "SDB_FORMAT_VERSION_V2 = 2"
definition SDB_FLAG_ENCRYPTED :: u32 where "SDB_FLAG_ENCRYPTED = 1"
definition SDB_FLAG_HEADER_AUTH :: u32 where "SDB_FLAG_HEADER_AUTH = 2"
definition SDB_MIN_KDF_ITERATIONS :: u32 where "SDB_MIN_KDF_ITERATIONS = 600000"
definition SDB_MAX_KDF_ITERATIONS :: u32 where "SDB_MAX_KDF_ITERATIONS = 10000000"

record sdb_superblock_v1 =
  page_size :: u32
  flags :: u32
  generation :: u64
  checkpoint_lsn :: u64
  root_page :: u64
  freelist_page :: u64
  next_page_id :: u64
  key_wrap_id :: u32
  kdf_iterations :: u32
  salt :: bytes
  file_id :: bytes
  wrapped_key :: bytes
  key_wrap_tag :: bytes

text \<open>The fixed array sizes of the structure.\<close>

definition superblock_arrays :: "sdb_superblock_v1 \<Rightarrow> bool" where
  "superblock_arrays sb \<longleftrightarrow> length (salt sb) = 16 \<and> length (file_id sb) = 16
    \<and> length (wrapped_key sb) = 32 \<and> length (key_wrap_tag sb) = 16"

definition sdb_superblock_magic :: bytes where
  "sdb_superblock_magic = [0x53, 0x48, 0x49, 0x42, 0x41, 0x43, 0x30, 0x31]"

definition sdb_is_power_of_two_u32 :: "u32 \<Rightarrow> bool" where
  "sdb_is_power_of_two_u32 v \<longleftrightarrow> v \<noteq> 0 \<and> v AND (v - 1) = 0"

definition sdb_page_geometry_valid :: "u64 \<Rightarrow> u32 \<Rightarrow> bool" where
  "sdb_page_geometry_valid next_id psize \<longleftrightarrow>
    (let data_offset = word_of_nat (SDB_SUPERBLOCK_SLOT_SIZE * SDB_SUPERBLOCK_SLOT_COUNT) :: u64 in
     \<not> (next_id = 0 \<or> psize = 0) \<and> next_id - 1 \<le> (- 1 - data_offset) div ucast psize)"

definition sdb_bytes_all_zero :: "bytes \<Rightarrow> bool" where
  "sdb_bytes_all_zero bs \<longleftrightarrow> fold (\<lambda>b aggregate. aggregate OR b) bs 0 = 0"

datatype sdb_sb_field =
    SDB_SB_FIELD_OK
  | SDB_SB_FIELD_NULL_ARG
  | SDB_SB_FIELD_PAGE_SIZE
  | SDB_SB_FIELD_FLAGS
  | SDB_SB_FIELD_NEXT_PAGE_ID
  | SDB_SB_FIELD_FILE_ID
  | SDB_SB_FIELD_SALT
  | SDB_SB_FIELD_KEY_WRAP_ID
  | SDB_SB_FIELD_KDF_ITERATIONS
  | SDB_SB_FIELD_WRAPPED_KEY
  | SDB_SB_FIELD_KEY_WRAP_TAG
  | SDB_SB_FIELD_ENC_MISMATCH
  | SDB_SB_FIELD_ROOT_PAGE
  | SDB_SB_FIELD_FREELIST_PAGE

definition sdb_validate_superblock_detailed :: "sdb_superblock_v1 \<Rightarrow> sdb_sb_field" where
  "sdb_validate_superblock_detailed sb =
    (if page_size sb < word_of_nat SDB_MIN_PAGE_SIZE \<or> page_size sb > word_of_nat SDB_MAX_PAGE_SIZE
        \<or> \<not> sdb_is_power_of_two_u32 (page_size sb) then SDB_SB_FIELD_PAGE_SIZE
     else if flags sb AND NOT (SDB_FLAG_ENCRYPTED OR SDB_FLAG_HEADER_AUTH) \<noteq> 0
        \<or> (flags sb AND SDB_FLAG_HEADER_AUTH \<noteq> 0 \<and> flags sb AND SDB_FLAG_ENCRYPTED = 0)
       then SDB_SB_FIELD_FLAGS
     else if \<not> sdb_page_geometry_valid (next_page_id sb) (page_size sb) then SDB_SB_FIELD_NEXT_PAGE_ID
     else if root_page sb \<ge> next_page_id sb then SDB_SB_FIELD_ROOT_PAGE
     else if freelist_page sb \<ge> next_page_id sb then SDB_SB_FIELD_FREELIST_PAGE
     else if sdb_bytes_all_zero (file_id sb) then SDB_SB_FIELD_FILE_ID
     else if flags sb AND SDB_FLAG_ENCRYPTED \<noteq> 0 \<and> sdb_bytes_all_zero (salt sb) then SDB_SB_FIELD_SALT
     else if flags sb AND SDB_FLAG_ENCRYPTED \<noteq> 0 then
       (if key_wrap_id sb = 0 then SDB_SB_FIELD_KEY_WRAP_ID
        else if kdf_iterations sb < SDB_MIN_KDF_ITERATIONS \<or> kdf_iterations sb > SDB_MAX_KDF_ITERATIONS
          then SDB_SB_FIELD_KDF_ITERATIONS
        else if sdb_bytes_all_zero (wrapped_key sb) then SDB_SB_FIELD_WRAPPED_KEY
        else if sdb_bytes_all_zero (key_wrap_tag sb) then SDB_SB_FIELD_KEY_WRAP_TAG
        else SDB_SB_FIELD_OK)
     else if key_wrap_id sb \<noteq> 0 \<or> kdf_iterations sb \<noteq> 0
        \<or> \<not> sdb_bytes_all_zero (wrapped_key sb) \<or> \<not> sdb_bytes_all_zero (key_wrap_tag sb)
       then SDB_SB_FIELD_ENC_MISMATCH
     else SDB_SB_FIELD_OK)"

definition sdb_validate_superblock :: "sdb_superblock_v1 \<Rightarrow> unit result" where
  "sdb_validate_superblock sb =
    (if sdb_validate_superblock_detailed sb = SDB_SB_FIELD_OK then Inr ()
     else Inl SDB_E_INVALID_ARGUMENT)"

definition sdb_superblock_v1_encode :: "sdb_superblock_v1 \<Rightarrow> nat \<Rightarrow> bytes result" where
  "sdb_superblock_v1_encode sb output_size =
    rbind (sdb_validate_superblock sb) (\<lambda>_.
      if output_size < SDB_SUPERBLOCK_HEADER_SIZE then Inl SDB_E_BUFFER_TOO_SMALL
      else
        let out = zeros output_size;
            out = blit 0 sdb_superblock_magic out;
            out = sdb_write_u16_le out 8 SDB_FORMAT_VERSION_V2;
            out = sdb_write_u16_le out 10 (word_of_nat SDB_SUPERBLOCK_HEADER_SIZE);
            out = sdb_write_u32_le out 12 (page_size sb);
            out = sdb_write_u32_le out 16 (flags sb);
            out = sdb_write_u64_le out 24 (generation sb);
            out = sdb_write_u64_le out 32 (checkpoint_lsn sb);
            out = sdb_write_u64_le out 40 (root_page sb);
            out = sdb_write_u64_le out 48 (freelist_page sb);
            out = blit 56 (salt sb) out;
            out = blit 72 (file_id sb) out;
            out = sdb_write_u64_le out 92 (next_page_id sb);
            out = sdb_write_u32_le out 100 (key_wrap_id sb);
            out = sdb_write_u32_le out 104 (kdf_iterations sb);
            out = blit 108 (wrapped_key sb) out;
            out = blit 140 (key_wrap_tag sb) out;
            checksum = sdb_crc32 (take SDB_SUPERBLOCK_HEADER_SIZE out)
        in Inr (sdb_write_u32_le out SDB_SUPERBLOCK_CHECKSUM_OFFSET checksum))"

definition sdb_superblock_v1_decode :: "bytes \<Rightarrow> sdb_superblock_v1 result" where
  "sdb_superblock_v1_decode input =
    (if length input < SDB_SUPERBLOCK_HEADER_SIZE then Inl SDB_E_BUFFER_TOO_SMALL
     else if take 8 input \<noteq> sdb_superblock_magic then Inl SDB_E_BAD_MAGIC
     else
       let format_version = sdb_read_u16_le input 8 in
       if format_version \<noteq> SDB_FORMAT_VERSION_V1 \<and> format_version \<noteq> SDB_FORMAT_VERSION_V2
         then Inl SDB_E_UNSUPPORTED_VERSION
       else if sdb_read_u16_le input 10 \<noteq> word_of_nat SDB_SUPERBLOCK_HEADER_SIZE then Inl SDB_E_CORRUPT
       else
         let header = take SDB_SUPERBLOCK_HEADER_SIZE input;
             stored_checksum = sdb_read_u32_le header SDB_SUPERBLOCK_CHECKSUM_OFFSET;
             header = blit SDB_SUPERBLOCK_CHECKSUM_OFFSET (zeros 4) header
         in if stored_checksum \<noteq> sdb_crc32 header then Inl SDB_E_CORRUPT
            else if \<not> list_all (\<lambda>b. b = 0) (slice 20 4 input) then Inl SDB_E_CORRUPT
            else if \<not> list_all (\<lambda>b. b = 0) (slice 156 4 input) then Inl SDB_E_CORRUPT
            else
              let decoded = \<lparr>
                    page_size = sdb_read_u32_le input 12,
                    flags = sdb_read_u32_le input 16,
                    generation = sdb_read_u64_le input 24,
                    checkpoint_lsn = sdb_read_u64_le input 32,
                    root_page = sdb_read_u64_le input 40,
                    freelist_page = sdb_read_u64_le input 48,
                    next_page_id = sdb_read_u64_le input 92,
                    key_wrap_id = sdb_read_u32_le input 100,
                    kdf_iterations = sdb_read_u32_le input 104,
                    salt = slice 56 16 input,
                    file_id = slice 72 16 input,
                    wrapped_key = slice 108 32 input,
                    key_wrap_tag = slice 140 16 input \<rparr>
              in if \<not> is_ok (sdb_validate_superblock decoded) then Inl SDB_E_CORRUPT
                 else Inr decoded)"

lemmas superblock_consts = SDB_SUPERBLOCK_HEADER_SIZE_def SDB_SUPERBLOCK_CHECKSUM_OFFSET_def
  SDB_SUPERBLOCK_SLOT_SIZE_def SDB_SUPERBLOCK_SLOT_COUNT_def SDB_FORMAT_VERSION_V1_def
  SDB_FORMAT_VERSION_V2_def SDB_FLAG_ENCRYPTED_def SDB_FLAG_HEADER_AUTH_def
  SDB_MIN_KDF_ITERATIONS_def SDB_MAX_KDF_ITERATIONS_def

section \<open>The encoded header\<close>

definition header_layout :: "u16 \<Rightarrow> sdb_superblock_v1 \<Rightarrow> bytes \<Rightarrow> bytes" where
  "header_layout version sb c =
    sdb_superblock_magic @ le_bytes 2 version @ le_bytes 2 (160 :: u16)
    @ le_bytes 4 (page_size sb) @ le_bytes 4 (flags sb) @ zeros 4
    @ le_bytes 8 (generation sb) @ le_bytes 8 (checkpoint_lsn sb)
    @ le_bytes 8 (root_page sb) @ le_bytes 8 (freelist_page sb)
    @ salt sb @ file_id sb @ c
    @ le_bytes 8 (next_page_id sb) @ le_bytes 4 (key_wrap_id sb) @ le_bytes 4 (kdf_iterations sb)
    @ wrapped_key sb @ key_wrap_tag sb @ zeros 4"

definition header_image :: "u16 \<Rightarrow> sdb_superblock_v1 \<Rightarrow> bytes" where
  "header_image version sb =
    header_layout version sb (le_bytes 4 (sdb_crc32 (header_layout version sb (zeros 4))))"

lemma length_superblock_magic [simp]: "length sdb_superblock_magic = 8"
  by (simp add: sdb_superblock_magic_def)

lemma length_header_layout [simp]:
  "superblock_arrays sb \<Longrightarrow> length c = 4 \<Longrightarrow> length (header_layout version sb c) = 160"
  by (simp add: header_layout_def superblock_arrays_def)

lemma zeros_superblock:
  "160 \<le> n \<Longrightarrow> zeros n = zeros 8 @ zeros 2 @ zeros 2 @ zeros 4 @ zeros 4 @ zeros 4 @ zeros 8 @ zeros 8
    @ zeros 8 @ zeros 8 @ zeros 16 @ zeros 16 @ zeros 4 @ zeros 8 @ zeros 4 @ zeros 4 @ zeros 32
    @ zeros 16 @ zeros 4 @ zeros (n - 160)"
  by (simp only: zeros_append) (rule arg_cong [where f = zeros], simp)

lemma blit_header_checksum:
  "superblock_arrays sb \<Longrightarrow> length c = 4 \<Longrightarrow> length d = 4 \<Longrightarrow>
    blit 88 d (header_layout version sb c @ t) = header_layout version sb d @ t"
  by (simp add: header_layout_def superblock_arrays_def layout_simps)

definition valid_superblock :: "sdb_superblock_v1 \<Rightarrow> bool" where
  "valid_superblock sb \<longleftrightarrow>
    superblock_arrays sb \<and> sdb_validate_superblock_detailed sb = SDB_SB_FIELD_OK"

lemma superblock_encode_image:
  assumes "valid_superblock sb" "160 \<le> n"
  shows "sdb_superblock_v1_encode sb n = Inr (header_image 2 sb @ zeros (n - 160))"
proof -
  have a: "superblock_arrays sb" and v: "sdb_validate_superblock sb = Inr ()"
    using assms by (auto simp: valid_superblock_def sdb_validate_superblock_def)
  let ?out = "header_layout 2 sb (zeros 4) @ zeros (n - 160)"
  have blits: "(let out = zeros n;
            out = blit 0 sdb_superblock_magic out;
            out = sdb_write_u16_le out 8 2;
            out = sdb_write_u16_le out 10 160;
            out = sdb_write_u32_le out 12 (page_size sb);
            out = sdb_write_u32_le out 16 (flags sb);
            out = sdb_write_u64_le out 24 (generation sb);
            out = sdb_write_u64_le out 32 (checkpoint_lsn sb);
            out = sdb_write_u64_le out 40 (root_page sb);
            out = sdb_write_u64_le out 48 (freelist_page sb);
            out = blit 56 (salt sb) out;
            out = blit 72 (file_id sb) out;
            out = sdb_write_u64_le out 92 (next_page_id sb);
            out = sdb_write_u32_le out 100 (key_wrap_id sb);
            out = sdb_write_u32_le out 104 (kdf_iterations sb);
            out = blit 108 (wrapped_key sb) out
      in blit 140 (key_wrap_tag sb) out) = ?out"
    using a unfolding Let_def zeros_superblock [OF assms(2)]
    by (simp add: wr_blits layout_simps header_layout_def superblock_arrays_def)
  have "sdb_write_u32_le ?out 88 (sdb_crc32 (take 160 ?out)) = header_image 2 sb @ zeros (n - 160)"
    using a assms(2) by (simp add: wr_blits blit_header_checksum header_image_def)
  with blits v assms(2) show ?thesis
    by (simp add: sdb_superblock_v1_encode_def superblock_consts Let_def)
qed

section \<open>Decoding\<close>

lemma header_layout_reads:
  assumes p: "p = header_layout version sb c @ t" and a: "superblock_arrays sb" "length c = 4"
  shows "160 \<le> length p"
    and "take 8 p = sdb_superblock_magic"
    and "sdb_read_u16_le p 8 = version"
    and "sdb_read_u16_le p 10 = 160"
    and "take 160 p = header_layout version sb c"
    and "sdb_read_u32_le (take 160 p) 88 = le_word c"
    and "slice 20 4 p = zeros 4"
    and "slice 156 4 p = zeros 4"
    and "sdb_read_u32_le p 12 = page_size sb"
    and "sdb_read_u32_le p 16 = flags sb"
    and "sdb_read_u64_le p 24 = generation sb"
    and "sdb_read_u64_le p 32 = checkpoint_lsn sb"
    and "sdb_read_u64_le p 40 = root_page sb"
    and "sdb_read_u64_le p 48 = freelist_page sb"
    and "sdb_read_u64_le p 92 = next_page_id sb"
    and "sdb_read_u32_le p 100 = key_wrap_id sb"
    and "sdb_read_u32_le p 104 = kdf_iterations sb"
    and "slice 56 16 p = salt sb"
    and "slice 72 16 p = file_id sb"
    and "slice 108 32 p = wrapped_key sb"
    and "slice 140 16 p = key_wrap_tag sb"
proof -
  show len: "160 \<le> length p"
    using a by (simp add: p)
  show tk: "take 160 p = header_layout version sb c"
    using a by (simp add: p)
  show "take 8 p = sdb_superblock_magic"
    by (simp add: p header_layout_def)
  show "sdb_read_u32_le (take 160 p) 88 = le_word c"
    unfolding tk using a
    by (simp add: rd_slices) (simp add: header_layout_def superblock_arrays_def layout_simps)
qed (use a in \<open>simp_all add: p rd_slices\<close>,
     simp_all add: header_layout_def superblock_arrays_def layout_simps)

lemma superblock_decode_image:
  assumes "valid_superblock sb" "version = 1 \<or> version = 2"
  shows "sdb_superblock_v1_decode (header_image version sb @ t) = Inr sb"
proof -
  have a: "superblock_arrays sb" and v: "is_ok (sdb_validate_superblock sb)"
    using assms by (auto simp: valid_superblock_def sdb_validate_superblock_def)
  define c where "c = le_bytes 4 (sdb_crc32 (header_layout version sb (zeros 4)))"
  define p where "p = header_layout version sb c @ t"
  have c: "length c = 4"
    by (simp add: c_def)
  note facts = header_layout_reads [OF p_def a c]
  have crc: "le_word c = sdb_crc32 (blit 88 (zeros 4) (header_layout version sb c))"
    using blit_header_checksum [OF a c, of "zeros 4" version "[]"] by (simp add: c_def)
  have rec: "\<lparr> page_size = page_size sb, flags = flags sb, generation = generation sb,
      checkpoint_lsn = checkpoint_lsn sb, root_page = root_page sb, freelist_page = freelist_page sb,
      next_page_id = next_page_id sb, key_wrap_id = key_wrap_id sb, kdf_iterations = kdf_iterations sb,
      salt = salt sb, file_id = file_id sb, wrapped_key = wrapped_key sb,
      key_wrap_tag = key_wrap_tag sb \<rparr> = sb"
    by (cases sb) simp
  have "sdb_superblock_v1_decode p = Inr sb"
    using assms(2) v facts(1) crc unfolding sdb_superblock_v1_decode_def superblock_consts Let_def
    by (auto simp: facts facts(6) [unfolded facts(5)] leD [OF facts(1)] rec)
  then show ?thesis
    by (simp add: p_def c_def header_image_def)
qed

lemma header_split:
  "take 160 p = slice 0 8 p @ slice 8 2 p @ slice 10 2 p @ slice 12 4 p @ slice 16 4 p
      @ slice 20 4 p @ slice 24 8 p @ slice 32 8 p @ slice 40 8 p @ slice 48 8 p @ slice 56 16 p
      @ slice 72 16 p @ slice 88 4 p @ slice 92 8 p @ slice 100 4 p @ slice 104 4 p @ slice 108 32 p
      @ slice 140 16 p @ slice 156 4 p"
  unfolding slice_0_prefix [of 160, symmetric]
  using slice_append_slice [of 0 8 p 152] slice_append_slice [of 8 2 p 150]
    slice_append_slice [of 10 2 p 148] slice_append_slice [of 12 4 p 144]
    slice_append_slice [of 16 4 p 140] slice_append_slice [of 20 4 p 136]
    slice_append_slice [of 24 8 p 128] slice_append_slice [of 32 8 p 120]
    slice_append_slice [of 40 8 p 112] slice_append_slice [of 48 8 p 104]
    slice_append_slice [of 56 16 p 88] slice_append_slice [of 72 16 p 72]
    slice_append_slice [of 88 4 p 68] slice_append_slice [of 92 8 p 60]
    slice_append_slice [of 100 4 p 56] slice_append_slice [of 104 4 p 52]
    slice_append_slice [of 108 32 p 20] slice_append_slice [of 140 16 p 4]
  by simp

lemma superblock_decode_inv:
  assumes "sdb_superblock_v1_decode p = Inr sb"
  shows "valid_superblock sb"
    and "\<exists>version. (version = 1 \<or> version = 2) \<and> version = sdb_read_u16_le p 8
      \<and> take 160 p = header_image version sb"
proof -
  have len: "160 \<le> length p" and m: "take 8 p = sdb_superblock_magic"
    and ver: "sdb_read_u16_le p 8 = 1 \<or> sdb_read_u16_le p 8 = 2"
    and sz: "sdb_read_u16_le p 10 = 160"
    and crc: "sdb_read_u32_le (take 160 p) 88 = sdb_crc32 (blit 88 (zeros 4) (take 160 p))"
    and z1: "list_all (\<lambda>b. b = 0) (slice 20 4 p)" and z2: "list_all (\<lambda>b. b = 0) (slice 156 4 p)"
    and sb: "sb = \<lparr> page_size = sdb_read_u32_le p 12, flags = sdb_read_u32_le p 16,
        generation = sdb_read_u64_le p 24, checkpoint_lsn = sdb_read_u64_le p 32,
        root_page = sdb_read_u64_le p 40, freelist_page = sdb_read_u64_le p 48,
        next_page_id = sdb_read_u64_le p 92, key_wrap_id = sdb_read_u32_le p 100,
        kdf_iterations = sdb_read_u32_le p 104, salt = slice 56 16 p, file_id = slice 72 16 p,
        wrapped_key = slice 108 32 p, key_wrap_tag = slice 140 16 p \<rparr>"
    and v: "is_ok (sdb_validate_superblock sb)"
    using assms unfolding sdb_superblock_v1_decode_def superblock_consts Let_def
    by (auto split: if_splits)
  have a: "superblock_arrays sb"
    using len by (simp add: sb superblock_arrays_def)
  show "valid_superblock sb"
    using a v by (auto simp: valid_superblock_def sdb_validate_superblock_def split: if_splits)
  let ?v = "sdb_read_u16_le p 8"
  have z: "slice 20 4 p = zeros 4" "slice 156 4 p = zeros 4"
    using z1 z2 len by (simp_all add: list_all_zero_iff)
  have p: "take 160 p = header_layout ?v sb (slice 88 4 p)"
    using len unfolding header_split [of p] header_layout_def
    by (simp add: sb m z slice_0_prefix le_bytes_rds flip: sz)
  have "slice 88 4 p = slice 88 4 (take 160 p)"
    by (simp add: slice_def drop_take)
  also have "\<dots> = le_bytes 4 (sdb_crc32 (blit 88 (zeros 4) (take 160 p)))"
    using len by (simp add: le_bytes_rds flip: crc)
  also have "blit 88 (zeros 4) (take 160 p) = header_layout ?v sb (zeros 4)"
    using len blit_header_checksum [OF a, of "slice 88 4 p" "zeros 4" ?v "[]"] unfolding p by simp
  finally have "take 160 p = header_image ?v sb"
    using p by (simp add: header_image_def)
  with ver show "\<exists>version. (version = 1 \<or> version = 2) \<and> version = sdb_read_u16_le p 8
      \<and> take 160 p = header_image version sb"
    by blast
qed

section \<open>Geometry\<close>

lemma fold_or_zero: "fold (\<lambda>b a. a OR b) bs (a :: byte) = 0 \<longleftrightarrow> a = 0 \<and> (\<forall>b \<in> set bs. b = 0)"
  by (induction bs arbitrary: a) (auto simp: or_eq_0_iff)

lemma bytes_all_zero_iff: "sdb_bytes_all_zero bs \<longleftrightarrow> (\<forall>b \<in> set bs. b = 0)"
  by (simp add: sdb_bytes_all_zero_def fold_or_zero)


lemma unat_ucast_u32: "unat (ucast (w :: u32) :: u64) = unat w"
proof -
  have "unat w < 2 ^ 32"
    using unsigned_less [of w] by simp
  then show ?thesis
    by (simp add: unsigned_ucast_eq take_bit_nat_eq_self_iff)
qed

lemma geometry_valid_iff:
  "sdb_page_geometry_valid next_id psize \<longleftrightarrow>
    next_id \<noteq> 0 \<and> psize \<noteq> 0 \<and> (unat next_id - 1) * unat psize + 8192 < 2 ^ 64"
proof (cases "next_id = 0 \<or> psize = 0")
  case False
  have "unat (- 1 - 8192 :: u64) = 2 ^ 64 - 1 - 8192"
    by simp
  then have "next_id - 1 \<le> (- 1 - 8192) div ucast psize \<longleftrightarrow>
      unat next_id - 1 \<le> (2 ^ 64 - 1 - 8192) div unat psize"
    using False by (simp add: word_le_nat_alt unat_div unat_minus_one unat_ucast_u32)
  also have "\<dots> \<longleftrightarrow> (unat next_id - 1) * unat psize + 8192 < 2 ^ 64"
    using False by (subst less_eq_div_iff_mult_less_eq) (auto simp: unat_gt_0)
  finally show ?thesis
    using False by (simp add: sdb_page_geometry_valid_def superblock_consts)
qed (auto simp: sdb_page_geometry_valid_def)

lemma validated_fields:
  assumes "sdb_validate_superblock_detailed sb = SDB_SB_FIELD_OK"
  shows "(unat (next_page_id sb) - 1) * unat (page_size sb) + 8192 < 2 ^ 64"
    and "root_page sb < next_page_id sb" and "freelist_page sb < next_page_id sb"
  using assms unfolding sdb_validate_superblock_detailed_def geometry_valid_iff
  by (simp_all add: not_le split: if_split_asm)

section \<open>Properties\<close>

text \<open>
  C13: every valid superblock survives a round trip through its on-disk header,
  whatever the size of the buffer it is written to.
\<close>

theorem superblock_roundtrip:
  assumes "valid_superblock sb" "160 \<le> n"
  shows "\<exists>out. sdb_superblock_v1_encode sb n = Inr out \<and> length out = n
    \<and> sdb_superblock_v1_decode out = Inr sb"
  using assms superblock_encode_image [OF assms] superblock_decode_image [OF assms(1), of 2]
  by (auto simp: header_image_def valid_superblock_def)

definition example_superblock :: sdb_superblock_v1 where
  "example_superblock = \<lparr> page_size = 4096, flags = 0, generation = 5, checkpoint_lsn = 3,
    root_page = 1, freelist_page = 0, next_page_id = 9, key_wrap_id = 0, kdf_iterations = 0,
    salt = zeros 16, file_id = replicate 16 7, wrapped_key = zeros 32, key_wrap_tag = zeros 16 \<rparr>"

lemma example_superblock_valid: "valid_superblock example_superblock"
  by (simp add: valid_superblock_def superblock_arrays_def sdb_validate_superblock_detailed_def
      example_superblock_def page_consts superblock_consts sdb_is_power_of_two_u32_def
      geometry_valid_iff bytes_all_zero_iff zeros_def word_le_nat_alt)

theorem superblock_roundtrip_witness:
  "\<exists>out. sdb_superblock_v1_encode example_superblock 4096 = Inr out \<and> length out = 4096
    \<and> sdb_superblock_v1_decode out = Inr example_superblock"
  using superblock_roundtrip [OF example_superblock_valid, of 4096] by simp

text \<open>
  C14: decoding never accepts an invalid superblock. Whatever decodes passes
  validation, its pages all have offsets below \<open>2 ^ 64\<close> and its root and free-list
  heads are allocated pages, and a current-version header re-encodes to the very
  bytes it was read from.
\<close>

theorem superblock_decode_sound:
  assumes "sdb_superblock_v1_decode p = Inr sb"
  shows "sdb_validate_superblock sb = Inr ()
    \<and> (unat (next_page_id sb) - 1) * unat (page_size sb) + 8192 < 2 ^ 64
    \<and> root_page sb < next_page_id sb \<and> freelist_page sb < next_page_id sb
    \<and> (sdb_read_u16_le p 8 = SDB_FORMAT_VERSION_V2 \<longrightarrow> sdb_superblock_v1_encode sb 160 = Inr (take 160 p))"
proof -
  have v: "valid_superblock sb"
    using superblock_decode_inv [OF assms] by blast
  then have ok: "sdb_validate_superblock_detailed sb = SDB_SB_FIELD_OK"
    by (simp add: valid_superblock_def)
  have "sdb_read_u16_le p 8 = SDB_FORMAT_VERSION_V2 \<longrightarrow> sdb_superblock_v1_encode sb 160 = Inr (take 160 p)"
    using superblock_decode_inv [OF assms] superblock_encode_image [OF v, of 160]
    by (auto simp: superblock_consts)
  with validated_fields [OF ok] ok show ?thesis
    by (simp add: sdb_validate_superblock_def)
qed

theorem superblock_decode_sound_witness:
  "sdb_superblock_v1_decode (header_image 2 example_superblock) = Inr example_superblock
    \<and> sdb_validate_superblock example_superblock = Inr ()"
  using superblock_decode_sound [of "header_image 2 example_superblock" example_superblock]
    superblock_decode_image [OF example_superblock_valid, of 2 "[]"] by simp

end
