(* ===== verification/File.thy ===== *)
theory File
  imports Codec
begin

text \<open>
  The positional file layer of \<open>src/file.c\<close> (POSIX part). A file is its
  contents as the process sees them, the contents known to be on stable storage
  (those at the last successful sync) and the operations issued since. The
  operating system is a script of outcomes, one per system call: interrupted,
  failed, or successful with a bound on the bytes transferred; an exhausted
  script succeeds without bound. The model keeps the retry and short-transfer
  loops of the code. A \<open>pwrite\<close> that transfers nothing is the outcome \<open>OS_Fail\<close>: the
  code answers it as it answers an error, and the file is as it was.
\<close>

section \<open>Model\<close>

definition INT64_MAX :: nat where
  "INT64_MAX = 2 ^ 63 - 1"

definition UINT64_MAX :: nat where
  "UINT64_MAX = 2 ^ 64 - 1"

datatype os_outcome = OS_Eintr | OS_Fail | OS_Ok nat

datatype file_op = FWrite nat bytes | FResize nat

record sdb_file =
  fcontent :: bytes
  fdurable :: bytes
  fpending :: "file_op list"
  fscript :: "os_outcome list"

type_synonym 'a file_io = "sdb_file \<Rightarrow> 'a result \<times> sdb_file"

definition fbind :: "'a file_io \<Rightarrow> ('a \<Rightarrow> 'b file_io) \<Rightarrow> 'b file_io" where
  "fbind m k f = (case m f of (Inl e, f') \<Rightarrow> (Inl e, f') | (Inr v, f') \<Rightarrow> k v f')"

definition freturn :: "'a \<Rightarrow> 'a file_io" where
  "freturn v f = (Inr v, f)"

definition fthrow :: "sdb_status \<Rightarrow> 'a file_io" where
  "fthrow e f = (Inl e, f)"

text \<open>A system call with its \<open>EINTR\<close> retry loop: \<open>None\<close> when it fails.\<close>

definition os_call :: "sdb_file \<Rightarrow> nat option \<times> sdb_file" where
  "os_call f =
    (case dropWhile (\<lambda>e. e = OS_Eintr) (fscript f) of
       OS_Ok n # rest \<Rightarrow> (Some n, f\<lparr>fscript := rest\<rparr>)
     | _ # rest \<Rightarrow> (None, f\<lparr>fscript := rest\<rparr>)
     | [] \<Rightarrow> (Some SIZE_MAX, f\<lparr>fscript := []\<rparr>))"

text \<open>A call that is not retried: an interrupted call counts as a failed one.\<close>

definition os_call_once :: "sdb_file \<Rightarrow> nat option \<times> sdb_file" where
  "os_call_once f =
    (case fscript f of
       OS_Ok n # rest \<Rightarrow> (Some n, f\<lparr>fscript := rest\<rparr>)
     | _ # rest \<Rightarrow> (None, f\<lparr>fscript := rest\<rparr>)
     | [] \<Rightarrow> (Some SIZE_MAX, f))"

definition sdb_posix_chunk :: "nat \<Rightarrow> nat \<Rightarrow> nat" where
  "sdb_posix_chunk remaining limit =
    (let chunk = (if remaining < limit then remaining else limit)
     in if chunk > INT64_MAX then INT64_MAX else chunk)"

text \<open>
  What the calls do to the contents: a write past the end fills the gap with
  zeros, a truncation to a larger size extends with zeros.
\<close>

definition file_grow :: "nat \<Rightarrow> bytes \<Rightarrow> bytes" where
  "file_grow n c = c @ zeros (n - length c)"

definition file_write :: "nat \<Rightarrow> bytes \<Rightarrow> bytes \<Rightarrow> bytes" where
  "file_write off bs c = (if bs = [] then c else blit off bs (file_grow (off + length bs) c))"

definition file_resize :: "nat \<Rightarrow> bytes \<Rightarrow> bytes" where
  "file_resize n c = take n (file_grow n c)"

function sdb_file_read_loop :: "nat \<Rightarrow> nat \<Rightarrow> bytes \<Rightarrow> bytes file_io" where
  "sdb_file_read_loop offset sz output f =
    (let completed = length output in
     if completed < sz then
       let chunk = sdb_posix_chunk (sz - completed) SIZE_MAX in
       if completed > UINT64_MAX - offset then (Inl SDB_E_OVERFLOW, f)
       else
         let position = offset + completed in
         if position > INT64_MAX then (Inl SDB_E_OVERFLOW, f)
         else
           (case os_call f of
              (None, f') \<Rightarrow> (Inl SDB_E_IO, f')
            | (Some n, f') \<Rightarrow>
                let transferred = slice position (min chunk (max 1 n)) (fcontent f') in
                if transferred = [] then (Inl SDB_E_TRUNCATED, f')
                else sdb_file_read_loop offset sz (output @ transferred) f')
     else (Inr output, f))"
  by pat_completeness auto
termination
  by (relation "measure (\<lambda>(offset, sz, output, f). sz - length output)")
    (auto simp: Let_def simp del: length_slice intro!: diff_less_mono2)

definition sdb_file_read_full :: "nat \<Rightarrow> nat \<Rightarrow> bytes file_io" where
  "sdb_file_read_full offset sz f =
    (if offset > INT64_MAX then (Inl SDB_E_INVALID_ARGUMENT, f)
     else sdb_file_read_loop offset sz [] f)"

function sdb_file_write_loop :: "nat \<Rightarrow> bytes \<Rightarrow> nat \<Rightarrow> unit file_io" where
  "sdb_file_write_loop offset input completed f =
    (if completed < length input then
       let chunk = sdb_posix_chunk (length input - completed) SIZE_MAX in
       if completed > UINT64_MAX - offset then (Inl SDB_E_OVERFLOW, f)
       else
         let position = offset + completed in
         if position > INT64_MAX then (Inl SDB_E_OVERFLOW, f)
         else
           (case os_call f of
              (None, f') \<Rightarrow> (Inl SDB_E_IO, f')
            | (Some n, f') \<Rightarrow>
                let transferred = slice completed (min chunk (max 1 n)) input in
                sdb_file_write_loop offset input (completed + length transferred)
                  (f'\<lparr>fcontent := file_write position transferred (fcontent f'),
                      fpending := fpending f' @ [FWrite position transferred]\<rparr>))
     else (Inr (), f))"
  by pat_completeness auto
termination
  by (relation "measure (\<lambda>(offset, input, completed, f). length input - completed)")
    (auto simp: sdb_posix_chunk_def SIZE_MAX_def INT64_MAX_def Let_def)

definition sdb_file_write_full :: "nat \<Rightarrow> bytes \<Rightarrow> unit file_io" where
  "sdb_file_write_full offset input f =
    (if offset > INT64_MAX then (Inl SDB_E_INVALID_ARGUMENT, f)
     else sdb_file_write_loop offset input 0 f)"

definition sdb_file_sync :: "unit file_io" where
  "sdb_file_sync f =
    (case os_call f of
       (None, f') \<Rightarrow> (Inl SDB_E_IO, f')
     | (Some _, f') \<Rightarrow> (Inr (), f'\<lparr>fdurable := fcontent f', fpending := []\<rparr>))"

definition sdb_file_resize :: "nat \<Rightarrow> unit file_io" where
  "sdb_file_resize sz f =
    (if sz > INT64_MAX then (Inl SDB_E_INVALID_ARGUMENT, f)
     else case os_call f of
       (None, f') \<Rightarrow> (Inl SDB_E_IO, f')
     | (Some _, f') \<Rightarrow>
         (Inr (), f'\<lparr>fcontent := file_resize sz (fcontent f'),
                     fpending := fpending f' @ [FResize sz]\<rparr>))"

definition sdb_file_size :: "nat file_io" where
  "sdb_file_size f =
    (case os_call_once f of
       (None, f') \<Rightarrow> (Inl SDB_E_IO, f')
     | (Some _, f') \<Rightarrow> (Inr (length (fcontent f')), f'))"

definition sdb_file_close :: "unit file_io" where
  "sdb_file_close f = (case os_call_once f of (None, f') \<Rightarrow> (Inl SDB_E_IO, f') | (Some _, f') \<Rightarrow> (Inr (), f'))"

declare sdb_file_read_loop.simps [simp del] sdb_file_write_loop.simps [simp del]

section \<open>Contract of the transfer loops\<close>

definition file_read :: "nat \<Rightarrow> nat \<Rightarrow> bytes \<Rightarrow> bytes result" where
  "file_read off sz c =
    (if sz = 0 \<or> off + sz \<le> length c then Inr (slice off sz c) else Inl SDB_E_TRUNCATED)"

definition file_ok :: "sdb_file \<Rightarrow> bool" where
  "file_ok f \<longleftrightarrow> length (fcontent f) \<le> INT64_MAX"

definition may_fail :: "sdb_file \<Rightarrow> bool" where
  "may_fail f \<longleftrightarrow> OS_Fail \<in> set (fscript f)"

text \<open>\<open>same_file f f'\<close>: only system calls that change nothing happened in between.\<close>

definition same_file :: "sdb_file \<Rightarrow> sdb_file \<Rightarrow> bool" where
  "same_file f f' \<longleftrightarrow> fcontent f' = fcontent f \<and> fdurable f' = fdurable f
    \<and> fpending f' = fpending f \<and> set (fscript f') \<subseteq> set (fscript f)"

lemma same_file_refl [simp]: "same_file f f"
  by (simp add: same_file_def)

lemma same_file_trans: "same_file f g \<Longrightarrow> same_file g h \<Longrightarrow> same_file f h"
  by (auto simp: same_file_def)

lemma same_file_ok: "same_file f f' \<Longrightarrow> file_ok f' = file_ok f"
  by (simp add: same_file_def file_ok_def)

lemma same_file_may_fail: "same_file f f' \<Longrightarrow> may_fail f' \<Longrightarrow> may_fail f"
  by (auto simp: same_file_def may_fail_def)

lemma os_call_same:
  assumes "os_call f = (r, f')"
  shows "same_file f f'"
proof -
  have "set (dropWhile (\<lambda>e. e = OS_Eintr) (fscript f)) \<subseteq> set (fscript f)"
    by (auto dest: set_dropWhileD)
  with assms show ?thesis
    by (auto simp: os_call_def same_file_def split: list.splits os_outcome.splits)
qed

lemma os_call_once_same: "os_call_once f = (r, f') \<Longrightarrow> same_file f f'"
  by (auto simp: os_call_once_def same_file_def split: list.splits os_outcome.splits)

lemma sdb_file_close_same: "sdb_file_close f = (r, f') \<Longrightarrow> same_file f f'"
  by (auto simp: sdb_file_close_def split: prod.splits option.splits dest: os_call_once_same)

lemma os_call_None: "os_call f = (None, f') \<Longrightarrow> may_fail f"
proof -
  assume "os_call f = (None, f')"
  then obtain e rest where d: "dropWhile (\<lambda>e. e = OS_Eintr) (fscript f) = e # rest" and e: "\<forall>n. e \<noteq> OS_Ok n"
    by (auto simp: os_call_def split: list.splits os_outcome.splits)
  have "e \<noteq> OS_Eintr"
    using d hd_dropWhile [of "\<lambda>e. e = OS_Eintr" "fscript f"] by auto
  with e have "e = OS_Fail"
    by (cases e) auto
  moreover have "e \<in> set (fscript f)"
    using d by (metis list.set_intros(1) set_dropWhileD)
  ultimately show ?thesis
    by (simp add: may_fail_def)
qed

lemma os_call_Some: "os_call f = (Some n, f') \<Longrightarrow> n = SIZE_MAX \<or> OS_Ok n \<in> set (fscript f)"
proof -
  assume "os_call f = (Some n, f')"
  then have "n = SIZE_MAX \<or> (\<exists>rest. dropWhile (\<lambda>e. e = OS_Eintr) (fscript f) = OS_Ok n # rest)"
    by (auto simp: os_call_def split: list.splits os_outcome.splits)
  then show ?thesis
    by (metis list.set_intros(1) set_dropWhileD)
qed

lemma posix_chunk_pos: "0 < m \<Longrightarrow> 0 < sdb_posix_chunk m SIZE_MAX"
  by (simp add: sdb_posix_chunk_def SIZE_MAX_def INT64_MAX_def Let_def)

lemma posix_chunk_le: "sdb_posix_chunk m SIZE_MAX \<le> m"
  by (simp add: sdb_posix_chunk_def SIZE_MAX_def INT64_MAX_def Let_def)

lemma sdb_file_read_loop_spec:
  assumes "sdb_file_read_loop off sz out f = (r, f')"
    and "file_ok f" "off \<le> INT64_MAX" "length out \<le> sz" "out = slice off (length out) (fcontent f)"
    and "out = [] \<or> off + length out \<le> length (fcontent f)"
  shows "same_file f f' \<and> (r = file_read off sz (fcontent f) \<or> r = Inl SDB_E_IO \<and> may_fail f)"
  using assms
proof (induction "sz - length out" arbitrary: out f rule: less_induct)
  case (less out f)
  show ?case
  proof (cases "length out < sz")
    case False
    with less.prems show ?thesis
      by (auto simp: sdb_file_read_loop.simps [of off sz out f] file_read_def)
  next
    case True
    have pos: "\<not> length out > UINT64_MAX - off" "\<not> off + length out > INT64_MAX"
      using less.prems(2,3,6) by (auto simp: file_ok_def UINT64_MAX_def INT64_MAX_def)
    obtain o' g where call: "os_call f = (o', g)"
      by fastforce
    note g = os_call_same [OF call]
    show ?thesis
    proof (cases o')
      case None
      with less.prems(1) True pos call g os_call_None [of f g] show ?thesis
        by (auto simp: sdb_file_read_loop.simps [of off sz out f] Let_def)
    next
      case (Some n)
      let ?m = "min (sdb_posix_chunk (sz - length out) SIZE_MAX) (max 1 n)"
      let ?t = "slice (off + length out) ?m (fcontent g)"
      have run: "sdb_file_read_loop off sz out f =
          (if ?t = [] then (Inl SDB_E_TRUNCATED, g) else sdb_file_read_loop off sz (out @ ?t) g)"
        using True pos call Some by (simp add: sdb_file_read_loop.simps [of off sz out f] Let_def)
      have m: "0 < ?m" "?m \<le> sz - length out"
        using True posix_chunk_pos [of "sz - length out"] posix_chunk_le [of "sz - length out"] by auto
      show ?thesis
      proof (cases "?t = []")
        case empty: True
        then have "length (fcontent f) \<le> off + length out"
          using m g by (auto simp: slice_def same_file_def)
        with empty run less.prems(1,4) True g show ?thesis
          by (auto simp: file_read_def)
      next
        case False
        have c: "fcontent g = fcontent f"
          using g by (simp add: same_file_def)
        from False have le: "off + length out < length (fcontent f)"
          using m by (simp add: slice_def c)
        have "length ?t \<le> ?m" "off + length out + length ?t \<le> length (fcontent g)"
          using le by (auto simp: c)
        then have next_ok: "length (out @ ?t) \<le> sz" "off + length (out @ ?t) \<le> length (fcontent g)"
          using m(2) True unfolding length_append by linarith+
        have next_out: "out @ ?t = slice off (length (out @ ?t)) (fcontent g)"
          unfolding c by (rule slice_extend) (rule less.prems(5))
        have "sdb_file_read_loop off sz (out @ ?t) g = (r, f')"
          using run False less.prems(1) by simp
        moreover have "sz - length (out @ ?t) < sz - length out"
          using True False by (auto simp del: length_slice intro!: diff_less_mono2)
        ultimately have "same_file g f' \<and> (r = file_read off sz (fcontent g) \<or> r = Inl SDB_E_IO \<and> may_fail g)"
          using less.hyps [of "out @ ?t" g] less.prems(2,3) next_ok next_out g
          by (simp only: same_file_ok simp_thms)
        with g c show ?thesis
          by (auto intro: same_file_trans same_file_may_fail)
      qed
    qed
  qed
qed

lemma sdb_file_read_full_spec:
  assumes "sdb_file_read_full off sz f = (r, f')" "file_ok f" "off \<le> INT64_MAX"
  shows "same_file f f'"
    and "r = file_read off sz (fcontent f) \<or> r = Inl SDB_E_IO \<and> may_fail f"
  using sdb_file_read_loop_spec [of off sz "[]" f r f'] assms
  by (auto simp: sdb_file_read_full_def)

lemma file_write_alt:
  assumes "bs \<noteq> []"
  shows "file_write off bs c = take off c @ zeros (off - length c) @ bs @ drop (off + length bs) c"
proof -
  have "take off (zeros (off + length bs - length c)) = zeros (min off (off + length bs - length c))"
    by (simp add: zeros_def min.commute)
  moreover have "take (off - length c) (zeros (off + length bs - length c)) = zeros (off - length c)"
    by (simp add: zeros_def)
  ultimately show ?thesis
    using assms by (simp add: file_write_def file_grow_def blit_def zeros_def)
qed

lemma length_file_write:
  "length (file_write off bs c) = (if bs = [] then length c else max (length c) (off + length bs))"
proof (cases "bs = []")
  case False
  then show ?thesis
    by (simp add: file_write_alt)
qed (simp add: file_write_def)

lemma file_write_in_bounds: "off + length bs \<le> length c \<Longrightarrow> file_write off bs c = blit off bs c"
  by (simp add: file_write_def file_grow_def)

lemma file_write_append:
  "file_write (off + length a) b (file_write off a c) = file_write off (a @ b) c"
proof (cases "a = [] \<or> b = []")
  case False
  let ?x = "take off c @ zeros (off - length c)"
  have x: "length ?x = off"
    by simp
  have "file_write (off + length a) b (?x @ a @ drop (off + length a) c) =
      (?x @ a) @ b @ drop (length b) (drop (off + length a) c)"
    using False x by (subst file_write_alt) simp_all
  with False show ?thesis
    by (simp add: file_write_alt add.commute add.left_commute)
qed (auto simp: file_write_def)

definition sector_script :: "sdb_file \<Rightarrow> bool" where
  "sector_script f \<longleftrightarrow> (\<forall>n. OS_Ok n \<in> set (fscript f) \<longrightarrow> 0 < n \<and> 512 dvd n)"

text \<open>
  The outcome of a write: a prefix of the input reached the file, all of it
  exactly when the call returns \<open>SDB_OK\<close>. When the operating system transfers
  whole 512-byte sectors, so is the prefix.
\<close>

definition wrote_prefix :: "nat \<Rightarrow> bytes \<Rightarrow> sdb_file \<Rightarrow> nat \<Rightarrow> sdb_file \<Rightarrow> bool" where
  "wrote_prefix off bs f k f' \<longleftrightarrow>
    k \<le> length bs \<and> fcontent f' = file_write off (take k bs) (fcontent f)
    \<and> fdurable f' = fdurable f \<and> set (fscript f') \<subseteq> set (fscript f)
    \<and> (sector_script f \<longrightarrow> k = length bs \<or> 512 dvd k)"

lemma sdb_file_write_loop_spec:
  assumes "sdb_file_write_loop off bs k g = (r, f')"
    and "wrote_prefix off bs f k g" "off + length bs \<le> INT64_MAX"
  shows "\<exists>k'. wrote_prefix off bs f k' f' \<and>
    (r = Inr () \<and> k' = length bs \<or> r = Inl SDB_E_IO \<and> may_fail f)"
  using assms
proof (induction "length bs - k" arbitrary: k g rule: less_induct)
  case (less k g)
  show ?case
  proof (cases "k < length bs")
    case False
    with less.prems show ?thesis
      by (auto simp: sdb_file_write_loop.simps [of off bs k g] wrote_prefix_def intro!: exI [of _ k])
  next
    case True
    have pos: "\<not> k > UINT64_MAX - off" "\<not> off + k > INT64_MAX"
      using True less.prems(3) by (auto simp: UINT64_MAX_def INT64_MAX_def)
    obtain o' h where call: "os_call g = (o', h)"
      by fastforce
    note h = os_call_same [OF call]
    show ?thesis
    proof (cases o')
      case None
      then have "may_fail f"
        using call os_call_None [of g h] less.prems(2) by (auto simp: may_fail_def wrote_prefix_def)
      moreover have "wrote_prefix off bs f k h"
        using h less.prems(2) by (auto simp: wrote_prefix_def same_file_def)
      ultimately show ?thesis
        using less.prems(1) True pos call None
        by (auto simp: sdb_file_write_loop.simps [of off bs k g] Let_def)
    next
      case (Some n)
      define m where "m = min (sdb_posix_chunk (length bs - k) SIZE_MAX) (max (Suc 0) n)"
      let ?t = "slice k m bs"
      let ?h = "h\<lparr>fcontent := file_write (off + k) ?t (fcontent h),
                   fpending := fpending h @ [FWrite (off + k) ?t]\<rparr>"
      have m: "0 < m" "m \<le> length bs - k"
        using True posix_chunk_pos [of "length bs - k"] posix_chunk_le [of "length bs - k"]
        by (auto simp: m_def)
      then have t: "length ?t = m" "take k bs @ ?t = take (k + m) bs"
        by (auto simp: slice_def take_add)
      have run: "sdb_file_write_loop off bs (k + m) ?h = (r, f')"
        using less.prems(1) True pos call Some m(2)
        by (simp add: sdb_file_write_loop.simps [of off bs k g] Let_def min_absorb1 flip: m_def)
      have "k + m = length bs \<or> 512 dvd k + m" if s: "sector_script f"
      proof -
        have "512 dvd k"
          using s less.prems(2) True by (auto simp: wrote_prefix_def)
        moreover have "sdb_posix_chunk (length bs - k) SIZE_MAX = length bs - k"
          using less.prems(3) by (auto simp: sdb_posix_chunk_def SIZE_MAX_def INT64_MAX_def Let_def)
        moreover have "n = SIZE_MAX \<or> 0 < n \<and> 512 dvd n"
          using os_call_Some [of g n h] call Some s less.prems(2)
          by (auto simp: sector_script_def wrote_prefix_def)
        moreover have "length bs - k < SIZE_MAX"
          using less.prems(3) by (simp add: SIZE_MAX_def INT64_MAX_def)
        ultimately show ?thesis
          using True by (auto simp: m_def min_def max_def)
      qed
      moreover have "fcontent ?h = file_write off (take (k + m) bs) (fcontent f)"
        using less.prems(2) h True file_write_append [of off "take k bs" ?t "fcontent f"]
        by (simp add: wrote_prefix_def same_file_def t(2) min_def)
      ultimately have "wrote_prefix off bs f (k + m) ?h"
        using m True less.prems(2) h by (auto simp: wrote_prefix_def same_file_def)
      moreover have "length bs - (k + m) < length bs - k"
        using m True by linarith
      ultimately show ?thesis
        using less.hyps [of "k + m" ?h] run less.prems(3) by blast
    qed
  qed
qed

lemma sdb_file_write_full_spec:
  assumes "sdb_file_write_full off bs f = (r, f')" "off + length bs \<le> INT64_MAX"
  obtains k where "wrote_prefix off bs f k f'"
    "r = Inr () \<and> k = length bs \<or> r = Inl SDB_E_IO \<and> may_fail f"
proof -
  have "wrote_prefix off bs f 0 f"
    by (simp add: wrote_prefix_def file_write_def)
  moreover have "sdb_file_write_loop off bs 0 f = (r, f')"
    using assms by (simp add: sdb_file_write_full_def)
  ultimately show ?thesis
    using sdb_file_write_loop_spec [of off bs 0 f r f' f] assms(2) that by blast
qed

lemma sdb_file_sync_spec:
  assumes "sdb_file_sync f = (r, f')"
  shows "fcontent f' = fcontent f" "set (fscript f') \<subseteq> set (fscript f)"
    and "r = Inr () \<and> fdurable f' = fcontent f \<and> fpending f' = []
      \<or> r = Inl SDB_E_IO \<and> may_fail f \<and> same_file f f'"
  using assms os_call_same [of f] os_call_None [of f]
  by (auto simp: sdb_file_sync_def same_file_def split: prod.splits option.splits)

lemma sdb_file_resize_spec:
  assumes "sdb_file_resize sz f = (r, f')" "sz \<le> INT64_MAX"
  shows "fdurable f' = fdurable f" "set (fscript f') \<subseteq> set (fscript f)"
    and "r = Inr () \<and> fcontent f' = file_resize sz (fcontent f)
      \<or> r = Inl SDB_E_IO \<and> may_fail f \<and> same_file f f'"
  using assms os_call_same [of f] os_call_None [of f]
  by (auto simp: sdb_file_resize_def same_file_def split: prod.splits option.splits)

lemma sdb_file_size_spec:
  assumes "sdb_file_size f = (r, f')"
  shows "same_file f f'" "r = Inr (length (fcontent f)) \<or> r = Inl SDB_E_IO \<and> set (fscript f) \<inter> {OS_Fail, OS_Eintr} \<noteq> {}"
  using assms by (auto simp: sdb_file_size_def os_call_once_def same_file_def split: list.splits os_outcome.splits)

lemma fbind_eq_Inr: "fbind m k f = (Inr v, f') \<longleftrightarrow> (\<exists>w g. m f = (Inr w, g) \<and> k w g = (Inr v, f'))"
  by (auto simp: fbind_def split: prod.splits sum.splits)

section \<open>Properties\<close>

text \<open>
  C18: reading a range either returns exactly the bytes of that range, or reports
  \<open>SDB_E_TRUNCATED\<close> when the file is too short; the only other outcome is
  \<open>SDB_E_IO\<close>, and only when a system call fails. Interrupted calls and short
  transfers never change the result, and the file is left as it was.
\<close>

theorem read_full_exact:
  assumes "file_ok f" "off \<le> INT64_MAX"
  shows "let (r, f') = sdb_file_read_full off sz f in
    same_file f f' \<and> (r = file_read off sz (fcontent f) \<or> r = Inl SDB_E_IO \<and> may_fail f)"
  using sdb_file_read_full_spec [OF _ assms] by (auto split: prod.splits)

theorem read_full_exact_witness:
  "let f = \<lparr>fcontent = [1, 2, 3, 4, 5], fdurable = [], fpending = [], fscript = [OS_Eintr, OS_Ok 1, OS_Ok 2]\<rparr>;
       (r, f') = sdb_file_read_full 1 4 f
   in same_file f f' \<and> (r = file_read 1 4 (fcontent f) \<or> r = Inl SDB_E_IO \<and> may_fail f)"
  using read_full_exact [of "\<lparr>fcontent = [1, 2, 3, 4, 5], fdurable = [], fpending = [],
      fscript = [OS_Eintr, OS_Ok 1, OS_Ok 2]\<rparr>" 1 4]
  by (simp add: file_ok_def INT64_MAX_def Let_def)

text \<open>
  C19: writing is all or a prefix. When the call returns \<open>SDB_OK\<close> the whole input
  is in the file at its offset; when it fails, and it fails only because a system
  call did, some prefix of the input is and nothing else changed. A device that
  transfers whole 512-byte sectors leaves a prefix of whole sectors.
\<close>

theorem write_full_prefix:
  assumes "off + length bs \<le> INT64_MAX"
  shows "let (r, f') = sdb_file_write_full off bs f in
    \<exists>k \<le> length bs. fcontent f' = file_write off (take k bs) (fcontent f)
      \<and> fdurable f' = fdurable f
      \<and> (sector_script f \<longrightarrow> k = length bs \<or> 512 dvd k)
      \<and> (r = Inr () \<and> k = length bs \<or> r = Inl SDB_E_IO \<and> may_fail f)"
proof -
  obtain r f' where w: "sdb_file_write_full off bs f = (r, f')"
    by fastforce
  then obtain k where "wrote_prefix off bs f k f'"
      "r = Inr () \<and> k = length bs \<or> r = Inl SDB_E_IO \<and> may_fail f"
    using sdb_file_write_full_spec [OF _ assms] by blast
  with w show ?thesis
    by (auto simp: wrote_prefix_def)
qed

theorem write_full_prefix_witness:
  "let f = \<lparr>fcontent = [9, 9], fdurable = [], fpending = [], fscript = [OS_Ok 2, OS_Fail]\<rparr>;
       (r, f') = sdb_file_write_full 1 [1, 2, 3] f
   in \<exists>k \<le> 3. fcontent f' = file_write 1 (take k [1, 2, 3]) (fcontent f)
      \<and> fdurable f' = fdurable f
      \<and> (sector_script f \<longrightarrow> k = 3 \<or> 512 dvd k)
      \<and> (r = Inr () \<and> k = 3 \<or> r = Inl SDB_E_IO \<and> may_fail f)"
  using write_full_prefix [of 1 "[1, 2, 3]" "\<lparr>fcontent = [9, 9], fdurable = [], fpending = [],
      fscript = [OS_Ok 2, OS_Fail]\<rparr>"]
  by (simp add: INT64_MAX_def Let_def numeral_3_eq_3)

section \<open>A system whose calls all succeed\<close>

lemma healthy_os_call:
  "fscript f = [] \<Longrightarrow> os_call f = (Some SIZE_MAX, f)"
  "fscript f = [] \<Longrightarrow> os_call_once f = (Some SIZE_MAX, f)"
  by (simp_all add: os_call_def os_call_once_def)

lemma healthy_write:
  assumes "fscript f = []" "off + length bs \<le> INT64_MAX"
  shows "\<exists>f'. sdb_file_write_full off bs f = (Inr (), f') \<and> fscript f' = []"
proof -
  obtain r f' where w: "sdb_file_write_full off bs f = (r, f')"
    by fastforce
  obtain k where "wrote_prefix off bs f k f'"
      "r = Inr () \<and> k = length bs \<or> r = Inl SDB_E_IO \<and> may_fail f"
    using sdb_file_write_full_spec [OF w assms(2)] .
  with w assms(1) show ?thesis
    by (auto simp: wrote_prefix_def may_fail_def)
qed

end
