(* ===== verification/Sha256.thy ===== *)
theory Sha256
  imports Codec
begin

text \<open>
  SHA-256, HMAC-SHA-256 and PBKDF2 as \<open>src/sha256.c\<close> computes them with the
  portable block transform. The streaming context is proved to depend only on
  the concatenation of what was fed to it, and the digest to be the chaining of
  the padded message's 64-byte blocks. The round constants are the values of the
  table in the source, written in decimal.
\<close>

section \<open>Model\<close>

definition sdb_sha256_constants :: "u32 list" where
  "sdb_sha256_constants =
    [1116352408, 1899447441, 3049323471, 3921009573, 961987163, 1508970993,
     2453635748, 2870763221, 3624381080, 310598401, 607225278, 1426881987,
     1925078388, 2162078206, 2614888103, 3248222580, 3835390401, 4022224774,
     264347078, 604807628, 770255983, 1249150122, 1555081692, 1996064986,
     2554220882, 2821834349, 2952996808, 3210313671, 3336571891, 3584528711,
     113926993, 338241895, 666307205, 773529912, 1294757372, 1396182291,
     1695183700, 1986661051, 2177026350, 2456956037, 2730485921, 2820302411,
     3259730800, 3345764771, 3516065817, 3600352804, 4094571909, 275423344,
     430227734, 506948616, 659060556, 883997877, 958139571, 1322822218,
     1537002063, 1747873779, 1955562222, 2024104815, 2227730452, 2361852424,
     2428436474, 2756734187, 3204031479, 3329325298]"

definition sdb_rotr32 :: "u32 \<Rightarrow> nat \<Rightarrow> u32" where
  "sdb_rotr32 v amount = drop_bit amount v OR push_bit (32 - amount) v"

definition sdb_read_u32_be :: "bytes \<Rightarrow> nat \<Rightarrow> u32" where
  "sdb_read_u32_be input p =
    push_bit 24 (ucast (input ! p)) OR push_bit 16 (ucast (input ! (p + 1)))
    OR push_bit 8 (ucast (input ! (p + 2))) OR ucast (input ! (p + 3))"

definition sdb_write_u32_be :: "u32 \<Rightarrow> bytes" where
  "sdb_write_u32_be v = [ucast (drop_bit 24 v), ucast (drop_bit 16 v), ucast (drop_bit 8 v), ucast v]"

record sdb_sha256_context =
  sha_state :: "u32 list"
  bit_count :: u64
  buffer :: bytes
  buffered :: nat

definition sha_schedule :: "bytes \<Rightarrow> u32 list" where
  "sha_schedule block =
    fold (\<lambda>index schedule.
        let s0 = sdb_rotr32 (schedule ! (index - 15)) 7 XOR sdb_rotr32 (schedule ! (index - 15)) 18
                 XOR drop_bit 3 (schedule ! (index - 15));
            s1 = sdb_rotr32 (schedule ! (index - 2)) 17 XOR sdb_rotr32 (schedule ! (index - 2)) 19
                 XOR drop_bit 10 (schedule ! (index - 2))
        in schedule @ [schedule ! (index - 16) + s0 + schedule ! (index - 7) + s1])
      [16..<64] (map (\<lambda>index. sdb_read_u32_be block (index * 4)) [0..<16])"

type_synonym sha_vars = "u32 \<times> u32 \<times> u32 \<times> u32 \<times> u32 \<times> u32 \<times> u32 \<times> u32"

definition sha_round :: "u32 list \<Rightarrow> nat \<Rightarrow> sha_vars \<Rightarrow> sha_vars" where
  "sha_round schedule index = (\<lambda>(a, b, c, d, e, f, g, h).
    let sum1 = sdb_rotr32 e 6 XOR sdb_rotr32 e 11 XOR sdb_rotr32 e 25;
        chosen = (e AND f) XOR (NOT e AND g);
        temporary1 = h + sum1 + chosen + sdb_sha256_constants ! index + schedule ! index;
        sum0 = sdb_rotr32 a 2 XOR sdb_rotr32 a 13 XOR sdb_rotr32 a 22;
        majority = (a AND b) XOR (a AND c) XOR (b AND c);
        temporary2 = sum0 + majority
    in (temporary1 + temporary2, a, b, c, d + temporary1, e, f, g))"

definition sdb_sha256_transform_scalar :: "u32 list \<Rightarrow> bytes \<Rightarrow> u32 list" where
  "sdb_sha256_transform_scalar state block =
    (let schedule = sha_schedule block;
         (a, b, c, d, e, f, g, h) =
           fold (sha_round schedule) [0..<64]
             (state ! 0, state ! 1, state ! 2, state ! 3, state ! 4, state ! 5, state ! 6, state ! 7)
     in [state ! 0 + a, state ! 1 + b, state ! 2 + c, state ! 3 + d,
         state ! 4 + e, state ! 5 + f, state ! 6 + g, state ! 7 + h])"

definition sdb_sha256_init :: sdb_sha256_context where
  "sdb_sha256_init =
    \<lparr> sha_state = [0x6a09e667, 0xbb67ae85, 0x3c6ef372, 0xa54ff53a,
                   0x510e527f, 0x9b05688c, 0x1f83d9ab, 0x5be0cd19],
      bit_count = 0, buffer = zeros 64, buffered = 0 \<rparr>"

text \<open>
  The loop makes progress because \<open>buffered\<close> stays below 64; the second disjunct
  of the exit test covers contexts that no sequence of calls produces.
\<close>

function sdb_sha256_update :: "sdb_sha256_context \<Rightarrow> bytes \<Rightarrow> sdb_sha256_context" where
  "sdb_sha256_update context data =
    (if length data = 0 \<or> buffered context \<ge> 64 then context
     else
       let available = 64 - buffered context;
           taken = (if length data < available then length data else available);
           context = context\<lparr>buffer := blit (buffered context) (take taken data) (buffer context),
                             buffered := buffered context + taken,
                             bit_count := bit_count context + word_of_nat taken * 8\<rparr>;
           context = (if buffered context = 64
                      then context\<lparr>sha_state := sdb_sha256_transform_scalar (sha_state context) (buffer context),
                                   buffered := 0\<rparr>
                      else context)
       in sdb_sha256_update context (drop taken data))"
  by pat_completeness auto
termination
  by (relation "measure (\<lambda>(context, data). length data)") (auto simp: Let_def)

declare sdb_sha256_update.simps [simp del]

definition sdb_sha256_final :: "sdb_sha256_context \<Rightarrow> bytes" where
  "sdb_sha256_final context =
    (let count = bit_count context;
         context = context\<lparr>buffer := (buffer context)[buffered context := 0x80],
                           buffered := buffered context + 1\<rparr>;
         context = (if buffered context > 56
                    then context\<lparr>sha_state := sdb_sha256_transform_scalar (sha_state context)
                                   (blit (buffered context) (zeros (64 - buffered context)) (buffer context)),
                                 buffer := blit (buffered context) (zeros (64 - buffered context)) (buffer context),
                                 buffered := 0\<rparr>
                    else context);
         block = blit (buffered context) (zeros (56 - buffered context)) (buffer context);
         block = fold (\<lambda>index block. block[63 - index := ucast (drop_bit (8 * index) count)]) [0..<8] block;
         state = sdb_sha256_transform_scalar (sha_state context) block
     in concat (map (\<lambda>index. sdb_write_u32_be (state ! index)) [0..<8]))"

definition sdb_constant_time_equal :: "bytes \<Rightarrow> bytes \<Rightarrow> nat \<Rightarrow> bool" where
  "sdb_constant_time_equal left right n \<longleftrightarrow>
    fold (\<lambda>index difference. difference OR (left ! index XOR right ! index)) [0..<n] 0 = 0"

definition sdb_sha256 :: "bytes \<Rightarrow> bytes" where
  "sdb_sha256 data =
    (let context = sdb_sha256_init;
         context = (if length data \<noteq> 0 then sdb_sha256_update context data else context)
     in sdb_sha256_final context)"

definition sdb_hmac_sha256 :: "bytes \<Rightarrow> bytes \<Rightarrow> bytes" where
  "sdb_hmac_sha256 key data =
    (let normalized = zeros 64;
         normalized = (if length key > 64 then blit 0 (sdb_sha256 key) normalized
                       else if length key \<noteq> 0 then blit 0 key normalized else normalized);
         context = sdb_sha256_update sdb_sha256_init (map (\<lambda>b. b XOR 0x36) normalized);
         context = (if length data \<noteq> 0 then sdb_sha256_update context data else context);
         inner_hash = sdb_sha256_final context;
         context = sdb_sha256_update sdb_sha256_init (map (\<lambda>b. b XOR 0x5c) normalized)
     in sdb_sha256_final (sdb_sha256_update context inner_hash))"

text \<open>
  One PBKDF2 block: the first hash is of the salt and the block number, each
  further iteration hashes the previous one and is added to the result.
\<close>

definition pbkdf2_block :: "bytes \<Rightarrow> bytes \<Rightarrow> u32 \<Rightarrow> u32 \<Rightarrow> bytes" where
  "pbkdf2_block password salt iterations block =
    (let message = salt @ [ucast (drop_bit 24 block), ucast (drop_bit 16 block), ucast (drop_bit 8 block), ucast block];
         u = sdb_hmac_sha256 password message
     in snd (fold (\<lambda>_ (u, result).
               let u = sdb_hmac_sha256 password u in (u, map2 (XOR) result u))
             [1..<unat iterations] (u, u)))"

function pbkdf2_loop :: "bytes \<Rightarrow> bytes \<Rightarrow> u32 \<Rightarrow> u32 \<Rightarrow> nat \<Rightarrow> bytes \<Rightarrow> bytes result" where
  "pbkdf2_loop password salt iterations block output_size out =
    (if output_size = 0 then Inr out
     else
       let taken = (if output_size < 32 then output_size else 32);
           out = out @ take taken (pbkdf2_block password salt iterations block);
           output_size = output_size - taken
       in if block = - 1 \<and> output_size \<noteq> 0 then Inl SDB_E_OVERFLOW
          else pbkdf2_loop password salt iterations (block + 1) output_size out)"
  by pat_completeness auto
termination
  by (relation "measure (\<lambda>(password, salt, iterations, block, output_size, out). output_size)")
    (auto simp: Let_def split: if_splits)

declare pbkdf2_loop.simps [simp del]

definition sdb_pbkdf2_hmac_sha256 ::
    "(nat \<Rightarrow> bool) \<Rightarrow> bytes \<Rightarrow> bytes \<Rightarrow> u32 \<Rightarrow> nat \<Rightarrow> bytes result" where
  "sdb_pbkdf2_hmac_sha256 malloc_ok password salt iterations output_size =
    (if iterations = 0 \<or> length salt > SIZE_MAX - 4 then Inl SDB_E_INVALID_ARGUMENT
     else if \<not> malloc_ok (length salt + 4) then Inl SDB_E_OUT_OF_MEMORY
     else pbkdf2_loop password salt iterations 1 output_size [])"

section \<open>Absorbing bytes one at a time\<close>

definition sha_absorb :: "byte \<Rightarrow> sdb_sha256_context \<Rightarrow> sdb_sha256_context" where
  "sha_absorb b c =
    (let c = c\<lparr>buffer := (buffer c)[buffered c := b], buffered := buffered c + 1,
               bit_count := bit_count c + 8\<rparr>
     in if buffered c = 64
        then c\<lparr>sha_state := sdb_sha256_transform_scalar (sha_state c) (buffer c), buffered := 0\<rparr>
        else c)"

definition sha_inv :: "sdb_sha256_context \<Rightarrow> bool" where
  "sha_inv c \<longleftrightarrow> length (buffer c) = 64 \<and> buffered c < 64 \<and> length (sha_state c) = 8"

lemma length_transform [simp]: "length (sdb_sha256_transform_scalar s b) = 8"
  by (simp add: sdb_sha256_transform_scalar_def Let_def split: prod.splits)

lemma sha_inv_init: "sha_inv sdb_sha256_init"
  by (simp add: sha_inv_def sdb_sha256_init_def)

lemma sha_inv_absorb: "sha_inv c \<Longrightarrow> sha_inv (sha_absorb b c)"
  by (auto simp: sha_inv_def sha_absorb_def Let_def)

lemma sha_inv_fold: "sha_inv c \<Longrightarrow> sha_inv (fold sha_absorb xs c)"
  by (induction xs arbitrary: c) (simp_all add: sha_inv_absorb)

lemma fold_absorb_partial:
  assumes "sha_inv c" "buffered c + length xs < 64"
  shows "fold sha_absorb xs c =
    c\<lparr>buffer := blit (buffered c) xs (buffer c), buffered := buffered c + length xs,
      bit_count := bit_count c + word_of_nat (length xs) * 8\<rparr>"
  using assms
proof (induction xs rule: rev_induct)
  case (snoc x xs)
  have "blit (buffered c + length xs) [x] (blit (buffered c) xs (buffer c)) = blit (buffered c) (xs @ [x]) (buffer c)"
    using snoc.prems by (intro blit_append) (simp add: sha_inv_def)
  with snoc show ?case
    by (simp add: sha_absorb_def sha_inv_def list_update_blit Let_def distrib_right)
qed simp

lemma fold_absorb_full:
  assumes "sha_inv c" "buffered c + length xs = 64"
  shows "fold sha_absorb xs c =
    c\<lparr>buffer := blit (buffered c) xs (buffer c),
      bit_count := bit_count c + word_of_nat (length xs) * 8,
      sha_state := sdb_sha256_transform_scalar (sha_state c) (blit (buffered c) xs (buffer c)),
      buffered := 0\<rparr>"
proof (cases xs rule: rev_cases)
  case (snoc ys y)
  have "blit (buffered c + length ys) [y] (blit (buffered c) ys (buffer c)) = blit (buffered c) (ys @ [y]) (buffer c)"
    using assms snoc by (intro blit_append) (simp add: sha_inv_def)
  with snoc assms fold_absorb_partial [of c ys] show ?thesis
    by (simp add: sha_absorb_def sha_inv_def list_update_blit Let_def distrib_right)
qed (use assms in \<open>simp add: sha_inv_def\<close>)

lemma sha256_update_absorb: "sha_inv c \<Longrightarrow> sdb_sha256_update c data = fold sha_absorb data c"
proof (induction "length data" arbitrary: c data rule: less_induct)
  case less
  show ?case
  proof (cases "data = []")
    case False
    define n where "n = (if length data < 64 - buffered c then length data else 64 - buffered c)"
    have n: "0 < n" "n \<le> length data" "buffered c + n \<le> 64"
      using False less.prems by (auto simp: n_def sha_inv_def)
    let ?c = "fold sha_absorb (take n data) c"
    have "sdb_sha256_update c data = sdb_sha256_update ?c (drop n data)"
    proof (cases "buffered c + n = 64")
      case True
      with n less.prems False fold_absorb_full [of c "take n data"] show ?thesis
        by (simp add: sdb_sha256_update.simps [of c data] Let_def sha_inv_def min_absorb2 flip: n_def)
    next
      case part: False
      with n less.prems False fold_absorb_partial [of c "take n data"] show ?thesis
        by (simp add: sdb_sha256_update.simps [of c data] Let_def sha_inv_def min_absorb2 flip: n_def)
    qed
    also have "\<dots> = fold sha_absorb (drop n data) ?c"
      using n False less.prems by (intro less.hyps sha_inv_fold) auto
    finally show ?thesis
      by (metis append_take_drop_id comp_apply fold_append)
  qed (simp add: sdb_sha256_update.simps)
qed

section \<open>The digest as a chain of padded blocks\<close>

function sha_chain :: "u32 list \<Rightarrow> bytes \<Rightarrow> u32 list" where
  "sha_chain s bs =
    (if length bs < 64 then s else sha_chain (sdb_sha256_transform_scalar s (take 64 bs)) (drop 64 bs))"
  by pat_completeness auto
termination
  by (relation "measure (\<lambda>(s, bs). length bs)") auto

declare sha_chain.simps [simp del]

definition be64 :: "u64 \<Rightarrow> bytes" where
  "be64 n = map (\<lambda>i. ucast (drop_bit (8 * (7 - i)) n)) [0..<8]"

definition sha_pad :: "bytes \<Rightarrow> bytes" where
  "sha_pad data = data @ [0x80] @ zeros ((119 - length data mod 64) mod 64)
    @ be64 (word_of_nat (length data) * 8)"

definition sha_digest :: "u32 list \<Rightarrow> bytes" where
  "sha_digest state = concat (map (\<lambda>i. sdb_write_u32_be (state ! i)) [0..<8])"

lemma sha_chain_append:
  "64 dvd length xs \<Longrightarrow> sha_chain s (xs @ ys) = sha_chain (sha_chain s xs) ys"
proof (induction "length xs" arbitrary: s xs rule: less_induct)
  case less
  show ?case
  proof (cases "xs = []")
    case False
    then have "64 \<le> length xs"
      using less.prems by (simp add: dvd_imp_le)
    moreover have "64 dvd length (drop 64 xs)"
      using less.prems by (simp add: dvd_diff_nat)
    ultimately show ?thesis
      using less.hyps [of "drop 64 xs" "sdb_sha256_transform_scalar s (take 64 xs)"]
      by (simp add: sha_chain.simps [of s "xs @ ys"] sha_chain.simps [of s xs])
  qed (simp add: sha_chain.simps [of s "[]"])
qed

lemma sha_chain_block: "length b = 64 \<Longrightarrow> sha_chain s b = sdb_sha256_transform_scalar s b"
  by (simp add: sha_chain.simps [of s b]) (simp add: sha_chain.simps)

text \<open>What a context that absorbed \<open>data\<close> holds.\<close>

definition sha_absorbed :: "bytes \<Rightarrow> sdb_sha256_context \<Rightarrow> bool" where
  "sha_absorbed data c \<longleftrightarrow> sha_inv c \<and> (\<exists>full rest. data = full @ rest \<and> 64 dvd length full
    \<and> sha_state c = sha_chain (sha_state sdb_sha256_init) full
    \<and> buffered c = length rest \<and> take (length rest) (buffer c) = rest
    \<and> bit_count c = word_of_nat (length data) * 8)"

lemma sha_absorbed_fold: "sha_absorbed data (fold sha_absorb data sdb_sha256_init)"
proof (induction data rule: rev_induct)
  case Nil
  show ?case
    by (simp add: sha_absorbed_def sha_inv_init) (simp add: sdb_sha256_init_def sha_chain.simps)
next
  case (snoc b data)
  let ?c = "fold sha_absorb data sdb_sha256_init"
  from snoc obtain full rest where i: "sha_inv ?c" and d: "data = full @ rest" "64 dvd length full"
    and s: "sha_state ?c = sha_chain (sha_state sdb_sha256_init) full"
    and r: "buffered ?c = length rest" "take (length rest) (buffer ?c) = rest"
    and n: "bit_count ?c = word_of_nat (length data) * 8"
    unfolding sha_absorbed_def by blast
  let ?buf = "(buffer ?c)[length rest := b]"
  have buf: "take (Suc (length rest)) ?buf = rest @ [b]"
    using i r by (simp add: sha_inv_def take_Suc_conv_app_nth)
  have n': "bit_count ?c + 8 = word_of_nat (length (data @ [b])) * 8"
    by (simp add: n distrib_right)
  show ?case
  proof (cases "length rest = 63")
    case True
    then have full: "?buf = rest @ [b]"
      using buf i by (simp add: sha_inv_def)
    have "sha_chain (sha_state sdb_sha256_init) (full @ rest @ [b]) =
        sdb_sha256_transform_scalar (sha_state ?c) (rest @ [b])"
      using True d(2) by (simp add: sha_chain_append sha_chain_block s)
    moreover have "64 dvd length (full @ rest @ [b])"
      using True d(2) by (simp add: dvd_add)
    ultimately show ?thesis
      unfolding sha_absorbed_def using i r(1) d(1) n' True full sha_inv_absorb [OF i, of b]
      by (intro conjI exI [of _ "full @ rest @ [b]"] exI [of _ "[]"])
        (simp_all add: sha_absorb_def Let_def)
  next
    case False
    then show ?thesis
      unfolding sha_absorbed_def using i r(1) d s n' buf sha_inv_absorb [OF i, of b]
      by (intro conjI exI [of _ full] exI [of _ "rest @ [b]"])
        (auto simp: sha_absorb_def Let_def)
  qed
qed

lemma length_be64 [simp]: "length (be64 n) = 8"
  by (simp add: be64_def)

lemma write_bit_count:
  assumes "length block = 64"
  shows "fold (\<lambda>index block. block[63 - index := ucast (drop_bit (8 * index) count)]) [0..<8] block
    = take 56 block @ be64 count"
proof -
  obtain suf where suf: "drop 56 block = suf" "length suf = 8"
    using assms by simp
  then obtain b0 b1 b2 b3 b4 b5 b6 b7 where "suf = [b0, b1, b2, b3, b4, b5, b6, b7]"
    by (auto simp: length_Suc_conv eval_nat_numeral)
  with suf have b: "drop 56 block = [b0, b1, b2, b3, b4, b5, b6, b7]"
    by simp
  have pre: "length (take 56 block) = 56"
    using assms by simp
  have "block = take 56 block @ [b0, b1, b2, b3, b4, b5, b6, b7]"
    using b by (metis append_take_drop_id)
  then obtain pre where "block = pre @ [b0, b1, b2, b3, b4, b5, b6, b7]" "length pre = 56"
    using pre by blast
  then show ?thesis
    by (simp add: be64_def upt_rec list_update_append)
qed

lemma marked_buffer:
  assumes "length buf = 64" "length rest < 64" "take (length rest) buf = rest" "k + length rest < 64"
  shows "blit (length rest + 1) (zeros k) (buf[length rest := b]) =
    rest @ [b] @ zeros k @ drop (length rest + 1 + k) buf"
proof -
  have "drop (length rest) buf = buf ! length rest # drop (Suc (length rest)) buf"
    using assms by (simp add: Cons_nth_drop_Suc)
  then have "buf = rest @ buf ! length rest # drop (Suc (length rest)) buf"
    using assms(3) by (metis append_take_drop_id)
  then obtain x t where buf: "buf = rest @ x # t"
    by blast
  then show ?thesis
    using assms by (simp add: layout_simps list_update_append) (simp add: blit_def)
qed

lemma sha256_final_chain:
  assumes "sha_absorbed data c"
  shows "sdb_sha256_final c = sha_digest (sha_chain (sha_state sdb_sha256_init) (sha_pad data))"
proof -
  from assms obtain full rest where i: "sha_inv c" and d: "data = full @ rest" "64 dvd length full"
    and s: "sha_state c = sha_chain (sha_state sdb_sha256_init) full"
    and r: "buffered c = length rest" "take (length rest) (buffer c) = rest"
    and n: "bit_count c = word_of_nat (length data) * 8"
    unfolding sha_absorbed_def by blast
  have len: "length (buffer c) = 64" "length rest < 64"
    using i r by (auto simp: sha_inv_def)
  let ?count = "word_of_nat (length data) * 8 :: u64"
  let ?pad = "zeros ((119 - length rest) mod 64)"
  have m: "length data mod 64 = length rest"
    using d len by (auto simp: dvd_def)
  have chain: "sha_chain (sha_state sdb_sha256_init) (sha_pad data) =
      sha_chain (sha_state c) (rest @ [0x80] @ ?pad @ be64 ?count)"
    using sha_chain_append [OF d(2)] by (simp add: sha_pad_def m s) (simp add: d(1))
  show ?thesis
  proof (cases "length rest < 56")
    case True
    have "(119 - length rest) mod 64 = 55 - length rest"
      using True by (simp add: mod_if) 
    moreover have "blit (length rest + 1) (zeros (55 - length rest)) ((buffer c)[length rest := 0x80]) =
        rest @ [0x80] @ zeros (55 - length rest) @ drop 56 (buffer c)"
      using marked_buffer [OF len r(2), of "55 - length rest"] True by simp
    ultimately show ?thesis
      using True len r(1) n unfolding chain sdb_sha256_final_def Let_def sha_digest_def
      by (simp add: write_bit_count sha_chain_block take_Cons')
  next
    case False
    have z: "?pad = zeros (63 - length rest) @ zeros 56"
      using False len by (simp add: mod_if zeros_append)
    have b1: "blit (length rest + 1) (zeros (63 - length rest)) ((buffer c)[length rest := 0x80]) =
        rest @ [0x80] @ zeros (63 - length rest)"
      using marked_buffer [OF len r(2), of "63 - length rest"] False len by simp
    have "sha_chain (sha_state c) ((rest @ [0x80] @ zeros (63 - length rest)) @ zeros 56 @ be64 ?count) =
        sdb_sha256_transform_scalar (sdb_sha256_transform_scalar (sha_state c)
          (rest @ [0x80] @ zeros (63 - length rest))) (zeros 56 @ be64 ?count)"
      using len by (subst sha_chain_append) (simp_all add: sha_chain_block)
    moreover have "take 56 (blit 0 (zeros 56) (rest @ [0x80] @ zeros (63 - length rest))) = zeros 56"
      by (simp add: blit_def)
    ultimately show ?thesis
      using False len r(1) n b1 unfolding chain z sdb_sha256_final_def Let_def sha_digest_def
      by (simp add: write_bit_count)
  qed
qed

lemma length_write_u32_be [simp]: "length (sdb_write_u32_be v) = 4"
  by (simp add: sdb_write_u32_be_def)

lemma length_sha_digest [simp]: "length (sha_digest s) = 32"
  by (simp add: sha_digest_def length_concat comp_def upt_rec)

lemma sha256_update_absorbed: "sdb_sha256_update sdb_sha256_init data = fold sha_absorb data sdb_sha256_init"
  by (rule sha256_update_absorb) (rule sha_inv_init)

lemma sha256_chain: "sdb_sha256 data = sha_digest (sha_chain (sha_state sdb_sha256_init) (sha_pad data))"
proof -
  have "sdb_sha256 data = sdb_sha256_final (fold sha_absorb data sdb_sha256_init)"
    by (simp add: sdb_sha256_def sha256_update_absorbed)
  then show ?thesis
    using sha256_final_chain [OF sha_absorbed_fold] by simp
qed

lemma length_sha256 [simp]: "length (sdb_sha256 data) = 32"
  by (simp add: sha256_chain)

lemma sha256_update_update:
  assumes "sha_inv c"
  shows "sdb_sha256_update (sdb_sha256_update c xs) ys = sdb_sha256_update c (xs @ ys)"
  using assms by (simp add: sha256_update_absorb sha_inv_fold)

lemma sha256_final_update: "sdb_sha256_final (sdb_sha256_update sdb_sha256_init data) = sdb_sha256 data"
proof (cases "data = []")
  case True
  then show ?thesis
    by (simp add: sdb_sha256_def sdb_sha256_update.simps)
qed (simp add: sdb_sha256_def)

definition hmac_key :: "bytes \<Rightarrow> bytes" where
  "hmac_key key = (let k = (if length key > 64 then sdb_sha256 key else key) in k @ zeros (64 - length k))"

lemma hmac_sha256_nested:
  "sdb_hmac_sha256 key data =
    sdb_sha256 (map (\<lambda>b. b XOR 0x5c) (hmac_key key)
      @ sdb_sha256 (map (\<lambda>b. b XOR 0x36) (hmac_key key) @ data))"
proof -
  let ?n = "if length key > 64 then blit 0 (sdb_sha256 key) (zeros 64)
            else if length key \<noteq> 0 then blit 0 key (zeros 64) else zeros 64"
  have n: "?n = hmac_key key"
    by (auto simp: hmac_key_def blit_def zeros_def Let_def)
  have skip: "(if length data \<noteq> 0 then sdb_sha256_update c data else c) = sdb_sha256_update c data" for c
    by (simp add: sdb_sha256_update.simps [of c "[]"])
  show ?thesis
    unfolding sdb_hmac_sha256_def Let_def n skip
    by (simp add: sha256_update_update sha_inv_init sha256_final_update)
qed

lemma length_hmac_sha256 [simp]: "length (sdb_hmac_sha256 key data) = 32"
  by (simp add: hmac_sha256_nested)

lemma fold_or_xor_zero:
  "fold (\<lambda>i d. d OR (l ! i XOR r ! i)) [0..<n] 0 = (0 :: byte) \<longleftrightarrow> (\<forall>i < n. l ! i = r ! i)"
  by (induction n) (auto simp: or_eq_0_iff less_Suc_eq xor_0_iff)

lemma constant_time_equal_iff:
  "n \<le> length l \<Longrightarrow> n \<le> length r \<Longrightarrow> sdb_constant_time_equal l r n \<longleftrightarrow> take n l = take n r"
  by (simp add: sdb_constant_time_equal_def fold_or_xor_zero list_eq_iff_nth_eq)

lemma length_pbkdf2_block [simp]: "length (pbkdf2_block password salt iterations block) = 32"
proof -
  have "length u = 32 \<Longrightarrow> length r = 32 \<Longrightarrow>
      length (snd (fold (\<lambda>_ (u, result). let u = sdb_hmac_sha256 password u in (u, map2 (XOR) result u)) xs (u, r))) = 32"
    for xs :: "nat list" and u r
    by (induction xs arbitrary: u r) (simp_all add: Let_def)
  then show ?thesis
    by (simp add: pbkdf2_block_def Let_def)
qed

lemma pbkdf2_loop_result:
  assumes "unat block + (n + 31) div 32 \<le> 2 ^ 32"
  shows "pbkdf2_loop password salt iterations block n out =
    Inr (out @ take n (concat (map (\<lambda>i. pbkdf2_block password salt iterations (block + word_of_nat i))
      [0..<(n + 31) div 32])))"
  using assms
proof (induction n arbitrary: block out rule: less_induct)
  case (less n)
  show ?case
  proof (cases "n = 0")
    case False
    let ?b = "pbkdf2_block password salt iterations"
    let ?t = "if n < 32 then n else 32"
    have k: "(n + 31) div 32 = Suc ((n - ?t + 31) div 32)"
      using False by (auto simp: div_eq_0_iff Suc_diff_le le_div_geq)
    have over: "\<not> (block = - 1 \<and> n - ?t \<noteq> 0)"
    proof
      assume "block = - 1 \<and> n - ?t \<noteq> 0"
      then have "unat block = 2 ^ 32 - 1" "32 < n"
        by (auto simp: unsigned_minus_1_eq_mask mask_eq_exp_minus_1 split: if_splits)
      then show False
        using less.prems by simp
    qed
    have next_ok: "unat (block + 1) + (n - ?t + 31) div 32 \<le> 2 ^ 32"
    proof (cases "block = - 1")
      case True
      then have "n - ?t = 0"
        using over by blast
      then show ?thesis
        using True by simp
    next
      case False
      then have "unat (block + 1) = unat block + 1"
        by (metis add.inverse_inverse add_eq_0_iff unatSuc Suc_eq_plus1 add.commute)
      then show ?thesis
        using less.prems k by simp
    qed
    have shift: "concat (map (\<lambda>i. ?b (block + word_of_nat i)) [0..<(n + 31) div 32]) =
        ?b block @ concat (map (\<lambda>i. ?b (block + 1 + word_of_nat i)) [0..<(n - ?t + 31) div 32])"
      unfolding k by (simp add: upt_conv_Cons map_Suc_upt [symmetric] comp_def add.assoc del: upt_Suc)
    have "pbkdf2_loop password salt iterations block n out =
        pbkdf2_loop password salt iterations (block + 1) (n - ?t) (out @ take ?t (?b block))"
      using False over by (cases "n < 32") (auto simp: pbkdf2_loop.simps [of _ _ _ block n] Let_def)
    also have "\<dots> = Inr (out @ take ?t (?b block) @ take (n - ?t)
        (concat (map (\<lambda>i. ?b (block + 1 + word_of_nat i)) [0..<(n - ?t + 31) div 32])))"
      using less.IH [of "n - ?t" "block + 1" "out @ take ?t (?b block)"] next_ok False by simp
    finally show ?thesis
      unfolding shift by (auto simp: min_def)
  qed (simp add: pbkdf2_loop.simps)
qed

section \<open>Properties\<close>

text \<open>
  C17: the digest of the streaming implementation is the chain of the block
  transform over the padded message (a one bit, zeros up to 56 modulo 64 and the
  64-bit big-endian bit length), for every message.
\<close>

theorem sha256_is_padded_chain:
  "sdb_sha256 data = sha_digest (sha_chain (sha_state sdb_sha256_init) (sha_pad data))"
  by (rule sha256_chain)

text \<open>
  How a message is cut into update calls does not matter. Feeding any list of
  pieces to a fresh context gives the digest of their concatenation.
\<close>

theorem sha256_streaming:
  "sdb_sha256_final (fold (\<lambda>piece c. sdb_sha256_update c piece) pieces sdb_sha256_init) = sdb_sha256 (concat pieces)"
proof -
  have "sha_inv c \<Longrightarrow> fold (\<lambda>piece c. sdb_sha256_update c piece) pieces c = sdb_sha256_update c (concat pieces)" for c
  proof (induction pieces arbitrary: c)
    case Nil
    then show ?case
      by (simp add: sdb_sha256_update.simps)
  next
    case (Cons p pieces)
    then show ?case
      using sha256_update_update [of c p "concat pieces"]
      by (simp add: sha256_update_absorb sha_inv_fold)
  qed
  then show ?thesis
    by (simp add: sha_inv_init sha256_final_update)
qed

text \<open>
  \<open>sdb_hmac_sha256\<close> is the nested keyed hash of RFC 2104, keys longer than a
  block being hashed first, and always returns 32 bytes.
\<close>

theorem hmac_sha256_rfc2104:
  "sdb_hmac_sha256 key data =
    sdb_sha256 (map (\<lambda>b. b XOR 0x5c) (hmac_key key)
      @ sdb_sha256 (map (\<lambda>b. b XOR 0x36) (hmac_key key) @ data))
   \<and> length (sdb_hmac_sha256 key data) = 32"
  using hmac_sha256_nested [of key data] by simp

text \<open>
  key derivation returns exactly the requested number of bytes, the prefix of
  the PBKDF2 blocks numbered from one, for every request of fewer than
  \<open>2 ^ 32\<close> blocks.
\<close>

theorem pbkdf2_output:
  assumes "iterations \<noteq> 0" "length salt \<le> SIZE_MAX - 4" "malloc_ok (length salt + 4)"
    and "(n + 31) div 32 < 2 ^ 32"
  shows "\<exists>out. sdb_pbkdf2_hmac_sha256 malloc_ok password salt iterations n = Inr out \<and> length out = n
    \<and> out = take n (concat (map (\<lambda>i. pbkdf2_block password salt iterations (1 + word_of_nat i))
        [0..<(n + 31) div 32]))"
proof -
  have "n \<le> (n + 31) div 32 * 32"
    by simp
  then have "length (concat (map (\<lambda>i. pbkdf2_block password salt iterations (1 + word_of_nat i)) [0..<(n + 31) div 32])) \<ge> n"
    by (simp add: length_concat comp_def sum_list_triv)
  then show ?thesis
    using assms pbkdf2_loop_result [of 1 n password salt iterations "[]"]
    by (simp add: sdb_pbkdf2_hmac_sha256_def)
qed

theorem pbkdf2_output_witness:
  "\<exists>out. sdb_pbkdf2_hmac_sha256 (\<lambda>_. True) [1] [2, 3] 600000 40 = Inr out \<and> length out = 40
    \<and> out = take 40 (concat (map (\<lambda>i. pbkdf2_block [1] [2, 3] 600000 (1 + word_of_nat i)) [0..<2]))"
  using pbkdf2_output [of 600000 "[2, 3]" "\<lambda>_. True" 40 "[1]"] by (simp add: SIZE_MAX_def)

end
