(* ===== verification/Superblock_Store.thy ===== *)
theory Superblock_Store
  imports Superblock File Sha256
begin

text \<open>
  The two mirrored superblock slots of \<open>src/superblock_store.c\<close>: reading picks the
  newest mirror that decodes (and, for authenticated stores, whose keyed tag
  matches), updating rewrites the older mirror first and syncs in between. The
  main result is that an update interrupted anywhere leaves the old or the new
  superblock readable.
\<close>

section \<open>Model\<close>

definition SDB_SUPERBLOCK_AUTH_TAG_OFFSET :: nat where
  "SDB_SUPERBLOCK_AUTH_TAG_OFFSET = 160"

definition SDB_SUPERBLOCK_AUTH_PADDING_OFFSET :: nat where
  "SDB_SUPERBLOCK_AUTH_PADDING_OFFSET = 192"

record sdb_superblock_read_result =
  superblock :: sdb_superblock_v1
  valid_mirror_count :: nat
  selected_slot :: nat
  format_version :: u16

definition sdb_slot_offset :: "nat \<Rightarrow> nat" where
  "sdb_slot_offset slot = slot * SDB_SUPERBLOCK_SLOT_SIZE"

definition sdb_encode_slot :: "sdb_superblock_v1 \<Rightarrow> bytes option \<Rightarrow> bytes result" where
  "sdb_encode_slot sb data_key =
    rbind (sdb_superblock_v1_encode sb SDB_SUPERBLOCK_SLOT_SIZE) (\<lambda>slot.
      if flags sb AND SDB_FLAG_HEADER_AUTH \<noteq> 0 then
        (case data_key of
           None \<Rightarrow> Inl SDB_E_INVALID_ARGUMENT
         | Some key \<Rightarrow>
             Inr (blit SDB_SUPERBLOCK_AUTH_TAG_OFFSET
                   (sdb_hmac_sha256 key (take SDB_SUPERBLOCK_HEADER_SIZE slot)) slot))
      else Inr slot)"

definition sdb_superblocks_equal :: "sdb_superblock_v1 \<Rightarrow> sdb_superblock_v1 \<Rightarrow> bool" where
  "sdb_superblocks_equal left right \<longleftrightarrow>
    page_size left = page_size right \<and> flags left = flags right
    \<and> generation left = generation right \<and> checkpoint_lsn left = checkpoint_lsn right
    \<and> root_page left = root_page right \<and> freelist_page left = freelist_page right
    \<and> next_page_id left = next_page_id right \<and> key_wrap_id left = key_wrap_id right
    \<and> kdf_iterations left = kdf_iterations right \<and> salt left = salt right
    \<and> file_id left = file_id right \<and> wrapped_key left = wrapped_key right
    \<and> key_wrap_tag left = key_wrap_tag right"

definition sdb_slot_padding_is_zero :: "bytes \<Rightarrow> sdb_superblock_v1 \<Rightarrow> bool" where
  "sdb_slot_padding_is_zero slot sb =
    (let start = (if flags sb AND SDB_FLAG_HEADER_AUTH \<noteq> 0 then SDB_SUPERBLOCK_AUTH_PADDING_OFFSET
                  else SDB_SUPERBLOCK_HEADER_SIZE)
     in list_all (\<lambda>b. b = 0) (drop start slot))"

text \<open>One round of the loading loop: the slot's bytes and superblock if it is valid.\<close>

definition load_slot :: "nat \<Rightarrow> sdb_file \<Rightarrow> (bytes \<times> sdb_superblock_v1) option \<times> bool \<times> sdb_file" where
  "load_slot slot f =
    (case sdb_file_read_full (sdb_slot_offset slot) SDB_SUPERBLOCK_SLOT_SIZE f of
       (Inl e, f') \<Rightarrow> (None, e = SDB_E_IO, f')
     | (Inr slot_bytes, f') \<Rightarrow>
         (case sdb_superblock_v1_decode slot_bytes of
            Inl _ \<Rightarrow> (None, False, f')
          | Inr decoded \<Rightarrow>
              (if sdb_slot_padding_is_zero slot_bytes decoded then Some (slot_bytes, decoded) else None,
               False, f')))"

type_synonym slots = "(bytes \<times> sdb_superblock_v1) option \<times> (bytes \<times> sdb_superblock_v1) option"

definition sdb_superblock_load_slots :: "slots file_io" where
  "sdb_superblock_load_slots f =
    (let (s0, io0, f) = load_slot 0 f;
         (s1, io1, f) = load_slot 1 f
     in (if io0 \<or> io1 then Inl SDB_E_IO else Inr (s0, s1), f))"

definition sdb_slot_auth_tag_matches :: "bytes \<Rightarrow> bytes \<Rightarrow> bool" where
  "sdb_slot_auth_tag_matches slot key \<longleftrightarrow>
    sdb_constant_time_equal (sdb_hmac_sha256 key (take SDB_SUPERBLOCK_HEADER_SIZE slot))
      (slice SDB_SUPERBLOCK_AUTH_TAG_OFFSET 32 slot) 32"

text \<open>The selection both readers perform on the mirrors that count.\<close>

definition select_slot :: "slots \<Rightarrow> sdb_superblock_read_result result" where
  "select_slot s =
    (case s of
       (None, None) \<Rightarrow> Inl SDB_E_CORRUPT
     | (Some (b0, d0), Some (b1, d1)) \<Rightarrow>
         if generation d0 = generation d1 \<and> \<not> sdb_superblocks_equal d0 d1 then Inl SDB_E_CORRUPT
         else if generation d1 > generation d0
           then Inr \<lparr> superblock = d1, valid_mirror_count = 2, selected_slot = 1,
                      format_version = sdb_read_u16_le b1 8 \<rparr>
           else Inr \<lparr> superblock = d0, valid_mirror_count = 2, selected_slot = 0,
                      format_version = sdb_read_u16_le b0 8 \<rparr>
     | (Some (b0, d0), None) \<Rightarrow>
         Inr \<lparr> superblock = d0, valid_mirror_count = 1, selected_slot = 0,
               format_version = sdb_read_u16_le b0 8 \<rparr>
     | (None, Some (b1, d1)) \<Rightarrow>
         Inr \<lparr> superblock = d1, valid_mirror_count = 1, selected_slot = 1,
               format_version = sdb_read_u16_le b1 8 \<rparr>)"

definition sdb_superblock_store_read_file :: "sdb_superblock_read_result file_io" where
  "sdb_superblock_store_read_file =
    fbind sdb_superblock_load_slots (\<lambda>s f. (select_slot s, f))"

definition keep_authenticated ::
    "bytes \<Rightarrow> (bytes \<times> sdb_superblock_v1) option \<Rightarrow> (bytes \<times> sdb_superblock_v1) option" where
  "keep_authenticated key s =
    (case s of
       Some (slot_bytes, decoded) \<Rightarrow>
         if flags decoded AND SDB_FLAG_HEADER_AUTH \<noteq> 0 \<and> sdb_slot_auth_tag_matches slot_bytes key
         then Some (slot_bytes, decoded) else None
     | None \<Rightarrow> None)"

definition sdb_superblock_store_read_authenticated_file ::
    "bytes \<Rightarrow> sdb_superblock_read_result file_io" where
  "sdb_superblock_store_read_authenticated_file key =
    fbind sdb_superblock_load_slots (\<lambda>(s0, s1) f.
      (select_slot (keep_authenticated key s0, keep_authenticated key s1), f))"

definition sdb_superblock_store_heal_file ::
    "sdb_superblock_read_result \<Rightarrow> bytes option \<Rightarrow> unit file_io" where
  "sdb_superblock_store_heal_file current data_key f =
    (if valid_mirror_count current = 0 \<or> valid_mirror_count current > SDB_SUPERBLOCK_SLOT_COUNT
        \<or> selected_slot current \<ge> SDB_SUPERBLOCK_SLOT_COUNT then (Inl SDB_E_INVALID_ARGUMENT, f)
     else case sdb_encode_slot (superblock current) data_key of
       Inl e \<Rightarrow> (Inl e, f)
     | Inr encoded \<Rightarrow>
         let peer_slot = (if selected_slot current = 0 then 1 else 0);
             (r, f) = sdb_file_read_full (sdb_slot_offset peer_slot) SDB_SUPERBLOCK_SLOT_SIZE f
         in if r = Inr encoded then (Inr (), f)
            else case r of
              Inl e \<Rightarrow>
                if e \<noteq> SDB_E_TRUNCATED then (Inl e, f)
                else fbind (sdb_file_write_full (sdb_slot_offset peer_slot) encoded) (\<lambda>_. sdb_file_sync) f
            | Inr _ \<Rightarrow>
                fbind (sdb_file_write_full (sdb_slot_offset peer_slot) encoded) (\<lambda>_. sdb_file_sync) f)"

definition sdb_superblock_store_update_file_internal ::
    "sdb_superblock_v1 \<Rightarrow> bytes option \<Rightarrow> unit file_io" where
  "sdb_superblock_store_update_file_internal sb data_key f =
    (case sdb_encode_slot sb data_key of
       Inl e \<Rightarrow> (Inl e, f)
     | Inr encoded \<Rightarrow>
         fbind sdb_superblock_store_read_file (\<lambda>current.
           if generation sb \<le> generation (superblock current) then fthrow SDB_E_INVALID_ARGUMENT
           else if file_id sb \<noteq> file_id (superblock current)
               \<or> salt sb \<noteq> salt (superblock current)
               \<or> page_size sb \<noteq> page_size (superblock current)
               \<or> next_page_id sb < next_page_id (superblock current)
               \<or> flags sb AND SDB_FLAG_ENCRYPTED \<noteq> flags (superblock current) AND SDB_FLAG_ENCRYPTED
             then fthrow SDB_E_INVALID_ARGUMENT
           else
             let first_slot = (if selected_slot current = 0 then 1 else 0);
                 second_slot = selected_slot current
             in fbind (sdb_file_write_full (sdb_slot_offset first_slot) encoded) (\<lambda>_.
                fbind sdb_file_sync (\<lambda>_.
                fbind (sdb_file_write_full (sdb_slot_offset second_slot) encoded) (\<lambda>_.
                sdb_file_sync)))) f)"

definition sdb_superblock_store_update_file :: "sdb_superblock_v1 \<Rightarrow> unit file_io" where
  "sdb_superblock_store_update_file sb = sdb_superblock_store_update_file_internal sb None"

definition sdb_superblock_store_update_file_authenticated ::
    "sdb_superblock_v1 \<Rightarrow> bytes option \<Rightarrow> unit file_io" where
  "sdb_superblock_store_update_file_authenticated sb data_key =
    (if data_key = None \<or> flags sb AND SDB_FLAG_HEADER_AUTH = 0 then fthrow SDB_E_INVALID_ARGUMENT
     else sdb_superblock_store_update_file_internal sb data_key)"

lemmas store_consts = superblock_consts SDB_SUPERBLOCK_AUTH_TAG_OFFSET_def
  SDB_SUPERBLOCK_AUTH_PADDING_OFFSET_def sdb_slot_offset_def

section \<open>Mirrored slots as an interface\<close>

text \<open>
  \<open>accept\<close> says which slot images count and what superblock they hold. The slot
  of index \<open>i\<close> of a file and the outcome of reading the pair follow from it.
\<close>

definition slot_of ::
    "(bytes \<Rightarrow> sdb_superblock_v1 option) \<Rightarrow> bytes \<Rightarrow> nat \<Rightarrow> (bytes \<times> sdb_superblock_v1) option" where
  "slot_of accept c i =
    (let bs = slice (4096 * i) 4096 c
     in if length bs = 4096 then map_option (Pair bs) (accept bs) else None)"

definition read_with :: "(bytes \<Rightarrow> sdb_superblock_v1 option) \<Rightarrow> bytes \<Rightarrow> sdb_superblock_read_result result" where
  "read_with accept c = select_slot (slot_of accept c 0, slot_of accept c 1)"

definition plain_accept :: "bytes \<Rightarrow> sdb_superblock_v1 option" where
  "plain_accept bs =
    (case sdb_superblock_v1_decode bs of
       Inl _ \<Rightarrow> None
     | Inr sb \<Rightarrow> if sdb_slot_padding_is_zero bs sb then Some sb else None)"

definition auth_accept :: "bytes \<Rightarrow> bytes \<Rightarrow> sdb_superblock_v1 option" where
  "auth_accept key bs =
    (case plain_accept bs of
       None \<Rightarrow> None
     | Some sb \<Rightarrow>
         if flags sb AND SDB_FLAG_HEADER_AUTH \<noteq> 0 \<and> sdb_slot_auth_tag_matches bs key then Some sb else None)"

text \<open>Writing into one slot of the pair.\<close>

lemma slot_write_same:
  assumes "i < 2" "8192 \<le> length c" "length enc = 4096" "k \<le> 4096"
  shows "slice (4096 * i) 4096 (file_write (4096 * i) (take k enc) c) =
      take k enc @ drop k (slice (4096 * i) 4096 c)"
    and "length (file_write (4096 * i) (take k enc) c) = length c"
proof -
  have w: "file_write (4096 * i) (take k enc) c = blit (4096 * i) (take k enc) c"
    using assms by (intro file_write_in_bounds) simp
  show "length (file_write (4096 * i) (take k enc) c) = length c"
    using assms by (simp add: w)
  show "slice (4096 * i) 4096 (file_write (4096 * i) (take k enc) c) =
      take k enc @ drop k (slice (4096 * i) 4096 c)"
    unfolding w
    by (rule nth_equalityI) (use assms in \<open>auto simp: nth_slice nth_blit nth_append\<close>)
qed

lemma slot_write_other:
  assumes "i < 2" "8192 \<le> length c" "length enc = 4096" "k \<le> 4096"
  shows "slice (4096 * (1 - i)) 4096 (file_write (4096 * i) (take k enc) c) = slice (4096 * (1 - i)) 4096 c"
proof -
  have "file_write (4096 * i) (take k enc) c = blit (4096 * i) (take k enc) c"
    using assms by (intro file_write_in_bounds) simp
  moreover have "i = 0 \<or> i = 1"
    using assms(1) by auto
  ultimately show ?thesis
    using assms by (auto simp: slice_blit)
qed

text \<open>A write that stops after \<open>k\<close> bytes shows: it changed nothing, wrote all, or left a slot that does not count.\<close>

definition tear_shows :: "(bytes \<Rightarrow> sdb_superblock_v1 option) \<Rightarrow> bytes \<Rightarrow> bytes \<Rightarrow> nat \<Rightarrow> bool" where
  "tear_shows accept enc old k \<longleftrightarrow> take k enc @ drop k old = old \<or> take k enc @ drop k old = enc
    \<or> accept (take k enc @ drop k old) = None"

locale mirrored_slots =
  fixes accept :: "bytes \<Rightarrow> sdb_superblock_v1 option"
  assumes zero_tail: "accept bs = Some sb \<Longrightarrow> length bs = 4096 \<Longrightarrow> drop 512 bs = zeros 3584"
begin

lemma slot_of_Some:
  "slot_of accept c i = Some (b, sb) \<longleftrightarrow> b = slice (4096 * i) 4096 c \<and> length b = 4096 \<and> accept b = Some sb"
  by (auto simp: slot_of_def Let_def)

text \<open>On a device that writes whole sectors of 512 bytes every tear shows.\<close>

lemma torn_slot:
  assumes enc: "accept enc = Some sb" "length enc = 4096" and old: "length old = 4096"
    and k: "k = 4096 \<or> 512 dvd k" "k \<le> 4096"
  shows "tear_shows accept enc old k"
proof (cases "accept (take k enc @ drop k old)")
  case (Some x)
  show ?thesis
  proof (cases "k = 0")
    case False
    with k have k512: "512 \<le> k"
      by (auto simp: dvd_imp_le)
    have "drop 512 (take k enc @ drop k old) = zeros 3584"
      using zero_tail [OF Some] enc old k by simp
    moreover have "drop 512 enc = zeros 3584"
      using zero_tail enc by blast
    moreover have "take 512 (take k enc @ drop k old) = take 512 enc"
      using k512 enc by (simp add: min_def)
    ultimately have "take k enc @ drop k old = enc"
      by (metis append_take_drop_id)
    then show ?thesis
      by (simp add: tear_shows_def)
  qed (simp add: tear_shows_def)
qed (simp add: tear_shows_def)

text \<open>Reading when one slot holds the current superblock and the other something older or newer.\<close>

lemma read_with_cases:
  assumes "read_with accept c = Inr cur"
  shows "selected_slot cur < 2"
    and "\<exists>b. slot_of accept c (selected_slot cur) = Some (b, superblock cur)"
    and "slot_of accept c (1 - selected_slot cur) = Some (b', d') \<Longrightarrow> generation d' \<le> generation (superblock cur)"
  using assms
  by (auto simp: read_with_def select_slot_def split: option.splits if_splits prod.splits)

lemma read_with_newer:
  assumes "i < 2" "slot_of accept c (1 - i) = Some (b', sb)"
    and "\<And>b d. slot_of accept c i = Some (b, d) \<Longrightarrow> generation d < generation sb \<or> d = sb"
  shows "\<exists>res. read_with accept c = Inr res \<and> superblock res = sb
    \<and> (slot_of accept c i \<noteq> None \<longrightarrow> valid_mirror_count res = 2)"
proof -
  have "i = 0 \<or> i = 1"
    using assms(1) by auto
  then show ?thesis
    using assms(2,3)
    by (cases "slot_of accept c i")
      (force simp: read_with_def select_slot_def sdb_superblocks_equal_def)+
qed

lemma read_with_single:
  assumes "i < 2" "slot_of accept c i = Some (b, sb)" "slot_of accept c (1 - i) = None"
  shows "\<exists>res. read_with accept c = Inr res \<and> superblock res = sb"
proof -
  have "i = 0 \<or> i = 1"
    using assms(1) by auto
  then show ?thesis
    using assms(2,3) by (auto simp: read_with_def select_slot_def)
qed

lemma slot_of_slice:
  "slice (4096 * i) 4096 c = slice (4096 * i) 4096 c' \<Longrightarrow> slot_of accept c i = slot_of accept c' i"
  by (simp add: slot_of_def)

lemma older_mirror_torn:
  assumes read: "read_with accept c = Inr cur" and len: "8192 \<le> length c"
    and enc: "accept enc = Some sb" "length enc = 4096"
    and newer: "generation (superblock cur) < generation sb" and k: "k \<le> 4096"
    and tear: "tear_shows accept enc (slice (4096 * (1 - selected_slot cur)) 4096 c) k"
  defines "c' \<equiv> file_write (4096 * (1 - selected_slot cur)) (take k enc) c"
  shows "\<exists>res. read_with accept c' = Inr res
    \<and> (superblock res = superblock cur \<or> superblock res = sb) \<and> (k = 4096 \<longrightarrow> superblock res = sb)"
proof -
  let ?i = "selected_slot cur"
  let ?j = "1 - ?i"
  let ?old = "slice (4096 * ?j) 4096 c"
  have i: "?i < 2" "?j < 2" "1 - ?j = ?i"
    using read_with_cases(1) [OF read] by auto
  have old: "length ?old = 4096"
    using i(2) len by simp
  have slot: "slice (4096 * ?j) 4096 c' = take k enc @ drop k ?old" and len': "length c' = length c"
    using slot_write_same [OF i(2) len enc(2) k] by (simp_all add: c'_def)
  have keep: "slot_of accept c' ?i = slot_of accept c ?i"
    using slot_write_other [OF i(2) len enc(2) k] i(3) by (intro slot_of_slice) (simp add: c'_def)
  obtain b where b: "slot_of accept c ?i = Some (b, superblock cur)"
    using read_with_cases(2) [OF read] by blast
  consider "take k enc @ drop k ?old = enc" | "k \<noteq> 4096" "take k enc @ drop k ?old = ?old"
    | "k \<noteq> 4096" "accept (take k enc @ drop k ?old) = None"
    using tear enc(2) old by (cases "k = 4096") (auto simp: tear_shows_def)
  then show ?thesis
  proof cases
    case 1
    then have "slot_of accept c' ?j = Some (enc, sb)"
      using enc slot by (simp add: slot_of_def)
    with b keep newer i show ?thesis
      using read_with_newer [of ?i c' enc sb] by fastforce
  next
    case 2
    have "slot_of accept c' ?j = slot_of accept c ?j"
      by (rule slot_of_slice) (use slot 2 in simp)
    moreover have "?i = 0 \<or> ?i = 1"
      using i by auto
    ultimately have "read_with accept c' = read_with accept c"
      using keep by (auto simp: read_with_def)
    with read 2 show ?thesis
      by simp
  next
    case 3
    then have "slot_of accept c' ?j = None"
      using slot by (simp add: slot_of_def Let_def)
    with b keep i 3 show ?thesis
      using read_with_single [of ?i c' b "superblock cur"] by auto
  qed
qed

lemma newer_mirror_torn:
  assumes read: "read_with accept c = Inr cur" and len: "8192 \<le> length c"
    and enc: "accept enc = Some sb" "length enc = 4096"
    and newer: "generation (superblock cur) < generation sb" and k: "k \<le> 4096"
    and tear: "tear_shows accept enc (slice (4096 * selected_slot cur) 4096 c) k"
  defines "c' \<equiv> file_write (4096 * selected_slot cur) (take k enc)
    (file_write (4096 * (1 - selected_slot cur)) enc c)"
  shows "\<exists>res. read_with accept c' = Inr res \<and> superblock res = sb
    \<and> (k = 4096 \<longrightarrow> valid_mirror_count res = 2)"
proof -
  let ?i = "selected_slot cur"
  let ?j = "1 - ?i"
  let ?c = "file_write (4096 * ?j) enc c"
  let ?old = "slice (4096 * ?i) 4096 c"
  have i: "?i < 2" "?j < 2" "1 - ?j = ?i"
    using read_with_cases(1) [OF read] by auto
  have old: "length ?old = 4096"
    using i(1) len by simp
  have c: "slice (4096 * ?j) 4096 ?c = enc" "length ?c = length c" "slice (4096 * ?i) 4096 ?c = ?old"
    using slot_write_same [OF i(2) len enc(2), of 4096] slot_write_other [OF i(2) len enc(2), of 4096] enc(2) i(3)
    by simp_all
  have len': "8192 \<le> length ?c"
    using c(2) len by simp
  have slot: "slice (4096 * ?i) 4096 c' = take k enc @ drop k ?old"
    using slot_write_same [OF i(1) len' enc(2) k] c(3) by (simp add: c'_def)
  have "slice (4096 * ?j) 4096 c' = enc"
    using slot_write_other [OF i(1) len' enc(2) k] c(1) by (simp add: c'_def)
  then have new: "slot_of accept c' ?j = Some (enc, sb)"
    using enc by (simp add: slot_of_def)
  obtain b where b: "slot_of accept c ?i = Some (b, superblock cur)"
    using read_with_cases(2) [OF read] by blast
  then have acc: "accept ?old = Some (superblock cur)"
    by (auto simp: slot_of_Some)
  have "d = superblock cur \<or> d = sb" if "slot_of accept c' ?i = Some (b', d)" for b' d
    using that tear enc acc slot by (auto simp: slot_of_def tear_shows_def Let_def split: if_splits)
  then have "\<exists>res. read_with accept c' = Inr res \<and> superblock res = sb
      \<and> (slot_of accept c' ?i \<noteq> None \<longrightarrow> valid_mirror_count res = 2)"
    using newer by (intro read_with_newer [OF i(1) new]) blast
  moreover have "slot_of accept c' ?i \<noteq> None" if "k = 4096"
    using that enc slot old by (simp add: slot_of_def)
  ultimately show ?thesis
    by blast
qed

end

section \<open>The code's readers and slot images meet the interface\<close>

lemma plain_accept_tail:
  assumes "plain_accept bs = Some sb" "length bs = 4096"
  shows "drop 512 bs = zeros 3584"
proof -
  define start :: nat where "start = (if flags sb AND 2 \<noteq> 0 then 192 else 160)"
  have st: "start \<le> 192" "list_all (\<lambda>b. b = 0) (drop start bs)"
    using assms(1)
    by (auto simp: start_def plain_accept_def sdb_slot_padding_is_zero_def store_consts Let_def
        split: sum.splits if_split_asm)
  have "set (drop 512 bs) \<subseteq> set (drop start bs)"
    using st(1) by (simp add: set_drop_subset_set_drop)
  then have "list_all (\<lambda>b. b = 0) (drop 512 bs)"
    using st(2) by (auto simp: list_all_iff)
  then show ?thesis
    using assms(2) by (simp add: list_all_zero_iff)
qed

interpretation plain: mirrored_slots plain_accept
  by unfold_locales (rule plain_accept_tail)

interpretation auth: mirrored_slots "auth_accept key" for key
  by unfold_locales (auto simp: auth_accept_def plain_accept_tail split: option.splits if_splits)

lemma load_slot_spec:
  assumes "load_slot i f = (s, io, f')" "file_ok f" "i < 2"
  shows "same_file f f'"
    and "io \<and> may_fail f \<or> \<not> io \<and> s = slot_of plain_accept (fcontent f) i"
proof -
  obtain r g where read: "sdb_file_read_full (4096 * i) 4096 f = (r, g)"
    by fastforce
  have off: "4096 * i \<le> INT64_MAX"
    using assms(3) by (simp add: INT64_MAX_def)
  note spec = sdb_file_read_full_spec [OF read assms(2) off]
  have g: "g = f'"
    using assms(1) read by (auto simp: load_slot_def store_consts mult.commute split: sum.splits)
  with spec show "same_file f f'"
    by simp
  show "io \<and> may_fail f \<or> \<not> io \<and> s = slot_of plain_accept (fcontent f) i"
    using assms(1) read spec(2)
    by (auto simp: load_slot_def store_consts mult.commute slot_of_def plain_accept_def file_read_def Let_def
        split: sum.splits if_splits)
qed

lemma load_slots_spec:
  assumes "sdb_superblock_load_slots f = (r, f')" "file_ok f"
  shows "same_file f f'"
    and "r = Inr (slot_of plain_accept (fcontent f) 0, slot_of plain_accept (fcontent f) 1)
      \<or> r = Inl SDB_E_IO \<and> may_fail f"
proof -
  obtain s0 io0 g s1 io1 h where l: "load_slot 0 f = (s0, io0, g)" "load_slot 1 g = (s1, io1, h)"
    by (metis prod_cases3)
  note s0 = load_slot_spec [OF l(1) assms(2)]
  have g: "file_ok g"
    using s0(1) assms(2) by (simp add: same_file_ok)
  note s1 = load_slot_spec [OF l(2) g]
  have r: "f' = h" "r = (if io0 \<or> io1 then Inl SDB_E_IO else Inr (s0, s1))"
    using assms(1) l by (auto simp: sdb_superblock_load_slots_def)
  show "same_file f f'"
    using s0(1) s1(1) r same_file_trans by auto
  show "r = Inr (slot_of plain_accept (fcontent f) 0, slot_of plain_accept (fcontent f) 1)
      \<or> r = Inl SDB_E_IO \<and> may_fail f"
    using s0 s1 r same_file_may_fail [of f g] by (auto simp: same_file_def)
qed

lemma read_file_spec:
  assumes "sdb_superblock_store_read_file f = (r, f')" "file_ok f"
  shows "same_file f f'"
    and "r = read_with plain_accept (fcontent f) \<or> r = Inl SDB_E_IO \<and> may_fail f"
proof -
  obtain s g where l: "sdb_superblock_load_slots f = (s, g)"
    by fastforce
  show "same_file f f'" "r = read_with plain_accept (fcontent f) \<or> r = Inl SDB_E_IO \<and> may_fail f"
    using assms(1) l load_slots_spec [OF l assms(2)]
    by (auto simp: sdb_superblock_store_read_file_def fbind_def read_with_def split: sum.splits)
qed

lemma keep_authenticated_slot:
  "keep_authenticated key (slot_of plain_accept c i) = slot_of (auth_accept key) c i"
  by (auto simp: keep_authenticated_def slot_of_def auth_accept_def Let_def split: option.splits)

lemma read_authenticated_spec:
  assumes "sdb_superblock_store_read_authenticated_file key f = (r, f')" "file_ok f"
  shows "same_file f f'"
    and "r = read_with (auth_accept key) (fcontent f) \<or> r = Inl SDB_E_IO \<and> may_fail f"
proof -
  obtain s g where l: "sdb_superblock_load_slots f = (s, g)"
    by fastforce
  show "same_file f f'" "r = read_with (auth_accept key) (fcontent f) \<or> r = Inl SDB_E_IO \<and> may_fail f"
    using assms(1) l load_slots_spec [OF l assms(2)]
    by (auto simp: sdb_superblock_store_read_authenticated_file_def fbind_def read_with_def
        keep_authenticated_slot split: sum.splits)
qed

section \<open>Slot images\<close>

lemma length_header_image [simp]: "superblock_arrays sb \<Longrightarrow> length (header_image v sb) = 160"
  by (simp add: header_image_def)

lemma encode_slot_image:
  assumes "sdb_encode_slot sb key = Inr enc" "superblock_arrays sb"
  shows "valid_superblock sb" "length enc = 4096" "plain_accept enc = Some sb"
    and "flags sb AND SDB_FLAG_HEADER_AUTH \<noteq> 0 \<Longrightarrow> \<exists>k. key = Some k \<and> auth_accept k enc = Some sb"
proof -
  show v: "valid_superblock sb"
    using assms by (auto simp: sdb_encode_slot_def sdb_superblock_v1_encode_def rbind_eq_Inr
        sdb_validate_superblock_def valid_superblock_def split: if_splits)
  let ?h = "header_image 2 sb"
  have e: "sdb_superblock_v1_encode sb 4096 = Inr (?h @ zeros 3936)"
    using superblock_encode_image [OF v] by simp
  have dec: "sdb_superblock_v1_decode (?h @ t) = Inr sb" for t
    using superblock_decode_image [OF v] by simp
  show "length enc = 4096" "plain_accept enc = Some sb"
    "flags sb AND SDB_FLAG_HEADER_AUTH \<noteq> 0 \<Longrightarrow> \<exists>k. key = Some k \<and> auth_accept k enc = Some sb"
  proof -
    consider (plain) "flags sb AND 2 = 0" "enc = ?h @ zeros 3936"
      | (tag) k where "flags sb AND 2 \<noteq> 0" "key = Some k"
          "enc = ?h @ sdb_hmac_sha256 k ?h @ zeros 3904"
    proof (cases "flags sb AND 2 = 0")
      case False
      then obtain k where k: "key = Some k" "enc = blit 160 (sdb_hmac_sha256 k ?h) (?h @ zeros 3936)"
        using assms e by (auto simp: sdb_encode_slot_def store_consts split: option.splits)
      moreover have "zeros 3936 = zeros 32 @ zeros 3904"
        by (simp add: zeros_append)
      ultimately show ?thesis
        using False assms(2) tag [of k] by (simp add: layout_simps)
    qed (use assms e plain in \<open>simp add: sdb_encode_slot_def store_consts\<close>)
    then have "length enc = 4096 \<and> plain_accept enc = Some sb \<and>
        (flags sb AND SDB_FLAG_HEADER_AUTH \<noteq> 0 \<longrightarrow> (\<exists>k. key = Some k \<and> auth_accept k enc = Some sb))"
    proof cases
      case plain
      then show ?thesis
        using assms(2) by (simp add: plain_accept_def dec sdb_slot_padding_is_zero_def store_consts)
    next
      case (tag k)
      have p: "plain_accept enc = Some sb"
        using tag assms(2) by (simp add: plain_accept_def dec sdb_slot_padding_is_zero_def store_consts)
      moreover have "sdb_slot_auth_tag_matches enc k"
        using tag(3) assms(2)
        by (simp add: sdb_slot_auth_tag_matches_def store_consts layout_simps constant_time_equal_iff)
      ultimately show ?thesis
        using tag assms(2) by (simp add: auth_accept_def store_consts)
    qed
    then show "length enc = 4096" "plain_accept enc = Some sb"
      "flags sb AND SDB_FLAG_HEADER_AUTH \<noteq> 0 \<Longrightarrow> \<exists>k. key = Some k \<and> auth_accept k enc = Some sb"
      by blast+
  qed
qed

section \<open>Updating\<close>

text \<open>What an update can leave behind, by the point where it stopped.\<close>

definition torn_at :: "sdb_file \<Rightarrow> nat \<Rightarrow> bool" where
  "torn_at f k \<longleftrightarrow> k \<le> 4096 \<and> (sector_script f \<longrightarrow> k = 4096 \<or> 512 dvd k)"

text \<open>
  What the store relies on the checksum for: the bytes of a slot of which the first \<open>k\<close>
  are new and the rest old are those of the old slot, those of the new one, or no valid
  slot. A write may stop after any number of bytes, unless the system transfers whole
  sectors.
\<close>

definition tears_detected :: "sdb_superblock_v1 \<Rightarrow> bytes option \<Rightarrow> sdb_file \<Rightarrow> bool" where
  "tears_detected sb key f \<longleftrightarrow> (\<forall>enc i k. sdb_encode_slot sb key = Inr enc \<and> i < 2 \<and> torn_at f k \<longrightarrow>
    (let old = slice (4096 * i) 4096 (fcontent f); torn = take k enc @ drop k old
     in torn = old \<or> torn = enc \<or> plain_accept torn = None))"

lemma write_slot_spec:
  assumes "sdb_file_write_full (4096 * i) enc f = (r, f')" "length enc = 4096" "i < 2"
  obtains k where "fcontent f' = file_write (4096 * i) (take k enc) (fcontent f)" "torn_at f k"
    "set (fscript f') \<subseteq> set (fscript f)"
    "r = Inr () \<and> k = 4096 \<or> r = Inl SDB_E_IO"
proof -
  have "4096 * i + length enc \<le> INT64_MAX"
    using assms(2,3) by (simp add: INT64_MAX_def)
  then obtain k where "wrote_prefix (4096 * i) enc f k f'"
      "r = Inr () \<and> k = length enc \<or> r = Inl SDB_E_IO \<and> may_fail f"
    using sdb_file_write_full_spec [OF assms(1)] by blast
  then show ?thesis
    using assms(2) that [of k] by (auto simp: wrote_prefix_def torn_at_def)
qed

lemma torn_at_script: "set (fscript f') \<subseteq> set (fscript f) \<Longrightarrow> torn_at f' k \<Longrightarrow> torn_at f k"
  by (auto simp: torn_at_def sector_script_def)

lemma two_mirror_writes:
  assumes run: "fbind (sdb_file_write_full (4096 * j) enc) (\<lambda>_. fbind sdb_file_sync (\<lambda>_.
      fbind (sdb_file_write_full (4096 * i) enc) (\<lambda>_. sdb_file_sync))) f = (r, f')"
    and enc: "length enc = 4096" and ij: "i < 2" "j < 2"
  shows "(\<exists>k e. r = Inl e \<and> torn_at f k \<and> fcontent f' = file_write (4096 * j) (take k enc) (fcontent f))
    \<or> (\<exists>k. torn_at f k
        \<and> fcontent f' = file_write (4096 * i) (take k enc) (file_write (4096 * j) enc (fcontent f))
        \<and> (r = Inr () \<longrightarrow> k = 4096 \<and> fdurable f' = fcontent f'))"
proof -
  obtain r1 f1 where w1: "sdb_file_write_full (4096 * j) enc f = (r1, f1)"
    by fastforce
  obtain k1 where k1: "fcontent f1 = file_write (4096 * j) (take k1 enc) (fcontent f)" "torn_at f k1"
      "set (fscript f1) \<subseteq> set (fscript f)" "r1 = Inr () \<and> k1 = 4096 \<or> r1 = Inl SDB_E_IO"
    using write_slot_spec [OF w1 enc ij(2)] .
  show ?thesis
  proof (cases r1)
    case (Inl e)
    with run w1 k1 show ?thesis
      by (auto simp: fbind_def)
  next
    case (Inr u)
    then have r1: "r1 = Inr ()" "k1 = 4096" "take k1 enc = enc"
      using k1 enc by auto
    obtain r2 f2 where s1: "sdb_file_sync f1 = (r2, f2)"
      by fastforce
    note s1' = sdb_file_sync_spec [OF s1]
    show ?thesis
    proof (cases r2)
      case (Inl e)
      then show ?thesis
        using run w1 r1 s1 s1' k1 by (auto simp: fbind_def)
    next
      case (Inr u)
      obtain r3 f3 where w2: "sdb_file_write_full (4096 * i) enc f2 = (r3, f3)"
        by fastforce
      obtain k2 where k2: "fcontent f3 = file_write (4096 * i) (take k2 enc) (fcontent f2)" "torn_at f2 k2"
          "r3 = Inr () \<and> k2 = 4096 \<or> r3 = Inl SDB_E_IO"
        using write_slot_spec [OF w2 enc ij(1)] .
      have t2: "torn_at f k2"
        using k2(2) k1(3) s1'(2) by (meson torn_at_script subset_trans)
      have c3: "fcontent f3 = file_write (4096 * i) (take k2 enc) (file_write (4096 * j) enc (fcontent f))"
        using k2(1) s1'(1) k1(1) r1(3) by simp
      obtain r4 f4 where s2: "sdb_file_sync f3 = (r4, f4)"
        by fastforce
      note s2' = sdb_file_sync_spec [OF s2]
      show ?thesis
        using run w1 r1 s1 Inr w2 k2(3) s2 s2' t2 c3
        by (cases r3) (auto simp: fbind_def)
    qed
  qed
qed

text \<open>The file opened again on a system whose calls succeed.\<close>

definition reopen :: "sdb_file \<Rightarrow> sdb_file" where
  "reopen f = f\<lparr>fscript := []\<rparr>"

definition stored :: "sdb_file \<Rightarrow> sdb_superblock_read_result result" where
  "stored f = fst (sdb_superblock_store_read_file (reopen f))"

definition stored_authenticated :: "bytes \<Rightarrow> sdb_file \<Rightarrow> sdb_superblock_read_result result" where
  "stored_authenticated key f = fst (sdb_superblock_store_read_authenticated_file key (reopen f))"

lemma stored_read_with: "file_ok f \<Longrightarrow> stored f = read_with plain_accept (fcontent f)"
  using read_file_spec [of "reopen f"]
  by (cases "sdb_superblock_store_read_file (reopen f)")
    (auto simp: stored_def reopen_def file_ok_def may_fail_def)

lemma stored_authenticated_read_with:
  "file_ok f \<Longrightarrow> stored_authenticated key f = read_with (auth_accept key) (fcontent f)"
  using read_authenticated_spec [of key "reopen f"]
  by (cases "sdb_superblock_store_read_authenticated_file key (reopen f)")
    (auto simp: stored_authenticated_def reopen_def file_ok_def may_fail_def)

lemma update_internal_outcome:
  assumes run: "sdb_superblock_store_update_file_internal sb key f = (r, f')"
    and f: "file_ok f" "8192 \<le> length (fcontent f)" and arr: "superblock_arrays sb"
    and cur: "read_with plain_accept (fcontent f) = Inr cur"
  shows "(\<exists>e. r = Inl e) \<and> fcontent f' = fcontent f
    \<or> (\<exists>enc k e. sdb_encode_slot sb key = Inr enc \<and> generation (superblock cur) < generation sb
        \<and> r = Inl e \<and> torn_at f k
        \<and> fcontent f' = file_write (4096 * (1 - selected_slot cur)) (take k enc) (fcontent f))
    \<or> (\<exists>enc k. sdb_encode_slot sb key = Inr enc \<and> generation (superblock cur) < generation sb
        \<and> torn_at f k
        \<and> fcontent f' = file_write (4096 * selected_slot cur) (take k enc)
            (file_write (4096 * (1 - selected_slot cur)) enc (fcontent f))
        \<and> (r = Inr () \<longrightarrow> k = 4096 \<and> fdurable f' = fcontent f'))"
proof (cases "sdb_encode_slot sb key")
  case (Inl e)
  with run show ?thesis
    by (auto simp: sdb_superblock_store_update_file_internal_def)
next
  case (Inr enc)
  note enc = encode_slot_image(2) [OF Inr arr]
  obtain rd g where rd: "sdb_superblock_store_read_file f = (rd, g)"
    by fastforce
  note g = read_file_spec [OF rd f(1)]
  have i: "selected_slot cur < 2"
    using plain.read_with_cases(1) [OF cur] .
  then have first: "(if selected_slot cur = 0 then 1 else 0) = 1 - selected_slot cur"
    by auto
  show ?thesis
  proof (cases "rd = Inr cur \<and> generation (superblock cur) < generation sb
      \<and> \<not> (file_id sb \<noteq> file_id (superblock cur) \<or> salt sb \<noteq> salt (superblock cur)
         \<or> page_size sb \<noteq> page_size (superblock cur) \<or> next_page_id sb < next_page_id (superblock cur)
         \<or> flags sb AND SDB_FLAG_ENCRYPTED \<noteq> flags (superblock cur) AND SDB_FLAG_ENCRYPTED)")
    case False
    then have "(\<exists>e. r = Inl e) \<and> f' = g"
      using run rd Inr g(2) cur
      by (auto simp: sdb_superblock_store_update_file_internal_def fbind_def fthrow_def
          split: if_splits)
    with g(1) show ?thesis
      by (auto simp: same_file_def)
  next
    case True
    then have rd': "rd = Inr cur" and gen: "\<not> generation sb \<le> generation (superblock cur)"
      and compat: "\<not> (file_id sb \<noteq> file_id (superblock cur) \<or> salt sb \<noteq> salt (superblock cur)
         \<or> page_size sb \<noteq> page_size (superblock cur) \<or> next_page_id sb < next_page_id (superblock cur)
         \<or> flags sb AND SDB_FLAG_ENCRYPTED \<noteq> flags (superblock cur) AND SDB_FLAG_ENCRYPTED)"
      by auto
    have off: "sdb_slot_offset n = 4096 * n" for n
      by (simp add: store_consts)
    have w: "fbind (sdb_file_write_full (4096 * (1 - selected_slot cur)) enc) (\<lambda>_. fbind sdb_file_sync (\<lambda>_.
        fbind (sdb_file_write_full (4096 * selected_slot cur) enc) (\<lambda>_. sdb_file_sync))) g = (r, f')"
      using run unfolding sdb_superblock_store_update_file_internal_def
        fbind_def [of sdb_superblock_store_read_file] Inr rd rd' sum.case prod.case
        if_not_P [OF gen] if_not_P [OF compat] Let_def first off .
    have t: "torn_at g k \<Longrightarrow> torn_at f k" for k
      using g(1) by (auto simp: same_file_def intro: torn_at_script)
    have j: "1 - selected_slot cur < 2" and c: "fcontent g = fcontent f"
      using g(1) by (auto simp: same_file_def)
    show ?thesis
      using two_mirror_writes [OF w enc i j, unfolded c] True Inr t by blast
  qed
qed

section \<open>Properties\<close>

lemma torn_contents_readable:
  assumes run: "sdb_superblock_store_update_file_internal sb key f = (r, f')"
    and f: "file_ok f" "tears_detected sb key f" "8192 \<le> length (fcontent f)" and arr: "superblock_arrays sb"
    and cur: "read_with plain_accept (fcontent f) = Inr cur"
  shows "file_ok f' \<and> (\<exists>res. read_with plain_accept (fcontent f') = Inr res
    \<and> (superblock res = superblock cur \<or> superblock res = sb)
    \<and> (r = Inr () \<longrightarrow> superblock res = sb \<and> valid_mirror_count res = 2 \<and> fdurable f' = fcontent f'))"
proof -
  let ?i = "selected_slot cur"
  have i: "?i < 2" "1 - ?i < 2"
    using plain.read_with_cases(1) [OF cur] by auto
  consider (none) e where "r = Inl e" "fcontent f' = fcontent f"
    | (first) enc k e where "sdb_encode_slot sb key = Inr enc" "generation (superblock cur) < generation sb"
        "r = Inl e" "torn_at f k"
        "fcontent f' = file_write (4096 * (1 - ?i)) (take k enc) (fcontent f)"
    | (second) enc k where "sdb_encode_slot sb key = Inr enc" "generation (superblock cur) < generation sb"
        "torn_at f k"
        "fcontent f' = file_write (4096 * ?i) (take k enc) (file_write (4096 * (1 - ?i)) enc (fcontent f))"
        "r = Inr () \<longrightarrow> k = 4096 \<and> fdurable f' = fcontent f'"
    using update_internal_outcome [OF run f(1,3) arr cur] by blast
  then show ?thesis
  proof cases
    case none
    with cur f(1) show ?thesis
      by (simp add: file_ok_def)
  next
    case first
    note enc = encode_slot_image [OF first(1) arr]
    have k: "k \<le> 4096" "tear_shows plain_accept enc (slice (4096 * (1 - ?i)) 4096 (fcontent f)) k"
      using first(1,4) f(2) i(2) by (auto simp: tears_detected_def tear_shows_def torn_at_def Let_def)
    have "length (fcontent f') = length (fcontent f)"
      using slot_write_same(2) [OF i(2) f(3) enc(2) k(1)] first(5) by simp
    with plain.older_mirror_torn [OF cur f(3) enc(3,2) first(2) k] first f(1) show ?thesis
      by (auto simp: file_ok_def)
  next
    case second
    note enc = encode_slot_image [OF second(1) arr]
    have k: "k \<le> 4096" "tear_shows plain_accept enc (slice (4096 * ?i) 4096 (fcontent f)) k"
      using second(1,3) f(2) i(1) by (auto simp: tears_detected_def tear_shows_def torn_at_def Let_def)
    have l: "length (file_write (4096 * (1 - ?i)) enc (fcontent f)) = length (fcontent f)"
      using slot_write_same(2) [OF i(2) f(3) enc(2), of 4096] enc(2) by simp
    have "length (fcontent f') = length (fcontent f)"
      using slot_write_same(2) [OF i(1) _ enc(2) k(1), of "file_write (4096 * (1 - ?i)) enc (fcontent f)"]
        second(4) l f(3) by simp
    with plain.newer_mirror_torn [OF cur f(3) enc(3,2) second(2) k] second f(1) show ?thesis
      by (auto simp: file_ok_def)
  qed
qed

lemma sector_tears_detected:
  assumes "sector_script f" "8192 \<le> length (fcontent f)" "superblock_arrays sb"
  shows "tears_detected sb key f"
  unfolding tears_detected_def Let_def
proof (intro allI impI)
  fix enc and i k :: nat
  assume e: "sdb_encode_slot sb key = Inr enc \<and> i < 2 \<and> torn_at f k"
  then have "length (slice (4096 * i) 4096 (fcontent f)) = 4096" "k = 4096 \<or> 512 dvd k" "k \<le> 4096"
    using assms(1,2) by (auto simp: torn_at_def)
  moreover have "plain_accept enc = Some sb" "length enc = 4096"
    using encode_slot_image(2,3) [of sb key enc] e assms(3) by simp_all
  ultimately have "tear_shows plain_accept enc (slice (4096 * i) 4096 (fcontent f)) k"
    by (intro plain.torn_slot)
  then show "take k enc @ drop k (slice (4096 * i) 4096 (fcontent f)) = slice (4096 * i) 4096 (fcontent f)
      \<or> take k enc @ drop k (slice (4096 * i) 4096 (fcontent f)) = enc
      \<or> plain_accept (take k enc @ drop k (slice (4096 * i) 4096 (fcontent f))) = None"
    by (simp only: tear_shows_def)
qed

text \<open>
  C2: a superblock update is atomic. Whatever system call fails, and however many bytes
  the interrupted write transferred, opening the file afterwards reads either the
  superblock stored before or the new one; when the update reports success it is the new
  one, on both mirrors and on stable storage. The update relies on the checksum of a slot
  for this: no proper mixture of the first bytes of the new slot with the last bytes of an
  old one may pass for a valid slot. On a device that writes whole sectors there is no
  such mixture.
\<close>

theorem superblock_update_atomic:
  assumes "file_ok f" "tears_detected sb key f" "8192 \<le> length (fcontent f)" "superblock_arrays sb"
    and "stored f = Inr cur"
    and "sdb_superblock_store_update_file_internal sb key f = (r, f')"
  shows "\<exists>res. stored f' = Inr res
    \<and> (superblock res = superblock cur \<or> superblock res = sb)
    \<and> (r = Inr () \<longrightarrow> superblock res = sb \<and> valid_mirror_count res = 2 \<and> fdurable f' = fcontent f')"
proof -
  have "read_with plain_accept (fcontent f) = Inr cur"
    using assms(1,5) by (simp add: stored_read_with)
  from torn_contents_readable [OF assms(6,1,2,3,4) this] show ?thesis
    by (auto simp: stored_read_with)
qed

definition example_slot :: bytes where
  "example_slot = header_image 2 example_superblock @ zeros 3936"

definition example_store :: "os_outcome list \<Rightarrow> sdb_file" where
  "example_store script =
    \<lparr> fcontent = example_slot @ example_slot, fdurable = example_slot @ example_slot,
      fpending = [], fscript = script \<rparr>"

lemma example_slot_length: "length example_slot = 4096"
  using example_superblock_valid by (simp add: example_slot_def valid_superblock_def)

lemma example_slot_accept: "plain_accept example_slot = Some example_superblock"
proof -
  have "sdb_encode_slot example_superblock None = Inr example_slot"
    using superblock_encode_image [OF example_superblock_valid, of 4096]
    by (simp add: sdb_encode_slot_def example_slot_def store_consts example_superblock_def)
  then show ?thesis
    using example_superblock_valid by (simp add: encode_slot_image(3) valid_superblock_def)
qed

lemma example_store_stored:
  "stored (example_store script) = Inr \<lparr> superblock = example_superblock, valid_mirror_count = 2,
    selected_slot = 0, format_version = sdb_read_u16_le example_slot 8 \<rparr>"
proof -
  have "slot_of plain_accept (example_slot @ example_slot) 0 = Some (example_slot, example_superblock)"
    "slot_of plain_accept (example_slot @ example_slot) 1 = Some (example_slot, example_superblock)"
    by (simp_all add: slot_of_def Let_def example_slot_length example_slot_accept layout_simps)
  then show ?thesis
    by (simp add: stored_read_with file_ok_def example_store_def example_slot_length INT64_MAX_def
        read_with_def select_slot_def sdb_superblocks_equal_def)
qed

text \<open>Two valid slots that differ at most in their checksums are the same.\<close>

lemma accepted_slot_determined:
  assumes p: "plain_accept p = Some a" "length p = 4096" and q: "plain_accept q = Some b" "length q = 4096"
    and same: "blit 88 (zeros 4) p = blit 88 (zeros 4) q"
  shows "p = q"
proof -
  have split: "\<exists>v. superblock_arrays a' \<and> x = header_image v a' @ drop 160 x" if "plain_accept x = Some a'" for x a'
  proof -
    have "sdb_superblock_v1_decode x = Inr a'"
      using that by (auto simp: plain_accept_def split: sum.splits if_splits)
    from superblock_decode_inv [OF this] show ?thesis
      unfolding valid_superblock_def by (metis append_take_drop_id)
  qed
  obtain v w where pv: "superblock_arrays a" "p = header_image v a @ drop 160 p" and qw: "superblock_arrays b" "q = header_image w b @ drop 160 q"
    using split [OF p(1)] split [OF q(1)] by blast
  have z: "blit 88 (zeros 4) (header_image u c @ t) = header_layout u c (zeros 4) @ t" if "superblock_arrays c" for u c t
    using that by (simp add: header_image_def blit_header_checksum)
  have eq: "header_layout v a (zeros 4) @ drop 160 p = header_layout w b (zeros 4) @ drop 160 q"
    using same z [OF pv(1), of v "drop 160 p"] z [OF qw(1), of w "drop 160 q"] pv(2) qw(2) by simp
  have "length (header_layout v a (zeros 4)) = length (header_layout w b (zeros 4))"
    using pv(1) qw(1) by simp
  with eq have l: "header_layout v a (zeros 4) = header_layout w b (zeros 4)" and t: "drop 160 p = drop 160 q"
    by simp_all
  have "header_image u c = blit 88 (le_bytes 4 (sdb_crc32 (header_layout u c (zeros 4)))) (header_layout u c (zeros 4))"
    if "superblock_arrays c" for u c
    using blit_header_checksum [OF that, of "zeros 4" "le_bytes 4 (sdb_crc32 (header_layout u c (zeros 4)))" u "[]"]
    by (simp add: header_image_def)
  then show ?thesis
    using pv qw l t by simp
qed

lemma blit_torn:
  assumes "off + length w \<le> length old" "length enc = length old" "k \<le> length old"
  shows "blit off w (take k enc @ drop k old) = take k (blit off w enc) @ drop k (blit off w old)"
  by (rule nth_equalityI) (use assms in \<open>auto simp: nth_blit nth_append\<close>)

lemma example_tears_detected: "tears_detected (example_superblock\<lparr>generation := 6\<rparr>) None (example_store script)"
  unfolding tears_detected_def Let_def
proof (intro allI impI)
  fix enc and i k :: nat
  let ?sb = "example_superblock\<lparr>generation := 6\<rparr>"
  assume e: "sdb_encode_slot ?sb None = Inr enc \<and> i < 2 \<and> torn_at (example_store script) k"
  have arr: "superblock_arrays ?sb" "superblock_arrays example_superblock"
    by (simp_all add: superblock_arrays_def example_superblock_def)
  have "i = 0 \<or> i = 1"
    using e by auto
  then have old: "slice (4096 * i) 4096 (fcontent (example_store script)) = example_slot"
    by (auto simp: example_store_def example_slot_length layout_simps)
  have k: "k \<le> 4096"
    using e by (simp add: torn_at_def)
  have "valid_superblock ?sb"
    using encode_slot_image(1) e arr(1) by blast
  then have enc: "enc = header_image 2 ?sb @ zeros 3936" "length enc = 4096" "plain_accept enc = Some ?sb"
    using superblock_encode_image [of ?sb 4096] e encode_slot_image(2,3) [of ?sb None enc] arr(1)
    by (auto simp: sdb_encode_slot_def store_consts example_superblock_def)
  have zero: "le_bytes n (0 :: u64) = zeros n" for n
    by (induction n) (simp_all add: zeros_def)
  have gen: "le_bytes 8 (5 :: u64) = 5 # zeros 7" "le_bytes 8 (6 :: u64) = 6 # zeros 7"
    using le_bytes.simps(2) [of 7 "5 :: u64"] le_bytes.simps(2) [of 7 "6 :: u64"] zero by simp_all
  have fresh: "take 24 enc = take 24 example_slot"
    by (simp add: enc(1) example_slot_def header_image_def header_layout_def)
  have rest: "drop 25 (blit 88 (zeros 4) enc) = drop 25 (blit 88 (zeros 4) example_slot)"
    using arr by (simp add: enc(1) example_slot_def header_image_def blit_header_checksum)
      (simp add: header_layout_def example_superblock_def gen)
  let ?torn = "take k enc @ drop k example_slot"
  show "take k enc @ drop k (slice (4096 * i) 4096 (fcontent (example_store script))) = slice (4096 * i) 4096 (fcontent (example_store script))
      \<or> take k enc @ drop k (slice (4096 * i) 4096 (fcontent (example_store script))) = enc
      \<or> plain_accept (take k enc @ drop k (slice (4096 * i) 4096 (fcontent (example_store script)))) = None"
    unfolding old
  proof (cases "k \<le> 24")
    case True
    then have "take k enc = take k example_slot"
      using fresh by (metis min.absorb1 take_take)
    then show "?torn = example_slot \<or> ?torn = enc \<or> plain_accept ?torn = None"
      by simp
  next
    case False
    have drop_from: "drop k (blit 88 (zeros 4) example_slot) = drop k (blit 88 (zeros 4) enc)"
      using arg_cong [OF rest, of "drop (k - 25)"] False by simp
    then have "blit 88 (zeros 4) ?torn = blit 88 (zeros 4) enc"
      using k enc(2) example_slot_length by (simp add: blit_torn)
    moreover have "length ?torn = 4096"
      using k enc(2) example_slot_length by simp
    ultimately show "?torn = example_slot \<or> ?torn = enc \<or> plain_accept ?torn = None"
      using accepted_slot_determined [of ?torn _ enc ?sb] enc(2,3) by (cases "plain_accept ?torn") auto
  qed
qed

text \<open>The witness: the first slot is on disk, 97 bytes of the second, which is no multiple of a sector.\<close>

theorem superblock_update_atomic_witness:
  "\<exists>res. stored (snd (sdb_superblock_store_update_file_internal
      (example_superblock\<lparr>generation := 6\<rparr>) None (example_store [OS_Ok 4096, OS_Ok 4096, OS_Ok 4096, OS_Ok 0, OS_Ok 97, OS_Fail]))) = Inr res
    \<and> (superblock res = example_superblock \<or> superblock res = example_superblock\<lparr>generation := 6\<rparr>)"
proof -
  let ?f = "example_store [OS_Ok 4096, OS_Ok 4096, OS_Ok 4096, OS_Ok 0, OS_Ok 97, OS_Fail]"
  let ?sb = "example_superblock\<lparr>generation := 6\<rparr>"
  obtain r f' where run: "sdb_superblock_store_update_file_internal ?sb None ?f = (r, f')"
    by fastforce
  have "file_ok ?f" "8192 \<le> length (fcontent ?f)" "superblock_arrays ?sb"
    by (simp_all add: file_ok_def example_store_def example_slot_length INT64_MAX_def superblock_arrays_def example_superblock_def)
  with superblock_update_atomic [OF _ example_tears_detected _ _ example_store_stored run]
  have "\<exists>res. stored f' = Inr res \<and> (superblock res = example_superblock \<or> superblock res = ?sb)"
    by auto
  then show ?thesis
    using run by auto
qed

text \<open>
  C15: an authenticated read never returns a superblock the key did not sign. The
  selected slot decodes to the returned superblock, carries the authentication
  flag, and its tag is the keyed hash of its header.
\<close>

theorem authenticated_read_sound:
  assumes "file_ok f" "stored_authenticated key f = Inr res"
  shows "let slot = slice (4096 * selected_slot res) 4096 (fcontent f) in
    sdb_superblock_v1_decode slot = Inr (superblock res)
    \<and> flags (superblock res) AND SDB_FLAG_HEADER_AUTH \<noteq> 0
    \<and> slice 160 32 slot = sdb_hmac_sha256 key (take 160 slot)"
proof -
  have "read_with (auth_accept key) (fcontent f) = Inr res"
    using assms by (simp add: stored_authenticated_read_with)
  then obtain b where "slot_of (auth_accept key) (fcontent f) (selected_slot res) = Some (b, superblock res)"
    using auth.read_with_cases(2) by blast
  then have b: "b = slice (4096 * selected_slot res) 4096 (fcontent f)" "length b = 4096"
      "auth_accept key b = Some (superblock res)"
    unfolding auth.slot_of_Some by blast+
  have "sdb_slot_auth_tag_matches b key"
    using b(3) by (auto simp: auth_accept_def split: option.splits if_splits)
  then have "slice 160 32 b = sdb_hmac_sha256 key (take 160 b)"
    using b(2) by (simp add: sdb_slot_auth_tag_matches_def store_consts constant_time_equal_iff)
  moreover have "sdb_superblock_v1_decode b = Inr (superblock res)"
    "flags (superblock res) AND SDB_FLAG_HEADER_AUTH \<noteq> 0"
    using b(3) by (auto simp: auth_accept_def plain_accept_def split: option.splits sum.splits if_splits)
  ultimately show ?thesis
    unfolding Let_def b(1) by blast
qed

definition example_auth_superblock :: sdb_superblock_v1 where
  "example_auth_superblock = example_superblock\<lparr>flags := 3, key_wrap_id := 1, kdf_iterations := 600000,
    salt := replicate 16 1, wrapped_key := replicate 32 1, key_wrap_tag := replicate 16 1\<rparr>"

lemma example_auth_superblock_valid: "valid_superblock example_auth_superblock"
  by (simp add: valid_superblock_def superblock_arrays_def sdb_validate_superblock_detailed_def
      example_auth_superblock_def example_superblock_def page_consts superblock_consts
      sdb_is_power_of_two_u32_def geometry_valid_iff bytes_all_zero_iff word_le_nat_alt)

definition example_auth_slot :: bytes where
  "example_auth_slot = header_image 2 example_auth_superblock
    @ sdb_hmac_sha256 (replicate 32 9) (header_image 2 example_auth_superblock) @ zeros 3904"

lemma example_auth_slot_accept:
  "length example_auth_slot = 4096"
  "auth_accept (replicate 32 9) example_auth_slot = Some example_auth_superblock"
proof -
  let ?h = "header_image 2 example_auth_superblock"
  have arr: "superblock_arrays example_auth_superblock" and fl: "flags example_auth_superblock = 3"
    using example_auth_superblock_valid by (simp_all add: valid_superblock_def example_auth_superblock_def)
  have "zeros 3936 = zeros 32 @ zeros 3904"
    by (simp add: zeros_append)
  then have "blit 160 (sdb_hmac_sha256 (replicate 32 9) ?h) (?h @ zeros 3936) = example_auth_slot"
    using arr by (simp add: example_auth_slot_def layout_simps)
  then have "sdb_encode_slot example_auth_superblock (Some (replicate 32 9)) = Inr example_auth_slot"
    using superblock_encode_image [OF example_auth_superblock_valid, of 4096] arr
    by (simp add: sdb_encode_slot_def store_consts fl)
  from encode_slot_image [OF this arr] show "length example_auth_slot = 4096"
    "auth_accept (replicate 32 9) example_auth_slot = Some example_auth_superblock"
    by (simp_all add: fl store_consts)
qed

theorem authenticated_read_sound_witness:
  "let f = \<lparr> fcontent = example_auth_slot @ zeros 4096, fdurable = [], fpending = [], fscript = [] \<rparr>
   in \<exists>res. stored_authenticated (replicate 32 9) f = Inr res \<and> superblock res = example_auth_superblock
     \<and> slice 160 32 (slice (4096 * selected_slot res) 4096 (fcontent f)) =
       sdb_hmac_sha256 (replicate 32 9) (take 160 (slice (4096 * selected_slot res) 4096 (fcontent f)))"
proof -
  let ?f = "\<lparr> fcontent = example_auth_slot @ zeros 4096, fdurable = [], fpending = [], fscript = [] \<rparr>"
  have ok: "file_ok ?f"
    by (simp add: file_ok_def example_auth_slot_accept INT64_MAX_def)
  have "take 8 (zeros 4096) ! 0 \<noteq> sdb_superblock_magic ! 0"
    by (simp add: sdb_superblock_magic_def)
  then have "take 8 (zeros 4096) \<noteq> sdb_superblock_magic"
    by metis
  then have "sdb_superblock_v1_decode (zeros 4096) = Inl SDB_E_BAD_MAGIC"
    unfolding sdb_superblock_v1_decode_def by (simp add: SDB_SUPERBLOCK_HEADER_SIZE_def)
  then have "auth_accept (replicate 32 9) (zeros 4096) = None"
    by (simp add: auth_accept_def plain_accept_def)
  then have "stored_authenticated (replicate 32 9) ?f = Inr \<lparr> superblock = example_auth_superblock,
      valid_mirror_count = 1, selected_slot = 0, format_version = sdb_read_u16_le example_auth_slot 8 \<rparr>"
    using ok by (simp add: stored_authenticated_read_with read_with_def slot_of_def Let_def layout_simps
        example_auth_slot_accept select_slot_def)
  with authenticated_read_sound [OF ok this] show ?thesis
    by (simp add: Let_def)
qed

lemma encode_slot_version:
  assumes "sdb_encode_slot sb key = Inr enc" "superblock_arrays sb"
  shows "sdb_read_u16_le enc 8 = SDB_FORMAT_VERSION_V2"
proof -
  have v: "valid_superblock sb"
    using encode_slot_image(1) [OF assms] .
  have "\<exists>t. enc = header_image 2 sb @ t"
    using assms superblock_encode_image [OF v, of 4096]
    by (auto simp: sdb_encode_slot_def store_consts layout_simps split: if_splits option.splits)
  then show ?thesis
    using header_layout_reads(3) [OF refl assms(2) length_le_bytes] by (auto simp: header_image_def store_consts)
qed

lemma both_mirrors_stored:
  assumes "sdb_encode_slot sb key = Inr enc" "superblock_arrays sb" "fcontent f = enc @ enc"
  shows "stored f = Inr \<lparr> superblock = sb, valid_mirror_count = 2, selected_slot = 0,
    format_version = SDB_FORMAT_VERSION_V2 \<rparr>"
proof -
  note enc = encode_slot_image [OF assms(1,2)]
  have "slot_of plain_accept (enc @ enc) 0 = Some (enc, sb)" "slot_of plain_accept (enc @ enc) 1 = Some (enc, sb)"
    by (simp_all add: slot_of_def Let_def enc layout_simps)
  then show ?thesis
    using enc(2) assms(3) encode_slot_version [OF assms(1,2)]
    by (simp add: stored_read_with file_ok_def INT64_MAX_def read_with_def select_slot_def
        sdb_superblocks_equal_def)
qed

lemma create_writes:
  assumes enc: "length enc = 4096" and c: "fcontent f = []"
    and run: "fbind (sdb_file_resize 8192) (\<lambda>_. fbind sdb_file_sync (\<lambda>_.
      fbind (sdb_file_write_full 0 enc) (\<lambda>_. fbind sdb_file_sync (\<lambda>_.
      fbind (sdb_file_write_full 4096 enc) (\<lambda>_. sdb_file_sync))))) f = (Inr (), f')"
  shows "fcontent f' = enc @ enc" "fdurable f' = enc @ enc"
proof -
  from run obtain f1 f2 f3 f4 f5 where
    r1: "sdb_file_resize 8192 f = (Inr (), f1)" and s1: "sdb_file_sync f1 = (Inr (), f2)"
    and w1: "sdb_file_write_full 0 enc f2 = (Inr (), f3)" and s2: "sdb_file_sync f3 = (Inr (), f4)"
    and w2: "sdb_file_write_full 4096 enc f4 = (Inr (), f5)" and s3: "sdb_file_sync f5 = (Inr (), f')"
    by (auto simp: fbind_eq_Inr)
  have c1: "fcontent f1 = zeros 8192"
    using sdb_file_resize_spec(3) [OF r1] c by (simp add: INT64_MAX_def file_resize_def file_grow_def)
  have c2: "fcontent f2 = zeros 8192"
    using sdb_file_sync_spec(1) [OF s1] c1 by simp
  have "4096 * 0 + length enc \<le> INT64_MAX" "4096 * 1 + length enc \<le> INT64_MAX"
    using enc by (simp_all add: INT64_MAX_def)
  then obtain k1 k2 where k: "wrote_prefix 0 enc f2 k1 f3" "k1 = length enc"
      "wrote_prefix 4096 enc f4 k2 f5" "k2 = length enc"
    using sdb_file_write_full_spec [OF w1] sdb_file_write_full_spec [OF w2] by (metis mult_0_right add_0 mult.right_neutral sum.distinct(1))
  have "zeros 8192 = zeros 4096 @ zeros 4096"
    by (simp add: zeros_append)
  then have c3: "fcontent f3 = enc @ zeros 4096"
    using k(1,2) c2 enc by (simp add: wrote_prefix_def file_write_in_bounds layout_simps)
  have c4: "fcontent f4 = enc @ zeros 4096"
    using sdb_file_sync_spec(1) [OF s2] c3 by simp
  then have "fcontent f5 = enc @ enc"
    using k(3,4) enc by (simp add: wrote_prefix_def file_write_in_bounds layout_simps)
  then show "fcontent f' = enc @ enc" "fdurable f' = enc @ enc"
    using sdb_file_sync_spec [OF s3] by auto
qed

lemma example_slot_encode: "sdb_encode_slot example_superblock None = Inr example_slot"
  using superblock_encode_image [OF example_superblock_valid, of 4096]
  by (simp add: sdb_encode_slot_def example_slot_def store_consts example_superblock_def)

end
