(* ===== verification/Directory.thy ===== *)
theory Directory
  imports File
begin

text \<open>
  The path operations of \<open>src/file.c\<close> (POSIX part) on a directory tree: names
  refer to files by number, an open file is such a number, and so survives the
  removal or renaming of its name. The names that a synced directory is known to
  hold are kept beside the names the process sees. Every system call takes its
  outcome from the front of one script.
\<close>

section \<open>Model\<close>

record directory =
  d_names :: "string \<Rightarrow> nat option"
  d_durable :: "string \<Rightarrow> nat option"
  d_inodes :: "sdb_file list"
  d_script :: "os_outcome list"

type_synonym 'a dir_io = "directory \<Rightarrow> 'a result \<times> directory"

definition dbind :: "'a dir_io \<Rightarrow> ('a \<Rightarrow> 'b dir_io) \<Rightarrow> 'b dir_io" where
  "dbind m k d = (case m d of (Inl e, d') \<Rightarrow> (Inl e, d') | (Inr v, d') \<Rightarrow> k v d')"

definition dreturn :: "'a \<Rightarrow> 'a dir_io" where
  "dreturn v d = (Inr v, d)"

definition dthrow :: "sdb_status \<Rightarrow> 'a dir_io" where
  "dthrow e d = (Inl e, d)"

text \<open>A system call with its \<open>EINTR\<close> retry loop, and one that is not retried.\<close>

definition dir_call :: "directory \<Rightarrow> bool \<times> directory" where
  "dir_call d =
    (case dropWhile (\<lambda>e. e = OS_Eintr) (d_script d) of
       OS_Ok n # rest \<Rightarrow> (True, d\<lparr>d_script := rest\<rparr>)
     | _ # rest \<Rightarrow> (False, d\<lparr>d_script := rest\<rparr>)
     | [] \<Rightarrow> (True, d\<lparr>d_script := []\<rparr>))"

definition dir_call_once :: "directory \<Rightarrow> bool \<times> directory" where
  "dir_call_once d =
    (case d_script d of
       OS_Ok n # rest \<Rightarrow> (True, d\<lparr>d_script := rest\<rparr>)
     | _ # rest \<Rightarrow> (False, d\<lparr>d_script := rest\<rparr>)
     | [] \<Rightarrow> (True, d))"

text \<open>An operation on an open file; its system calls draw on the same script.\<close>

definition on_file :: "nat \<Rightarrow> 'a file_io \<Rightarrow> 'a dir_io" where
  "on_file h m d =
    (case m ((d_inodes d ! h)\<lparr>fscript := d_script d\<rparr>) of
       (r, f') \<Rightarrow> (r, d\<lparr>d_inodes := (d_inodes d)[h := f'\<lparr>fscript := []\<rparr>], d_script := fscript f'\<rparr>))"

text \<open>Closing an open file where the outcome is ignored.\<close>

definition close_ignored :: "nat \<Rightarrow> directory \<Rightarrow> directory" where
  "close_ignored h d = snd (on_file h sdb_file_close d)"

text \<open>
  How a file is opened; an existing one for writing as well or for reading only. A file
  that may not be opened that way is a failing call of the script. The code reads through
  handles of both kinds and writes only through those opened for writing, so that a handle
  is the file it names.
\<close>

datatype open_mode = Create_Exclusive | Open_Existing bool

definition sdb_file_open_posix :: "string \<Rightarrow> open_mode \<Rightarrow> nat dir_io" where
  "sdb_file_open_posix path mode d =
    (case dir_call d of
       (False, d') \<Rightarrow> (Inl SDB_E_IO, d')
     | (True, d') \<Rightarrow>
         (case (mode, d_names d' path) of
            (Open_Existing _, None) \<Rightarrow> (Inl SDB_E_NOT_FOUND, d')
          | (Open_Existing _, Some h) \<Rightarrow> (Inr h, d')
          | (Create_Exclusive, Some _) \<Rightarrow> (Inl SDB_E_CONFLICT, d')
          | (Create_Exclusive, None) \<Rightarrow>
              let h = length (d_inodes d')
              in (Inr h, d'\<lparr>d_names := (d_names d')(path \<mapsto> h),
                   d_inodes := d_inodes d' @ [\<lparr>fcontent = [], fdurable = [], fpending = [], fscript = []\<rparr>]\<rparr>)))"

definition sdb_file_create_new :: "string \<Rightarrow> nat dir_io" where
  "sdb_file_create_new path = sdb_file_open_posix path Create_Exclusive"

definition sdb_file_open_existing :: "string \<Rightarrow> bool \<Rightarrow> nat dir_io" where
  "sdb_file_open_existing path writable = sdb_file_open_posix path (Open_Existing writable)"

text \<open>The directory part of a path, as computed before the directory is synced.\<close>

definition parent_directory :: "string \<Rightarrow> string" where
  "parent_directory path =
    (if CHR ''/'' \<notin> set path then ''.''
     else let stem = rev (tl (dropWhile (\<lambda>c. c \<noteq> CHR ''/'') (rev path)))
          in if stem = [] then ''/'' else stem)"

text \<open>
  A successful sync of a directory makes its names durable. The close that
  follows is not retried and only turns a success into a failure.
\<close>

definition sdb_file_sync_parent_directory :: "(nat \<Rightarrow> bool) \<Rightarrow> string \<Rightarrow> unit dir_io" where
  "sdb_file_sync_parent_directory malloc_ok path d =
    (if path = [] then (Inl SDB_E_INVALID_ARGUMENT, d)
     else if length path > 1 \<and> last path = CHR ''/'' then (Inl SDB_E_INVALID_ARGUMENT, d)
     else if \<not> malloc_ok (length path + 1) then (Inl SDB_E_OUT_OF_MEMORY, d)
     else case dir_call d of
       (False, d1) \<Rightarrow> (Inl SDB_E_IO, d1)
     | (True, d1) \<Rightarrow>
         (case dir_call d1 of
            (False, d2) \<Rightarrow> (case dir_call_once d2 of (_, d3) \<Rightarrow> (Inl SDB_E_IO, d3))
          | (True, d2) \<Rightarrow>
              let d2 = d2\<lparr>d_durable := \<lambda>name. if parent_directory name = parent_directory path
                                             then d_names d2 name else d_durable d2 name\<rparr>
              in (case dir_call_once d2 of
                    (False, d3) \<Rightarrow> (Inl SDB_E_IO, d3)
                  | (True, d3) \<Rightarrow> (Inr (), d3))))"

text \<open>\<open>rename\<close>, or \<open>link\<close> and \<open>unlink\<close> with the roll back of the code.\<close>

definition dir_unlink :: "string \<Rightarrow> directory \<Rightarrow> bool \<times> directory" where
  "dir_unlink path d =
    (case dir_call d of
       (False, d') \<Rightarrow> (False, d')
     | (True, d') \<Rightarrow>
         if d_names d' path = None then (False, d')
         else (True, d'\<lparr>d_names := (d_names d')(path := None)\<rparr>))"

definition sdb_file_replace :: "string \<Rightarrow> string \<Rightarrow> bool \<Rightarrow> unit dir_io" where
  "sdb_file_replace source destination replace_existing d =
    (case dir_call d of
       (False, d1) \<Rightarrow> (Inl SDB_E_IO, d1)
     | (True, d1) \<Rightarrow>
         (case d_names d1 source of
            None \<Rightarrow> (Inl SDB_E_IO, d1)
          | Some h \<Rightarrow>
              if replace_existing then
                if d_names d1 destination = Some h then (Inr (), d1)
                else (Inr (), d1\<lparr>d_names := (d_names d1)(source := None, destination \<mapsto> h)\<rparr>)
              else if d_names d1 destination \<noteq> None then (Inl SDB_E_IO, d1)
              else
                let d2 = d1\<lparr>d_names := (d_names d1)(destination \<mapsto> h)\<rparr>
                in (case dir_unlink source d2 of
                      (True, d3) \<Rightarrow> (Inr (), d3)
                    | (False, d3) \<Rightarrow> (case dir_unlink destination d3 of (_, d4) \<Rightarrow> (Inl SDB_E_IO, d4)))))"

definition sdb_file_remove :: "string \<Rightarrow> bool \<Rightarrow> unit dir_io" where
  "sdb_file_remove path missing_ok d =
    (case dir_call d of
       (False, d') \<Rightarrow> (Inl SDB_E_IO, d')
     | (True, d') \<Rightarrow>
         if d_names d' path = None then (if missing_ok then Inr () else Inl SDB_E_IO, d')
         else (Inr (), d'\<lparr>d_names := (d_names d')(path := None)\<rparr>))"

definition sdb_file_path_exists :: "string \<Rightarrow> bool dir_io" where
  "sdb_file_path_exists path d =
    (if path = [] then (Inl SDB_E_INVALID_ARGUMENT, d)
     else case dir_call_once d of
       (False, d') \<Rightarrow> (Inl SDB_E_IO, d')
     | (True, d') \<Rightarrow> (Inr (d_names d' path \<noteq> None), d'))"

section \<open>Contract\<close>

definition dir_may_fail :: "directory \<Rightarrow> bool" where
  "dir_may_fail d \<longleftrightarrow> set (d_script d) \<inter> {OS_Fail, OS_Eintr} \<noteq> {}"

text \<open>\<open>same_dir d d'\<close>: only system calls that change nothing happened in between.\<close>

definition same_dir :: "directory \<Rightarrow> directory \<Rightarrow> bool" where
  "same_dir d d' \<longleftrightarrow> d_names d' = d_names d \<and> d_durable d' = d_durable d \<and> d_inodes d' = d_inodes d
    \<and> set (d_script d') \<subseteq> set (d_script d)"

lemma same_dir_refl [simp]: "same_dir d d"
  by (simp add: same_dir_def)

lemma same_dir_trans: "same_dir d e \<Longrightarrow> same_dir e f \<Longrightarrow> same_dir d f"
  by (auto simp: same_dir_def)

lemma same_dir_may_fail: "same_dir d d' \<Longrightarrow> dir_may_fail d' \<Longrightarrow> dir_may_fail d"
  by (auto simp: same_dir_def dir_may_fail_def)

lemma dir_call_spec:
  assumes "dir_call d = (ok, d')"
  shows "same_dir d d'" "\<not> ok \<Longrightarrow> dir_may_fail d"
proof -
  have sub: "set (dropWhile (\<lambda>e. e = OS_Eintr) (d_script d)) \<subseteq> set (d_script d)"
    by (auto dest: set_dropWhileD)
  with assms show "same_dir d d'"
    by (auto simp: dir_call_def same_dir_def split: list.splits os_outcome.splits)
  show "dir_may_fail d" if fail: "\<not> ok"
  proof -
    obtain e rest where "dropWhile (\<lambda>e. e = OS_Eintr) (d_script d) = e # rest" "e = OS_Fail \<or> e = OS_Eintr"
      using assms fail by (auto simp: dir_call_def split: list.splits os_outcome.splits)
    with sub show ?thesis
      by (auto simp: dir_may_fail_def)
  qed
qed

lemma dir_call_once_spec:
  assumes "dir_call_once d = (ok, d')"
  shows "same_dir d d'" "\<not> ok \<Longrightarrow> dir_may_fail d"
  using assms by (auto simp: dir_call_once_def same_dir_def dir_may_fail_def split: list.splits os_outcome.splits)

lemma healthy_dir_call:
  assumes "d_script d = []"
  shows "dir_call d = (True, d)" "dir_call_once d = (True, d)"
  using assms by (simp_all add: dir_call_def dir_call_once_def)

text \<open>Opening and reading files leaves the directory as it was.\<close>

definition dir_unchanged :: "directory \<Rightarrow> directory \<Rightarrow> bool" where
  "dir_unchanged d d' \<longleftrightarrow> d_names d' = d_names d \<and> d_durable d' = d_durable d
    \<and> map fcontent (d_inodes d') = map fcontent (d_inodes d) \<and> map fdurable (d_inodes d') = map fdurable (d_inodes d)
    \<and> set (d_script d') \<subseteq> set (d_script d)"

lemma dir_unchanged_refl [simp]: "dir_unchanged d d"
  by (simp add: dir_unchanged_def)

lemma dir_unchanged_trans: "dir_unchanged d e \<Longrightarrow> dir_unchanged e f \<Longrightarrow> dir_unchanged d f"
  by (auto simp: dir_unchanged_def)

lemma same_dir_unchanged: "same_dir d d' \<Longrightarrow> dir_unchanged d d'"
  by (simp add: same_dir_def dir_unchanged_def)

lemma dir_unchanged_may_fail: "dir_unchanged d d' \<Longrightarrow> dir_may_fail d' \<Longrightarrow> dir_may_fail d"
  by (auto simp: dir_unchanged_def dir_may_fail_def)

lemma on_file_reads:
  assumes "on_file h m d = (r, d')" and h: "h < length (d_inodes d)"
    and reads: "\<And>f r f'. m f = (r, f') \<Longrightarrow> fcontent f = fcontent (d_inodes d ! h) \<Longrightarrow> same_file f f'"
  shows "dir_unchanged d d'"
    and "\<exists>f f'. m f = (r, f') \<and> fcontent f = fcontent (d_inodes d ! h) \<and> fscript f = d_script d"
proof -
  let ?f = "(d_inodes d ! h)\<lparr>fscript := d_script d\<rparr>"
  obtain f' where m: "m ?f = (r, f')" and d': "d' = d\<lparr>d_inodes := (d_inodes d)[h := f'\<lparr>fscript := []\<rparr>], d_script := fscript f'\<rparr>"
    using assms(1) by (auto simp: on_file_def split: prod.splits)
  have "same_file ?f f'"
    using reads [OF m] by simp
  then have "fcontent f' = fcontent (d_inodes d ! h)" "fdurable f' = fdurable (d_inodes d ! h)"
    "set (fscript f') \<subseteq> set (d_script d)"
    by (auto simp: same_file_def)
  then show "dir_unchanged d d'"
    using h by (auto simp: dir_unchanged_def d' map_update [symmetric] list_update_id [of "map _ _", simplified]
        intro!: nth_equalityI simp: nth_list_update)
  show "\<exists>f f'. m f = (r, f') \<and> fcontent f = fcontent (d_inodes d ! h) \<and> fscript f = d_script d"
    using m by (intro exI [of _ ?f] exI [of _ f']) simp
qed

lemma close_ignored_unchanged: "h < length (d_inodes d) \<Longrightarrow> dir_unchanged d (close_ignored h d)"
  by (cases "on_file h sdb_file_close d")
    (auto simp: close_ignored_def dest: on_file_reads(1) [where m = sdb_file_close] sdb_file_close_same)

lemma dir_unchanged_inode:
  "dir_unchanged d d' \<Longrightarrow> h < length (d_inodes d) \<Longrightarrow>
    h < length (d_inodes d') \<and> fcontent (d_inodes d' ! h) = fcontent (d_inodes d ! h)"
  unfolding dir_unchanged_def by (metis length_map nth_map)

lemma on_file_size:
  assumes "on_file h sdb_file_size d = (r, d')" "h < length (d_inodes d)"
  shows "dir_unchanged d d'" "r = Inr (length (fcontent (d_inodes d ! h))) \<or> r = Inl SDB_E_IO \<and> dir_may_fail d"
proof -
  show "dir_unchanged d d'"
    by (rule on_file_reads(1) [OF assms]) (rule sdb_file_size_spec)
  obtain f f' where "sdb_file_size f = (r, f')" "fcontent f = fcontent (d_inodes d ! h)" "fscript f = d_script d"
    using on_file_reads(2) [OF assms] sdb_file_size_spec(1) by blast
  then show "r = Inr (length (fcontent (d_inodes d ! h))) \<or> r = Inl SDB_E_IO \<and> dir_may_fail d"
    using sdb_file_size_spec(2) [of f r f'] by (auto simp: dir_may_fail_def)
qed

lemma on_file_read:
  assumes "on_file h (sdb_file_read_full off sz) d = (r, d')" "h < length (d_inodes d)"
    and ok: "length (fcontent (d_inodes d ! h)) \<le> INT64_MAX" "off \<le> INT64_MAX"
  shows "dir_unchanged d d'" "r = file_read off sz (fcontent (d_inodes d ! h)) \<or> r = Inl SDB_E_IO \<and> dir_may_fail d"
proof -
  have fine: "file_ok f" if "fcontent f = fcontent (d_inodes d ! h)" for f
    using that ok by (simp add: file_ok_def)
  show "dir_unchanged d d'"
    by (rule on_file_reads(1) [OF assms(1,2)]) (rule sdb_file_read_full_spec(1), auto simp: ok intro: fine)
  obtain f f' where "sdb_file_read_full off sz f = (r, f')" "fcontent f = fcontent (d_inodes d ! h)" "fscript f = d_script d"
    using on_file_reads(2) [OF assms(1,2)] sdb_file_read_full_spec(1) ok fine by metis
  then show "r = file_read off sz (fcontent (d_inodes d ! h)) \<or> r = Inl SDB_E_IO \<and> dir_may_fail d"
    using sdb_file_read_full_spec(2) [of off sz f r f'] fine ok by (auto simp: may_fail_def dir_may_fail_def)
qed

lemma open_existing_spec:
  assumes "sdb_file_open_existing path writable d = (r, d')" "d_names d path = Some h"
  shows "dir_unchanged d d'" "r = Inr h \<or> r = Inl SDB_E_IO \<and> dir_may_fail d"
proof -
  obtain a d1 where a: "dir_call d = (a, d1)"
    by fastforce
  have "d_names d1 path = Some h"
    using dir_call_spec(1) [OF a] assms(2) by (simp add: same_dir_def)
  then have "r = (if a then Inr h else Inl SDB_E_IO)" "d' = d1"
    using assms(1) a by (auto simp: sdb_file_open_existing_def sdb_file_open_posix_def split: bool.splits)
  then show "dir_unchanged d d'" "r = Inr h \<or> r = Inl SDB_E_IO \<and> dir_may_fail d"
    using dir_call_spec [OF a] same_dir_unchanged by auto
qed

text \<open>Names of the directory refer to files it has.\<close>

definition dir_wf :: "directory \<Rightarrow> bool" where
  "dir_wf d \<longleftrightarrow> (\<forall>path h. d_names d path = Some h \<longrightarrow> h < length (d_inodes d))"

lemma on_file_runs:
  assumes "on_file h m d = (r, d')" "h < length (d_inodes d)"
  shows "\<exists>f f'. m f = (r, f') \<and> fcontent f = fcontent (d_inodes d ! h) \<and> fcontent (d_inodes d' ! h) = fcontent f'
    \<and> d_names d' = d_names d \<and> length (d_inodes d') = length (d_inodes d)
    \<and> fdurable (d_inodes d' ! h) = fdurable f'"
proof -
  let ?f = "(d_inodes d ! h)\<lparr>fscript := d_script d\<rparr>"
  obtain f' where "m ?f = (r, f')" "d' = d\<lparr>d_inodes := (d_inodes d)[h := f'\<lparr>fscript := []\<rparr>], d_script := fscript f'\<rparr>"
    using assms(1) by (auto simp: on_file_def split: prod.splits)
  then show ?thesis
    using assms(2) by (intro exI [of _ ?f] exI [of _ f']) simp
qed

lemma sync_parent_names:
  assumes "sdb_file_sync_parent_directory malloc_ok path d = (r, d')"
  shows "d_names d' = d_names d \<and> d_inodes d' = d_inodes d"
proof -
  obtain a d1 where a: "dir_call d = (a, d1)"
    by fastforce
  obtain b d2 where b: "dir_call d1 = (b, d2)"
    by fastforce
  define d2' where "d2' = (if b then d2\<lparr>d_durable := \<lambda>name. if parent_directory name = parent_directory path
      then d_names d2 name else d_durable d2 name\<rparr> else d2)"
  obtain c d3 where c: "dir_call_once d2' = (c, d3)"
    by fastforce
  have "d' \<in> {d, d1, d3}"
    using assms a b c by (auto simp: sdb_file_sync_parent_directory_def d2'_def split: if_splits bool.splits)
  moreover have "same_dir d d1" "same_dir d1 d2" "same_dir d2' d3"
    using dir_call_spec(1) [OF a] dir_call_spec(1) [OF b] dir_call_once_spec(1) [OF c] .
  ultimately show ?thesis
    by (auto simp: same_dir_def d2'_def split: if_splits)
qed

lemma open_posix_spec:
  assumes "sdb_file_open_posix path mode d = (r, d')" "dir_wf d"
  shows "dir_wf d' \<and> (\<forall>h. r = Inr h \<longrightarrow> d_names d' path = Some h \<and> h < length (d_inodes d'))"
proof -
  obtain a d1 where a: "dir_call d = (a, d1)"
    by fastforce
  have wf: "dir_wf d1"
    using dir_call_spec(1) [OF a] assms(2) by (simp add: same_dir_def dir_wf_def)
  show ?thesis
  proof (cases "a \<and> mode = Create_Exclusive \<and> d_names d1 path = None")
    case True
    then show ?thesis
      using assms(1) a wf by (auto simp: sdb_file_open_posix_def dir_wf_def less_Suc_eq Let_def split: if_splits)
  next
    case False
    then show ?thesis
      using assms(1) a wf
      by (cases a; cases mode; cases "d_names d1 path") (auto simp: sdb_file_open_posix_def dir_wf_def Let_def)
  qed
qed

text \<open>An empty directory, and runs on a system whose calls all succeed.\<close>

lemma on_file_healthy:
  assumes "d_script d = []" "\<And>f. fscript f = [] \<Longrightarrow> \<exists>f'. m f = (Inr v, f') \<and> fscript f' = []"
  shows "\<exists>d'. on_file h m d = (Inr v, d') \<and> d_script d' = []"
proof -
  obtain f' where "m ((d_inodes d ! h)\<lparr>fscript := d_script d\<rparr>) = (Inr v, f')" "fscript f' = []"
    using assms(2) [of "(d_inodes d ! h)\<lparr>fscript := d_script d\<rparr>"] assms(1) by auto
  then show ?thesis
    by (simp add: on_file_def)
qed

definition empty_directory :: directory where
  "empty_directory = \<lparr>d_names = Map.empty, d_durable = Map.empty, d_inodes = [], d_script = []\<rparr>"

end
