(* ===== verification/Store_Path.thy ===== *)
theory Store_Path
  imports Superblock_Store Directory
begin

text \<open>
  The operations of \<open>src/superblock_store.c\<close> that take a path: creating a store with
  both mirrors, and reading and updating a store that is not open.
\<close>

section \<open>Model\<close>

text \<open>\<open>remove\<close> of the C library, whose outcome the code ignores.\<close>

definition remove_ignored :: "string \<Rightarrow> directory \<Rightarrow> directory" where
  "remove_ignored path d =
    (case dir_call_once d of
       (False, d') \<Rightarrow> d'
     | (True, d') \<Rightarrow> d'\<lparr>d_names := (d_names d')(path := None)\<rparr>)"

definition sdb_superblock_store_create_internal ::
  "(nat \<Rightarrow> bool) \<Rightarrow> string \<Rightarrow> sdb_superblock_v1 \<Rightarrow> bytes option \<Rightarrow> unit dir_io" where
  "sdb_superblock_store_create_internal malloc_ok path sb data_key d =
    (case sdb_encode_slot sb data_key of
       Inl e \<Rightarrow> (Inl e, d)
     | Inr slot \<Rightarrow>
         (case sdb_file_create_new path d of
            (Inl e, d) \<Rightarrow> (Inl e, d)
          | (Inr h, d) \<Rightarrow>
              let (status, d) = on_file h
                    (fbind (sdb_file_resize (SDB_SUPERBLOCK_SLOT_SIZE * SDB_SUPERBLOCK_SLOT_COUNT)) (\<lambda>_.
                     fbind sdb_file_sync (\<lambda>_.
                     fbind (sdb_file_write_full (sdb_slot_offset 0) slot) (\<lambda>_.
                     fbind sdb_file_sync (\<lambda>_.
                     fbind (sdb_file_write_full (sdb_slot_offset 1) slot) (\<lambda>_.
                     sdb_file_sync)))))) d;
                  (close_status, d) = on_file h sdb_file_close d;
                  (status, d) = (if is_ok status \<and> is_ok close_status
                    then sdb_file_sync_parent_directory malloc_ok path d
                    else (status, snd (sdb_file_sync_parent_directory malloc_ok path (remove_ignored path d))))
              in (if \<not> is_ok status then status else close_status, d)))"

definition sdb_superblock_store_create ::
  "(nat \<Rightarrow> bool) \<Rightarrow> string \<Rightarrow> sdb_superblock_v1 \<Rightarrow> unit dir_io" where
  "sdb_superblock_store_create malloc_ok path sb = sdb_superblock_store_create_internal malloc_ok path sb None"

definition sdb_superblock_store_create_authenticated ::
  "(nat \<Rightarrow> bool) \<Rightarrow> string \<Rightarrow> sdb_superblock_v1 \<Rightarrow> bytes option \<Rightarrow> unit dir_io" where
  "sdb_superblock_store_create_authenticated malloc_ok path sb data_key =
    (if data_key = None \<or> flags sb AND SDB_FLAG_HEADER_AUTH = 0 then dthrow SDB_E_INVALID_ARGUMENT
     else sdb_superblock_store_create_internal malloc_ok path sb data_key)"

definition sdb_superblock_store_read :: "string \<Rightarrow> sdb_superblock_read_result dir_io" where
  "sdb_superblock_store_read path =
    dbind (sdb_file_open_existing path False) (\<lambda>h d.
      let (status, d) = on_file h sdb_superblock_store_read_file d;
          (close_status, d) = on_file h sdb_file_close d
      in (rbind status (\<lambda>result. rbind close_status (\<lambda>_. Inr result)), d))"

definition sdb_superblock_store_update :: "string \<Rightarrow> sdb_superblock_v1 \<Rightarrow> unit dir_io" where
  "sdb_superblock_store_update path sb =
    dbind (sdb_file_open_existing path True) (\<lambda>h d.
      let (status, d) = on_file h (sdb_superblock_store_update_file sb) d;
          (close_status, d) = on_file h sdb_file_close d
      in (if \<not> is_ok status then status else close_status, d))"

section \<open>Creation\<close>

lemma create_new_spec:
  assumes "sdb_file_create_new path d = (Inr h, d')"
  shows "h = length (d_inodes d)" "d_names d' = (d_names d)(path \<mapsto> h)" "d_durable d' = d_durable d"
    "d_inodes d' = d_inodes d @ [\<lparr>fcontent = [], fdurable = [], fpending = [], fscript = []\<rparr>]"
proof -
  obtain a d1 where a: "dir_call d = (a, d1)"
    by fastforce
  then show "h = length (d_inodes d)" "d_names d' = (d_names d)(path \<mapsto> h)" "d_durable d' = d_durable d"
    "d_inodes d' = d_inodes d @ [\<lparr>fcontent = [], fdurable = [], fpending = [], fscript = []\<rparr>]"
    using assms dir_call_spec(1) [OF a]
    by (auto simp: sdb_file_create_new_def sdb_file_open_posix_def same_dir_def Let_def
        split: bool.splits option.splits)
qed

lemma sync_parent_durable:
  assumes "sdb_file_sync_parent_directory malloc_ok path d = (Inr (), d')"
  shows "d_durable d' path = d_names d path"
proof -
  obtain a d1 where a: "dir_call d = (a, d1)"
    by fastforce
  obtain b d2 where b: "dir_call d1 = (b, d2)"
    by fastforce
  let ?d = "d2\<lparr>d_durable := \<lambda>name. if parent_directory name = parent_directory path then d_names d2 name else d_durable d2 name\<rparr>"
  obtain c d3 where c: "dir_call_once ?d = (c, d3)"
    by fastforce
  have "d' = d3"
    using assms a b c by (auto simp: sdb_file_sync_parent_directory_def Let_def split: if_splits bool.splits prod.splits)
  then show ?thesis
    using dir_call_spec(1) [OF a] dir_call_spec(1) [OF b] dir_call_once_spec(1) [OF c] by (simp add: same_dir_def)
qed

text \<open>Where both mirrors of a store are on stable storage, under a name that is.\<close>

definition store_durable :: "directory \<Rightarrow> string \<Rightarrow> sdb_superblock_v1 \<Rightarrow> bool" where
  "store_durable d path sb \<longleftrightarrow> (\<exists>h < length (d_inodes d). d_names d path = Some h \<and> d_durable d path = Some h
    \<and> stored (d_inodes d ! h) = Inr \<lparr>superblock = sb, valid_mirror_count = 2, selected_slot = 0,
        format_version = SDB_FORMAT_VERSION_V2\<rparr>
    \<and> fdurable (d_inodes d ! h) = fcontent (d_inodes d ! h))"

lemma create_durable:
  assumes "superblock_arrays sb" "sdb_superblock_store_create_internal malloc_ok path sb key d = (Inr (), d')"
  shows "store_durable d' path sb"
proof -
  obtain enc where enc: "sdb_encode_slot sb key = Inr enc"
    using assms(2) by (auto simp: sdb_superblock_store_create_internal_def split: sum.splits)
  obtain h d1 where h: "sdb_file_create_new path d = (Inr h, d1)"
    using assms(2) enc by (auto simp: sdb_superblock_store_create_internal_def split: sum.splits prod.splits)
  let ?m = "fbind (sdb_file_resize 8192) (\<lambda>_. fbind sdb_file_sync (\<lambda>_.
      fbind (sdb_file_write_full 0 enc) (\<lambda>_. fbind sdb_file_sync (\<lambda>_.
      fbind (sdb_file_write_full 4096 enc) (\<lambda>_. sdb_file_sync)))))"
  obtain st d2 where w: "on_file h ?m d1 = (st, d2)"
    by fastforce
  obtain cl d3 where cl: "on_file h sdb_file_close d2 = (cl, d3)"
    by fastforce
  have ok: "st = Inr () \<and> cl = Inr () \<and> sdb_file_sync_parent_directory malloc_ok path d3 = (Inr (), d')"
    using assms(2) unfolding sdb_superblock_store_create_internal_def enc h store_consts
    by (auto simp: w cl Let_def is_ok_iff split: if_splits prod.splits)
  note new = create_new_spec [OF h]
  have lt: "h < length (d_inodes d1)"
    using new by simp
  from on_file_runs [OF w lt] obtain f f' where f: "?m f = (st, f')" "fcontent f = []"
    "fcontent (d_inodes d2 ! h) = fcontent f'" "fdurable (d_inodes d2 ! h) = fdurable f'"
    "d_names d2 = d_names d1" "length (d_inodes d2) = length (d_inodes d1)"
    using new by auto
  note c = create_writes [OF encode_slot_image(2) [OF enc assms(1)] f(2)]
  have "dir_unchanged d2 d3"
    by (rule on_file_reads(1) [OF cl]) (use f lt in \<open>auto intro: sdb_file_close_same\<close>)
  then have d3: "d_names d3 = d_names d2" "length (d_inodes d3) = length (d_inodes d2)"
    "fcontent (d_inodes d3 ! h) = fcontent (d_inodes d2 ! h)" "fdurable (d_inodes d3 ! h) = fdurable (d_inodes d2 ! h)"
    using f(6) lt unfolding dir_unchanged_def by (metis length_map nth_map)+
  have "fcontent (d_inodes d3 ! h) = enc @ enc" "fdurable (d_inodes d3 ! h) = enc @ enc"
    using c(1) c(2) f ok d3 by simp_all
  moreover have "d_names d' = d_names d3" "d_inodes d' = d_inodes d3"
    using sync_parent_names [of malloc_ok path d3] ok by auto
  moreover have "d_durable d' path = d_names d3 path"
    using sync_parent_durable ok by blast
  ultimately show ?thesis
    using both_mirrors_stored [OF enc assms(1)] d3 f new lt by (auto simp: store_durable_def)
qed

text \<open>
  C16: creating a store that reports success leaves a file, synced to stable storage
  under a name that is on stable storage too, whose two mirrors both hold the
  superblock.
\<close>

theorem store_create_durable:
  assumes "superblock_arrays sb" "sdb_superblock_store_create_internal malloc_ok path sb key d = (Inr (), d')"
  shows "store_durable d' path sb"
  using assms by (rule create_durable)

text \<open>On a system whose calls all succeed creation succeeds.\<close>

lemma healthy_create_writes:
  assumes "length enc = 4096" "fscript f = []"
  shows "\<exists>f'. fbind (sdb_file_resize 8192) (\<lambda>_. fbind sdb_file_sync (\<lambda>_.
      fbind (sdb_file_write_full 0 enc) (\<lambda>_. fbind sdb_file_sync (\<lambda>_.
      fbind (sdb_file_write_full 4096 enc) (\<lambda>_. sdb_file_sync))))) f = (Inr (), f') \<and> fscript f' = []"
proof -
  obtain f1 where f1: "sdb_file_resize 8192 f = (Inr (), f1)" "fscript f1 = []"
    using assms(2) by (simp add: sdb_file_resize_def healthy_os_call INT64_MAX_def)
  obtain f2 where f2: "sdb_file_sync f1 = (Inr (), f2)" "fscript f2 = []"
    using f1 by (simp add: sdb_file_sync_def healthy_os_call)
  obtain f3 where f3: "sdb_file_write_full 0 enc f2 = (Inr (), f3)" "fscript f3 = []"
    using healthy_write [OF f2(2), of 0 enc] assms(1) by (auto simp: INT64_MAX_def)
  obtain f4 where f4: "sdb_file_sync f3 = (Inr (), f4)" "fscript f4 = []"
    using f3 by (simp add: sdb_file_sync_def healthy_os_call)
  obtain f5 where f5: "sdb_file_write_full 4096 enc f4 = (Inr (), f5)" "fscript f5 = []"
    using healthy_write [OF f4(2), of 4096 enc] assms(1) by (auto simp: INT64_MAX_def)
  obtain f6 where f6: "sdb_file_sync f5 = (Inr (), f6)" "fscript f6 = []"
    using f5 by (simp add: sdb_file_sync_def healthy_os_call)
  show ?thesis
    using f1 f2 f3 f4 f5 f6 by (simp add: fbind_def)
qed

lemma healthy_create:
  assumes enc: "sdb_encode_slot sb key = Inr enc" "length enc = 4096"
    and path: "path \<noteq> []" "last path \<noteq> CHR ''/''" "d_names d path = None" and d: "d_script d = []"
  shows "\<exists>d'. sdb_superblock_store_create_internal (\<lambda>_. True) path sb key d = (Inr (), d')"
proof -
  obtain h d1 where h: "sdb_file_create_new path d = (Inr h, d1)" "d_script d1 = []"
    using path(3) d by (simp add: sdb_file_create_new_def sdb_file_open_posix_def healthy_dir_call Let_def)
  let ?m = "fbind (sdb_file_resize 8192) (\<lambda>_. fbind sdb_file_sync (\<lambda>_.
      fbind (sdb_file_write_full 0 enc) (\<lambda>_. fbind sdb_file_sync (\<lambda>_.
      fbind (sdb_file_write_full 4096 enc) (\<lambda>_. sdb_file_sync)))))"
  obtain d2 where d2: "on_file h ?m d1 = (Inr (), d2)" "d_script d2 = []"
    using on_file_healthy [OF h(2), where h = h and m = ?m and v = "()"] healthy_create_writes [OF enc(2)] by auto
  obtain d3 where d3: "on_file h sdb_file_close d2 = (Inr (), d3)" "d_script d3 = []"
    using on_file_healthy [OF d2(2), where m = sdb_file_close and v = "()" and h = h] by (auto simp: sdb_file_close_def os_call_once_def)
  obtain d4 where "sdb_file_sync_parent_directory (\<lambda>_. True) path d3 = (Inr (), d4)"
    using path d3(2) by (simp add: sdb_file_sync_parent_directory_def healthy_dir_call Let_def)
  with d2 d3 show ?thesis
    by (simp add: sdb_superblock_store_create_internal_def enc h store_consts)
qed

theorem store_create_durable_witness:
  "\<exists>d'. sdb_superblock_store_create_internal (\<lambda>_. True) ''db'' example_superblock None empty_directory = (Inr (), d')
    \<and> store_durable d' ''db'' example_superblock"
proof -
  have arr: "superblock_arrays example_superblock"
    using example_superblock_valid by (simp add: valid_superblock_def)
  obtain d' where d': "sdb_superblock_store_create_internal (\<lambda>_. True) ''db'' example_superblock None empty_directory = (Inr (), d')"
    using healthy_create [OF example_slot_encode example_slot_length, of "''db''" empty_directory]
    by (auto simp: empty_directory_def)
  with store_create_durable [OF arr d'] show ?thesis
    by auto
qed

end
