(* ===== verification/Probing.thy ===== *)
theory Probing
  imports Codec
begin

text \<open>
  Linear probing, the scheme shared by the log index of \<open>src/wal_index.c\<close>, the
  page cache of \<open>src/page_cache.c\<close> and the page-id set of \<open>src/wal.c\<close>: slots of a
  power-of-two table hold a non-zero 64-bit id or are empty, an id is looked for
  from its home slot onwards, and the next slot is \<open>(index + 1) & mask\<close>.

  The theory holds what those components share: the distance along the probe
  sequence, the table invariant, its preservation by insertion and by
  backward-shift deletion, and the contracts of the probing loops.
\<close>

section \<open>Probe distance and the table invariant\<close>

definition nxt :: "nat \<Rightarrow> nat \<Rightarrow> nat" where
  "nxt n i = (if Suc i = n then 0 else Suc i)"

definition cdist :: "nat \<Rightarrow> nat \<Rightarrow> nat \<Rightarrow> nat" where
  "cdist n a b = (if a \<le> b then b - a else n - a + b)"

definition pow2 :: "nat \<Rightarrow> bool" where
  "pow2 n \<longleftrightarrow> (\<exists>k. n = 2 ^ k)"

text \<open>Every id is reachable: no empty slot lies between its home and its slot.\<close>

definition chained_except :: "(u64 \<Rightarrow> nat) \<Rightarrow> u64 list \<Rightarrow> nat set \<Rightarrow> bool" where
  "chained_except h ids holes \<longleftrightarrow>
    (\<forall>p < length ids. ids ! p \<noteq> 0 \<longrightarrow>
      (\<forall>q < length ids. cdist (length ids) (h (ids ! p)) q < cdist (length ids) (h (ids ! p)) p \<longrightarrow>
        ids ! q \<noteq> 0 \<or> q \<in> holes))"

definition unique_ids :: "u64 list \<Rightarrow> bool" where
  "unique_ids ids \<longleftrightarrow>
    (\<forall>p < length ids. \<forall>q < length ids. ids ! p \<noteq> 0 \<longrightarrow> ids ! p = ids ! q \<longrightarrow> p = q)"

definition probing_inv :: "(u64 \<Rightarrow> nat) \<Rightarrow> u64 list \<Rightarrow> bool" where
  "probing_inv h ids \<longleftrightarrow>
    pow2 (length ids) \<and> (\<forall>k. h k < length ids) \<and> chained_except h ids {} \<and> unique_ids ids \<and> 0 \<in> set ids"

lemma chained_exceptD:
  "chained_except h ids holes \<Longrightarrow> p < length ids \<Longrightarrow> ids ! p \<noteq> 0 \<Longrightarrow> q < length ids \<Longrightarrow>
    cdist (length ids) (h (ids ! p)) q < cdist (length ids) (h (ids ! p)) p \<Longrightarrow> ids ! q \<noteq> 0 \<or> q \<in> holes"
  unfolding chained_except_def by blast

lemma unique_idsD:
  "unique_ids ids \<Longrightarrow> p < length ids \<Longrightarrow> q < length ids \<Longrightarrow> ids ! p \<noteq> 0 \<Longrightarrow> ids ! p = ids ! q \<Longrightarrow> p = q"
  unfolding unique_ids_def by blast

lemma pow2_pos: "pow2 n \<Longrightarrow> 0 < n"
  by (auto simp: pow2_def)

lemma nxt_less: "i < n \<Longrightarrow> nxt n i < n"
  by (auto simp: nxt_def)

lemma cdist_less: "a < n \<Longrightarrow> b < n \<Longrightarrow> cdist n a b < n"
  by (auto simp: cdist_def)

lemma cdist_self [simp]: "cdist n a a = 0"
  by (simp add: cdist_def)

lemma cdist_eq_0: "a < n \<Longrightarrow> b < n \<Longrightarrow> cdist n a b = 0 \<longleftrightarrow> a = b"
  by (auto simp: cdist_def)

lemma cdist_inj: "a < n \<Longrightarrow> b < n \<Longrightarrow> c < n \<Longrightarrow> cdist n a b = cdist n a c \<longleftrightarrow> b = c"
  by (auto simp: cdist_def)

lemma cdist_nxt: "i < n \<Longrightarrow> q < n \<Longrightarrow> q \<noteq> i \<Longrightarrow> cdist n i q = Suc (cdist n (nxt n i) q)"
  by (auto simp: cdist_def nxt_def)

lemma cdist_to_nxt: "i < n \<Longrightarrow> q < n \<Longrightarrow> nxt n q \<noteq> i \<Longrightarrow> cdist n i (nxt n q) = Suc (cdist n i q)"
  by (auto simp: cdist_def nxt_def)

lemma cdist_before_wrap: "i < n \<Longrightarrow> j < n \<Longrightarrow> nxt n j = i \<Longrightarrow> cdist n i j = n - 1"
  by (auto simp: cdist_def nxt_def split: if_splits)

lemma cdist_split:
  "a < n \<Longrightarrow> b < n \<Longrightarrow> c < n \<Longrightarrow> cdist n a b \<le> cdist n a c \<Longrightarrow> cdist n a c = cdist n a b + cdist n b c"
  by (auto simp: cdist_def split: if_splits)

lemma cdist_add:
  "a < n \<Longrightarrow> b < n \<Longrightarrow> c < n \<Longrightarrow> cdist n a b + cdist n b c < n \<Longrightarrow> cdist n a c = cdist n a b + cdist n b c"
  by (auto simp: cdist_def split: if_splits)

lemma and_mask_mod:
  assumes "pow2 n"
  shows "(i AND (n - 1)) = i mod n"
proof -
  obtain k where "n = 2 ^ k"
    using assms by (auto simp: pow2_def)
  then show ?thesis
    using take_bit_eq_mask [of k i] by (simp add: take_bit_eq_mod mask_eq_exp_minus_1)
qed

lemma nxt_and_mask: "pow2 n \<Longrightarrow> i < n \<Longrightarrow> (i + 1) AND (n - 1) = nxt n i"
  unfolding and_mask_mod by (simp add: nxt_def mod_Suc)

lemma nxt_and_mask_Suc: "pow2 n \<Longrightarrow> i < n \<Longrightarrow> Suc i AND (n - Suc 0) = nxt n i"
  using nxt_and_mask [of n i] by simp

lemma u64_and_mask_less:
  assumes "0 < n" "n \<le> 2 ^ 64"
  shows "unat (w AND of_nat (n - 1) :: u64) < n"
proof -
  have "w AND of_nat (n - 1) \<le> (of_nat (n - 1) :: u64)"
    by (rule word_and_le1)
  then have "unat (w AND of_nat (n - 1)) \<le> unat (of_nat (n - 1) :: u64)"
    by (simp add: word_le_nat_alt)
  also have "\<dots> \<le> n - 1"
    by (simp add: unat_of_nat)
  finally show ?thesis
    using assms by simp
qed

section \<open>Probing\<close>

lemma probing_free_slot: "probing_inv h ids \<Longrightarrow> \<exists>e < length ids. ids ! e = 0"
  by (auto simp: probing_inv_def in_set_conv_nth)

lemma probing_reach:
  assumes inv: "probing_inv h ids" and i: "i < length ids" "ids ! i = k" and k: "k \<noteq> 0"
    and q: "q < length ids" "cdist (length ids) (h k) q < cdist (length ids) (h k) i"
  shows "ids ! q \<noteq> 0 \<and> ids ! q \<noteq> k"
proof
  show "ids ! q \<noteq> 0"
    using assms by (auto simp: probing_inv_def chained_except_def)
  show "ids ! q \<noteq> k"
  proof
    assume "ids ! q = k"
    then have "q = i"
      using inv i k q(1) by (auto simp: probing_inv_def unique_ids_def)
    with q(2) show False by simp
  qed
qed

lemma probing_insert:
  assumes inv: "probing_inv h ids" and i: "i < length ids" "ids ! i = 0"
    and k: "k \<noteq> 0" "k \<notin> set ids"
    and path: "\<And>q. q < length ids \<Longrightarrow> cdist (length ids) (h k) q < cdist (length ids) (h k) i \<Longrightarrow> ids ! q \<noteq> 0"
  shows "chained_except h (ids[i := k]) {} \<and> unique_ids (ids[i := k])"
proof
  show "chained_except h (ids[i := k]) {}"
    unfolding chained_except_def
  proof (intro allI impI)
    fix p q
    let ?n = "length (ids[i := k])" and ?ids = "ids[i := k]"
    assume p: "p < ?n" and q: "q < ?n" and d: "cdist ?n (h (?ids ! p)) q < cdist ?n (h (?ids ! p)) p"
      and nz: "?ids ! p \<noteq> 0"
    show "?ids ! q \<noteq> 0 \<or> q \<in> {}"
    proof (cases "p = i")
      case True
      then show ?thesis
        using path [of q] i k q d by (cases "q = i") simp_all
    next
      case False
      then have "ids ! q \<noteq> 0"
        using chained_exceptD [of h ids "{}" p q] inv p q d nz by (simp add: probing_inv_def)
      then show ?thesis
        using k i by (cases "q = i") simp_all
    qed
  qed
  show "unique_ids (ids[i := k])"
    unfolding unique_ids_def
  proof (intro allI impI)
    fix p q
    assume "p < length (ids[i := k])" "q < length (ids[i := k])"
      and "ids[i := k] ! p \<noteq> 0" "ids[i := k] ! p = ids[i := k] ! q"
    then show "p = q"
      using inv i k unique_idsD [of ids p q] nth_mem [of p ids] nth_mem [of q ids]
      by (cases "p = i"; cases "q = i") (auto simp: probing_inv_def)
  qed
qed

text \<open>The number of ids in a table; a table that is not full has a free slot.\<close>

definition occupied :: "u64 list \<Rightarrow> nat" where
  "occupied ids = length (filter (\<lambda>k. k \<noteq> 0) ids)"

lemma occupied_le: "occupied ids \<le> length ids"
  by (simp add: occupied_def)

lemma occupied_free: "occupied ids < length ids \<Longrightarrow> 0 \<in> set ids"
  unfolding occupied_def by (metis (mono_tags, lifting) filter_True less_irrefl)

lemma occupied_insert:
  "i < length ids \<Longrightarrow> ids ! i = 0 \<Longrightarrow> k \<noteq> 0 \<Longrightarrow> occupied (ids[i := k]) = Suc (occupied ids)"
  by (simp add: occupied_def upd_conv_take_nth_drop)
    (metis (mono_tags, lifting) append_Cons filter.simps(2) filter_append id_take_nth_drop length_append)

lemma probing_inv_insert:
  assumes "probing_inv h ids" "i < length ids" "ids ! i = 0" "k \<noteq> 0" "k \<notin> set ids"
    and "\<And>q. q < length ids \<Longrightarrow> cdist (length ids) (h k) q < cdist (length ids) (h k) i \<Longrightarrow> ids ! q \<noteq> 0"
    and "Suc (occupied ids) < length ids"
  shows "probing_inv h (ids[i := k])"
  using probing_insert [OF assms(1-6)] assms occupied_free [of "ids[i := k]"]
  by (simp add: probing_inv_def occupied_insert)

lemma probing_inv_empty:
  "pow2 n \<Longrightarrow> (\<And>k. h k < n) \<Longrightarrow> probing_inv h (replicate n 0)"
  using pow2_pos [of n] by (auto simp: probing_inv_def chained_except_def unique_ids_def)

lemma distinct_table_ids:
  assumes "unique_ids ids"
  shows "distinct (filter (\<lambda>k. k \<noteq> 0) ids)"
  using assms
proof (induction ids)
  case (Cons k ids)
  have "unique_ids ids"
    unfolding unique_ids_def
  proof (intro allI impI)
    fix p q assume "p < length ids" "q < length ids" "ids ! p \<noteq> 0" "ids ! p = ids ! q"
    then show "p = q"
      using unique_idsD [OF Cons.prems, of "Suc p" "Suc q"] by simp
  qed
  moreover have "k \<notin> set ids" if "k \<noteq> 0"
  proof
    assume "k \<in> set ids"
    then obtain p where "p < length ids" "ids ! p = k"
      by (auto simp: in_set_conv_nth)
    then show False
      using unique_idsD [OF Cons.prems, of 0 "Suc p"] that by simp
  qed
  ultimately show ?case
    using Cons.IH by auto
qed simp

text \<open>The loop that scans forward until a slot meets its stop condition.\<close>

locale forward_scan =
  fixes stop :: "'s \<Rightarrow> 'k \<Rightarrow> bool"
    and loop :: "'s list \<Rightarrow> 'k \<Rightarrow> nat \<Rightarrow> nat option"
  assumes loop_unfold: "pow2 (length slots) \<Longrightarrow> i < length slots \<Longrightarrow>
    loop slots k i = (if stop (slots ! i) k then Some i else loop slots k (nxt (length slots) i))"
begin

lemma scan_returns:
  assumes p: "pow2 (length slots)" and e: "e < length slots" "stop (slots ! e) k" and i: "i < length slots"
  shows "\<exists>r < length slots. loop slots k i = Some r \<and> stop (slots ! r) k \<and>
    (\<forall>q < length slots. cdist (length slots) i q < cdist (length slots) i r \<longrightarrow> \<not> stop (slots ! q) k)"
  using i
proof (induction "cdist (length slots) i e" arbitrary: i)
  case 0
  then have "i = e"
    using e(1) by (simp add: cdist_eq_0)
  with 0 e(2) show ?case
    by (intro exI [of _ i]) (simp add: loop_unfold [OF p])
next
  case (Suc d)
  let ?n = "length slots" and ?j = "nxt (length slots) i"
  show ?case
  proof (cases "stop (slots ! i) k")
    case True
    with Suc.prems show ?thesis
      by (intro exI [of _ i]) (simp add: loop_unfold [OF p])
  next
    case False
    then have "e \<noteq> i"
      using e(2) by auto
    then have "d = cdist ?n ?j e" and j: "?j < ?n"
      using Suc.hyps(2) Suc.prems e(1) cdist_nxt [of i ?n e] by (simp_all add: nxt_less)
    then obtain r where r: "r < ?n" "loop slots k ?j = Some r" "stop (slots ! r) k"
      and path: "\<And>q. q < ?n \<Longrightarrow> cdist ?n ?j q < cdist ?n ?j r \<Longrightarrow> \<not> stop (slots ! q) k"
      using Suc.hyps(1) by blast
    have "\<not> stop (slots ! q) k" if "q < ?n" "cdist ?n i q < cdist ?n i r" for q
    proof (cases "q = i")
      case False
      moreover have "r \<noteq> i"
        using that by auto
      ultimately have "cdist ?n ?j q < cdist ?n ?j r"
        using that r(1) Suc.prems cdist_nxt [of i ?n q] cdist_nxt [of i ?n r] by simp
      then show ?thesis
        using path that(1) by blast
    qed (use False in simp)
    with r False Suc.prems show ?thesis
      by (intro exI [of _ r]) (simp add: loop_unfold [OF p, of i])
  qed
qed

end

text \<open>The loop that looks an id up with a bounded number of probes.\<close>

locale bounded_lookup =
  fixes sid :: "'s \<Rightarrow> u64"
    and find :: "'s list \<Rightarrow> u64 \<Rightarrow> nat \<Rightarrow> nat \<Rightarrow> nat option"
  assumes find_0: "find slots k i 0 = None"
    and find_Suc: "pow2 (length slots) \<Longrightarrow> i < length slots \<Longrightarrow>
      find slots k i (Suc m) =
        (if sid (slots ! i) = 0 then None else if sid (slots ! i) = k then Some i
         else find slots k (nxt (length slots) i) m)"
begin

lemma find_sound:
  "pow2 (length slots) \<Longrightarrow> i < length slots \<Longrightarrow> find slots k i m = Some r \<Longrightarrow>
    r < length slots \<and> sid (slots ! r) = k \<and> k \<noteq> 0"
proof (induction m arbitrary: i)
  case (Suc m)
  then show ?case
    using Suc.IH [OF Suc.prems(1) nxt_less [OF Suc.prems(2)]] by (simp add: find_Suc split: if_splits)
qed (simp add: find_0)

lemma find_complete:
  "pow2 (length slots) \<Longrightarrow> i < length slots \<Longrightarrow> r < length slots \<Longrightarrow> sid (slots ! r) = k \<Longrightarrow> k \<noteq> 0 \<Longrightarrow>
    (\<And>q. q < length slots \<Longrightarrow> cdist (length slots) i q < cdist (length slots) i r \<Longrightarrow>
      sid (slots ! q) \<noteq> 0 \<and> sid (slots ! q) \<noteq> k) \<Longrightarrow>
    cdist (length slots) i r < m \<Longrightarrow> find slots k i m = Some r"
proof (induction m arbitrary: i)
  case (Suc m)
  show ?case
  proof (cases "r = i")
    case False
    let ?n = "length slots" and ?j = "nxt (length slots) i"
    have r: "cdist ?n i r = Suc (cdist ?n ?j r)"
      using Suc.prems(2,3) False by (simp add: cdist_nxt)
    have "sid (slots ! i) \<noteq> 0 \<and> sid (slots ! i) \<noteq> k"
      using Suc.prems(6) [of i] Suc.prems(2) r by simp
    moreover have "find slots k ?j m = Some r"
    proof (rule Suc.IH)
      fix q assume q: "q < ?n" "cdist ?n ?j q < cdist ?n ?j r"
      show "sid (slots ! q) \<noteq> 0 \<and> sid (slots ! q) \<noteq> k"
      proof (cases "q = i")
        case False
        then have "cdist ?n i q < cdist ?n i r"
          using q r Suc.prems(2) by (simp add: cdist_nxt)
        then show ?thesis
          using Suc.prems(6) q(1) by blast
      qed (use calculation in simp)
    qed (use Suc.prems r in \<open>simp_all add: nxt_less\<close>)
    ultimately show ?thesis
      using Suc.prems(1,2) by (simp add: find_Suc)
  qed (use Suc.prems in \<open>simp add: find_Suc\<close>)
qed simp

lemma find_iff:
  assumes inv: "probing_inv h (map sid slots)" and k: "k \<noteq> 0"
  shows "find slots k (h k) (length slots) = Some r \<longleftrightarrow> r < length slots \<and> sid (slots ! r) = k"
proof
  have p: "pow2 (length slots)" and h: "h k < length slots"
    using inv by (auto simp: probing_inv_def)
  show "r < length slots \<and> sid (slots ! r) = k" if "find slots k (h k) (length slots) = Some r"
    using find_sound [OF p h that] by simp
  assume r: "r < length slots \<and> sid (slots ! r) = k"
  show "find slots k (h k) (length slots) = Some r"
  proof (rule find_complete [OF p h _ _ k])
    fix q assume "q < length slots" "cdist (length slots) (h k) q < cdist (length slots) (h k) r"
    then show "sid (slots ! q) \<noteq> 0 \<and> sid (slots ! q) \<noteq> k"
      using probing_reach [OF inv, of r k q] r k by simp
  qed (use r h in \<open>simp_all add: cdist_less\<close>)
qed

end

section \<open>Backward-shift deletion\<close>

text \<open>
  The loop that closes the hole a deletion leaves: \<open>i\<close> is the hole, \<open>j\<close> the last
  slot looked at. The occupied slots between them may stay where they are.
\<close>

definition shift_inv :: "(u64 \<Rightarrow> nat) \<Rightarrow> u64 list \<Rightarrow> nat \<Rightarrow> nat \<Rightarrow> bool" where
  "shift_inv h ids i j \<longleftrightarrow>
    pow2 (length ids) \<and> (\<forall>k. h k < length ids) \<and> i < length ids \<and> j < length ids \<and> ids ! i = 0 \<and>
    chained_except h ids {i} \<and> unique_ids ids \<and>
    (\<forall>p < length ids. ids ! p \<noteq> 0 \<longrightarrow> cdist (length ids) i p \<le> cdist (length ids) i j \<longrightarrow>
      cdist (length ids) (h (ids ! p)) p < cdist (length ids) i p)"

lemma shift_start:
  assumes "probing_inv h ids" "i < length ids"
  shows "shift_inv h (ids[i := 0]) i i"
proof -
  have "chained_except h (ids[i := 0]) {i}"
    unfolding chained_except_def
  proof (intro allI impI)
    fix p q
    let ?ids = "ids[i := 0]"
    assume "p < length ?ids" "?ids ! p \<noteq> 0" "q < length ?ids"
      and "cdist (length ?ids) (h (?ids ! p)) q < cdist (length ?ids) (h (?ids ! p)) p"
    then show "?ids ! q \<noteq> 0 \<or> q \<in> {i}"
      using chained_exceptD [of h ids "{}" p q] assms
      by (cases "p = i"; cases "q = i") (auto simp: probing_inv_def)
  qed
  moreover have "unique_ids (ids[i := 0])"
    unfolding unique_ids_def
  proof (intro allI impI)
    fix p q
    assume "p < length (ids[i := 0])" "q < length (ids[i := 0])"
      and "ids[i := 0] ! p \<noteq> 0" "ids[i := 0] ! p = ids[i := 0] ! q"
    then show "p = q"
      using assms unique_idsD [of ids p q] by (cases "p = i"; cases "q = i") (auto simp: probing_inv_def)
  qed
  moreover have "p = i" if "p < length ids" "cdist (length ids) i p \<le> cdist (length ids) i i" for p
    using that assms(2) by (simp add: cdist_eq_0)
  then have "\<not> ids[i := 0] ! p \<noteq> 0" if "p < length ids" "cdist (length ids) i p \<le> cdist (length ids) i i" for p
    using that assms(2) by fastforce
  ultimately show ?thesis
    using assms unfolding shift_inv_def probing_inv_def length_list_update by auto
qed

lemma shift_done:
  assumes inv: "shift_inv h ids i j" and z: "ids ! nxt (length ids) j = 0"
  shows "chained_except h ids {}"
  unfolding chained_except_def
proof (intro allI impI)
  fix p q
  let ?n = "length ids" and ?j = "nxt (length ids) j"
  let ?h = "h (ids ! p)"
  assume p: "p < ?n" "ids ! p \<noteq> 0" and q: "q < ?n" "cdist ?n ?h q < cdist ?n ?h p"
  have i: "i < ?n" "j < ?n" "ids ! i = 0" and h: "?h < ?n" and ch: "chained_except h ids {i}"
    using inv by (simp_all add: shift_inv_def)
  have j: "?j < ?n"
    using i by (simp add: nxt_less)
  show "ids ! q \<noteq> 0 \<or> q \<in> {}"
  proof (rule ccontr)
    assume "\<not> (ids ! q \<noteq> 0 \<or> q \<in> {})"
    then have "q = i"
      using chained_exceptD [OF ch p q] by auto
    then have split: "cdist ?n ?h p = cdist ?n ?h i + cdist ?n i p"
      using q p i h by (intro cdist_split) simp_all
    have beyond: "cdist ?n i j < cdist ?n i p"
    proof (rule ccontr)
      assume "\<not> cdist ?n i j < cdist ?n i p"
      then have "cdist ?n ?h p < cdist ?n i p"
        using inv p by (simp add: shift_inv_def)
      with split show False by simp
    qed
    have "?j \<noteq> i"
      using beyond cdist_before_wrap [of i ?n j] cdist_less [of i ?n p] p i by auto
    then have "cdist ?n i ?j \<le> cdist ?n i p"
      using beyond i cdist_to_nxt [of i ?n j] by simp
    moreover have "cdist ?n i ?j \<noteq> cdist ?n i p"
      using cdist_inj [of i ?n ?j p] i p j z by auto
    ultimately have lt: "cdist ?n i ?j < cdist ?n i p"
      by simp
    then have "cdist ?n ?h ?j = cdist ?n ?h i + cdist ?n i ?j"
      using split h i j cdist_less [of ?h ?n p] p by (intro cdist_add) simp_all
    then have "cdist ?n ?h ?j < cdist ?n ?h p"
      using lt split by simp
    then show False
      using chained_exceptD [OF ch p j] z \<open>?j \<noteq> i\<close> by simp
  qed
qed

lemma shift_keep:
  assumes inv: "shift_inv h ids i j" and nz: "ids ! nxt (length ids) j \<noteq> 0"
    and keep: "cdist (length ids) (h (ids ! nxt (length ids) j)) (nxt (length ids) j)
      < cdist (length ids) i (nxt (length ids) j)"
  shows "shift_inv h ids i (nxt (length ids) j)"
proof -
  let ?n = "length ids" and ?j = "nxt (length ids) j"
  have i: "i < ?n" "j < ?n" "ids ! i = 0" and j: "?j < ?n"
    using inv by (simp_all add: shift_inv_def nxt_less)
  then have "cdist ?n i ?j = Suc (cdist ?n i j)"
    using nz by (intro cdist_to_nxt) auto
  then have "p = ?j \<or> cdist ?n i p \<le> cdist ?n i j" if "p < ?n" "cdist ?n i p \<le> cdist ?n i ?j" for p
    using that i j cdist_inj [of i ?n p ?j] by (auto simp: le_Suc_eq)
  then show ?thesis
    using inv keep j unfolding shift_inv_def by blast
qed

lemma shift_move:
  assumes inv: "shift_inv h ids i j" and nz: "ids ! nxt (length ids) j \<noteq> 0"
    and move: "\<not> cdist (length ids) (h (ids ! nxt (length ids) j)) (nxt (length ids) j)
      < cdist (length ids) i (nxt (length ids) j)"
  defines "ids' \<equiv> ids[i := ids ! nxt (length ids) j, nxt (length ids) j := 0]"
  shows "shift_inv h ids' (nxt (length ids) j) (nxt (length ids) j)"
proof -
  let ?n = "length ids" and ?j = "nxt (length ids) j"
  have i: "i < ?n" "j < ?n" "ids ! i = 0" and j: "?j < ?n" and n: "length ids' = ?n"
    and ch: "chained_except h ids {i}" and un: "unique_ids ids" and h: "\<And>k. h k < ?n"
    using inv by (simp_all add: shift_inv_def nxt_less ids'_def)
  have ij: "i \<noteq> ?j"
    using nz i by auto
  have at: "ids' ! p = (if p = ?j then 0 else if p = i then ids ! ?j else ids ! p)" if "p < ?n" for p
    using that i j by (simp add: ids'_def nth_list_update)
  have "chained_except h ids' {?j}"
    unfolding chained_except_def n
  proof (intro allI impI)
    fix p q
    let ?h = "h (ids' ! p)"
    assume p: "p < ?n" "ids' ! p \<noteq> 0" and q: "q < ?n" "cdist ?n ?h q < cdist ?n ?h p"
    have pj: "p \<noteq> ?j"
      using p at by auto
    have "ids ! q \<noteq> 0 \<or> q = i"
    proof (cases "p = i")
      case True
      then have hk: "ids' ! p = ids ! ?j"
        using at i ij by simp
      have "cdist ?n i ?j \<le> cdist ?n ?h ?j"
        using move hk by simp
      moreover have "cdist ?n ?h q < cdist ?n ?h ?j"
      proof -
        have "cdist ?n ?h i \<le> cdist ?n ?h ?j"
          using calculation h i j unfolding cdist_def by (auto split: if_splits)
        then show ?thesis
          using q True by simp
      qed
      ultimately show ?thesis
        using chained_exceptD [OF ch j nz q(1)] hk by auto
    next
      case False
      then have "ids' ! p = ids ! p"
        using at p pj by simp
      then show ?thesis
        using chained_exceptD [OF ch, of p q] p q by auto
    qed
    then show "ids' ! q \<noteq> 0 \<or> q \<in> {?j}"
      using at [OF q(1)] nz by (cases "q = i"; cases "q = ?j") simp_all
  qed
  moreover have "unique_ids ids'"
    unfolding unique_ids_def n
  proof (intro allI impI)
    fix p q
    assume "p < ?n" "q < ?n" "ids' ! p \<noteq> 0" "ids' ! p = ids' ! q"
    then have "(if p = i then ?j else p) = (if q = i then ?j else q)" "p \<noteq> ?j" "q \<noteq> ?j"
      using at [of p] at [of q] unique_idsD [OF un, of "if p = i then ?j else p" "if q = i then ?j else q"] j
      by (auto split: if_splits)
    then show "p = q"
      by (auto split: if_splits)
  qed
  moreover have z: "ids' ! ?j = 0"
    using at j by simp
  moreover have "\<not> ids' ! p \<noteq> 0" if "p < ?n" "cdist ?n ?j p \<le> cdist ?n ?j ?j" for p
  proof -
    have "p = ?j"
      using that j by (simp add: cdist_eq_0)
    then show ?thesis
      using z by simp
  qed
  ultimately show ?thesis
    using inv j unfolding shift_inv_def n by blast
qed

locale backward_shift =
  fixes sid :: "'s \<Rightarrow> u64"
    and clear :: "'s \<Rightarrow> 's"
    and h :: "nat \<Rightarrow> u64 \<Rightarrow> nat"
    and loop :: "'s list \<Rightarrow> nat \<Rightarrow> nat \<Rightarrow> 's list option"
  assumes sid_clear: "sid (clear s) = 0"
    and loop_unfold: "pow2 (length slots) \<Longrightarrow> i < length slots \<Longrightarrow> j < length slots \<Longrightarrow>
      (\<And>k. h (length slots) k < length slots) \<Longrightarrow> sid (slots ! i) = 0 \<Longrightarrow>
      loop slots i j =
        (let j = nxt (length slots) j
         in if sid (slots ! j) = 0 then Some slots
            else if cdist (length slots) (h (length slots) (sid (slots ! j))) j < cdist (length slots) i j
            then loop slots i j
            else loop (slots[i := slots ! j, j := clear (slots ! j)]) j j)"
begin

lemma move_contents:
  assumes "i < length slots" "j < length slots" "j \<noteq> i" "sid (slots ! i) = 0"
  shows "{s \<in> set (slots[i := slots ! j, j := clear (slots ! j)]). sid s \<noteq> 0} = {s \<in> set slots. sid s \<noteq> 0}"
    (is "?L = ?R")
proof
  show "?L \<subseteq> ?R"
    using assms by (auto simp: in_set_conv_nth nth_list_update sid_clear split: if_splits)
  show "?R \<subseteq> ?L"
  proof
    fix s assume "s \<in> ?R"
    then obtain p where p: "p < length slots" "slots ! p = s" "sid s \<noteq> 0"
      by (auto simp: in_set_conv_nth)
    then have "slots[i := slots ! j, j := clear (slots ! j)] ! (if p = j then i else p) = s"
      using assms by (cases "p = i") auto
    moreover have "(if p = j then i else p) < length slots"
      using p assms by simp
    ultimately show "s \<in> ?L"
      using p nth_mem [of "if p = j then i else p" "slots[i := slots ! j, j := clear (slots ! j)]"] by simp
  qed
qed

lemma shift_returns:
  assumes "shift_inv (h (length slots)) (map sid slots) i j"
    and "e < length slots" "sid (slots ! e) = 0" "cdist (length slots) i j < cdist (length slots) i e"
  shows "\<exists>slots'. loop slots i j = Some slots' \<and> length slots' = length slots \<and>
    chained_except (h (length slots)) (map sid slots') {} \<and> unique_ids (map sid slots') \<and> 0 \<in> sid ` set slots' \<and>
    {s \<in> set slots'. sid s \<noteq> 0} = {s \<in> set slots. sid s \<noteq> 0}"
  using assms
proof (induction "cdist (length slots) j e" arbitrary: slots i j rule: less_induct)
  case less
  let ?n = "length slots" and ?j = "nxt (length slots) j" and ?ids = "map sid slots"
  have i: "i < ?n" "j < ?n" and zi: "sid (slots ! i) = 0" and p: "pow2 ?n" and h: "\<And>k. h ?n k < ?n"
    and un: "unique_ids ?ids"
    using less.prems(1) by (auto simp: shift_inv_def)
  have j: "?j < ?n" and ej: "e \<noteq> j"
    using i less.prems(4) by (auto simp: nxt_less)
  have unfold: "loop slots i j =
      (if sid (slots ! ?j) = 0 then Some slots
       else if cdist ?n (h ?n (sid (slots ! ?j))) ?j < cdist ?n i ?j then loop slots i ?j
       else loop (slots[i := slots ! ?j, ?j := clear (slots ! ?j)]) ?j ?j)"
    using loop_unfold [OF p i h zi] by (simp add: Let_def)
  show ?case
  proof (cases "sid (slots ! ?j) = 0")
    case True
    have "chained_except (h ?n) ?ids {}"
      using shift_done [OF less.prems(1)] True j by simp
    moreover have "0 \<in> sid ` set slots"
      using True j by (metis image_eqI nth_mem)
    ultimately show ?thesis
      using unfold True un by simp
  next
    case nz: False
    have ne: "?j \<noteq> e" "?j \<noteq> i"
      using nz zi less.prems(3) by auto
    have closer: "cdist ?n ?j e < cdist ?n j e"
      using cdist_nxt [of j ?n e] i ej less.prems(2) by simp
    show ?thesis
    proof (cases "cdist ?n (h ?n (sid (slots ! ?j))) ?j < cdist ?n i ?j")
      case True
      have "shift_inv (h ?n) ?ids i ?j"
        using shift_keep [OF less.prems(1)] nz True j by simp
      moreover have "cdist ?n i ?j < cdist ?n i e"
        using cdist_to_nxt [of i ?n j] i ne less.prems(2,4) cdist_inj [of i ?n ?j e] j by simp
      ultimately show ?thesis
        using less.hyps [OF closer _ less.prems(2,3)] unfold True nz by simp
    next
      case False
      let ?slots = "slots[i := slots ! ?j, ?j := clear (slots ! ?j)]"
      have ids: "map sid ?slots = ?ids[i := ?ids ! ?j, ?j := 0]"
        using j by (simp add: map_update sid_clear)
      have len: "length ?slots = ?n"
        by simp
      have "shift_inv (h ?n) (map sid ?slots) ?j ?j"
        using shift_move [OF less.prems(1)] nz False j unfolding ids by simp
      moreover have "sid (?slots ! e) = 0"
        using less.prems(3,4) ne by (cases "e = i") simp_all
      moreover have "cdist ?n ?j ?j < cdist ?n ?j e"
        using ne j less.prems(2) cdist_eq_0 [of ?j ?n e] by simp
      ultimately obtain slots' where "loop ?slots ?j ?j = Some slots'" "length slots' = ?n"
          "chained_except (h ?n) (map sid slots') {}" "unique_ids (map sid slots')" "0 \<in> sid ` set slots'"
          "{s \<in> set slots'. sid s \<noteq> 0} = {s \<in> set ?slots. sid s \<noteq> 0}"
        using less.hyps [of ?slots ?j ?j, unfolded len, OF closer _ less.prems(2)] by blast
      moreover have "{s \<in> set ?slots. sid s \<noteq> 0} = {s \<in> set slots. sid s \<noteq> 0}"
        using move_contents [of i slots ?j] i j ne zi by blast
      ultimately show ?thesis
        using unfold False nz by simp
    qed
  qed
qed

end

end
