(* ===== verification/Wal_Format.thy ===== *)
theory Wal_Format
  imports Page Probing
begin

text \<open>
  The record formats of the write-ahead log (\<open>src/wal.h\<close> and the first and last
  parts of \<open>src/wal.c\<close>): sizes, the 44-byte commit record that ends a
  transaction, and the open-addressing set that rejects a page listed twice.
\<close>

section \<open>Model\<close>

definition SDB_WAL_HEADER_SIZE :: nat where "SDB_WAL_HEADER_SIZE = 64"
definition SDB_WAL_RECORD_HEADER_SIZE :: nat where "SDB_WAL_RECORD_HEADER_SIZE = 8"
definition SDB_WAL_RECORD_HEADER_SIZE_V4 :: nat where "SDB_WAL_RECORD_HEADER_SIZE_V4 = 24"
definition SDB_WAL_FRAME_V4_TXN_ID_OFFSET :: nat where "SDB_WAL_FRAME_V4_TXN_ID_OFFSET = 8"
definition SDB_WAL_FRAME_V4_FRAME_INDEX_OFFSET :: nat where "SDB_WAL_FRAME_V4_FRAME_INDEX_OFFSET = 16"
definition SDB_WAL_FRAME_V4_FRAME_COUNT_OFFSET :: nat where "SDB_WAL_FRAME_V4_FRAME_COUNT_OFFSET = 20"
definition SDB_WAL_RECORD_HEADER_SIZE_V5 :: nat where "SDB_WAL_RECORD_HEADER_SIZE_V5 = 40"
definition SDB_WAL_FRAME_V5_FILE_ID_OFFSET :: nat where "SDB_WAL_FRAME_V5_FILE_ID_OFFSET = 24"
definition SDB_WAL_COMMIT_SIZE :: nat where "SDB_WAL_COMMIT_SIZE = 44"
definition SDB_WAL_MAX_RECORDS :: nat where "SDB_WAL_MAX_RECORDS = 1048576"
definition SDB_WAL_MAX_BYTES :: nat where "SDB_WAL_MAX_BYTES = 268435456"
definition SDB_WAL_VERSION_V1 :: u16 where "SDB_WAL_VERSION_V1 = 1"
definition SDB_WAL_VERSION :: u16 where "SDB_WAL_VERSION = 2"
definition SDB_WAL_VERSION_V3 :: u16 where "SDB_WAL_VERSION_V3 = 3"
definition SDB_WAL_VERSION_V4 :: u16 where "SDB_WAL_VERSION_V4 = 4"
definition SDB_WAL_VERSION_V5 :: u16 where "SDB_WAL_VERSION_V5 = 5"
definition SDB_WAL_LEGACY_COMMIT_SIZE :: nat where "SDB_WAL_LEGACY_COMMIT_SIZE = 24"
definition SDB_WAL_HEADER_CHECKSUM_OFFSET :: nat where "SDB_WAL_HEADER_CHECKSUM_OFFSET = 60"
definition SDB_WAL_COMMIT_CHECKSUM_OFFSET :: nat where "SDB_WAL_COMMIT_CHECKSUM_OFFSET = 20"
definition SDB_WAL_V3_COMMIT_FRAME_COUNT_OFFSET :: nat where "SDB_WAL_V3_COMMIT_FRAME_COUNT_OFFSET = 16"
definition SDB_WAL_V3_COMMIT_NEXT_PAGE_ID_OFFSET :: nat where "SDB_WAL_V3_COMMIT_NEXT_PAGE_ID_OFFSET = 20"
definition SDB_WAL_V3_COMMIT_FREELIST_PAGE_OFFSET :: nat where "SDB_WAL_V3_COMMIT_FREELIST_PAGE_OFFSET = 28"
definition SDB_WAL_V3_COMMIT_RUNNING_CRC_OFFSET :: nat where "SDB_WAL_V3_COMMIT_RUNNING_CRC_OFFSET = 36"
definition SDB_WAL_V3_COMMIT_CHECKSUM_OFFSET :: nat where "SDB_WAL_V3_COMMIT_CHECKSUM_OFFSET = 40"

lemmas wal_consts = SDB_WAL_HEADER_SIZE_def SDB_WAL_RECORD_HEADER_SIZE_def
  SDB_WAL_RECORD_HEADER_SIZE_V4_def SDB_WAL_FRAME_V4_TXN_ID_OFFSET_def
  SDB_WAL_FRAME_V4_FRAME_INDEX_OFFSET_def SDB_WAL_FRAME_V4_FRAME_COUNT_OFFSET_def
  SDB_WAL_RECORD_HEADER_SIZE_V5_def SDB_WAL_FRAME_V5_FILE_ID_OFFSET_def
  SDB_WAL_COMMIT_SIZE_def SDB_WAL_LEGACY_COMMIT_SIZE_def SDB_WAL_HEADER_CHECKSUM_OFFSET_def
  SDB_WAL_COMMIT_CHECKSUM_OFFSET_def SDB_WAL_V3_COMMIT_FRAME_COUNT_OFFSET_def
  SDB_WAL_V3_COMMIT_NEXT_PAGE_ID_OFFSET_def SDB_WAL_V3_COMMIT_FREELIST_PAGE_OFFSET_def
  SDB_WAL_V3_COMMIT_RUNNING_CRC_OFFSET_def SDB_WAL_V3_COMMIT_CHECKSUM_OFFSET_def

lemmas wal_versions = SDB_WAL_VERSION_V1_def SDB_WAL_VERSION_def SDB_WAL_VERSION_V3_def
  SDB_WAL_VERSION_V4_def SDB_WAL_VERSION_V5_def

definition sdb_wal_magic :: bytes where
  "sdb_wal_magic = [0x53, 0x57, 0x41, 0x4c]"

definition sdb_wal_commit_magic :: bytes where
  "sdb_wal_commit_magic = [0x53, 0x43, 0x4d, 0x54]"

record sdb_wal_page =
  wp_page_id :: u64
  wp_bytes :: bytes

record sdb_wal_commit_rec =
  wc_txn_id :: u64
  wc_frame_count :: u32
  wc_next_page_id :: u64
  wc_freelist_page :: u64

definition sdb_wal_frame_size :: "nat \<Rightarrow> nat" where
  "sdb_wal_frame_size page_size = SDB_WAL_RECORD_HEADER_SIZE + page_size"

definition sdb_wal_frame_size_v4 :: "nat \<Rightarrow> nat" where
  "sdb_wal_frame_size_v4 page_size = SDB_WAL_RECORD_HEADER_SIZE_V4 + page_size"

definition sdb_wal_frame_size_v5 :: "nat \<Rightarrow> nat" where
  "sdb_wal_frame_size_v5 page_size = SDB_WAL_RECORD_HEADER_SIZE_V5 + page_size"

text \<open>
  The loop that doubles the capacity, as a partial function: a capacity of zero
  would never reach the requirement. The set itself is the list of slots, with
  zero for a free one.
\<close>

partial_function (option) wal_id_set_capacity :: "nat \<Rightarrow> nat \<Rightarrow> nat result option" where
  "wal_id_set_capacity required capacity =
    (if capacity < required then
       if capacity > SIZE_MAX div 2 then Some (Inl SDB_E_OVERFLOW)
       else wal_id_set_capacity required (capacity * 2)
     else Some (Inr capacity))"

definition sdb_wal_id_set_create :: "(nat \<Rightarrow> bool) \<Rightarrow> nat \<Rightarrow> u64 list result option" where
  "sdb_wal_id_set_create malloc_ok page_count =
    (if page_count = 0 \<or> page_count > SIZE_MAX div 2 then Some (Inl SDB_E_INVALID_ARGUMENT)
     else case wal_id_set_capacity (page_count * 2) 1 of
       None \<Rightarrow> None
     | Some (Inl e) \<Rightarrow> Some (Inl e)
     | Some (Inr capacity) \<Rightarrow>
         if capacity > SIZE_MAX div 8 then Some (Inl SDB_E_OVERFLOW)
         else if \<not> malloc_ok (capacity * 8) then Some (Inl SDB_E_OUT_OF_MEMORY)
         else Some (Inr (replicate capacity 0)))"

definition wal_id_home :: "nat \<Rightarrow> u64 \<Rightarrow> nat" where
  "wal_id_home capacity page_id =
    unat ((page_id * 11400714819323198485) AND of_nat (capacity - 1))"

partial_function (option) wal_id_set_scan :: "u64 list \<Rightarrow> u64 \<Rightarrow> nat \<Rightarrow> nat option" where
  "wal_id_set_scan slots page_id index =
    (if slots ! index \<noteq> 0 \<and> slots ! index \<noteq> page_id
     then wal_id_set_scan slots page_id ((index + 1) AND (length slots - 1))
     else Some index)"

definition sdb_wal_id_set_insert :: "u64 list \<Rightarrow> u64 \<Rightarrow> (bool \<times> u64 list) option" where
  "sdb_wal_id_set_insert slots page_id =
    (if page_id = 0 then Some (False, slots)
     else case wal_id_set_scan slots page_id (wal_id_home (length slots) page_id) of
       None \<Rightarrow> None
     | Some index \<Rightarrow>
         if slots ! index \<noteq> 0 then Some (False, slots)
         else Some (True, slots[index := page_id]))"

text \<open>The commit record; the buffer written to holds exactly its 44 bytes.\<close>

definition sdb_wal_encode_commit_rec :: "sdb_wal_commit_rec \<Rightarrow> u32 \<Rightarrow> bytes" where
  "sdb_wal_encode_commit_rec rec running_crc =
    (let out = zeros SDB_WAL_COMMIT_SIZE;
         out = blit 0 sdb_wal_commit_magic out;
         out = sdb_write_u16_le out 4 SDB_WAL_VERSION_V5;
         out = sdb_write_u16_le out 6 (of_nat SDB_WAL_COMMIT_SIZE);
         out = sdb_write_u64_le out 8 (wc_txn_id rec);
         out = sdb_write_u32_le out SDB_WAL_V3_COMMIT_FRAME_COUNT_OFFSET (wc_frame_count rec);
         out = sdb_write_u64_le out SDB_WAL_V3_COMMIT_NEXT_PAGE_ID_OFFSET (wc_next_page_id rec);
         out = sdb_write_u64_le out SDB_WAL_V3_COMMIT_FREELIST_PAGE_OFFSET (wc_freelist_page rec);
         out = sdb_write_u32_le out SDB_WAL_V3_COMMIT_RUNNING_CRC_OFFSET running_crc;
         commit_crc = sdb_crc32_zeroed_range out SDB_WAL_V3_COMMIT_CHECKSUM_OFFSET 4
     in sdb_write_u32_le out SDB_WAL_V3_COMMIT_CHECKSUM_OFFSET commit_crc)"

text \<open>The bytes at \<open>in\<close> are given with their available length.\<close>

definition sdb_wal_decode_commit_rec :: "bytes \<Rightarrow> (sdb_wal_commit_rec \<times> u32) result" where
  "sdb_wal_decode_commit_rec inp =
    (if length inp < SDB_WAL_COMMIT_SIZE then Inl SDB_E_INVALID_ARGUMENT
     else
       let rec_version = sdb_read_u16_le inp 4 in
       if take 4 inp \<noteq> sdb_wal_commit_magic
          \<or> (rec_version \<noteq> SDB_WAL_VERSION_V3 \<and> rec_version \<noteq> SDB_WAL_VERSION_V4
             \<and> rec_version \<noteq> SDB_WAL_VERSION_V5)
          \<or> sdb_read_u16_le inp 6 \<noteq> of_nat SDB_WAL_COMMIT_SIZE
       then Inl SDB_E_CORRUPT
       else
         let stored_commit_crc = sdb_read_u32_le inp SDB_WAL_V3_COMMIT_CHECKSUM_OFFSET;
             expected_commit_crc =
               sdb_crc32_zeroed_range (take SDB_WAL_COMMIT_SIZE inp) SDB_WAL_V3_COMMIT_CHECKSUM_OFFSET 4
         in if stored_commit_crc \<noteq> expected_commit_crc then Inl SDB_E_CORRUPT
            else Inr (\<lparr>wc_txn_id = sdb_read_u64_le inp 8,
                       wc_frame_count = sdb_read_u32_le inp SDB_WAL_V3_COMMIT_FRAME_COUNT_OFFSET,
                       wc_next_page_id = sdb_read_u64_le inp SDB_WAL_V3_COMMIT_NEXT_PAGE_ID_OFFSET,
                       wc_freelist_page = sdb_read_u64_le inp SDB_WAL_V3_COMMIT_FREELIST_PAGE_OFFSET\<rparr>,
                      sdb_read_u32_le inp SDB_WAL_V3_COMMIT_RUNNING_CRC_OFFSET))"

section \<open>The commit record\<close>

definition commit_layout :: "u16 \<Rightarrow> sdb_wal_commit_rec \<Rightarrow> u32 \<Rightarrow> bytes \<Rightarrow> bytes" where
  "commit_layout version rec running_crc c =
    sdb_wal_commit_magic @ le_bytes 2 version @ le_bytes 2 (44 :: u16) @ le_bytes 8 (wc_txn_id rec)
    @ le_bytes 4 (wc_frame_count rec) @ le_bytes 8 (wc_next_page_id rec)
    @ le_bytes 8 (wc_freelist_page rec) @ le_bytes 4 running_crc @ c"

definition commit_image :: "u16 \<Rightarrow> sdb_wal_commit_rec \<Rightarrow> u32 \<Rightarrow> bytes" where
  "commit_image version rec running_crc =
    commit_layout version rec running_crc (le_bytes 4 (sdb_crc32 (commit_layout version rec running_crc (zeros 4))))"

lemma length_commit_magic [simp]: "length sdb_wal_commit_magic = 4"
  by (simp add: sdb_wal_commit_magic_def)

lemma length_commit_layout [simp]: "length c = 4 \<Longrightarrow> length (commit_layout version rec crc c) = 44"
  by (simp add: commit_layout_def)

lemma length_commit_image [simp]: "length (commit_image version rec crc) = 44"
  by (simp add: commit_image_def)

lemma zeros_commit:
  "zeros 44 = zeros 4 @ zeros 2 @ zeros 2 @ zeros 8 @ zeros 4 @ zeros 8 @ zeros 8 @ zeros 4 @ zeros 4"
  by (simp only: zeros_append) simp

lemma blit_commit_checksum:
  "length c = 4 \<Longrightarrow> length d = 4 \<Longrightarrow>
    blit 40 d (commit_layout version rec crc c) = commit_layout version rec crc d"
  by (simp add: commit_layout_def layout_simps)

lemma encode_commit_rec_image: "sdb_wal_encode_commit_rec rec crc = commit_image 5 rec crc"
proof -
  let ?l = "commit_layout 5 rec crc (zeros 4)"
  have fields: "sdb_write_u32_le (sdb_write_u64_le (sdb_write_u64_le (sdb_write_u32_le
      (sdb_write_u64_le (sdb_write_u16_le (sdb_write_u16_le (blit 0 sdb_wal_commit_magic (zeros 44))
        4 5) 6 44) 8 (wc_txn_id rec)) 16 (wc_frame_count rec)) 20 (wc_next_page_id rec))
        28 (wc_freelist_page rec)) 36 crc = ?l"
    by (simp add: zeros_commit wr_blits layout_simps commit_layout_def)
  have "sdb_crc32_zeroed_range ?l 40 4 = sdb_crc32 ?l"
    by (simp add: crc32_zeroed_range_blit blit_commit_checksum)
  then show ?thesis
    unfolding sdb_wal_encode_commit_rec_def Let_def wal_consts wal_versions commit_image_def
    by (simp add: fields) (simp add: wr_blits blit_commit_checksum)
qed

lemma commit_layout_reads:
  assumes "length c = 4"
  shows "take 4 (commit_layout version rec crc c @ rest) = sdb_wal_commit_magic"
    and "sdb_read_u16_le (commit_layout version rec crc c @ rest) 4 = version"
    and "sdb_read_u16_le (commit_layout version rec crc c @ rest) 6 = 44"
    and "sdb_read_u64_le (commit_layout version rec crc c @ rest) 8 = wc_txn_id rec"
    and "sdb_read_u32_le (commit_layout version rec crc c @ rest) 16 = wc_frame_count rec"
    and "sdb_read_u64_le (commit_layout version rec crc c @ rest) 20 = wc_next_page_id rec"
    and "sdb_read_u64_le (commit_layout version rec crc c @ rest) 28 = wc_freelist_page rec"
    and "sdb_read_u32_le (commit_layout version rec crc c @ rest) 36 = crc"
    and "sdb_read_u32_le (commit_layout version rec crc c @ rest) 40 = le_word c"
  using assms by (simp_all add: commit_layout_def rd_slices layout_simps)

lemma decode_commit_image:
  assumes "version \<in> {3, 4, 5}"
  shows "sdb_wal_decode_commit_rec (commit_image version rec crc @ rest) = Inr (rec, crc)"
proof -
  let ?l = "commit_layout version rec crc"
  let ?c = "le_bytes 4 (sdb_crc32 (?l (zeros 4)))"
  have "sdb_crc32_zeroed_range (?l ?c) 40 4 = sdb_crc32 (?l (zeros 4))"
    by (simp add: crc32_zeroed_range_blit blit_commit_checksum)
  with assms show ?thesis
    unfolding sdb_wal_decode_commit_rec_def Let_def wal_consts wal_versions commit_image_def
    by (auto simp add: commit_layout_reads commit_layout_reads(1) [where rest = "[]", simplified])
qed

lemma decode_commit_inv:
  assumes "sdb_wal_decode_commit_rec inp = Inr (rec, crc)"
  shows "\<exists>version \<in> {3, 4, 5}. take 44 inp = commit_image version rec crc \<and> 44 \<le> length inp"
proof -
  let ?x = "take 44 inp" and ?v = "sdb_read_u16_le inp 4"
  have len: "44 \<le> length inp"
    using assms by (auto simp: sdb_wal_decode_commit_rec_def wal_consts split: if_splits)
  from assms len have fields: "take 4 inp = sdb_wal_commit_magic" "?v \<in> {3, 4, 5}" "sdb_read_u16_le inp 6 = 44"
    "sdb_read_u32_le inp 40 = sdb_crc32_zeroed_range ?x 40 4"
    "rec = \<lparr>wc_txn_id = sdb_read_u64_le inp 8, wc_frame_count = sdb_read_u32_le inp 16,
      wc_next_page_id = sdb_read_u64_le inp 20, wc_freelist_page = sdb_read_u64_le inp 28\<rparr>"
    "crc = sdb_read_u32_le inp 36"
    unfolding sdb_wal_decode_commit_rec_def Let_def wal_consts wal_versions by (auto split: if_splits)
  have split: "?x = commit_layout ?v rec crc (slice 40 4 inp)"
  proof -
    have "commit_layout ?v rec crc (slice 40 4 inp) = slice 0 4 inp @ slice 4 2 inp @ slice 6 2 inp @ slice 8 8 inp
        @ slice 16 4 inp @ slice 20 8 inp @ slice 28 8 inp @ slice 36 4 inp @ slice 40 4 inp"
      using len fields(1) by (simp add: commit_layout_def fields(5,6) le_bytes_rds slice_0_prefix flip: fields(3))
    also have "\<dots> = slice 0 44 inp"
      by (simp add: slice_append_slice flip: append_assoc)
        (simp add: slice_append_slice [of 0 _ inp, simplified] flip: append_assoc)
    finally show ?thesis
      by (simp add: slice_0_prefix)
  qed
  have "sdb_crc32_zeroed_range ?x 40 4 = sdb_crc32 (commit_layout ?v rec crc (zeros 4))"
    unfolding split using len by (simp add: crc32_zeroed_range_blit blit_commit_checksum)
  then have "slice 40 4 inp = le_bytes 4 (sdb_crc32 (commit_layout ?v rec crc (zeros 4)))"
    using fields(4) len le32.le_bytes_rd [of 40 inp] by simp
  then show ?thesis
    using split fields(2) len by (auto simp: commit_image_def)
qed

section \<open>The id set\<close>

lemma id_set_capacity_returns:
  assumes "pow2 capacity" "capacity \<le> 2 ^ 64"
  shows "\<exists>r. wal_id_set_capacity required capacity = Some r \<and>
    (case r of Inl e \<Rightarrow> e = SDB_E_OVERFLOW \<and> 2 ^ 63 < required
     | Inr n \<Rightarrow> pow2 n \<and> required \<le> n \<and> (n = capacity \<or> n < 2 * required) \<and> n \<le> 2 ^ 64)"
  using assms
proof (induction "required - capacity" arbitrary: capacity rule: less_induct)
  case less
  note pos = pow2_pos [OF less.prems(1)]
  consider "required \<le> capacity" | "capacity < required" "capacity > SIZE_MAX div 2"
    | "capacity < required" "capacity \<le> SIZE_MAX div 2"
    by linarith
  then show ?case
  proof cases
    case 3
    moreover have "required - capacity * 2 < required - capacity"
      using 3 pos by simp
    moreover have "pow2 (capacity * 2)" "capacity * 2 \<le> 2 ^ 64"
      using less.prems 3 by (auto simp: pow2_def SIZE_MAX_def intro: exI [of _ "Suc _"])
    ultimately obtain r where "wal_id_set_capacity required (capacity * 2) = Some r"
      "case r of Inl e \<Rightarrow> e = SDB_E_OVERFLOW \<and> 2 ^ 63 < required
       | Inr n \<Rightarrow> pow2 n \<and> required \<le> n \<and> (n = capacity * 2 \<or> n < 2 * required) \<and> n \<le> 2 ^ 64"
      using less.hyps by blast
    with 3 show ?thesis
      by (subst wal_id_set_capacity.simps) (auto split: sum.splits)
  qed (use less.prems in \<open>auto simp: wal_id_set_capacity.simps [of required capacity] SIZE_MAX_def\<close>)
qed

text \<open>The set holds the ids inserted so far and is at most half full.\<close>

definition id_set_inv :: "nat \<Rightarrow> u64 set \<Rightarrow> u64 list \<Rightarrow> bool" where
  "id_set_inv room ids slots \<longleftrightarrow> probing_inv (wal_id_home (length slots)) slots \<and>
    length slots \<le> 2 ^ 64 \<and> set slots - {0} = ids \<and> (occupied slots + room) * 2 \<le> length slots"

lemma wal_id_home_less: "0 < n \<Longrightarrow> n \<le> 2 ^ 64 \<Longrightarrow> wal_id_home n k < n"
  unfolding wal_id_home_def by (rule u64_and_mask_less)

lemma id_set_create_inv:
  assumes "sdb_wal_id_set_create malloc_ok page_count = r"
  shows "(\<exists>e. r = Some (Inl e) \<and> e \<in> {SDB_E_INVALID_ARGUMENT, SDB_E_OVERFLOW, SDB_E_OUT_OF_MEMORY} \<and>
      (0 < page_count \<and> page_count \<le> 2 ^ 58 \<longrightarrow> e = SDB_E_OUT_OF_MEMORY \<and> (\<exists>n. \<not> malloc_ok n)))
    \<or> (\<exists>slots. r = Some (Inr slots) \<and> id_set_inv page_count {} slots)"
proof (cases "page_count = 0 \<or> page_count > SIZE_MAX div 2")
  case False
  have "pow2 1"
    by (auto simp: pow2_def intro: exI [of _ 0])
  then obtain c where c: "wal_id_set_capacity (page_count * 2) 1 = Some c"
    "case c of Inl e \<Rightarrow> e = SDB_E_OVERFLOW \<and> 2 ^ 63 < page_count * 2
     | Inr n \<Rightarrow> pow2 n \<and> page_count * 2 \<le> n \<and> (n = 1 \<or> n < 2 * (page_count * 2)) \<and> n \<le> 2 ^ 64"
    using id_set_capacity_returns [of 1 "page_count * 2"] by auto
  show ?thesis
  proof (cases c)
    case (Inr n)
    then have n: "pow2 n" "page_count * 2 \<le> n" "n \<le> 2 ^ 64"
      using c(2) by auto
    have "id_set_inv page_count {} (replicate n 0)"
      using n pow2_pos [OF n(1)]
      by (auto simp: id_set_inv_def occupied_def intro!: probing_inv_empty wal_id_home_less)
    moreover have "n < page_count * 4"
      using c(2) Inr False by auto
    ultimately show ?thesis
      using assms c(1) False Inr
      by (cases "n > SIZE_MAX div 8"; cases "malloc_ok (n * 8)") (auto simp: sdb_wal_id_set_create_def SIZE_MAX_def)
  qed (use assms c False in \<open>auto simp: sdb_wal_id_set_create_def\<close>)
qed (use assms in \<open>auto simp: sdb_wal_id_set_create_def SIZE_MAX_def\<close>)

interpretation id_scan: forward_scan "\<lambda>s k. s = 0 \<or> s = k" wal_id_set_scan
proof unfold_locales
  fix slots :: "u64 list" and i k
  assume "pow2 (length slots)" "i < length slots"
  then show "wal_id_set_scan slots k i =
      (if slots ! i = 0 \<or> slots ! i = k then Some i else wal_id_set_scan slots k (nxt (length slots) i))"
    by (subst wal_id_set_scan.simps) (simp add: nxt_and_mask_Suc)
qed

lemma id_set_scan_spec:
  assumes inv: "probing_inv (wal_id_home (length slots)) slots" and k: "k \<noteq> 0"
    and n: "length slots \<le> 2 ^ 64"
  obtains r where "wal_id_set_scan slots k (wal_id_home (length slots) k) = Some r" "r < length slots"
    "slots ! r \<noteq> 0 \<longleftrightarrow> k \<in> set slots"
    "\<And>q. q < length slots \<Longrightarrow> cdist (length slots) (wal_id_home (length slots) k) q
      < cdist (length slots) (wal_id_home (length slots) k) r \<Longrightarrow> slots ! q \<noteq> 0"
proof -
  let ?n = "length slots" and ?h = "wal_id_home (length slots) k"
  have p: "pow2 ?n"
    using inv by (simp add: probing_inv_def)
  have h: "?h < ?n"
    using n pow2_pos [OF p] by (intro wal_id_home_less)
  obtain e where e: "e < ?n" "slots ! e = 0"
    using probing_free_slot [OF inv] by blast
  then obtain r where r: "r < ?n" "wal_id_set_scan slots k ?h = Some r" "slots ! r = 0 \<or> slots ! r = k"
    and path: "\<And>q. q < ?n \<Longrightarrow> cdist ?n ?h q < cdist ?n ?h r \<Longrightarrow> \<not> (slots ! q = 0 \<or> slots ! q = k)"
    using id_scan.scan_returns [OF p e(1) _ h, of k] by auto
  have "slots ! r \<noteq> 0 \<longleftrightarrow> k \<in> set slots"
  proof
    assume "slots ! r \<noteq> 0"
    with r show "k \<in> set slots" by auto
  next
    assume "k \<in> set slots"
    then obtain i where i: "i < ?n" "slots ! i = k"
      by (auto simp: in_set_conv_nth)
    show "slots ! r \<noteq> 0"
    proof
      assume z: "slots ! r = 0"
      have "\<not> cdist ?n ?h r < cdist ?n ?h i"
        using probing_reach [OF inv i k r(1)] z by auto
      moreover have "\<not> cdist ?n ?h i < cdist ?n ?h r"
        using path [OF i(1)] i(2) by auto
      ultimately have "cdist ?n ?h r = cdist ?n ?h i"
        by linarith
      then have "r = i"
        using h r(1) i(1) by (simp add: cdist_inj)
      with z i(2) k show False by simp
    qed
  qed
  with r path that show thesis by blast
qed

lemma id_set_insert_spec:
  assumes "id_set_inv (Suc room) ids slots"
  shows "\<exists>slots'. sdb_wal_id_set_insert slots k = Some (k \<noteq> 0 \<and> k \<notin> ids, slots') \<and>
    id_set_inv room (if k = 0 then ids else insert k ids) slots'"
proof -
  have inv: "probing_inv (wal_id_home (length slots)) slots" and n: "length slots \<le> 2 ^ 64"
    and ids: "set slots - {0} = ids" and occ: "(occupied slots + Suc room) * 2 \<le> length slots"
    using assms by (simp_all add: id_set_inv_def)
  have weaker: "id_set_inv room ids slots"
    using assms by (simp add: id_set_inv_def)
  show ?thesis
  proof (cases "k = 0")
    case True
    with weaker show ?thesis
      by (simp add: sdb_wal_id_set_insert_def)
  next
    case False
    obtain r where r: "wal_id_set_scan slots k (wal_id_home (length slots) k) = Some r" "r < length slots"
      "slots ! r \<noteq> 0 \<longleftrightarrow> k \<in> set slots"
      "\<And>q. q < length slots \<Longrightarrow> cdist (length slots) (wal_id_home (length slots) k) q
        < cdist (length slots) (wal_id_home (length slots) k) r \<Longrightarrow> slots ! q \<noteq> 0"
      using id_set_scan_spec [OF inv False n] by blast
    show ?thesis
    proof (cases "k \<in> set slots")
      case True
      then have "insert k ids = ids" "k \<in> ids"
        using ids False by auto
      with True False r weaker show ?thesis
        by (simp add: sdb_wal_id_set_insert_def)
    next
      case new: False
      then have z: "slots ! r = 0"
        using r(3) by simp
      have "probing_inv (wal_id_home (length slots)) (slots[r := k])"
        using probing_inv_insert [OF inv r(2) z False new r(4)] occ by simp
      moreover have "set (slots[r := k]) - {0} = insert k ids"
      proof -
        have "insert 0 (set (slots[r := k])) = insert 0 (insert k (set slots))"
          using r(2) z by (auto simp: in_set_conv_nth nth_list_update split: if_splits)
        with ids False show ?thesis by blast
      qed
      ultimately have "id_set_inv room (insert k ids) (slots[r := k])"
        using n occ r(2) z False by (simp add: id_set_inv_def occupied_insert)
      with False new r z ids show ?thesis
        by (auto simp: sdb_wal_id_set_insert_def)
    qed
  qed
qed

text \<open>The ids of a transaction inserted one after the other, with the answers.\<close>

fun id_set_inserts :: "u64 list \<Rightarrow> u64 list \<Rightarrow> bool list option" where
  "id_set_inserts slots [] = Some []"
| "id_set_inserts slots (k # ks) =
    (case sdb_wal_id_set_insert slots k of
       None \<Rightarrow> None
     | Some (fresh, slots') \<Rightarrow> map_option ((#) fresh) (id_set_inserts slots' ks))"

lemma id_set_inserts_spec:
  assumes "id_set_inv room ids slots" "length ks \<le> room" "0 \<notin> ids"
  shows "\<exists>answers. id_set_inserts slots ks = Some answers \<and> length answers = length ks \<and>
    (\<forall>i < length ks. answers ! i = (ks ! i \<noteq> 0 \<and> ks ! i \<notin> ids \<and> ks ! i \<notin> set (take i ks)))"
  using assms
proof (induction ks arbitrary: room ids slots)
  case (Cons k ks)
  then obtain room' where room: "room = Suc room'"
    by (cases room) auto
  let ?ids = "if k = 0 then ids else insert k ids"
  obtain slots' where ins: "sdb_wal_id_set_insert slots k = Some (k \<noteq> 0 \<and> k \<notin> ids, slots')"
    "id_set_inv room' ?ids slots'"
    using id_set_insert_spec Cons.prems(1) unfolding room by blast
  then obtain answers where IH: "id_set_inserts slots' ks = Some answers" "length answers = length ks"
    "\<forall>i < length ks. answers ! i = (ks ! i \<noteq> 0 \<and> ks ! i \<notin> ?ids \<and> ks ! i \<notin> set (take i ks))"
    using Cons.IH [of room' ?ids slots'] Cons.prems(2,3) room by (cases "k = 0") auto
  have "((k \<noteq> 0 \<and> k \<notin> ids) # answers) ! i =
      ((k # ks) ! i \<noteq> 0 \<and> (k # ks) ! i \<notin> ids \<and> (k # ks) ! i \<notin> set (take i (k # ks)))"
    if "i < length (k # ks)" for i
    using that IH(3) by (cases i) auto
  with ins IH show ?case
    by auto
qed simp

section \<open>Properties\<close>

text \<open>
  The commit record carries its four fields and the running checksum through
  an encode and a decode, whatever bytes follow it in the log; and a buffer that
  decodes begins with exactly the image of the fields it yields under one of the
  three accepted version stamps, so nothing but an intact record ends a
  transaction.
\<close>
theorem commit_rec_roundtrip:
  "sdb_wal_decode_commit_rec (sdb_wal_encode_commit_rec rec crc @ rest) = Inr (rec, crc) \<and>
   (sdb_wal_decode_commit_rec inp = Inr (rec, crc) \<longrightarrow>
      44 \<le> length inp \<and> (\<exists>version \<in> {3, 4, 5}. take 44 inp = commit_image version rec crc))"
  using decode_commit_image [of 5 rec crc rest] decode_commit_inv [of inp rec crc]
  by (auto simp: encode_commit_rec_image)

theorem commit_rec_roundtrip_witness:
  "sdb_wal_decode_commit_rec (sdb_wal_encode_commit_rec \<lparr>wc_txn_id = 3, wc_frame_count = 1, wc_next_page_id = 9, wc_freelist_page = 0\<rparr> 7)
     = Inr (\<lparr>wc_txn_id = 3, wc_frame_count = 1, wc_next_page_id = 9, wc_freelist_page = 0\<rparr>, 7) \<and>
   44 \<le> length (sdb_wal_encode_commit_rec \<lparr>wc_txn_id = 3, wc_frame_count = 1, wc_next_page_id = 9, wc_freelist_page = 0\<rparr> 7)"
  using commit_rec_roundtrip [of "\<lparr>wc_txn_id = 3, wc_frame_count = 1, wc_next_page_id = 9, wc_freelist_page = 0\<rparr>" 7 "[]"
      "sdb_wal_encode_commit_rec \<lparr>wc_txn_id = 3, wc_frame_count = 1, wc_next_page_id = 9, wc_freelist_page = 0\<rparr> 7"]
  by simp

text \<open>
  the id set built for a transaction of \<open>n\<close> pages answers up to \<open>n\<close>
  insertions: every probe ends, and an insertion succeeds exactly when the id is
  not zero and was not inserted before.
\<close>
theorem id_set_rejects_duplicates:
  assumes "sdb_wal_id_set_create malloc_ok n = Some (Inr slots)" and "length ks \<le> n"
  shows "\<exists>answers. id_set_inserts slots ks = Some answers \<and> length answers = length ks \<and>
    (\<forall>i < length ks. answers ! i = (ks ! i \<noteq> 0 \<and> ks ! i \<notin> set (take i ks)))"
  using id_set_create_inv [OF assms(1)] id_set_inserts_spec [of n "{}" slots ks] assms(2) by auto

lemma id_set_capacity_example: "wal_id_set_capacity 6 1 = Some (Inr 8)"
  by (simp add: wal_id_set_capacity.simps SIZE_MAX_def)

theorem id_set_rejects_duplicates_witness:
  "\<exists>answers. id_set_inserts (replicate 8 0) [7, 9, 7] = Some answers \<and> length answers = 3 \<and>
    answers ! 0 \<and> answers ! 1 \<and> \<not> answers ! 2"
proof -
  have "sdb_wal_id_set_create (\<lambda>_. True) 3 = Some (Inr (replicate 8 0))"
    by (simp add: sdb_wal_id_set_create_def id_set_capacity_example [simplified] SIZE_MAX_def)
  then obtain answers where a: "id_set_inserts (replicate 8 0) [7, 9, 7] = Some answers" "length answers = 3"
    and fresh: "\<And>i. i < 3 \<Longrightarrow> answers ! i = ([7, 9, 7] ! i \<noteq> (0 :: u64) \<and> [7, 9, 7] ! i \<notin> set (take i [7, 9, 7 :: u64]))"
    using id_set_rejects_duplicates [of "\<lambda>_. True" 3 "replicate 8 0" "[7, 9, 7]"] by auto
  show ?thesis
    using a fresh [of 0] fresh [of 1] fresh [of 2] by (intro exI [of _ answers]) simp
qed

end
