(* ===== verification/Wal.thy ===== *)
theory Wal
  imports Wal_Format Superblock File
begin

text \<open>
  Writing the log (\<open>sdb_wal_encode_txn\<close> and \<open>sdb_wal_append_txn\<close> of
  \<open>src/wal.c\<close>). A transaction is one frame per page, each naming its page, its
  transaction, its position and the database it belongs to, followed by the
  commit record; the first transaction of a log also writes the identity header.
  A page handed to the log carries \<open>page_size\<close> bytes.
\<close>

section \<open>Model\<close>

text \<open>The loop over the pages that checks ids, images and transaction numbers.\<close>

fun wal_pages_valid :: "u64 \<Rightarrow> u64 \<Rightarrow> u64 list \<Rightarrow> sdb_wal_page list \<Rightarrow> bool option" where
  "wal_pages_valid limit txn_id page_ids [] = Some True"
| "wal_pages_valid limit txn_id page_ids (p # ps) =
    (if wp_page_id p = 0 \<or> wp_page_id p \<ge> limit then Some False
     else case sdb_wal_id_set_insert page_ids (wp_page_id p) of
       None \<Rightarrow> None
     | Some (fresh, page_ids') \<Rightarrow>
         if \<not> fresh then Some False
         else case sdb_page_decode (wp_bytes p) (wp_page_id p) of
           Inl _ \<Rightarrow> Some False
         | Inr view \<Rightarrow>
             if pv_page_lsn view \<noteq> txn_id then Some False
             else wal_pages_valid limit txn_id page_ids' ps)"

fun wal_write_frames ::
  "bytes \<Rightarrow> nat \<Rightarrow> u64 \<Rightarrow> nat \<Rightarrow> nat \<Rightarrow> nat \<Rightarrow> sdb_wal_page list \<Rightarrow> bytes \<Rightarrow> bytes" where
  "wal_write_frames fid frame_size txn_id page_count index cursor [] buffer = buffer"
| "wal_write_frames fid frame_size txn_id page_count index cursor (p # ps) buffer =
    (let buffer = sdb_write_u64_le buffer cursor (wp_page_id p);
         buffer = sdb_write_u64_le buffer (cursor + SDB_WAL_FRAME_V4_TXN_ID_OFFSET) txn_id;
         buffer = sdb_write_u32_le buffer (cursor + SDB_WAL_FRAME_V4_FRAME_INDEX_OFFSET) (of_nat index);
         buffer = sdb_write_u32_le buffer (cursor + SDB_WAL_FRAME_V4_FRAME_COUNT_OFFSET) (of_nat page_count);
         buffer = blit (cursor + SDB_WAL_FRAME_V5_FILE_ID_OFFSET) fid buffer;
         buffer = blit (cursor + SDB_WAL_RECORD_HEADER_SIZE_V5) (wp_bytes p) buffer
     in wal_write_frames fid frame_size txn_id page_count (index + 1) (cursor + frame_size) ps buffer)"

definition wal_write_header :: "sdb_superblock_v1 \<Rightarrow> u16 \<Rightarrow> u64 \<Rightarrow> nat \<Rightarrow> bytes \<Rightarrow> bytes" where
  "wal_write_header sb version txn_id page_count buffer =
    (let buffer = blit 0 sdb_wal_magic buffer;
         buffer = sdb_write_u16_le buffer 4 version;
         buffer = sdb_write_u16_le buffer 6 (of_nat SDB_WAL_HEADER_SIZE);
         buffer = sdb_write_u64_le buffer 8 txn_id;
         buffer = sdb_write_u32_le buffer 16 (page_size sb);
         buffer = sdb_write_u32_le buffer 20 (of_nat page_count);
         buffer = blit 24 (file_id sb) buffer;
         buffer = sdb_write_u64_le buffer 40 (next_page_id sb);
         buffer = sdb_write_u64_le buffer 48 (freelist_page sb)
     in sdb_write_u32_le buffer SDB_WAL_HEADER_CHECKSUM_OFFSET
          (sdb_crc32_zeroed_range (take SDB_WAL_HEADER_SIZE buffer) SDB_WAL_HEADER_CHECKSUM_OFFSET 4))"

record wal_staged =
  ws_buffer :: bytes
  ws_write_offset :: nat
  ws_new_offset :: nat

text \<open>Filling the staging buffer once everything has been checked.\<close>

definition wal_stage_buffer ::
  "sdb_superblock_v1 \<Rightarrow> u64 \<Rightarrow> sdb_wal_page list \<Rightarrow> nat \<Rightarrow> nat \<Rightarrow> nat \<Rightarrow> nat \<Rightarrow> bytes" where
  "wal_stage_buffer sb txn_id pages frame_size frames_size header_prefix total_size =
    (let page_count = length pages;
         buffer = wal_write_frames (file_id sb) frame_size txn_id page_count 0 header_prefix pages (zeros total_size);
         buffer = (if header_prefix \<noteq> 0 then wal_write_header sb SDB_WAL_VERSION_V5 txn_id page_count buffer
                   else buffer);
         running_crc = sdb_crc32 (slice header_prefix frames_size buffer);
         rec = \<lparr>wc_txn_id = txn_id, wc_frame_count = of_nat page_count,
                wc_next_page_id = next_page_id sb, wc_freelist_page = freelist_page sb\<rparr>
     in blit (header_prefix + frames_size) (sdb_wal_encode_commit_rec rec running_crc) buffer)"

definition sdb_wal_encode_txn ::
  "(nat \<Rightarrow> bool) \<Rightarrow> sdb_superblock_v1 \<Rightarrow> nat \<Rightarrow> u64 \<Rightarrow> sdb_wal_page list \<Rightarrow> wal_staged result option" where
  "sdb_wal_encode_txn malloc_ok sb append_offset txn_id pages =
    (let page_count = length pages in
     if txn_id = 0 \<or> page_count = 0 \<or> page_count > SDB_WAL_MAX_RECORDS \<or> page_count > 2 ^ 32 - 1
     then Some (Inl SDB_E_INVALID_ARGUMENT)
     else
       let frame_size = sdb_wal_frame_size_v5 (unat (page_size sb)) in
       case sdb_checked_mul_size frame_size page_count of
         None \<Rightarrow> Some (Inl SDB_E_OVERFLOW)
       | Some frames_size \<Rightarrow>
           if append_offset > SDB_WAL_MAX_BYTES
              \<or> frames_size > SDB_WAL_MAX_BYTES - append_offset
              \<or> SDB_WAL_COMMIT_SIZE > SDB_WAL_MAX_BYTES - append_offset - frames_size
           then Some (Inl SDB_E_OVERFLOW)
           else case sdb_wal_id_set_create malloc_ok page_count of
             None \<Rightarrow> None
           | Some (Inl e) \<Rightarrow> Some (Inl e)
           | Some (Inr page_ids) \<Rightarrow>
               (case wal_pages_valid (next_page_id sb) txn_id page_ids pages of
                  None \<Rightarrow> None
                | Some False \<Rightarrow> Some (Inl SDB_E_INVALID_ARGUMENT)
                | Some True \<Rightarrow>
                    let header_prefix =
                          (if append_offset = SDB_WAL_HEADER_SIZE then SDB_WAL_HEADER_SIZE else 0) in
                    case Option.bind (sdb_checked_add_size header_prefix frames_size)
                           (\<lambda>total_size. sdb_checked_add_size total_size SDB_WAL_COMMIT_SIZE) of
                      None \<Rightarrow> Some (Inl SDB_E_OVERFLOW)
                    | Some total_size \<Rightarrow>
                        if \<not> malloc_ok total_size then Some (Inl SDB_E_OUT_OF_MEMORY)
                        else
                          Some (Inr \<lparr>ws_buffer = wal_stage_buffer sb txn_id pages frame_size frames_size
                                 header_prefix total_size,
                               ws_write_offset = (if header_prefix \<noteq> 0 then 0 else append_offset),
                               ws_new_offset = append_offset + frames_size + SDB_WAL_COMMIT_SIZE\<rparr>)))"

text \<open>
  The append; the new offset is the result, so a failed write or sync yields
  none.
\<close>

definition sdb_wal_append_txn ::
  "(nat \<Rightarrow> bool) \<Rightarrow> nat \<Rightarrow> sdb_superblock_v1 \<Rightarrow> u64 \<Rightarrow> sdb_wal_page list \<Rightarrow> sdb_file
    \<Rightarrow> (nat result \<times> sdb_file) option" where
  "sdb_wal_append_txn malloc_ok append_offset sb txn_id pages wal =
    (case sdb_wal_encode_txn malloc_ok sb append_offset txn_id pages of
       None \<Rightarrow> None
     | Some (Inl e) \<Rightarrow> Some (Inl e, wal)
     | Some (Inr staged) \<Rightarrow>
         Some (fbind (sdb_file_write_full (ws_write_offset staged) (ws_buffer staged)) (\<lambda>_.
               fbind sdb_file_sync (\<lambda>_.
               freturn (ws_new_offset staged))) wal))"

section \<open>The images\<close>

definition frame_image :: "bytes \<Rightarrow> u64 \<Rightarrow> nat \<Rightarrow> nat \<Rightarrow> sdb_wal_page \<Rightarrow> bytes" where
  "frame_image fid txn_id page_count index p =
    le_bytes 8 (wp_page_id p) @ le_bytes 8 txn_id @ le_bytes 4 (of_nat index :: u32)
    @ le_bytes 4 (of_nat page_count :: u32) @ fid @ wp_bytes p"

fun frames_image :: "bytes \<Rightarrow> u64 \<Rightarrow> nat \<Rightarrow> nat \<Rightarrow> sdb_wal_page list \<Rightarrow> bytes" where
  "frames_image fid txn_id page_count index [] = []"
| "frames_image fid txn_id page_count index (p # ps) =
    frame_image fid txn_id page_count index p @ frames_image fid txn_id page_count (index + 1) ps"

definition pages_sized :: "nat \<Rightarrow> sdb_wal_page list \<Rightarrow> bool" where
  "pages_sized psize pages \<longleftrightarrow> (\<forall>p \<in> set pages. length (wp_bytes p) = psize)"

lemma pages_sized_simps [simp]:
  "pages_sized psize []"
  "pages_sized psize (p # ps) \<longleftrightarrow> length (wp_bytes p) = psize \<and> pages_sized psize ps"
  by (simp_all add: pages_sized_def)

lemma length_frame_image [simp]:
  "length fid = 16 \<Longrightarrow> length (frame_image fid txn_id page_count index p) = 40 + length (wp_bytes p)"
  by (simp add: frame_image_def)

lemma length_frames_image:
  "length fid = 16 \<Longrightarrow> pages_sized psize pages \<Longrightarrow>
    length (frames_image fid txn_id page_count index pages) = (40 + psize) * length pages"
  by (induction pages arbitrary: index) (simp_all add: algebra_simps)

lemma write_frame:
  assumes "length fid = 16" "length pre = cursor" "length (wp_bytes p) = psize"
  shows "blit (cursor + 40) (wp_bytes p) (blit (cursor + 24) fid (sdb_write_u32_le (sdb_write_u32_le
      (sdb_write_u64_le (sdb_write_u64_le (pre @ zeros (40 + psize) @ post) cursor (wp_page_id p))
        (cursor + 8) txn_id) (cursor + 16) (of_nat index)) (cursor + 20) (of_nat page_count)))
    = pre @ frame_image fid txn_id page_count index p @ post"
proof -
  have "zeros (40 + psize) = zeros 8 @ zeros 8 @ zeros 4 @ zeros 4 @ zeros 16 @ zeros psize"
    by (simp only: zeros_append) simp
  then show ?thesis
    using assms by (simp add: wr_blits layout_simps frame_image_def)
qed

lemma write_frames_image:
  assumes "length fid = 16" "pages_sized psize pages" "length pre = cursor"
  shows "wal_write_frames fid (40 + psize) txn_id page_count index cursor pages
      (pre @ zeros ((40 + psize) * length pages) @ post)
    = pre @ frames_image fid txn_id page_count index pages @ post"
  using assms(2,3)
proof (induction pages arbitrary: index cursor pre)
  case (Cons p ps)
  let ?rest = "zeros ((40 + psize) * length ps) @ post"
  let ?pre = "pre @ frame_image fid txn_id page_count index p"
  have split: "pre @ zeros ((40 + psize) * length (p # ps)) @ post = pre @ zeros (40 + psize) @ ?rest"
    by (simp add: zeros_append algebra_simps)
  have "length ?pre = cursor + (40 + psize)"
    using Cons.prems assms(1) by simp
  then have "wal_write_frames fid (40 + psize) txn_id page_count (index + 1) (cursor + (40 + psize)) ps
      (?pre @ ?rest) = ?pre @ frames_image fid txn_id page_count (index + 1) ps @ post"
    using Cons by (intro Cons.IH) auto
  moreover have "wal_write_frames fid (40 + psize) txn_id page_count index cursor (p # ps)
      (pre @ zeros (40 + psize) @ ?rest) =
      wal_write_frames fid (40 + psize) txn_id page_count (index + 1) (cursor + (40 + psize)) ps
      (pre @ frame_image fid txn_id page_count index p @ ?rest)"
    using write_frame [OF assms(1) Cons.prems(2), of p psize ?rest txn_id index page_count] Cons.prems
    by (simp add: wal_consts Let_def)
  ultimately show ?case
    unfolding split by simp
qed simp

definition wal_header_layout :: "sdb_superblock_v1 \<Rightarrow> u16 \<Rightarrow> u64 \<Rightarrow> u32 \<Rightarrow> bytes \<Rightarrow> bytes" where
  "wal_header_layout sb version txn_id page_count c =
    sdb_wal_magic @ le_bytes 2 version @ le_bytes 2 (64 :: u16) @ le_bytes 8 txn_id
    @ le_bytes 4 (page_size sb) @ le_bytes 4 page_count @ file_id sb @ le_bytes 8 (next_page_id sb)
    @ le_bytes 8 (freelist_page sb) @ zeros 4 @ c"

definition wal_header_image :: "sdb_superblock_v1 \<Rightarrow> u16 \<Rightarrow> u64 \<Rightarrow> nat \<Rightarrow> bytes" where
  "wal_header_image sb version txn_id page_count =
    wal_header_layout sb version txn_id (of_nat page_count)
      (le_bytes 4 (sdb_crc32 (wal_header_layout sb version txn_id (of_nat page_count) (zeros 4))))"

lemma length_wal_magic [simp]: "length sdb_wal_magic = 4"
  by (simp add: sdb_wal_magic_def)

lemma length_wal_header_layout [simp]:
  "length (file_id sb) = 16 \<Longrightarrow> length c = 4 \<Longrightarrow> length (wal_header_layout sb version txn_id n c) = 64"
  by (simp add: wal_header_layout_def)

lemma length_wal_header_image [simp]:
  "length (file_id sb) = 16 \<Longrightarrow> length (wal_header_image sb version txn_id n) = 64"
  by (simp add: wal_header_image_def)

lemma blit_wal_header_checksum:
  "length (file_id sb) = 16 \<Longrightarrow> length c = 4 \<Longrightarrow> length d = 4 \<Longrightarrow>
    blit 60 d (wal_header_layout sb version txn_id n c @ rest) = wal_header_layout sb version txn_id n d @ rest"
  by (simp add: wal_header_layout_def layout_simps)

lemma write_header_image:
  assumes "length (file_id sb) = 16"
  shows "wal_write_header sb version txn_id page_count (zeros 64 @ rest) =
    wal_header_image sb version txn_id page_count @ rest"
proof -
  let ?l = "wal_header_layout sb version txn_id (of_nat page_count)"
  have z: "zeros 64 = zeros 4 @ zeros 2 @ zeros 2 @ zeros 8 @ zeros 4 @ zeros 4 @ zeros 16 @ zeros 8 @ zeros 8
      @ zeros 4 @ zeros 4"
    by (simp only: zeros_append) simp
  have fields: "sdb_write_u64_le (sdb_write_u64_le (blit 24 (file_id sb) (sdb_write_u32_le (sdb_write_u32_le
      (sdb_write_u64_le (sdb_write_u16_le (sdb_write_u16_le (blit 0 sdb_wal_magic (zeros 64 @ rest)) 4 version)
        6 64) 8 txn_id) 16 (page_size sb)) 20 (of_nat page_count))) 40 (next_page_id sb)) 48 (freelist_page sb)
      = ?l (zeros 4) @ rest"
    using assms unfolding z by (simp add: wr_blits layout_simps wal_header_layout_def)
  have "sdb_crc32_zeroed_range (?l (zeros 4)) 60 4 = sdb_crc32 (?l (zeros 4))"
    using assms blit_wal_header_checksum [of sb "zeros 4" "zeros 4" version txn_id "of_nat page_count" "[]"]
    by (simp add: crc32_zeroed_range_blit)
  then show ?thesis
    unfolding wal_write_header_def Let_def wal_consts wal_header_image_def
    using assms by (simp add: fields) (simp add: wr_blits blit_wal_header_checksum)
qed

definition txn_commit_rec :: "sdb_superblock_v1 \<Rightarrow> u64 \<Rightarrow> sdb_wal_page list \<Rightarrow> sdb_wal_commit_rec" where
  "txn_commit_rec sb txn_id pages =
    \<lparr>wc_txn_id = txn_id, wc_frame_count = of_nat (length pages),
     wc_next_page_id = next_page_id sb, wc_freelist_page = freelist_page sb\<rparr>"

definition txn_image :: "sdb_superblock_v1 \<Rightarrow> u64 \<Rightarrow> sdb_wal_page list \<Rightarrow> bytes" where
  "txn_image sb txn_id pages =
    (let frames = frames_image (file_id sb) txn_id (length pages) 0 pages
     in frames @ commit_image 5 (txn_commit_rec sb txn_id pages) (sdb_crc32 frames))"

definition txn_size :: "sdb_superblock_v1 \<Rightarrow> sdb_wal_page list \<Rightarrow> nat" where
  "txn_size sb pages = (40 + unat (page_size sb)) * length pages + 44"

lemma length_txn_image:
  "length (file_id sb) = 16 \<Longrightarrow> pages_sized (unat (page_size sb)) pages \<Longrightarrow>
    length (txn_image sb txn_id pages) = txn_size sb pages"
  by (simp add: txn_image_def txn_size_def Let_def length_frames_image)

section \<open>What is accepted\<close>

definition txn_page_ok :: "u64 \<Rightarrow> u64 \<Rightarrow> sdb_wal_page \<Rightarrow> bool" where
  "txn_page_ok limit txn_id p \<longleftrightarrow> wp_page_id p \<noteq> 0 \<and> wp_page_id p < limit \<and>
    (\<exists>view. sdb_page_decode (wp_bytes p) (wp_page_id p) = Inr view \<and> pv_page_lsn view = txn_id)"

definition txn_pages_ok :: "u64 \<Rightarrow> u64 \<Rightarrow> sdb_wal_page list \<Rightarrow> bool" where
  "txn_pages_ok limit txn_id pages \<longleftrightarrow>
    list_all (txn_page_ok limit txn_id) pages \<and> distinct (map wp_page_id pages)"

lemma wal_pages_valid_iff:
  assumes "id_set_inv room ids slots" "length pages \<le> room"
  shows "wal_pages_valid limit txn_id slots pages =
    Some (list_all (txn_page_ok limit txn_id) pages \<and> distinct (map wp_page_id pages)
      \<and> ids \<inter> wp_page_id ` set pages = {})"
  using assms
proof (induction pages arbitrary: room ids slots)
  case (Cons p ps)
  then obtain room' where room: "room = Suc room'"
    by (cases room) auto
  let ?k = "wp_page_id p"
  show ?case
  proof (cases "?k = 0 \<or> ?k \<ge> limit")
    case True
    then show ?thesis
      by (auto simp: txn_page_ok_def)
  next
    case False
    obtain slots' where ins: "sdb_wal_id_set_insert slots ?k = Some (?k \<notin> ids, slots')"
      "id_set_inv room' (insert ?k ids) slots'"
      using id_set_insert_spec [of room' ids slots ?k] Cons.prems(1) False unfolding room by auto
    have "wal_pages_valid limit txn_id slots' ps =
      Some (list_all (txn_page_ok limit txn_id) ps \<and> distinct (map wp_page_id ps)
        \<and> insert ?k ids \<inter> wp_page_id ` set ps = {})"
      using Cons.IH [OF ins(2)] Cons.prems(2) room by simp
    with False ins(1) show ?thesis
      by (auto simp: txn_page_ok_def [of limit txn_id p] split: sum.split)
  qed
qed simp

definition wal_fits :: "sdb_superblock_v1 \<Rightarrow> nat \<Rightarrow> sdb_wal_page list \<Rightarrow> bool" where
  "wal_fits sb append_offset pages \<longleftrightarrow>
    length pages \<le> SDB_WAL_MAX_RECORDS \<and> append_offset + txn_size sb pages \<le> SDB_WAL_MAX_BYTES"

definition staged_txn :: "sdb_superblock_v1 \<Rightarrow> nat \<Rightarrow> u64 \<Rightarrow> sdb_wal_page list \<Rightarrow> wal_staged" where
  "staged_txn sb append_offset txn_id pages =
    \<lparr>ws_buffer = (if append_offset = 64 then wal_header_image sb 5 txn_id (length pages) else [])
       @ txn_image sb txn_id pages,
     ws_write_offset = (if append_offset = 64 then 0 else append_offset),
     ws_new_offset = append_offset + txn_size sb pages\<rparr>"

lemma staged_buffer:
  assumes fid: "length (file_id sb) = 16" and sized: "pages_sized (unat (page_size sb)) pages"
    and hp: "hp = (if off = 64 then 64 else 0 :: nat)"
    and fs: "fs = (40 + unat (page_size sb)) * length pages"
  shows "wal_stage_buffer sb txn_id pages (40 + unat (page_size sb)) fs hp (hp + fs + 44) =
    ws_buffer (staged_txn sb off txn_id pages)"
proof -
  let ?f = "frames_image (file_id sb) txn_id (length pages) 0 pages"
  let ?h = "if off = 64 then wal_header_image sb 5 txn_id (length pages) else []"
  have lf: "length ?f = fs"
    using length_frames_image [OF fid sized] fs by simp
  have lh: "length ?h = hp"
    using fid hp by simp
  have "zeros (hp + fs + 44) = zeros hp @ zeros fs @ zeros 44"
    by (simp add: zeros_append add.assoc)
  then have frames: "wal_write_frames (file_id sb) (40 + unat (page_size sb)) txn_id (length pages) 0 hp pages
      (zeros (hp + fs + 44)) = zeros hp @ ?f @ zeros 44"
    using write_frames_image [OF fid sized, of "zeros hp" hp txn_id "length pages" 0 "zeros 44"] fs by simp
  have header: "(if hp \<noteq> 0 then wal_write_header sb 5 txn_id (length pages) (zeros hp @ ?f @ zeros 44)
      else zeros hp @ ?f @ zeros 44) = ?h @ ?f @ zeros 44"
    using hp write_header_image [OF fid, of 5 txn_id "length pages" "?f @ zeros 44"] by simp
  have crc: "slice hp fs (?h @ ?f @ zeros 44) = ?f"
    using lf lh by (simp add: layout_simps)
  have "blit (hp + fs) c (?h @ ?f @ zeros 44) = ?h @ ?f @ c" if "length c = 44" for c
    using lf lh that by (simp add: blit_append_right blit_all)
  then show ?thesis
    unfolding wal_stage_buffer_def Let_def wal_versions frames header crc
    by (simp add: encode_commit_rec_image staged_txn_def txn_image_def txn_commit_rec_def Let_def)
qed

text \<open>The three ways the arguments can be refused, and the staged transaction otherwise.\<close>

definition txn_accepted :: "sdb_superblock_v1 \<Rightarrow> u64 \<Rightarrow> sdb_wal_page list \<Rightarrow> bool" where
  "txn_accepted sb txn_id pages \<longleftrightarrow>
    txn_id \<noteq> 0 \<and> pages \<noteq> [] \<and> length pages \<le> SDB_WAL_MAX_RECORDS \<and> txn_pages_ok (next_page_id sb) txn_id pages"

definition encode_outcome ::
  "(nat \<Rightarrow> bool) \<Rightarrow> sdb_superblock_v1 \<Rightarrow> nat \<Rightarrow> u64 \<Rightarrow> sdb_wal_page list \<Rightarrow> wal_staged result \<Rightarrow> bool" where
  "encode_outcome malloc_ok sb off txn_id pages r \<longleftrightarrow>
    (case r of
       Inr staged \<Rightarrow> staged = staged_txn sb off txn_id pages \<and> txn_accepted sb txn_id pages \<and> wal_fits sb off pages
     | Inl e \<Rightarrow> e = SDB_E_INVALID_ARGUMENT \<and> \<not> txn_accepted sb txn_id pages
         \<or> e = SDB_E_OVERFLOW \<and> \<not> wal_fits sb off pages
         \<or> e = SDB_E_OUT_OF_MEMORY \<and> (\<exists>n. \<not> malloc_ok n))"

lemma frames_size_bound:
  assumes "length pages \<le> 1048576"
  shows "(40 + unat (page_size sb)) * length pages \<le> (40 + 2 ^ 32) * 1048576"
proof -
  have "unat (page_size sb) < 2 ^ 32"
    using unsigned_less [of "page_size sb"] by simp
  then show ?thesis
    using assms by (intro mult_le_mono) simp_all
qed

lemma encode_txn_spec:
  assumes fid: "length (file_id sb) = 16" and sized: "pages_sized (unat (page_size sb)) pages"
  shows "\<exists>r. sdb_wal_encode_txn malloc_ok sb off txn_id pages = Some r \<and>
    encode_outcome malloc_ok sb off txn_id pages r"
proof (cases "txn_id = 0 \<or> pages = [] \<or> length pages > SDB_WAL_MAX_RECORDS \<or> length pages > 2 ^ 32 - 1")
  case True
  then have "sdb_wal_encode_txn malloc_ok sb off txn_id pages = Some (Inl SDB_E_INVALID_ARGUMENT)"
    by (simp add: sdb_wal_encode_txn_def Let_def)
  with True show ?thesis
    by (auto simp: encode_outcome_def txn_accepted_def SDB_WAL_MAX_RECORDS_def)
next
  case args: False
  let ?fs = "(40 + unat (page_size sb)) * length pages"
  let ?hp = "if off = 64 then 64 else 0 :: nat"
  have n: "0 < length pages" "length pages \<le> 1048576"
    using args by (auto simp: SDB_WAL_MAX_RECORDS_def)
  note fs = frames_size_bound [OF n(2), of sb]
  have mul: "sdb_checked_mul_size (sdb_wal_frame_size_v5 (unat (page_size sb))) (length pages) = Some ?fs"
    using fs by (auto simp: checked_mul_size_iff sdb_wal_frame_size_v5_def wal_consts SIZE_MAX_def)
  have add: "Option.bind (sdb_checked_add_size ?hp ?fs) (\<lambda>t. sdb_checked_add_size t 44) = Some (?hp + ?fs + 44)"
    using fs by (auto simp: sdb_checked_add_size_def SIZE_MAX_def)
  show ?thesis
  proof (cases "wal_fits sb off pages")
    case False
    then have "sdb_wal_encode_txn malloc_ok sb off txn_id pages = Some (Inl SDB_E_OVERFLOW)"
      using args mul by (auto simp: sdb_wal_encode_txn_def Let_def wal_fits_def txn_size_def wal_consts
          SDB_WAL_MAX_RECORDS_def)
    with False show ?thesis
      by (simp add: encode_outcome_def)
  next
    case fits: True
    obtain c where c: "sdb_wal_id_set_create malloc_ok (length pages) = c"
      by simp
    have step: "sdb_wal_encode_txn malloc_ok sb off txn_id pages =
      (case c of None \<Rightarrow> None | Some (Inl e) \<Rightarrow> Some (Inl e)
       | Some (Inr ids) \<Rightarrow>
           (case wal_pages_valid (next_page_id sb) txn_id ids pages of
              None \<Rightarrow> None
            | Some False \<Rightarrow> Some (Inl SDB_E_INVALID_ARGUMENT)
            | Some True \<Rightarrow>
                if \<not> malloc_ok (?hp + ?fs + 44) then Some (Inl SDB_E_OUT_OF_MEMORY)
                else Some (Inr (staged_txn sb off txn_id pages))))"
    proof -
      have "\<not> (off > SDB_WAL_MAX_BYTES \<or> ?fs > SDB_WAL_MAX_BYTES - off \<or> 44 > SDB_WAL_MAX_BYTES - off - ?fs)"
        using fits unfolding wal_fits_def txn_size_def by linarith
      moreover have "\<lparr>ws_buffer = wal_stage_buffer sb txn_id pages (40 + unat (page_size sb)) ?fs ?hp (?hp + ?fs + 44),
          ws_write_offset = (if ?hp \<noteq> 0 then 0 else off), ws_new_offset = off + ?fs + 44\<rparr> = staged_txn sb off txn_id pages"
        unfolding staged_buffer [OF fid sized refl refl] by (simp add: staged_txn_def txn_size_def)
      ultimately show ?thesis
        using args mul add c unfolding sdb_wal_encode_txn_def Let_def wal_consts sdb_wal_frame_size_v5_def
        by (simp only: option.case if_False length_0_conv simp_thms)
    qed
    from id_set_create_inv [OF c] show ?thesis
    proof
      assume "\<exists>e. c = Some (Inl e) \<and> e \<in> {SDB_E_INVALID_ARGUMENT, SDB_E_OVERFLOW, SDB_E_OUT_OF_MEMORY} \<and>
        (0 < length pages \<and> length pages \<le> 2 ^ 58 \<longrightarrow> e = SDB_E_OUT_OF_MEMORY \<and> (\<exists>n. \<not> malloc_ok n))"
      with n step show ?thesis
        by (auto simp: encode_outcome_def)
    next
      assume "\<exists>slots. c = Some (Inr slots) \<and> id_set_inv (length pages) {} slots"
      then obtain slots where s: "c = Some (Inr slots)" "id_set_inv (length pages) {} slots"
        by blast
      have "wal_pages_valid (next_page_id sb) txn_id slots pages = Some (txn_pages_ok (next_page_id sb) txn_id pages)"
        using wal_pages_valid_iff [OF s(2) order_refl, of "next_page_id sb" txn_id] by (simp add: txn_pages_ok_def)
      with step s(1) fits args show ?thesis
        by (auto simp: encode_outcome_def txn_accepted_def split: bool.split)
    qed
  qed
qed

section \<open>Appending\<close>

definition wal_at :: "sdb_file \<Rightarrow> nat \<Rightarrow> bool" where
  "wal_at wal off \<longleftrightarrow> 64 \<le> off \<and> length (fcontent wal) = (if off = 64 then 0 else off)"

lemma length_staged_txn:
  assumes "length (file_id sb) = 16" "pages_sized (unat (page_size sb)) pages"
  shows "length (ws_buffer (staged_txn sb off txn_id pages)) = (if off = 64 then 64 else 0) + txn_size sb pages"
  using assms by (simp add: staged_txn_def length_txn_image)

lemma file_write_at_end:
  "length c = off \<Longrightarrow> file_write off bs c = c @ bs"
  by (simp add: file_write_def file_grow_def blit_def zeros_def)

definition append_outcome ::
  "(nat \<Rightarrow> bool) \<Rightarrow> nat \<Rightarrow> sdb_superblock_v1 \<Rightarrow> u64 \<Rightarrow> sdb_wal_page list \<Rightarrow> sdb_file \<Rightarrow> nat result \<Rightarrow> sdb_file \<Rightarrow> bool" where
  "append_outcome malloc_ok off sb txn_id pages wal r wal' \<longleftrightarrow>
    (let written = ws_buffer (staged_txn sb off txn_id pages) in
     case r of
       Inr new_offset \<Rightarrow>
         txn_accepted sb txn_id pages \<and> new_offset = off + txn_size sb pages \<and> new_offset \<le> SDB_WAL_MAX_BYTES
         \<and> fcontent wal' = fcontent wal @ written \<and> fdurable wal' = fcontent wal'
     | Inl e \<Rightarrow>
         (e = SDB_E_IO \<and> may_fail wal \<and> txn_accepted sb txn_id pages
           \<and> (\<exists>k \<le> length written. fcontent wal' = fcontent wal @ take k written) \<and> fdurable wal' = fdurable wal)
         \<or> (wal' = wal \<and> (e = SDB_E_INVALID_ARGUMENT \<and> \<not> txn_accepted sb txn_id pages
             \<or> e = SDB_E_OVERFLOW \<and> \<not> wal_fits sb off pages
             \<or> e = SDB_E_OUT_OF_MEMORY \<and> (\<exists>n. \<not> malloc_ok n))))"

lemma append_txn_spec:
  assumes fid: "length (file_id sb) = 16" and sized: "pages_sized (unat (page_size sb)) pages"
    and at: "wal_at wal off"
  shows "\<exists>r wal'. sdb_wal_append_txn malloc_ok off sb txn_id pages wal = Some (r, wal') \<and>
    append_outcome malloc_ok off sb txn_id pages wal r wal'"
proof -
  obtain r0 where enc: "sdb_wal_encode_txn malloc_ok sb off txn_id pages = Some r0"
    and out: "encode_outcome malloc_ok sb off txn_id pages r0"
    using encode_txn_spec [OF fid sized] by blast
  show ?thesis
  proof (cases r0)
    case (Inl e)
    with enc out show ?thesis
      by (auto simp: sdb_wal_append_txn_def encode_outcome_def append_outcome_def Let_def)
  next
    case (Inr staged)
    let ?s = "staged_txn sb off txn_id pages"
    let ?b = "ws_buffer ?s"
    have st: "staged = ?s" and acc: "txn_accepted sb txn_id pages" and fits: "wal_fits sb off pages"
      using out Inr by (simp_all add: encode_outcome_def)
    have end_at: "ws_write_offset ?s = length (fcontent wal)"
      using at by (simp add: staged_txn_def wal_at_def)
    have room: "ws_write_offset ?s + length ?b \<le> INT64_MAX"
      using fits length_staged_txn [OF fid sized, of off txn_id]
      by (simp add: staged_txn_def wal_fits_def SDB_WAL_MAX_BYTES_def INT64_MAX_def)
    obtain r1 f1 where w: "sdb_file_write_full (ws_write_offset ?s) ?b wal = (r1, f1)"
      by fastforce
    obtain k where k: "wrote_prefix (ws_write_offset ?s) ?b wal k f1"
      "r1 = Inr () \<and> k = length ?b \<or> r1 = Inl SDB_E_IO \<and> may_fail wal"
      using sdb_file_write_full_spec [OF w room] .
    have c1: "fcontent f1 = fcontent wal @ take k ?b" "k \<le> length ?b" "fdurable f1 = fdurable wal"
      and mf: "may_fail f1 \<Longrightarrow> may_fail wal"
      using k(1) end_at by (auto simp: wrote_prefix_def file_write_at_end may_fail_def)
    show ?thesis
    proof (cases r1)
      case (Inl e)
      with k(2) c1 w enc \<open>r0 = Inr staged\<close> st acc show ?thesis
        by (auto simp: sdb_wal_append_txn_def append_outcome_def Let_def fbind_def)
    next
      case r1: (Inr u)
      then have full: "fcontent f1 = fcontent wal @ ?b"
        using k(2) c1 by simp
      obtain r2 f2 where sync: "sdb_file_sync f1 = (r2, f2)"
        by fastforce
      note s = sdb_file_sync_spec [OF sync]
      show ?thesis
      proof (cases r2)
        case (Inl e)
        with s mf have "e = SDB_E_IO" "may_fail wal" "fcontent f2 = fcontent wal @ take (length ?b) ?b"
          "fdurable f2 = fdurable wal"
          using full c1(3) by (auto simp: same_file_def)
        with w r1 sync Inl enc \<open>r0 = Inr staged\<close> st acc show ?thesis
          by (auto simp: sdb_wal_append_txn_def append_outcome_def Let_def fbind_def)
      next
        case (Inr u')
        with s have "fdurable f2 = fcontent f2" "fcontent f2 = fcontent wal @ ?b"
          using full by auto
        with w r1 sync Inr enc \<open>r0 = Inr staged\<close> st acc fits show ?thesis
          by (auto simp: sdb_wal_append_txn_def append_outcome_def Let_def fbind_def freturn_def
              staged_txn_def wal_fits_def)
      qed
    qed
  qed
qed

section \<open>Properties\<close>

text \<open>
  C34: an append ends in exactly one of these ways. It succeeds: the transaction was
  well formed, the log stays below \<open>SDB_WAL_MAX_BYTES\<close>, and the log with the whole
  transaction added is on stable storage. A system call failed: no new offset is
  returned and a prefix of the transaction was added. Or it was refused: a page was
  out of range, listed twice, damaged or of another transaction, the log would grow
  too large, or memory ran out; then the log is untouched.
\<close>
theorem wal_append_outcome:
  assumes "length (file_id sb) = 16" "pages_sized (unat (page_size sb)) pages" "wal_at wal off"
  shows "\<exists>r wal'. sdb_wal_append_txn malloc_ok off sb txn_id pages wal = Some (r, wal') \<and>
    append_outcome malloc_ok off sb txn_id pages wal r wal'"
  using assms by (rule append_txn_spec)

definition example_wal_page :: sdb_wal_page where
  "example_wal_page = \<lparr>wp_page_id = 1, wp_bytes = page_image 4096 1 1 4 [1, 2, 3]\<rparr>"

definition empty_wal :: sdb_file where
  "empty_wal = \<lparr>fcontent = [], fdurable = [], fpending = [], fscript = []\<rparr>"

theorem wal_append_outcome_witness:
  "\<exists>r wal'. sdb_wal_append_txn (\<lambda>_. True) 64 example_superblock 4 [example_wal_page] empty_wal = Some (r, wal') \<and>
    append_outcome (\<lambda>_. True) 64 example_superblock 4 [example_wal_page] empty_wal r wal'"
proof (rule wal_append_outcome)
  show "length (file_id example_superblock) = 16"
    by (simp add: example_superblock_def)
  show "pages_sized (unat (page_size example_superblock)) [example_wal_page]"
    by (simp add: example_superblock_def example_wal_page_def page_image_def)
  show "wal_at empty_wal 64"
    by (simp add: wal_at_def empty_wal_def)
qed

end
