(* ===== verification/Poly1305.thy ===== *)
theory Poly1305
  imports Codec
begin

text \<open>
  The one-time authenticator of \<open>src/xchacha20poly1305.c\<close>. The code computes with
  five 26-bit limbs held in 32-bit words and 64-bit products; the theory keeps
  that arithmetic at its width and proves that no product, sum or carry loses a
  bit, so that the tag is the evaluation of the message polynomial modulo
  \<open>2\<^sup>1\<^sup>3\<^sup>0 - 5\<close> plus the pad modulo \<open>2\<^sup>1\<^sup>2\<^sup>8\<close>.
\<close>

section \<open>Model\<close>

record sdb_poly1305 =
  poly_r :: "u32 list"
  poly_h :: "u32 list"
  poly_pad :: "u32 list"
  poly_buffer :: bytes
  poly_buffered :: nat

definition poly_block :: "u32 list \<Rightarrow> bytes \<Rightarrow> u32 \<Rightarrow> u32 list \<Rightarrow> u32 list" where
  "poly_block r message high_bit h =
    (let r0 = r ! 0; r1 = r ! 1; r2 = r ! 2; r3 = r ! 3; r4 = r ! 4;
         s1 = r1 * 5; s2 = r2 * 5; s3 = r3 * 5; s4 = r4 * 5;
         h0 = h ! 0 + (sdb_read_u32_le message 0 AND 0x3ffffff);
         h1 = h ! 1 + (drop_bit 2 (sdb_read_u32_le message 3) AND 0x3ffffff);
         h2 = h ! 2 + (drop_bit 4 (sdb_read_u32_le message 6) AND 0x3ffffff);
         h3 = h ! 3 + (drop_bit 6 (sdb_read_u32_le message 9) AND 0x3ffffff);
         h4 = h ! 4 + (drop_bit 8 (sdb_read_u32_le message 12) OR high_bit);
         d0 = (ucast h0 :: u64) * ucast r0 + ucast h1 * ucast s4 + ucast h2 * ucast s3
              + ucast h3 * ucast s2 + ucast h4 * ucast s1;
         d1 = (ucast h0 :: u64) * ucast r1 + ucast h1 * ucast r0 + ucast h2 * ucast s4
              + ucast h3 * ucast s3 + ucast h4 * ucast s2;
         d2 = (ucast h0 :: u64) * ucast r2 + ucast h1 * ucast r1 + ucast h2 * ucast r0
              + ucast h3 * ucast s4 + ucast h4 * ucast s3;
         d3 = (ucast h0 :: u64) * ucast r3 + ucast h1 * ucast r2 + ucast h2 * ucast r1
              + ucast h3 * ucast r0 + ucast h4 * ucast s4;
         d4 = (ucast h0 :: u64) * ucast r4 + ucast h1 * ucast r3 + ucast h2 * ucast r2
              + ucast h3 * ucast r1 + ucast h4 * ucast r0;
         carry = (ucast (drop_bit 26 d0) :: u32);
         h0 = ucast d0 AND 0x3ffffff;
         d1 = d1 + ucast carry;
         carry = (ucast (drop_bit 26 d1) :: u32);
         h1 = ucast d1 AND 0x3ffffff;
         d2 = d2 + ucast carry;
         carry = (ucast (drop_bit 26 d2) :: u32);
         h2 = ucast d2 AND 0x3ffffff;
         d3 = d3 + ucast carry;
         carry = (ucast (drop_bit 26 d3) :: u32);
         h3 = ucast d3 AND 0x3ffffff;
         d4 = d4 + ucast carry;
         carry = (ucast (drop_bit 26 d4) :: u32);
         h4 = ucast d4 AND 0x3ffffff;
         h0 = h0 + carry * 5;
         carry = drop_bit 26 h0;
         h0 = h0 AND 0x3ffffff;
         h1 = h1 + carry
     in [h0, h1, h2, h3, h4])"

function poly_blocks_loop :: "u32 list \<Rightarrow> bytes \<Rightarrow> u32 \<Rightarrow> u32 list \<Rightarrow> u32 list" where
  "poly_blocks_loop r message high_bit h =
    (if length message \<ge> 16
     then poly_blocks_loop r (drop 16 message) high_bit (poly_block r message high_bit h)
     else h)"
  by pat_completeness auto
termination
  by (relation "measure (\<lambda>(r, message, high_bit, h). length message)") auto

declare poly_blocks_loop.simps [simp del]

definition sdb_poly1305_blocks :: "sdb_poly1305 \<Rightarrow> bytes \<Rightarrow> u32 \<Rightarrow> sdb_poly1305" where
  "sdb_poly1305_blocks context message high_bit =
    context\<lparr>poly_h := poly_blocks_loop (poly_r context) message high_bit (poly_h context)\<rparr>"

definition sdb_poly1305_init :: "bytes \<Rightarrow> sdb_poly1305" where
  "sdb_poly1305_init key =
    \<lparr>poly_r = [sdb_read_u32_le key 0 AND 0x3ffffff,
               drop_bit 2 (sdb_read_u32_le key 3) AND 0x3ffff03,
               drop_bit 4 (sdb_read_u32_le key 6) AND 0x3ffc0ff,
               drop_bit 6 (sdb_read_u32_le key 9) AND 0x3f03fff,
               drop_bit 8 (sdb_read_u32_le key 12) AND 0x00fffff],
     poly_h = [0, 0, 0, 0, 0],
     poly_pad = [sdb_read_u32_le key 16, sdb_read_u32_le key 20,
                 sdb_read_u32_le key 24, sdb_read_u32_le key 28],
     poly_buffer = zeros 16, poly_buffered = 0\<rparr>"

definition poly_fill :: "sdb_poly1305 \<Rightarrow> bytes \<Rightarrow> sdb_poly1305 \<times> bytes" where
  "poly_fill context message =
    (if poly_buffered context \<noteq> 0
     then let available = 16 - poly_buffered context;
              taken = (if length message < available then length message else available);
              context = context\<lparr>poly_buffer := blit (poly_buffered context) (take taken message) (poly_buffer context),
                                poly_buffered := poly_buffered context + taken\<rparr>
          in (if poly_buffered context = 16
              then (sdb_poly1305_blocks context (poly_buffer context) (push_bit 24 1))\<lparr>poly_buffered := 0\<rparr>
              else context,
              drop taken message)
     else (context, message))"

definition sdb_poly1305_update :: "sdb_poly1305 \<Rightarrow> bytes \<Rightarrow> sdb_poly1305" where
  "sdb_poly1305_update context message =
    (let (context, message) = poly_fill context message;
         full_size = (length message div 16) * 16;
         (context, message) =
           (if length message \<ge> 16
            then (sdb_poly1305_blocks context (take full_size message) (push_bit 24 1), drop full_size message)
            else (context, message))
     in if length message \<noteq> 0
        then context\<lparr>poly_buffer := blit 0 message (poly_buffer context), poly_buffered := length message\<rparr>
        else context)"

definition poly_last_block :: "sdb_poly1305 \<Rightarrow> sdb_poly1305" where
  "poly_last_block context =
    (if poly_buffered context \<noteq> 0
     then let buf = (poly_buffer context)[poly_buffered context := 1];
              n = poly_buffered context + 1;
              buf = blit n (zeros (16 - n)) buf
          in sdb_poly1305_blocks (context\<lparr>poly_buffer := buf, poly_buffered := n\<rparr>) buf 0
     else context)"

definition poly_freeze :: "u32 list \<Rightarrow> u32 list" where
  "poly_freeze h =
    (let h0 = h ! 0; h1 = h ! 1; h2 = h ! 2; h3 = h ! 3; h4 = h ! 4;
         carry = drop_bit 26 h1; h1 = h1 AND 0x3ffffff; h2 = h2 + carry;
         carry = drop_bit 26 h2; h2 = h2 AND 0x3ffffff; h3 = h3 + carry;
         carry = drop_bit 26 h3; h3 = h3 AND 0x3ffffff; h4 = h4 + carry;
         carry = drop_bit 26 h4; h4 = h4 AND 0x3ffffff; h0 = h0 + carry * 5;
         carry = drop_bit 26 h0; h0 = h0 AND 0x3ffffff; h1 = h1 + carry;
         g0 = h0 + 5; carry = drop_bit 26 g0; g0 = g0 AND 0x3ffffff;
         g1 = h1 + carry; carry = drop_bit 26 g1; g1 = g1 AND 0x3ffffff;
         g2 = h2 + carry; carry = drop_bit 26 g2; g2 = g2 AND 0x3ffffff;
         g3 = h3 + carry; carry = drop_bit 26 g3; g3 = g3 AND 0x3ffffff;
         g4 = h4 + carry - push_bit 26 1;
         msk = drop_bit 31 g4 - 1;
         g0 = g0 AND msk; g1 = g1 AND msk; g2 = g2 AND msk; g3 = g3 AND msk; g4 = g4 AND msk;
         msk = NOT msk
     in [(h0 AND msk) OR g0, (h1 AND msk) OR g1, (h2 AND msk) OR g2, (h3 AND msk) OR g3, (h4 AND msk) OR g4])"

definition poly_emit :: "u32 list \<Rightarrow> u32 list \<Rightarrow> bytes" where
  "poly_emit h pad =
    (let f0 = (ucast (h ! 0 OR push_bit 26 (h ! 1)) :: u64) + ucast (pad ! 0);
         f1 = (ucast (drop_bit 6 (h ! 1) OR push_bit 20 (h ! 2)) :: u64) + ucast (pad ! 1) + drop_bit 32 f0;
         f2 = (ucast (drop_bit 12 (h ! 2) OR push_bit 14 (h ! 3)) :: u64) + ucast (pad ! 2) + drop_bit 32 f1;
         f3 = (ucast (drop_bit 18 (h ! 3) OR push_bit 8 (h ! 4)) :: u64) + ucast (pad ! 3) + drop_bit 32 f2;
         tag = sdb_write_u32_le (zeros 16) 0 (ucast f0);
         tag = sdb_write_u32_le tag 4 (ucast f1);
         tag = sdb_write_u32_le tag 8 (ucast f2)
     in sdb_write_u32_le tag 12 (ucast f3))"

definition sdb_poly1305_final :: "sdb_poly1305 \<Rightarrow> bytes" where
  "sdb_poly1305_final context =
    (let context = poly_last_block context
     in poly_emit (poly_freeze (poly_h context)) (poly_pad context))"

definition sdb_poly1305_pad16 :: "sdb_poly1305 \<Rightarrow> nat \<Rightarrow> sdb_poly1305" where
  "sdb_poly1305_pad16 context n =
    (let remainder = n mod 16
     in if remainder \<noteq> 0 then sdb_poly1305_update context (zeros (16 - remainder)) else context)"

definition sdb_aead_tag :: "bytes \<Rightarrow> bytes \<Rightarrow> bytes \<Rightarrow> bytes" where
  "sdb_aead_tag poly_key aad ciphertext =
    (let context = sdb_poly1305_init poly_key;
         context = (if length aad \<noteq> 0 then sdb_poly1305_update context aad else context);
         context = sdb_poly1305_pad16 context (length aad);
         context = (if length ciphertext \<noteq> 0 then sdb_poly1305_update context ciphertext else context);
         context = sdb_poly1305_pad16 context (length ciphertext);
         lengths = sdb_write_u64_le (zeros 16) 0 (of_nat (length aad));
         lengths = sdb_write_u64_le lengths 8 (of_nat (length ciphertext));
         context = sdb_poly1305_update context lengths
     in sdb_poly1305_final context)"

section \<open>Words as numbers\<close>

text \<open>
  The lemmas below read every word operation of the code as the operation on
  numbers it performs when nothing overflows.
\<close>

lemma and_limb: "(w :: 'a::len word) AND 0x3ffffff = take_bit 26 w"
proof -
  have "(0x3ffffff :: 'a word) = mask 26"
    by (simp add: mask_eq_exp_minus_1)
  then show ?thesis
    by (simp add: take_bit_eq_mask)
qed

lemma limb_of_nat: "take_bit 26 (of_nat x :: 'a::len word) = of_nat (x mod 2 ^ 26)"
  by (simp only: take_bit_of_nat take_bit_eq_mod [of 26 x])

lemma drop_bit_of_nat_word:
  assumes "x < 2 ^ LENGTH('a)"
  shows "drop_bit n (of_nat x :: 'a::len word) = of_nat (x div 2 ^ n)"
proof -
  have "x div 2 ^ n < 2 ^ LENGTH('a)"
    using assms by (meson div_le_dividend le_less_trans)
  then have "unat (drop_bit n (of_nat x :: 'a word)) = unat (of_nat (x div 2 ^ n) :: 'a word)"
    using assms by (simp add: unsigned_drop_bit_eq unat_of_nat take_bit_nat_eq_self drop_bit_eq_div [where 'a = nat])
  then show ?thesis
    by (simp only: unsigned_word_eqI)
qed

lemma ucast_up_of_nat: "x < 2 ^ 32 \<Longrightarrow> (ucast (of_nat x :: u32) :: u64) = of_nat x"
  by (simp add: unsigned_of_nat take_bit_nat_eq_self)

lemma ucast_down_of_nat: "x < 2 ^ 64 \<Longrightarrow> (ucast (of_nat x :: u64) :: u32) = of_nat x"
  by (simp add: unsigned_of_nat take_bit_nat_eq_self)

section \<open>One block\<close>

lemma div_mod_eq: "(x :: nat) = 67108864 * (x div 67108864) + x mod 67108864"
  by simp

text \<open>Carrying through the limbs keeps the value, up to multiples of \<open>2\<^sup>1\<^sup>3\<^sup>0 - 5\<close>.\<close>

lemma carry_chain:
  fixes D0 D1 D2 D3 D4 :: nat
  assumes "D0 = 67108864 * q0 + m0" "D1 + q0 = 67108864 * q1 + m1" "D2 + q1 = 67108864 * q2 + m2"
    and "D3 + q2 = 67108864 * q3 + m3" "D4 + q3 = 67108864 * q4 + m4" "m0 + q4 * 5 = 67108864 * q5 + m5"
  shows "m5 + (m1 + q5) * 67108864 + m2 * 67108864 ^ 2 + m3 * 67108864 ^ 3 + m4 * 67108864 ^ 4
      + q4 * (67108864 ^ 5 - 5)
    = D0 + D1 * 67108864 + D2 * 67108864 ^ 2 + D3 * 67108864 ^ 3 + D4 * 67108864 ^ 4"
  using assms by simp

text \<open>The products of limbs, folded at \<open>2\<^sup>1\<^sup>3\<^sup>0 = 5\<close>.\<close>

lemma limb_product:
  fixes X :: int
  shows "(h0 + h1 * X + h2 * X ^ 2 + h3 * X ^ 3 + h4 * X ^ 4) * (r0 + r1 * X + r2 * X ^ 2 + r3 * X ^ 3 + r4 * X ^ 4) =
    (h0 * r0 + h1 * (r4 * 5) + h2 * (r3 * 5) + h3 * (r2 * 5) + h4 * (r1 * 5))
    + (h0 * r1 + h1 * r0 + h2 * (r4 * 5) + h3 * (r3 * 5) + h4 * (r2 * 5)) * X
    + (h0 * r2 + h1 * r1 + h2 * r0 + h3 * (r4 * 5) + h4 * (r3 * 5)) * X ^ 2
    + (h0 * r3 + h1 * r2 + h2 * r1 + h3 * r0 + h4 * (r4 * 5)) * X ^ 3
    + (h0 * r4 + h1 * r3 + h2 * r2 + h3 * r1 + h4 * r0) * X ^ 4
    + (X ^ 5 - 5) * (h1 * r4 + h2 * r3 + h3 * r2 + h4 * r1 + (h2 * r4 + h3 * r3 + h4 * r2) * X
        + (h3 * r4 + h4 * r3) * X ^ 2 + h4 * r4 * X ^ 3)"
  by algebra

definition limbs :: "nat list \<Rightarrow> u32 list" where
  "limbs xs = map of_nat xs"

definition limb_value :: "nat list \<Rightarrow> nat" where
  "limb_value xs = xs ! 0 + xs ! 1 * 2 ^ 26 + xs ! 2 * 2 ^ 52 + xs ! 3 * 2 ^ 78 + xs ! 4 * 2 ^ 104"

definition poly_p :: nat where
  "poly_p = 2 ^ 130 - 5"

text \<open>The limbs of an accumulator between blocks.\<close>

definition acc_ok :: "nat list \<Rightarrow> bool" where
  "acc_ok xs \<longleftrightarrow> length xs = 5 \<and> xs ! 0 < 2 ^ 26 \<and> xs ! 1 < 2 ^ 26 + 64 \<and> xs ! 2 < 2 ^ 26 \<and> xs ! 3 < 2 ^ 26 \<and> xs ! 4 < 2 ^ 26"

lemma dot5_bound:
  fixes a0 :: nat
  assumes "a0 < A" "a1 < A" "a2 < A" "a3 < A" "a4 < A" "b0 < B" "b1 < B" "b2 < B" "b3 < B" "b4 < B"
  shows "a0 * b0 + a1 * b1 + a2 * b2 + a3 * b3 + a4 * b4 \<le> 5 * (A * B)"
proof -
  have "a0 * b0 \<le> A * B" "a1 * b1 \<le> A * B" "a2 * b2 \<le> A * B" "a3 * b3 \<le> A * B" "a4 * b4 \<le> A * B"
    using assms by (simp_all add: mult_le_mono)
  then show ?thesis
    by simp
qed

lemma dot5_u64:
  assumes "a0 < 2 ^ 32" "a1 < 2 ^ 32" "a2 < 2 ^ 32" "a3 < 2 ^ 32" "a4 < 2 ^ 32"
    and "b0 < 2 ^ 32" "b1 < 2 ^ 32" "b2 < 2 ^ 32" "b3 < 2 ^ 32" "b4 < 2 ^ 32"
  shows "(ucast (of_nat a0 :: u32) :: u64) * ucast (of_nat b0 :: u32) + ucast (of_nat a1 :: u32) * ucast (of_nat b1 :: u32)
    + ucast (of_nat a2 :: u32) * ucast (of_nat b2 :: u32) + ucast (of_nat a3 :: u32) * ucast (of_nat b3 :: u32)
    + ucast (of_nat a4 :: u32) * ucast (of_nat b4 :: u32)
    = of_nat (a0 * b0 + a1 * b1 + a2 * b2 + a3 * b3 + a4 * b4)"
  using assms by (simp add: ucast_up_of_nat)

text \<open>Splitting a 64-bit product into its carry and its limb loses nothing.\<close>

lemma split_u64:
  assumes "D < 2 ^ 58"
  shows "(ucast (drop_bit 26 (of_nat D :: u64)) :: u32) = of_nat (D div 2 ^ 26)"
    and "(ucast (of_nat D :: u64) :: u32) AND 0x3ffffff = of_nat (D mod 2 ^ 26)"
    and "D div 2 ^ 26 < 2 ^ 32"
proof -
  have D: "D < 2 ^ LENGTH(64)"
    using assms by simp
  show lt: "D div 2 ^ 26 < 2 ^ 32"
    using assms by (simp add: less_mult_imp_div_less)
  then show "(ucast (drop_bit 26 (of_nat D :: u64)) :: u32) = of_nat (D div 2 ^ 26)"
    by (subst drop_bit_of_nat_word [OF D]) (rule ucast_down_of_nat, simp)
  show "(ucast (of_nat D :: u64) :: u32) AND 0x3ffffff = of_nat (D mod 2 ^ 26)"
    using D by (subst ucast_down_of_nat) (simp_all only: and_limb limb_of_nat len_num0 semiring_norm, simp)
qed

lemma length5: "length xs = 5 \<Longrightarrow> \<exists>x0 x1 x2 x3 x4. xs = [x0, x1, x2, x3, x4]"
  by (auto simp: numeral_eq_Suc length_Suc_conv)

lemma nth5:
  "[x0, x1, x2, x3, x4] ! 0 = x0" "[x0, x1, x2, x3, x4] ! 1 = x1" "[x0, x1, x2, x3, x4] ! 2 = x2"
  "[x0, x1, x2, x3, x4] ! 3 = x3" "[x0, x1, x2, x3, x4] ! 4 = x4"
  by simp_all

lemma int_of_carry: "(v :: nat) + q * p = s \<Longrightarrow> int v + int q * int p = int s"
  by (metis of_nat_add of_nat_mult)

lemma absorb_carry:
  assumes "int v + int q * int p = int s" "int x = int s + int p * int k"
  shows "x = v + p * (q + k)"
proof -
  have "int x = int (v + p * (q + k))"
    using assms by (simp add: algebra_simps)
  then show ?thesis
    by (simp only: of_nat_eq_iff)
qed

lemma pow26: "(2 :: nat) ^ 26 = 67108864"
  by simp

lemma limb_value5:
  "limb_value [x0, x1, x2, x3, x4] = x0 + x1 * 67108864 + x2 * 67108864 ^ 2 + x3 * 67108864 ^ 3 + x4 * 67108864 ^ 4"
  by (simp add: limb_value_def)

text \<open>The arithmetic of one step on numbers, in the order of the code.\<close>

definition step_limbs :: "nat list \<Rightarrow> nat list \<Rightarrow> nat list" where
  "step_limbs r a =
    (let D0 = a!0 * r!0 + a!1 * (r!4 * 5) + a!2 * (r!3 * 5) + a!3 * (r!2 * 5) + a!4 * (r!1 * 5);
         D1 = a!0 * r!1 + a!1 * r!0 + a!2 * (r!4 * 5) + a!3 * (r!3 * 5) + a!4 * (r!2 * 5) + D0 div 2 ^ 26;
         D2 = a!0 * r!2 + a!1 * r!1 + a!2 * r!0 + a!3 * (r!4 * 5) + a!4 * (r!3 * 5) + D1 div 2 ^ 26;
         D3 = a!0 * r!3 + a!1 * r!2 + a!2 * r!1 + a!3 * r!0 + a!4 * (r!4 * 5) + D2 div 2 ^ 26;
         D4 = a!0 * r!4 + a!1 * r!3 + a!2 * r!2 + a!3 * r!1 + a!4 * r!0 + D3 div 2 ^ 26;
         E = D0 mod 2 ^ 26 + D4 div 2 ^ 26 * 5
     in [E mod 2 ^ 26, D1 mod 2 ^ 26 + E div 2 ^ 26, D2 mod 2 ^ 26, D3 mod 2 ^ 26, D4 mod 2 ^ 26])"

lemma step_limbs_value:
  assumes "length a = 5" "length r = 5"
  shows "limb_value (step_limbs r a) mod poly_p = limb_value a * limb_value r mod poly_p"
proof -
  obtain a0 a1 a2 a3 a4 where a: "a = [a0, a1, a2, a3, a4]"
    using length5 [OF assms(1)] by blast
  obtain r0 r1 r2 r3 r4 where r: "r = [r0, r1, r2, r3, r4]"
    using length5 [OF assms(2)] by blast
  define E0 where "E0 = a0 * r0 + a1 * (r4 * 5) + a2 * (r3 * 5) + a3 * (r2 * 5) + a4 * (r1 * 5)"
  define E1 where "E1 = a0 * r1 + a1 * r0 + a2 * (r4 * 5) + a3 * (r3 * 5) + a4 * (r2 * 5)"
  define E2 where "E2 = a0 * r2 + a1 * r1 + a2 * r0 + a3 * (r4 * 5) + a4 * (r3 * 5)"
  define E3 where "E3 = a0 * r3 + a1 * r2 + a2 * r1 + a3 * r0 + a4 * (r4 * 5)"
  define E4 where "E4 = a0 * r4 + a1 * r3 + a2 * r2 + a3 * r1 + a4 * r0"
  define D1 where "D1 = E1 + E0 div 67108864"
  define D2 where "D2 = E2 + D1 div 67108864"
  define D3 where "D3 = E3 + D2 div 67108864"
  define D4 where "D4 = E4 + D3 div 67108864"
  define E where "E = E0 mod 67108864 + D4 div 67108864 * 5"
  have step: "step_limbs r a = [E mod 67108864, D1 mod 67108864 + E div 67108864, D2 mod 67108864, D3 mod 67108864, D4 mod 67108864]"
    unfolding step_limbs_def a r E_def D4_def D3_def D2_def D1_def E0_def E1_def E2_def E3_def E4_def Let_def
    by (simp only: nth5 pow26)
  let ?K = "a1 * r4 + a2 * r3 + a3 * r2 + a4 * r1 + (a2 * r4 + a3 * r3 + a4 * r2) * 67108864
        + (a3 * r4 + a4 * r3) * 67108864 ^ 2 + a4 * r4 * 67108864 ^ 3"
  let ?S = "E0 + E1 * 67108864 + E2 * 67108864 ^ 2 + E3 * 67108864 ^ 3 + E4 * 67108864 ^ 4"
  have p: "int poly_p = 67108864 ^ 5 - 5" "poly_p = 67108864 ^ 5 - 5"
    by (simp_all add: poly_p_def)
  have "limb_value (step_limbs r a) + D4 div 67108864 * (67108864 ^ 5 - 5) = ?S"
    unfolding step limb_value5
  proof (rule carry_chain)
    show "E0 = 67108864 * (E0 div 67108864) + E0 mod 67108864"
      by (rule div_mod_eq)
    show "E1 + E0 div 67108864 = 67108864 * (D1 div 67108864) + D1 mod 67108864"
      unfolding D1_def [symmetric] by (rule div_mod_eq)
    show "E2 + D1 div 67108864 = 67108864 * (D2 div 67108864) + D2 mod 67108864"
      unfolding D2_def [symmetric] by (rule div_mod_eq)
    show "E3 + D2 div 67108864 = 67108864 * (D3 div 67108864) + D3 mod 67108864"
      unfolding D3_def [symmetric] by (rule div_mod_eq)
    show "E4 + D3 div 67108864 = 67108864 * (D4 div 67108864) + D4 mod 67108864"
      unfolding D4_def [symmetric] by (rule div_mod_eq)
    show "E0 mod 67108864 + D4 div 67108864 * 5 = 67108864 * (E div 67108864) + E mod 67108864"
      unfolding E_def [symmetric] by (rule div_mod_eq)
  qed
  then have carried: "int (limb_value (step_limbs r a)) + int (D4 div 67108864) * int poly_p = int ?S"
    unfolding p(2) by (rule int_of_carry)
  have la: "int (limb_value a) = int a0 + int a1 * 67108864 + int a2 * 67108864 ^ 2 + int a3 * 67108864 ^ 3 + int a4 * 67108864 ^ 4"
    and lr: "int (limb_value r) = int r0 + int r1 * 67108864 + int r2 * 67108864 ^ 2 + int r3 * 67108864 ^ 3 + int r4 * 67108864 ^ 4"
    by (simp_all only: a r limb_value5 of_nat_add of_nat_mult of_nat_power of_nat_numeral)
  have "int (limb_value a * limb_value r) = int ?S + int poly_p * int ?K"
    unfolding of_nat_mult la lr limb_product p(1) E0_def E1_def E2_def E3_def E4_def
    by (simp only: of_nat_add of_nat_mult of_nat_power of_nat_numeral)
  with carried have "limb_value a * limb_value r = limb_value (step_limbs r a) + poly_p * (D4 div 67108864 + ?K)"
    by (rule absorb_carry)
  then show ?thesis
    by simp
qed

text \<open>Bounds of the step: no product or carry leaves its word.\<close>

lemma step_limbs_bounds:
  fixes a0 a1 a2 a3 a4 r0 r1 r2 r3 r4 :: nat
  assumes a: "a0 < 2 ^ 27 + 64" "a1 < 2 ^ 27 + 64" "a2 < 2 ^ 27 + 64" "a3 < 2 ^ 27 + 64" "a4 < 2 ^ 27 + 64"
    and r: "r0 < 2 ^ 26" "r1 < 2 ^ 26" "r2 < 2 ^ 26" "r3 < 2 ^ 26" "r4 < 2 ^ 26"
  defines "E0 \<equiv> a0 * r0 + a1 * (r4 * 5) + a2 * (r3 * 5) + a3 * (r2 * 5) + a4 * (r1 * 5)"
    and "E1 \<equiv> a0 * r1 + a1 * r0 + a2 * (r4 * 5) + a3 * (r3 * 5) + a4 * (r2 * 5)"
    and "E2 \<equiv> a0 * r2 + a1 * r1 + a2 * r0 + a3 * (r4 * 5) + a4 * (r3 * 5)"
    and "E3 \<equiv> a0 * r3 + a1 * r2 + a2 * r1 + a3 * r0 + a4 * (r4 * 5)"
    and "E4 \<equiv> a0 * r4 + a1 * r3 + a2 * r2 + a3 * r1 + a4 * r0"
  shows "E0 \<le> 225180088742707200" "E1 \<le> 225180088742707200" "E2 \<le> 225180088742707200" "E3 \<le> 225180088742707200"
    and "E4 \<le> 45036017748541440"
proof -
  have s: "r0 < 5 * 2 ^ 26" "r1 < 5 * 2 ^ 26" "r2 < 5 * 2 ^ 26" "r3 < 5 * 2 ^ 26" "r4 < 5 * 2 ^ 26"
    "r1 * 5 < 5 * 2 ^ 26" "r2 * 5 < 5 * 2 ^ 26" "r3 * 5 < 5 * 2 ^ 26" "r4 * 5 < 5 * 2 ^ 26"
    using r by simp_all
  show "E0 \<le> 225180088742707200"
    unfolding E0_def by (rule order_trans [OF dot5_bound [OF a s(1,9,8,7,6)]]) simp
  show "E1 \<le> 225180088742707200"
    unfolding E1_def by (rule order_trans [OF dot5_bound [OF a s(2,1,9,8,7)]]) simp
  show "E2 \<le> 225180088742707200"
    unfolding E2_def by (rule order_trans [OF dot5_bound [OF a s(3,2,1,9,8)]]) simp
  show "E3 \<le> 225180088742707200"
    unfolding E3_def by (rule order_trans [OF dot5_bound [OF a s(4,3,2,1,9)]]) simp
  show "E4 \<le> 45036017748541440"
    unfolding E4_def by (rule order_trans [OF dot5_bound [OF a r(5,4,3,2,1)]]) simp
qed

lemma poly_block_step:
  assumes a: "a0 < 2 ^ 27 + 64" "a1 < 2 ^ 27 + 64" "a2 < 2 ^ 27 + 64" "a3 < 2 ^ 27 + 64" "a4 < 2 ^ 27 + 64"
    and r: "r0 < 2 ^ 26" "r1 < 2 ^ 26" "r2 < 2 ^ 26" "r3 < 2 ^ 26" "r4 < 2 ^ 26"
    and h: "h ! 0 + (sdb_read_u32_le message 0 AND 0x3ffffff) = of_nat a0"
      "h ! 1 + (drop_bit 2 (sdb_read_u32_le message 3) AND 0x3ffffff) = of_nat a1"
      "h ! 2 + (drop_bit 4 (sdb_read_u32_le message 6) AND 0x3ffffff) = of_nat a2"
      "h ! 3 + (drop_bit 6 (sdb_read_u32_le message 9) AND 0x3ffffff) = of_nat a3"
      "h ! 4 + (drop_bit 8 (sdb_read_u32_le message 12) OR high_bit) = of_nat a4"
  shows "poly_block (limbs [r0, r1, r2, r3, r4]) message high_bit h = limbs (step_limbs [r0, r1, r2, r3, r4] [a0, a1, a2, a3, a4])
    \<and> acc_ok (step_limbs [r0, r1, r2, r3, r4] [a0, a1, a2, a3, a4])"
proof -
  define E0 where "E0 = a0 * r0 + a1 * (r4 * 5) + a2 * (r3 * 5) + a3 * (r2 * 5) + a4 * (r1 * 5)"
  define E1 where "E1 = a0 * r1 + a1 * r0 + a2 * (r4 * 5) + a3 * (r3 * 5) + a4 * (r2 * 5)"
  define E2 where "E2 = a0 * r2 + a1 * r1 + a2 * r0 + a3 * (r4 * 5) + a4 * (r3 * 5)"
  define E3 where "E3 = a0 * r3 + a1 * r2 + a2 * r1 + a3 * r0 + a4 * (r4 * 5)"
  define E4 where "E4 = a0 * r4 + a1 * r3 + a2 * r2 + a3 * r1 + a4 * r0"
  define D1 where "D1 = E1 + E0 div 2 ^ 26"
  define D2 where "D2 = E2 + D1 div 2 ^ 26"
  define D3 where "D3 = E3 + D2 div 2 ^ 26"
  define D4 where "D4 = E4 + D3 div 2 ^ 26"
  define E where "E = E0 mod 2 ^ 26 + D4 div 2 ^ 26 * 5"
  note defs = E0_def E1_def E2_def E3_def E4_def D1_def D2_def D3_def D4_def E_def
  note bnd = step_limbs_bounds [OF a r, folded E0_def E1_def E2_def E3_def E4_def]
  have step: "step_limbs [r0, r1, r2, r3, r4] [a0, a1, a2, a3, a4] =
      [E mod 2 ^ 26, D1 mod 2 ^ 26 + E div 2 ^ 26, D2 mod 2 ^ 26, D3 mod 2 ^ 26, D4 mod 2 ^ 26]"
    unfolding step_limbs_def defs Let_def by (simp only: nth5)
  have E0: "E0 < 2 ^ 58"
    using bnd by simp
  have D1: "D1 < 2 ^ 58"
    using bnd split_u64(3) [OF E0] by (simp add: D1_def)
  have D2: "D2 < 2 ^ 58"
    using bnd split_u64(3) [OF D1] by (simp add: D2_def)
  have D3: "D3 < 2 ^ 58"
    using bnd split_u64(3) [OF D2] by (simp add: D3_def)
  have D4: "D4 < 2 ^ 58" "D4 < 45036022043508736"
    using bnd split_u64(3) [OF D3] by (simp_all add: D4_def)
  have "D4 div 2 ^ 26 < 671089025"
    using D4(2) by (simp add: less_mult_imp_div_less)
  then have E: "E < 2 ^ 32" "E div 2 ^ 26 < 64"
    using mod_less_divisor [of "2 ^ 26" E0] by (simp_all add: E_def less_mult_imp_div_less)
  have lt: "a0 < 2 ^ 32" "a1 < 2 ^ 32" "a2 < 2 ^ 32" "a3 < 2 ^ 32" "a4 < 2 ^ 32"
    "r0 < 2 ^ 32" "r1 < 2 ^ 32" "r2 < 2 ^ 32" "r3 < 2 ^ 32" "r4 < 2 ^ 32"
    "r1 * 5 < 2 ^ 32" "r2 * 5 < 2 ^ 32" "r3 * 5 < 2 ^ 32" "r4 * 5 < 2 ^ 32"
    using a r by simp_all
  have mul: "(of_nat x :: u32) * 5 = of_nat (x * 5)" for x
    by simp
  have add64: "(of_nat x :: u64) + ucast (of_nat (y div 2 ^ 26) :: u32) = of_nat (x + y div 2 ^ 26)"
    if "y < 2 ^ 58" for x y
    using ucast_up_of_nat [OF split_u64(3) [OF that]] by (simp only: of_nat_add)
  have d0: "(ucast (of_nat a0 :: u32) :: u64) * ucast (of_nat r0 :: u32) + ucast (of_nat a1 :: u32) * ucast (of_nat (r4 * 5) :: u32)
      + ucast (of_nat a2 :: u32) * ucast (of_nat (r3 * 5) :: u32) + ucast (of_nat a3 :: u32) * ucast (of_nat (r2 * 5) :: u32)
      + ucast (of_nat a4 :: u32) * ucast (of_nat (r1 * 5) :: u32) = of_nat E0"
    unfolding E0_def by (rule dot5_u64) (fact lt)+
  have d1: "(ucast (of_nat a0 :: u32) :: u64) * ucast (of_nat r1 :: u32) + ucast (of_nat a1 :: u32) * ucast (of_nat r0 :: u32)
      + ucast (of_nat a2 :: u32) * ucast (of_nat (r4 * 5) :: u32) + ucast (of_nat a3 :: u32) * ucast (of_nat (r3 * 5) :: u32)
      + ucast (of_nat a4 :: u32) * ucast (of_nat (r2 * 5) :: u32) = of_nat E1"
    unfolding E1_def by (rule dot5_u64) (fact lt)+
  have d2: "(ucast (of_nat a0 :: u32) :: u64) * ucast (of_nat r2 :: u32) + ucast (of_nat a1 :: u32) * ucast (of_nat r1 :: u32)
      + ucast (of_nat a2 :: u32) * ucast (of_nat r0 :: u32) + ucast (of_nat a3 :: u32) * ucast (of_nat (r4 * 5) :: u32)
      + ucast (of_nat a4 :: u32) * ucast (of_nat (r3 * 5) :: u32) = of_nat E2"
    unfolding E2_def by (rule dot5_u64) (fact lt)+
  have d3: "(ucast (of_nat a0 :: u32) :: u64) * ucast (of_nat r3 :: u32) + ucast (of_nat a1 :: u32) * ucast (of_nat r2 :: u32)
      + ucast (of_nat a2 :: u32) * ucast (of_nat r1 :: u32) + ucast (of_nat a3 :: u32) * ucast (of_nat r0 :: u32)
      + ucast (of_nat a4 :: u32) * ucast (of_nat (r4 * 5) :: u32) = of_nat E3"
    unfolding E3_def by (rule dot5_u64) (fact lt)+
  have d4: "(ucast (of_nat a0 :: u32) :: u64) * ucast (of_nat r4 :: u32) + ucast (of_nat a1 :: u32) * ucast (of_nat r3 :: u32)
      + ucast (of_nat a2 :: u32) * ucast (of_nat r2 :: u32) + ucast (of_nat a3 :: u32) * ucast (of_nat r1 :: u32)
      + ucast (of_nat a4 :: u32) * ucast (of_nat r0 :: u32) = of_nat E4"
    unfolding E4_def by (rule dot5_u64) (fact lt)+
  have last: "(of_nat (E0 mod 2 ^ 26) :: u32) + of_nat (D4 div 2 ^ 26 * 5) = of_nat E"
    unfolding E_def by (simp only: of_nat_add)
  have carry: "drop_bit 26 (of_nat E :: u32) = of_nat (E div 2 ^ 26)"
    using E(1) by (intro drop_bit_of_nat_word) simp
  have "poly_block (limbs [r0, r1, r2, r3, r4]) message high_bit h =
      limbs [E mod 2 ^ 26, D1 mod 2 ^ 26 + E div 2 ^ 26, D2 mod 2 ^ 26, D3 mod 2 ^ 26, D4 mod 2 ^ 26]"
    unfolding poly_block_def Let_def limbs_def list.map nth5 h mul
    unfolding d0 d1 d2 d3 d4
    unfolding split_u64 [OF E0] add64 [OF E0] D1_def [symmetric]
    unfolding split_u64 [OF D1] add64 [OF D1] D2_def [symmetric]
    unfolding split_u64 [OF D2] add64 [OF D2] D3_def [symmetric]
    unfolding split_u64 [OF D3] add64 [OF D3] D4_def [symmetric]
    unfolding split_u64 [OF D4(1)] mul last carry
    unfolding and_limb limb_of_nat of_nat_add by (rule refl)
  moreover have "acc_ok [E mod 2 ^ 26, D1 mod 2 ^ 26 + E div 2 ^ 26, D2 mod 2 ^ 26, D3 mod 2 ^ 26, D4 mod 2 ^ 26]"
    using E mod_less_divisor [of "2 ^ 26" D1] by (simp add: acc_ok_def)
  ultimately show ?thesis
    by (simp only: step)
qed

section \<open>A block as a number\<close>

primrec le_nat :: "bytes \<Rightarrow> nat" where
  "le_nat [] = 0"
| "le_nat (b # bs) = unat b + 256 * le_nat bs"

lemma le_nat_lt: "le_nat bs < 2 ^ (8 * length bs)"
proof (induction bs)
  case (Cons b bs)
  have "unat b < 256"
    using unsigned_less [of b] by simp
  moreover have "256 * Suc (le_nat bs) \<le> 256 * 2 ^ (8 * length bs)"
    using Cons by (intro mult_le_mono2) simp
  ultimately show ?case
    by (simp add: power_add)
qed simp

lemma le_nat_append: "le_nat (xs @ ys) = le_nat xs + 2 ^ (8 * length xs) * le_nat ys"
  by (induction xs) (simp_all add: power_add algebra_simps)

lemma le_nat_zeros: "le_nat (zeros n) = 0"
  by (induction n) (simp_all add: zeros_def)

lemma le_nat_take: "n \<le> length bs \<Longrightarrow> le_nat (take n bs) = le_nat bs mod 2 ^ (8 * n)"
  using le_nat_append [of "take n bs" "drop n bs"] le_nat_lt [of "take n bs"] by simp

lemma le_nat_drop: "n \<le> length bs \<Longrightarrow> le_nat (drop n bs) = le_nat bs div 2 ^ (8 * n)"
  using le_nat_append [of "take n bs" "drop n bs"] le_nat_lt [of "take n bs"] by simp

lemma le_nat_slice:
  "p + n \<le> length bs \<Longrightarrow> le_nat (slice p n bs) = take_bit (8 * n) (drop_bit (8 * p) (le_nat bs))"
  by (simp add: slice_def le_nat_take le_nat_drop take_bit_eq_mod [where 'a = nat] drop_bit_eq_div [where 'a = nat])

lemma le_word_of_nat: "(le_word bs :: 'a::len word) = of_nat (le_nat bs)"
proof (induction bs)
  case (Cons b bs)
  have "(ucast b :: 'a word) OR push_bit 8 (le_word bs) = ucast b + push_bit 8 (le_word bs)"
    by (rule disjunctive_add [symmetric]) (auto simp: bit_simps dest: bit_imp_le_length)
  moreover have "push_bit 8 (le_word bs :: 'a word) = 256 * of_nat (le_nat bs)"
    by (simp add: push_bit_eq_mult Cons mult.commute)
  moreover have "(ucast b :: 'a word) = of_nat (unat b)"
    by simp
  ultimately show ?case
    by (simp only: le_word.simps le_nat.simps of_nat_add of_nat_mult of_nat_numeral)
qed simp

lemma read_u32_nat:
  assumes "length m \<ge> 16" "p \<le> 12"
  shows "sdb_read_u32_le m p = of_nat (take_bit 32 (drop_bit (8 * p) (le_nat (take 16 m))))"
proof -
  have "slice p 4 m = slice p 4 (take 16 m)"
    using assms by (auto intro!: nth_equalityI simp: nth_slice)
  then show ?thesis
    using assms le_nat_slice [of p 4 "take 16 m"] by (simp add: le32.rd_slice le_word_of_nat)
qed

lemma read_limb:
  assumes "length m \<ge> 16" "p \<le> 12" "k \<le> 6"
  shows "drop_bit k (sdb_read_u32_le m p) AND 0x3ffffff = of_nat (take_bit 26 (drop_bit (8 * p + k) (le_nat (take 16 m))))"
proof -
  have "take_bit 26 (drop_bit k (of_nat (take_bit 32 x) :: u32)) = of_nat (take_bit 26 (drop_bit k x))" for x
    using assms(3) by (intro bit_word_eqI) (auto simp: bit_simps)
  then show ?thesis
    using assms(1,2) by (simp add: read_u32_nat and_limb drop_bit_drop_bit add.commute)
qed

definition msg_limbs :: "nat \<Rightarrow> nat list" where
  "msg_limbs n = [n mod 2 ^ 26, n div 2 ^ 26 mod 2 ^ 26, n div 2 ^ 52 mod 2 ^ 26, n div 2 ^ 78 mod 2 ^ 26, n div 2 ^ 104]"

lemma limb_split:
  fixes n :: nat
  assumes "n = 67108864 * q1 + m0" "q1 = 67108864 * q2 + m1" "q2 = 67108864 * q3 + m2" "q3 = 67108864 * q4 + m3"
  shows "m0 + m1 * 67108864 + m2 * 67108864 ^ 2 + m3 * 67108864 ^ 3 + q4 * 67108864 ^ 4 = n"
  using assms by simp

lemma limb_value_msg: "limb_value (msg_limbs n) = n"
proof -
  have "n div 2 ^ 52 = n div 67108864 div 67108864" "n div 2 ^ 78 = n div 67108864 div 67108864 div 67108864"
    "n div 2 ^ 104 = n div 67108864 div 67108864 div 67108864 div 67108864"
    by (simp_all add: div_mult2_eq [symmetric])
  then show ?thesis
    unfolding msg_limbs_def limb_value5 pow26 by (simp only:) (rule limb_split; rule div_mod_eq)
qed

lemma msg_limbs_bounds:
  "n mod 2 ^ 26 < 2 ^ 26" "n < 2 ^ 129 \<Longrightarrow> n div 2 ^ 104 < (2 :: nat) ^ 25"
  by (simp_all add: less_mult_imp_div_less)

lemma add_bound: "(h :: nat) < 2 ^ 26 + 64 \<Longrightarrow> x < 2 ^ 26 \<Longrightarrow> h + x < 2 ^ 27 + 64"
  by simp

lemma less_imp_add_64: "(h :: nat) < 2 ^ 26 \<Longrightarrow> h < 2 ^ 26 + 64"
  by simp

lemma div_add_pow:
  assumes "k \<le> 78"
  shows "((n :: nat) + 2 ^ 128) div 2 ^ k mod 2 ^ 26 = n div 2 ^ k mod 2 ^ 26"
proof -
  have "(2 :: nat) ^ 128 = 2 ^ (k + 26 + (102 - k))"
    using assms by simp
  also have "\<dots> = 2 ^ k * (2 ^ 26 * 2 ^ (102 - k))"
    by (simp only: power_add mult.assoc)
  finally have "n + 2 ^ 128 = n + 2 ^ k * (2 ^ 26 * 2 ^ (102 - k))"
    by (simp only:)
  then have "(n + 2 ^ 128) div 2 ^ k = n div 2 ^ k + 2 ^ 26 * 2 ^ (102 - k)"
    by (simp only: div_mult_self2 power_not_zero zero_neq_numeral not_False_eq_True)
  then show ?thesis
    by (simp only: mod_mult_self2)
qed

lemma or_push_bit:
  fixes x y :: "'a::len word"
  assumes "\<And>k. n \<le> k \<Longrightarrow> \<not> bit x k"
  shows "x OR push_bit n y = x + push_bit n y"
  using assms by (intro disjunctive_add [symmetric]) (auto simp: bit_push_bit_iff)

lemma top_limb:
  assumes "length m \<ge> 16"
  shows "drop_bit 8 (sdb_read_u32_le m 12) = of_nat (le_nat (take 16 m) div 2 ^ 104)"
    and "drop_bit 8 (sdb_read_u32_le m 12) OR push_bit 24 1 = of_nat ((le_nat (take 16 m) + 2 ^ 128) div 2 ^ 104)"
proof -
  define n where "n = le_nat (take 16 m)"
  have n: "n < 2 ^ 128"
    using le_nat_lt [of "take 16 m"] assms by (simp add: n_def)
  have nb: "bit n j \<Longrightarrow> j < 128" for j
    by (metis bit_take_bit_iff take_bit_nat_eq_self n)
  have w: "drop_bit 8 (sdb_read_u32_le m 12) = of_nat (drop_bit 104 n)"
    unfolding read_u32_nat [OF assms order_refl] n_def [symmetric]
    by (intro bit_word_eqI) (auto simp: bit_simps dest: nb)
  have lt: "drop_bit 104 n < 2 ^ 24"
    using n by (simp add: drop_bit_eq_div [where 'a = nat] less_mult_imp_div_less)
  show "drop_bit 8 (sdb_read_u32_le m 12) = of_nat (le_nat (take 16 m) div 2 ^ 104)"
    using w by (simp add: n_def drop_bit_eq_div [where 'a = nat])
  have "take_bit 24 (drop_bit 104 n) = drop_bit 104 n"
    using lt by (simp add: take_bit_nat_eq_self)
  then have "\<not> bit (drop_bit 104 n) k" if "k \<ge> 24" for k
    using that by (metis bit_take_bit_iff not_less)
  then have "(of_nat (drop_bit 104 n) :: u32) OR push_bit 24 1 = of_nat (drop_bit 104 n) + push_bit 24 1"
    by (intro or_push_bit) (simp add: bit_simps)
  also have "\<dots> = of_nat (drop_bit 104 n + 2 ^ 24)"
    by (simp add: push_bit_eq_mult)
  also have "drop_bit 104 n + 2 ^ 24 = (n + 2 ^ 128) div 2 ^ 104"
    using div_mult_self1 [of "2 ^ 104 :: nat" n "2 ^ 24"] by (simp add: drop_bit_eq_div [where 'a = nat])
  finally show "drop_bit 8 (sdb_read_u32_le m 12) OR push_bit 24 1 = of_nat ((le_nat (take 16 m) + 2 ^ 128) div 2 ^ 104)"
    unfolding w n_def .
qed

text \<open>One step of the loop: add the block to the accumulator and multiply by \<open>r\<close>.\<close>

lemma poly_block_correct:
  assumes m: "length m \<ge> 16" and R: "length R = 5" "\<And>i. i < 5 \<Longrightarrow> R ! i < 2 ^ 26" and H: "acc_ok H"
    and hb: "(high_bit = 0 \<and> N = le_nat (take 16 m)) \<or> (high_bit = push_bit 24 1 \<and> N = le_nat (take 16 m) + 2 ^ 128)"
  shows "\<exists>K. acc_ok K \<and> poly_block (limbs R) m high_bit (limbs H) = limbs K
    \<and> limb_value K mod poly_p = (limb_value H + N) * limb_value R mod poly_p"
proof -
  define n where "n = le_nat (take 16 m)"
  have n: "n < 2 ^ 128"
    using le_nat_lt [of "take 16 m"] m by (simp add: n_def)
  obtain h0 h1 h2 h3 h4 where h: "H = [h0, h1, h2, h3, h4]"
    using H length5 unfolding acc_ok_def by blast
  obtain r0 r1 r2 r3 r4 where r: "R = [r0, r1, r2, r3, r4]"
    using length5 [OF R(1)] by blast
  have rb: "r0 < 2 ^ 26" "r1 < 2 ^ 26" "r2 < 2 ^ 26" "r3 < 2 ^ 26" "r4 < 2 ^ 26"
    using R(2) [of 0] R(2) [of 1] R(2) [of 2] R(2) [of 3] R(2) [of 4] by (simp_all add: r)
  have hbd: "h0 < 2 ^ 26" "h1 < 2 ^ 26 + 64" "h2 < 2 ^ 26" "h3 < 2 ^ 26" "h4 < 2 ^ 26"
    using H by (simp_all add: h acc_ok_def)
  have Nlow: "take_bit 26 (drop_bit k n) = N div 2 ^ k mod 2 ^ 26" if "k \<le> 78" for k
    using hb div_add_pow [OF that, of n]
    by (auto simp: take_bit_eq_mod [where 'a = nat] drop_bit_eq_div [where 'a = nat] n_def)
  have top: "drop_bit 8 (sdb_read_u32_le m 12) OR high_bit = of_nat (N div 2 ^ 104)"
    using hb top_limb [OF m] by (auto simp only: n_def or.right_neutral simp_thms)
  have N: "N < 2 ^ 129"
    using hb n by (auto simp: n_def)
  have top_bound: "h4 + N div 2 ^ 104 < 2 ^ 27 + 64"
    using hbd(5) msg_limbs_bounds(2) [OF N] by simp
  let ?a = "[h0 + N mod 2 ^ 26, h1 + N div 2 ^ 26 mod 2 ^ 26, h2 + N div 2 ^ 52 mod 2 ^ 26, h3 + N div 2 ^ 78 mod 2 ^ 26, h4 + N div 2 ^ 104]"
  have "poly_block (limbs [r0, r1, r2, r3, r4]) m high_bit (limbs H) = limbs (step_limbs [r0, r1, r2, r3, r4] ?a)
    \<and> acc_ok (step_limbs [r0, r1, r2, r3, r4] ?a)"
  proof (rule poly_block_step)
    show "limbs H ! 0 + (sdb_read_u32_le m 0 AND 0x3ffffff) = of_nat (h0 + N mod 2 ^ 26)"
      using read_limb [of m 0 0] Nlow [of 0] m by (simp add: h limbs_def n_def)
    show "limbs H ! 1 + (drop_bit 2 (sdb_read_u32_le m 3) AND 0x3ffffff) = of_nat (h1 + N div 2 ^ 26 mod 2 ^ 26)"
      using read_limb [of m 3 2] Nlow [of 26] m by (simp add: h limbs_def n_def)
    show "limbs H ! 2 + (drop_bit 4 (sdb_read_u32_le m 6) AND 0x3ffffff) = of_nat (h2 + N div 2 ^ 52 mod 2 ^ 26)"
      using read_limb [of m 6 4] Nlow [of 52] m by (simp add: h limbs_def n_def)
    show "limbs H ! 3 + (drop_bit 6 (sdb_read_u32_le m 9) AND 0x3ffffff) = of_nat (h3 + N div 2 ^ 78 mod 2 ^ 26)"
      using read_limb [of m 9 6] Nlow [of 78] m by (simp add: h limbs_def n_def)
    show "limbs H ! 4 + (drop_bit 8 (sdb_read_u32_le m 12) OR high_bit) = of_nat (h4 + N div 2 ^ 104)"
      unfolding top by (simp add: h limbs_def)
  qed (simp_all only: rb add_bound [OF _ msg_limbs_bounds(1)] less_imp_add_64 hbd top_bound)
  moreover have "limb_value (step_limbs R ?a) mod poly_p = limb_value ?a * limb_value R mod poly_p"
    by (rule step_limbs_value) (simp_all add: R)
  moreover have "limb_value ?a = limb_value H + N"
    using limb_value_msg [of N] unfolding h msg_limbs_def limb_value5 distrib_right by (simp only: ac_simps)
  ultimately show ?thesis
    unfolding r by (metis (no_types))
qed

section \<open>The final reduction\<close>

lemma carry_le:
  fixes x q :: nat
  assumes "x + c = 67108864 * q + m" "x < 67108864" "c \<le> 5"
  shows "q \<le> 1" and "c = 0 \<Longrightarrow> q = 0"
  using assms by auto

lemma freeze_carry:
  fixes h0 :: nat
  assumes h: "h0 < 67108864" "h1 < 67108928" "h2 < 67108864" "h3 < 67108864" "h4 < 67108864"
    and e: "h1 = 67108864 * c1 + m1" "h2 + c1 = 67108864 * c2 + m2" "h3 + c2 = 67108864 * c3 + m3"
      "h4 + c3 = 67108864 * c4 + m4" "h0 + c4 * 5 = 67108864 * c0 + m0"
    and m: "m0 < 67108864" "m1 < 67108864" "m2 < 67108864" "m3 < 67108864" "m4 < 67108864"
  shows "m1 + c0 < 67108864"
    and "m0 + (m1 + c0) * 67108864 + m2 * 67108864 ^ 2 + m3 * 67108864 ^ 3 + m4 * 67108864 ^ 4 + c4 * (67108864 ^ 5 - 5)
      = h0 + h1 * 67108864 + h2 * 67108864 ^ 2 + h3 * 67108864 ^ 3 + h4 * 67108864 ^ 4"
proof -
  have c1: "c1 \<le> 1"
    using h(2) e(1) by simp
  then have c2: "c2 \<le> 1" "c1 = 0 \<Longrightarrow> c2 = 0"
    using carry_le [OF e(2) h(3)] by auto
  then have c3: "c3 \<le> 1" "c2 = 0 \<Longrightarrow> c3 = 0"
    using carry_le [OF e(3) h(4)] by auto
  then have c4: "c4 \<le> 1" "c3 = 0 \<Longrightarrow> c4 = 0"
    using carry_le [OF e(4) h(5)] by auto
  then have c0: "c0 \<le> 1" "c4 = 0 \<Longrightarrow> c0 = 0"
    using carry_le [OF e(5) h(1)] by auto
  show "m1 + c0 < 67108864"
  proof (cases "c1 = 0")
    case True
    then show ?thesis
      using c2 c3 c4 c0 m(2) by simp
  next
    case False
    then have "m1 < 64"
      using c1 e(1) h(2) by simp
    then show ?thesis
      using c0 by simp
  qed
  show "m0 + (m1 + c0) * 67108864 + m2 * 67108864 ^ 2 + m3 * 67108864 ^ 3 + m4 * 67108864 ^ 4 + c4 * (67108864 ^ 5 - 5)
      = h0 + h1 * 67108864 + h2 * 67108864 ^ 2 + h3 * 67108864 ^ 3 + h4 * 67108864 ^ 4"
    using e by simp
qed

text \<open>Adding 5 and looking at the carry out of the top limb decides whether the modulus is subtracted.\<close>

lemma freeze_select:
  fixes h0 :: nat
  assumes h: "h0 < 67108864" "h1 < 67108864" "h2 < 67108864" "h3 < 67108864" "h4 < 67108864"
    and e: "h0 + 5 = 67108864 * c0 + g0" "h1 + c0 = 67108864 * c1 + g1" "h2 + c1 = 67108864 * c2 + g2"
      "h3 + c2 = 67108864 * c3 + g3"
    and g: "g0 < 67108864" "g1 < 67108864" "g2 < 67108864" "g3 < 67108864"
  defines "v \<equiv> h0 + h1 * 67108864 + h2 * 67108864 ^ 2 + h3 * 67108864 ^ 3 + h4 * 67108864 ^ 4"
  shows "h4 + c3 < 67108864 \<Longrightarrow> v < 67108864 ^ 5 - 5"
    and "h4 + c3 \<ge> 67108864 \<Longrightarrow> h4 + c3 = 67108864 \<and>
      v = 67108864 ^ 5 - 5 + (g0 + g1 * 67108864 + g2 * 67108864 ^ 2 + g3 * 67108864 ^ 3)
      \<and> v < 2 * (67108864 ^ 5 - 5)"
proof -
  have v: "v + 5 = g0 + g1 * 67108864 + g2 * 67108864 ^ 2 + g3 * 67108864 ^ 3 + (h4 + c3) * 67108864 ^ 4"
    using e unfolding v_def by simp
  show "v < 67108864 ^ 5 - 5" if "h4 + c3 < 67108864"
  proof -
    have "v + 5 < 67108864 ^ 5"
      unfolding v using that g by simp
    then show ?thesis
      by simp
  qed
  have c: "c0 \<le> 1"
    using carry_le [OF e(1) h(1)] by simp
  then have "c1 \<le> 1"
    using carry_le [OF e(2) h(2)] by simp
  then have "c2 \<le> 1"
    using carry_le [OF e(3) h(3)] by simp
  then have c3: "c3 \<le> 1"
    using carry_le [OF e(4) h(4)] by simp
  show "h4 + c3 = 67108864 \<and>
      v = 67108864 ^ 5 - 5 + (g0 + g1 * 67108864 + g2 * 67108864 ^ 2 + g3 * 67108864 ^ 3)
      \<and> v < 2 * (67108864 ^ 5 - 5)" if "h4 + c3 \<ge> 67108864"
  proof -
    have top: "h4 + c3 = 67108864"
      using that c3 h(5) by simp
    moreover have eq: "v = 67108864 ^ 5 - 5 + (g0 + g1 * 67108864 + g2 * 67108864 ^ 2 + g3 * 67108864 ^ 3)"
      using v unfolding top by simp
    moreover have "v < 2 * (67108864 ^ 5 - 5)"
      unfolding eq using g by simp
    ultimately show ?thesis
      by simp
  qed
qed

lemma limb_parts_u32:
  "x < 134217728 \<Longrightarrow> drop_bit 26 (of_nat x :: u32) = of_nat (x div 67108864)"
  "(of_nat x :: u32) AND 0x3ffffff = of_nat (x mod 67108864)"
  using drop_bit_of_nat_word [where 'a = 32, of x 26] by (simp_all add: and_limb limb_of_nat)

lemma mul5: "(of_nat x :: 'a::len word) * 5 = of_nat (x * 5)"
  and add5: "(of_nat x :: 'a word) + 5 = of_nat (x + 5)"
  by simp_all

lemma select_mask:
  assumes "y < 67108864"
  shows "drop_bit 31 ((of_nat y :: u32) - push_bit 26 1) - 1 = 0"
    and "drop_bit 31 ((of_nat 67108864 :: u32) - push_bit 26 1) - 1 = -1"
proof -
  have "(of_nat y :: u32) - push_bit 26 1 = of_nat (y + 4227858432)"
    by (simp add: push_bit_eq_mult)
  moreover have "drop_bit 31 (of_nat (y + 4227858432) :: u32) = of_nat ((y + 4227858432) div 2 ^ 31)"
    using assms by (intro drop_bit_of_nat_word) simp
  moreover have "(y + 4227858432) div 2 ^ 31 = 1"
    using assms by (intro div_nat_eqI) simp_all
  ultimately show "drop_bit 31 ((of_nat y :: u32) - push_bit 26 1) - 1 = 0"
    by (simp only: of_nat_1 diff_self)
  show "drop_bit 31 ((of_nat 67108864 :: u32) - push_bit 26 1) - 1 = -1"
    by (simp add: push_bit_eq_mult)
qed

lemma poly_freeze_correct:
  assumes "acc_ok H"
  shows "\<exists>F. length F = 5 \<and> (\<forall>x \<in> set F. x < 2 ^ 26) \<and> poly_freeze (limbs H) = limbs F
    \<and> limb_value F = limb_value H mod poly_p"
proof -
  obtain h0 h1 h2 h3 h4 where H: "H = [h0, h1, h2, h3, h4]"
    using assms length5 unfolding acc_ok_def by blast
  have h: "h0 < 67108864" "h1 < 67108928" "h2 < 67108864" "h3 < 67108864" "h4 < 67108864"
    using assms by (simp_all add: H acc_ok_def)
  define x2 where "x2 = h2 + h1 div 67108864"
  define x3 where "x3 = h3 + x2 div 67108864"
  define x4 where "x4 = h4 + x3 div 67108864"
  define x0 where "x0 = h0 + x4 div 67108864 * 5"
  define k0 where "k0 = x0 mod 67108864"
  define k1 where "k1 = h1 mod 67108864 + x0 div 67108864"
  define k2 where "k2 = x2 mod 67108864"
  define k3 where "k3 = x3 mod 67108864"
  define k4 where "k4 = x4 mod 67108864"
  define y0 where "y0 = k0 + 5"
  define y1 where "y1 = k1 + y0 div 67108864"
  define y2 where "y2 = k2 + y1 div 67108864"
  define y3 where "y3 = k3 + y2 div 67108864"
  define y4 where "y4 = k4 + y3 div 67108864"
  have small: "a + b div 67108864 < 134217728" if "a < 67108864" "b < 134217728" for a b :: nat
    using that less_mult_imp_div_less [of b 2 67108864] by simp
  have b1: "h1 < 134217728"
    using h by simp
  have b2: "x2 < 134217728"
    unfolding x2_def by (rule small [OF h(3) b1])
  have b3: "x3 < 134217728"
    unfolding x3_def by (rule small [OF h(4) b2])
  have b4: "x4 < 134217728"
    unfolding x4_def by (rule small [OF h(5) b3])
  have b0: "x0 < 134217728"
    unfolding x0_def using h(1) less_mult_imp_div_less [of x4 2 67108864] b4 by simp
  have m: "x mod 67108864 < 67108864" for x :: nat
    by simp
  have e2: "h2 + h1 div 67108864 = 67108864 * (x2 div 67108864) + x2 mod 67108864"
    and e3: "h3 + x2 div 67108864 = 67108864 * (x3 div 67108864) + x3 mod 67108864"
    and e4: "h4 + x3 div 67108864 = 67108864 * (x4 div 67108864) + x4 mod 67108864"
    and e0: "h0 + x4 div 67108864 * 5 = 67108864 * (x0 div 67108864) + x0 mod 67108864"
    unfolding x2_def [symmetric] x3_def [symmetric] x4_def [symmetric] x0_def [symmetric] by (rule div_mod_eq)+
  note fc = freeze_carry [OF h div_mod_eq e2 e3 e4 e0 m m m m m, folded k0_def k1_def k2_def k3_def k4_def]
  have k: "k0 < 67108864" "k1 < 67108864" "k2 < 67108864" "k3 < 67108864" "k4 < 67108864"
    unfolding k0_def k2_def k3_def k4_def by (rule m fc(1))+
  have d0: "y0 < 134217728"
    unfolding y0_def using k by simp
  have d1: "y1 < 134217728"
    unfolding y1_def by (rule small [OF k(2) d0])
  have d2: "y2 < 134217728"
    unfolding y2_def by (rule small [OF k(3) d1])
  have d3: "y3 < 134217728"
    unfolding y3_def by (rule small [OF k(4) d2])
  let ?g = "[y0 mod 67108864, y1 mod 67108864, y2 mod 67108864, y3 mod 67108864]"
  have f0: "k0 + 5 = 67108864 * (y0 div 67108864) + y0 mod 67108864"
    and f1: "k1 + y0 div 67108864 = 67108864 * (y1 div 67108864) + y1 mod 67108864"
    and f2: "k2 + y1 div 67108864 = 67108864 * (y2 div 67108864) + y2 mod 67108864"
    and f3: "k3 + y2 div 67108864 = 67108864 * (y3 div 67108864) + y3 mod 67108864"
    unfolding y0_def [symmetric] y1_def [symmetric] y2_def [symmetric] y3_def [symmetric] by (rule div_mod_eq)+
  note sel = freeze_select [OF k f0 f1 f2 f3 m m m m, folded y4_def]
  have fr: "poly_freeze (limbs H) = (let msk = drop_bit 31 (of_nat y4 - push_bit 26 1) - 1 in
      [((of_nat k0 :: u32) AND NOT msk) OR (of_nat (y0 mod 67108864) AND msk), (of_nat k1 AND NOT msk) OR (of_nat (y1 mod 67108864) AND msk),
       (of_nat k2 AND NOT msk) OR (of_nat (y2 mod 67108864) AND msk), (of_nat k3 AND NOT msk) OR (of_nat (y3 mod 67108864) AND msk),
       (of_nat k4 AND NOT msk) OR ((of_nat y4 - push_bit 26 1) AND msk)])"
    unfolding poly_freeze_def H Let_def limbs_def list.map nth5
    unfolding limb_parts_u32(1) [OF b1] limb_parts_u32(2) of_nat_add [symmetric] x2_def [symmetric]
    unfolding limb_parts_u32(1) [OF b2] limb_parts_u32(2) of_nat_add [symmetric] x3_def [symmetric] k2_def [symmetric]
    unfolding limb_parts_u32(1) [OF b3] limb_parts_u32(2) of_nat_add [symmetric] x4_def [symmetric] k3_def [symmetric]
    unfolding limb_parts_u32(1) [OF b4] limb_parts_u32(2) mul5 of_nat_add [symmetric] x0_def [symmetric] k4_def [symmetric]
    unfolding limb_parts_u32(1) [OF b0] limb_parts_u32(2) of_nat_add [symmetric] k1_def [symmetric] k0_def [symmetric]
    unfolding add5 y0_def [symmetric] limb_parts_u32(1) [OF d0] of_nat_add [symmetric] y1_def [symmetric]
    unfolding limb_parts_u32(1) [OF d1] limb_parts_u32(2) of_nat_add [symmetric] y2_def [symmetric]
    unfolding limb_parts_u32(1) [OF d2] limb_parts_u32(2) of_nat_add [symmetric] y3_def [symmetric]
    unfolding limb_parts_u32(1) [OF d3] limb_parts_u32(2) of_nat_add [symmetric] y4_def [symmetric]
    by (rule refl)
  have p: "poly_p = 67108864 ^ 5 - 5"
    by (simp add: poly_p_def)
  have valH: "limb_value H = limb_value [k0, k1, k2, k3, k4] + x4 div 67108864 * poly_p"
    unfolding H limb_value5 p by (rule fc(2) [symmetric])
  show ?thesis
  proof (cases "y4 < 67108864")
    case True
    have "poly_freeze (limbs H) = limbs [k0, k1, k2, k3, k4]"
      unfolding fr Let_def select_mask(1) [OF True] by (simp add: limbs_def)
    moreover have "limb_value [k0, k1, k2, k3, k4] < poly_p"
      unfolding p limb_value5 by (rule sel(1) [OF True])
    then have "limb_value [k0, k1, k2, k3, k4] = limb_value H mod poly_p"
      unfolding valH by (simp only: mod_mult_self1 mod_less)
    ultimately show ?thesis
      using k by (intro exI [of _ "[k0, k1, k2, k3, k4]"]) simp
  next
    case False
    note s = sel(2) [OF leI [OF False]]
    have y4: "y4 = 67108864"
      using s by (rule conjunct1)
    let ?F = "[y0 mod 67108864, y1 mod 67108864, y2 mod 67108864, y3 mod 67108864, 0]"
    have "poly_freeze (limbs H) = limbs ?F"
      unfolding fr Let_def y4 select_mask(2) by (simp add: limbs_def push_bit_eq_mult)
    moreover have F: "limb_value [k0, k1, k2, k3, k4] = poly_p + limb_value ?F" "limb_value [k0, k1, k2, k3, k4] < 2 * poly_p"
      unfolding p limb_value5 mult_0 add_0_right using s by blast+
    have "limb_value ?F = limb_value H mod poly_p"
      unfolding valH F(1) using F(2) unfolding F(1) by (simp only: mod_mult_self1 mod_add_self1 mod_less mult_2 add_less_cancel_left)
    ultimately show ?thesis
      using m by (intro exI [of _ ?F]) simp
  qed
qed

section \<open>The tag\<close>

primrec nat_bytes :: "nat \<Rightarrow> nat \<Rightarrow> bytes" where
  "nat_bytes 0 n = []"
| "nat_bytes (Suc k) n = of_nat n # nat_bytes k (n div 256)"

lemma length_nat_bytes [simp]: "length (nat_bytes k n) = k"
  by (induction k arbitrary: n) simp_all

lemma nat_bytes_add: "nat_bytes (a + b) n = nat_bytes a n @ nat_bytes b (n div 2 ^ (8 * a))"
  by (induction a arbitrary: n) (simp_all add: power_add div_mult2_eq)

lemma nth_nat_bytes: "i < k \<Longrightarrow> nat_bytes k n ! i = of_nat (drop_bit (8 * i) n)"
proof (induction k arbitrary: n i)
  case (Suc k)
  show ?case
    by (cases i) (use Suc in \<open>simp_all add: drop_bit_eq_div [where 'a = nat] div_mult2_eq power_add\<close>)
qed simp

lemma le_bytes_of_nat: "8 * k \<le> LENGTH('a) \<Longrightarrow> le_bytes k (of_nat n :: 'a::len word) = nat_bytes k n"
  by (rule nth_equalityI) (auto simp: nth_le_bytes nth_nat_bytes intro!: bit_word_eqI simp: bit_simps)

lemma le_nat_nat_bytes: "le_nat (nat_bytes k n) = n mod 2 ^ (8 * k)"
proof (induction k arbitrary: n)
  case (Suc k)
  have "unat (of_nat n :: byte) = n mod 256"
    by (simp add: unat_of_nat)
  then show ?case
    using mod_mult2_eq [of n 256 "2 ^ (8 * k)"] Suc [of "n div 256"] by (simp add: power_add)
qed simp

text \<open>Adding the pad word by word.\<close>

lemma add_words:
  fixes V P c :: nat
  shows "(V + P + c) div 4294967296 = V div 4294967296 + P div 4294967296 + (V mod 4294967296 + P mod 4294967296 + c) div 4294967296"
proof -
  have "V + P + c = 4294967296 * (V div 4294967296 + P div 4294967296) + (V mod 4294967296 + P mod 4294967296 + c)"
    by simp
  then show ?thesis
    by (metis div_mult_self4 zero_neq_numeral)
qed

lemma of_nat_low32: "(of_nat (x mod 4294967296) :: u32) = of_nat x"
proof -
  have "x mod 4294967296 = take_bit 32 x"
    by (simp add: take_bit_eq_mod)
  then show ?thesis
    by (intro bit_word_eqI) (simp add: bit_simps)
qed

lemma ucast_low32: "(ucast (of_nat x :: u32) :: u64) = of_nat (x mod 4294967296)"
  by (simp add: unsigned_of_nat take_bit_eq_mod [where 'a = nat])

lemma or_limbs:
  fixes x y :: nat
  assumes "x < 2 ^ n"
  shows "(of_nat x :: 'a::len word) OR push_bit n (of_nat y) = of_nat (x + 2 ^ n * y)"
proof -
  have "\<not> bit x k" if "n \<le> k" for k
    using that assms by (metis bit_take_bit_iff not_less take_bit_nat_eq_self)
  then have "(of_nat x :: 'a word) OR push_bit n (of_nat y) = of_nat x + push_bit n (of_nat y)"
    by (intro or_push_bit) (simp add: bit_of_nat_iff)
  then show ?thesis
    by (simp add: push_bit_eq_mult mult.commute)
qed

lemma word_sum:
  fixes V P c :: nat
  assumes "c \<le> 1"
  defines "f \<equiv> V mod 4294967296 + P mod 4294967296 + c"
  shows "(ucast (of_nat f :: u64) :: u32) = of_nat (V + P + c)"
    and "drop_bit 32 (of_nat f :: u64) = of_nat (f div 4294967296)"
    and "f div 4294967296 \<le> 1"
proof -
  have "V mod 4294967296 < 4294967296" "P mod 4294967296 < 4294967296"
    by simp_all
  then have f: "f < 8589934592"
    using assms(1) unfolding f_def by linarith
  then have "(ucast (of_nat f :: u64) :: u32) = of_nat f"
    by (intro ucast_down_of_nat) simp
  also have "\<dots> = of_nat (V + P + c)"
    unfolding f_def by (simp only: of_nat_add of_nat_low32)
  finally show "(ucast (of_nat f :: u64) :: u32) = of_nat (V + P + c)" .
  show "drop_bit 32 (of_nat f :: u64) = of_nat (f div 4294967296)"
    using f drop_bit_of_nat_word [where 'a = 64, of f 32] by simp
  show "f div 4294967296 \<le> 1"
    using f less_mult_imp_div_less [of f 2 4294967296] by simp
qed

lemma shift_limb:
  fixes l :: nat
  assumes "l < 2 ^ a"
  shows "(l + 2 ^ a * h + 2 ^ a * 2 ^ b * t) div (2 ^ a * 2 ^ b) = h div 2 ^ b + t"
proof -
  have "l + 2 ^ a * h + 2 ^ a * 2 ^ b * t = 2 ^ a * (h + 2 ^ b * t) + l"
    by (simp add: algebra_simps)
  then have "(l + 2 ^ a * h + 2 ^ a * 2 ^ b * t) div 2 ^ a = h + 2 ^ b * t"
    using assms by (simp only: div_mult_self4 power_not_zero zero_neq_numeral not_False_eq_True div_less add_0_right)
  then show ?thesis
    by (simp add: div_mult2_eq)
qed

lemma limb_words:
  assumes "h0 < 2 ^ 26" "h1 < 2 ^ 26" "h2 < 2 ^ 26" "h3 < 2 ^ 26" "h4 < 2 ^ 26"
  defines "V \<equiv> limb_value [h0, h1, h2, h3, h4]"
  shows "(of_nat h0 :: u32) OR push_bit 26 (of_nat h1) = of_nat V"
    and "drop_bit 6 (of_nat h1 :: u32) OR push_bit 20 (of_nat h2) = of_nat (V div 4294967296)"
    and "drop_bit 12 (of_nat h2 :: u32) OR push_bit 14 (of_nat h3) = of_nat (V div 4294967296 div 4294967296)"
    and "drop_bit 18 (of_nat h3 :: u32) OR push_bit 8 (of_nat h4) = of_nat (V div 4294967296 div 4294967296 div 4294967296)"
proof -
  have V0: "V = h0 + 2 ^ 26 * h1 + 4294967296 * (2 ^ 20 * h2 + 2 ^ 46 * h3 + 2 ^ 72 * h4)"
    unfolding V_def limb_value5 by simp
  have V1: "V div 4294967296 = h1 div 64 + 2 ^ 20 * h2 + 4294967296 * (2 ^ 14 * h3 + 2 ^ 40 * h4)"
    unfolding V0 using shift_limb [OF assms(1), of h1 6 "2 ^ 20 * h2 + 2 ^ 46 * h3 + 2 ^ 72 * h4"] by (simp add: algebra_simps)
  have V2: "V div 4294967296 div 4294967296 = h2 div 4096 + 2 ^ 14 * h3 + 4294967296 * (2 ^ 8 * h4)"
    unfolding V1 using shift_limb [of "h1 div 64" 20 h2 12 "2 ^ 14 * h3 + 2 ^ 40 * h4"] assms(2) by (simp add: algebra_simps less_mult_imp_div_less)
  have V3: "V div 4294967296 div 4294967296 div 4294967296 = h3 div 262144 + 2 ^ 8 * h4"
    unfolding V2 using shift_limb [of "h2 div 4096" 14 h3 18 "2 ^ 8 * h4"] assms(3) by (simp add: algebra_simps less_mult_imp_div_less)
  have high: "(of_nat (x + 4294967296 * y) :: u32) = of_nat x" for x y
    by (metis mod_mult_self2 of_nat_low32)
  show "(of_nat h0 :: u32) OR push_bit 26 (of_nat h1) = of_nat V"
    unfolding V0 high using assms(1) by (rule or_limbs)
  show "drop_bit 6 (of_nat h1 :: u32) OR push_bit 20 (of_nat h2) = of_nat (V div 4294967296)"
    unfolding V1 high using assms(2) or_limbs [of "h1 div 64" 20 h2] drop_bit_of_nat_word [where 'a = 32, of h1 6]
    by (simp add: less_mult_imp_div_less)
  show "drop_bit 12 (of_nat h2 :: u32) OR push_bit 14 (of_nat h3) = of_nat (V div 4294967296 div 4294967296)"
    unfolding V2 high using assms(3) or_limbs [of "h2 div 4096" 14 h3] drop_bit_of_nat_word [where 'a = 32, of h2 12]
    by (simp add: less_mult_imp_div_less)
  show "drop_bit 18 (of_nat h3 :: u32) OR push_bit 8 (of_nat h4) = of_nat (V div 4294967296 div 4294967296 div 4294967296)"
    unfolding V3 using assms(4) or_limbs [of "h3 div 262144" 8 h4] drop_bit_of_nat_word [where 'a = 32, of h3 18]
    by (simp add: less_mult_imp_div_less)
qed

lemma poly_emit_correct:
  assumes F: "length F = 5" "\<forall>x \<in> set F. x < 2 ^ 26"
    and pad: "pad = [of_nat P, of_nat (P div 4294967296), of_nat (P div 4294967296 div 4294967296),
      of_nat (P div 4294967296 div 4294967296 div 4294967296)]"
  shows "poly_emit (limbs F) pad = nat_bytes 16 (limb_value F + P)"
proof -
  obtain h0 h1 h2 h3 h4 where f: "F = [h0, h1, h2, h3, h4]"
    using length5 [OF F(1)] by blast
  define V where "V = limb_value F"
  define c1 where "c1 = (V mod 4294967296 + P mod 4294967296 + 0) div 4294967296"
  let ?V1 = "V div 4294967296" and ?P1 = "P div 4294967296"
  define c2 where "c2 = (?V1 mod 4294967296 + ?P1 mod 4294967296 + c1) div 4294967296"
  let ?V2 = "?V1 div 4294967296" and ?P2 = "?P1 div 4294967296"
  define c3 where "c3 = (?V2 mod 4294967296 + ?P2 mod 4294967296 + c2) div 4294967296"
  let ?V3 = "?V2 div 4294967296" and ?P3 = "?P2 div 4294967296"
  have h: "h0 < 2 ^ 26" "h1 < 2 ^ 26" "h2 < 2 ^ 26" "h3 < 2 ^ 26" "h4 < 2 ^ 26"
    using F(2) by (simp_all add: f)
  note w = limb_words [OF h, folded f, folded V_def]
  note s0 = word_sum [of 0 V P, folded c1_def, OF zero_le]
  note s1 = word_sum [of c1 ?V1 ?P1, folded c2_def, OF s0(3)]
  note s2 = word_sum [of c2 ?V2 ?P2, folded c3_def, OF s1(3)]
  note s3 = word_sum [of c3 ?V3 ?P3, OF s2(3)]
  have S1: "(V + P) div 4294967296 = ?V1 + ?P1 + c1"
    using add_words [of V P 0] by (simp only: c1_def add_0_right)
  have S2: "(?V1 + ?P1 + c1) div 4294967296 = ?V2 + ?P2 + c2"
    unfolding c2_def by (rule add_words)
  have S3: "(?V2 + ?P2 + c2) div 4294967296 = ?V3 + ?P3 + c3"
    unfolding c3_def by (rule add_words)
  have n4: "[x0, x1, x2, x3] ! 0 = x0" "[x0, x1, x2, x3] ! 1 = x1" "[x0, x1, x2, x3] ! 2 = x2" "[x0, x1, x2, x3] ! 3 = x3" for x0 x1 x2 x3 :: u32
    by simp_all
  have f0: "(of_nat (V mod 4294967296) :: u64) + of_nat (P mod 4294967296) = of_nat (V mod 4294967296 + P mod 4294967296 + 0)"
    by simp
  have emit: "poly_emit (limbs F) pad =
      sdb_write_u32_le (sdb_write_u32_le (sdb_write_u32_le (sdb_write_u32_le (zeros 16) 0 (of_nat (V + P)))
        4 (of_nat (?V1 + ?P1 + c1))) 8 (of_nat (?V2 + ?P2 + c2))) 12 (of_nat (?V3 + ?P3 + c3))"
    unfolding poly_emit_def Let_def f limbs_def list.map nth5 pad n4 w
    unfolding ucast_low32 f0
    unfolding s0 of_nat_add [symmetric]
    unfolding s1 of_nat_add [symmetric]
    unfolding s2 of_nat_add [symmetric]
    unfolding s3 add_0_right by (rule refl)
  have n16: "nat_bytes 16 n = nat_bytes 4 n @ nat_bytes 4 (n div 4294967296) @ nat_bytes 4 (n div 4294967296 div 4294967296)
      @ nat_bytes 4 (n div 4294967296 div 4294967296 div 4294967296)" for n
    using nat_bytes_add [of 4 12 n] nat_bytes_add [of 4 8 "n div 4294967296"] nat_bytes_add [of 4 4 "n div 4294967296 div 4294967296"]
    by simp
  have z: "zeros 16 = zeros 4 @ zeros 4 @ zeros 4 @ zeros 4"
    by (simp add: zeros_append)
  show ?thesis
    unfolding emit V_def [symmetric] n16 S1 S2 S3 z
    by (simp add: wr_blits layout_simps le_bytes_of_nat del: of_nat_add)
qed

end
