(* ===== verification/Poly1305_Spec.thy ===== *)
theory Poly1305_Spec
  imports Poly1305
begin

text \<open>
  The authenticator of \<open>src/xchacha20poly1305.c\<close> against its reference: the
  streaming context computes the polynomial of RFC 8439 whatever the sizes of the
  pieces, and \<open>sdb_aead_tag\<close> authenticates the padded associated data, the padded
  ciphertext and the two lengths.
\<close>

section \<open>The authenticator as a polynomial\<close>

text \<open>
  The reference: the message is cut into blocks of 16 bytes, the last one may be
  shorter; each block with a byte 1 appended is a little-endian number, added to
  the accumulator, which is then multiplied by the clamped key half \<open>r\<close>.
\<close>

function poly_eval :: "nat \<Rightarrow> bytes \<Rightarrow> nat \<Rightarrow> nat" where
  "poly_eval r msg acc =
    (if msg = [] then acc
     else poly_eval r (drop 16 msg) ((acc + le_nat (take 16 msg @ [1])) * r mod poly_p))"
  by pat_completeness auto
termination
  by (relation "measure (\<lambda>(r, msg, acc). length msg)") auto

declare poly_eval.simps [simp del]

definition poly_clamp :: "bytes \<Rightarrow> nat" where
  "poly_clamp key = le_nat (take 16 key) AND 0x0ffffffc0ffffffc0ffffffc0fffffff"

definition poly1305_spec :: "bytes \<Rightarrow> bytes \<Rightarrow> bytes" where
  "poly1305_spec key msg = nat_bytes 16 (poly_eval (poly_clamp key) msg 0 + le_nat (drop 16 key))"

lemma poly_eval_Nil [simp]: "poly_eval r [] acc = acc"
  by (simp add: poly_eval.simps)

lemma poly_p_pos: "0 < poly_p"
  by (simp add: poly_p_def)

lemma poly_eval_append:
  "length xs mod 16 = 0 \<Longrightarrow> poly_eval r (xs @ ys) acc = poly_eval r ys (poly_eval r xs acc)"
proof (induction "length xs" arbitrary: xs acc rule: less_induct)
  case less
  show ?case
  proof (cases "xs = []")
    case False
    then have len: "length xs \<ge> 16"
      using less(2) by (cases "length xs < 16") auto
    then have "length (drop 16 xs) mod 16 = 0"
      using less(2) by (simp add: mod_if)
    then show ?thesis
      using less(1) [of "drop 16 xs"] len False by (simp add: poly_eval.simps [of r "xs @ ys"] poly_eval.simps [of r xs])
  qed simp
qed

lemma poly_eval_mod_cong:
  "a mod poly_p = b mod poly_p \<Longrightarrow> poly_eval r xs a mod poly_p = poly_eval r xs b mod poly_p"
proof (induction "length xs" arbitrary: xs a b rule: less_induct)
  case less
  have "(a + n) * r mod poly_p = (b + n) * r mod poly_p" for n
    using less(2) by (metis mod_add_left_eq mod_mult_left_eq)
  then show ?case
    using less(2) by (cases "xs = []") (simp_all add: poly_eval.simps [of r xs])
qed

lemma poly_eval_lt: "acc < poly_p \<Longrightarrow> poly_eval r xs acc < poly_p"
proof (induction "length xs" arbitrary: xs acc rule: less_induct)
  case less
  then show ?case
    using poly_p_pos by (cases "xs = []") (simp_all add: poly_eval.simps [of r xs])
qed

lemma blocks_loop_one: "length m = 16 \<Longrightarrow> poly_blocks_loop r m hb h = poly_block r m hb h"
  by (simp add: poly_blocks_loop.simps [of r m] poly_blocks_loop.simps [of r "[]"])

lemma msg_limbs_bits:
  "msg_limbs n = [take_bit 26 n, take_bit 26 (drop_bit 26 n), take_bit 26 (drop_bit 52 n), take_bit 26 (drop_bit 78 n), drop_bit 104 n]"
  by (simp add: msg_limbs_def take_bit_eq_mod [where 'a = nat] drop_bit_eq_div [where 'a = nat])

lemma read_masked:
  assumes "length m \<ge> 16" "p \<le> 12" "k \<le> 6" "take_bit 26 c = c" "take_bit 26 (of_nat c :: u32) = of_nat c"
  shows "drop_bit k (sdb_read_u32_le m p) AND of_nat c = of_nat (take_bit 26 (drop_bit (8 * p + k) (le_nat (take 16 m))) AND c)"
proof -
  have "drop_bit k (sdb_read_u32_le m p) AND of_nat c = (drop_bit k (sdb_read_u32_le m p) AND 0x3ffffff) AND of_nat c"
    using assms(5) by (simp add: and_limb) (metis and.assoc and.commute take_bit_eq_mask)
  also have "\<dots> = of_nat (take_bit 26 (drop_bit (8 * p + k) (le_nat (take 16 m)))) AND of_nat c"
    by (simp only: read_limb [OF assms(1-3)])
  also have "\<dots> = of_nat (take_bit 26 (drop_bit (8 * p + k) (le_nat (take 16 m))) AND c)"
    by (simp only: of_nat_and_eq)
  finally show ?thesis .
qed

lemma clamp_limbs:
  assumes "length key \<ge> 16"
  shows "poly_r (sdb_poly1305_init key) = limbs (msg_limbs (poly_clamp key))"
proof -
  let ?n = "le_nat (take 16 key)"
  have top: "drop_bit 8 (sdb_read_u32_le key 12) AND of_nat 0x00fffff = of_nat (drop_bit 104 ?n AND 0x00fffff)"
    unfolding top_limb(1) [OF assms] by (simp only: of_nat_and_eq drop_bit_eq_div [where 'a = nat])
  have c: "msg_limbs (poly_clamp key) = [take_bit 26 ?n AND 0x3ffffff, take_bit 26 (drop_bit 26 ?n) AND 0x3ffff03,
      take_bit 26 (drop_bit 52 ?n) AND 0x3ffc0ff, take_bit 26 (drop_bit 78 ?n) AND 0x3f03fff, drop_bit 104 ?n AND 0x00fffff]"
    unfolding msg_limbs_bits poly_clamp_def drop_bit_and take_bit_and by simp
  show ?thesis
    unfolding c
    using read_masked [OF assms, where p = 0 and k = 0 and c = "0x3ffffff"] read_masked [OF assms, where p = 3 and k = 2 and c = "0x3ffff03"] read_masked [OF assms, where p = 6 and k = 4 and c = "0x3ffc0ff"]
      read_masked [OF assms, where p = 9 and k = 6 and c = "0x3f03fff"] top
    by (simp add: sdb_poly1305_init_def limbs_def)
qed

lemma and_nat_le: "(a :: nat) AND b \<le> a"
proof -
  have "int (a AND b) \<le> int a"
    by (simp only: of_nat_and_eq AND_upper1 of_nat_0_le_iff)
  then show ?thesis
    by (simp only: of_nat_le_iff)
qed

lemma clamp_bounds: "i < 5 \<Longrightarrow> msg_limbs (poly_clamp key) ! i < 2 ^ 26"
proof -
  have "le_nat (take 16 key) < 2 ^ 128"
    using le_nat_lt [of "take 16 key"] power_increasing [of "8 * length (take 16 key)" 128 "2 :: nat"] by simp
  moreover have "poly_clamp key \<le> le_nat (take 16 key)"
    unfolding poly_clamp_def by (rule and_nat_le)
  ultimately have "poly_clamp key div 2 ^ 104 < 2 ^ 24"
    by (simp add: less_mult_imp_div_less)
  moreover assume "i < 5"
  then have "i = 0 \<or> i = 1 \<or> i = 2 \<or> i = 3 \<or> i = 4"
    by linarith
  ultimately show ?thesis
    by (auto simp: msg_limbs_def)
qed

lemma init_pad:
  assumes "length key = 32"
  shows "poly_pad (sdb_poly1305_init key) =
    (let P = le_nat (drop 16 key) in [of_nat P, of_nat (P div 4294967296), of_nat (P div 4294967296 div 4294967296),
      of_nat (P div 4294967296 div 4294967296 div 4294967296)])"
proof -
  have "sdb_read_u32_le key (16 + p) = sdb_read_u32_le (drop 16 key) p" if "p \<le> 12" for p
    using that assms by (simp add: le32.rd_slice slice_def add.commute)
  moreover have "sdb_read_u32_le (drop 16 key) p = of_nat (le_nat (drop 16 key) div 2 ^ (8 * p))" if "p \<le> 12" for p
    using that assms read_u32_nat [of "drop 16 key" p]
    by (simp add: drop_bit_eq_div [where 'a = nat] take_bit_eq_mod [where 'a = nat] of_nat_low32)
  ultimately have "sdb_read_u32_le key (16 + p) = of_nat (le_nat (drop 16 key) div 2 ^ (8 * p))" if "p \<le> 12" for p
    using that by simp
  from this [of 0] this [of 4] this [of 8] this [of 12] show ?thesis
    by (simp add: sdb_poly1305_init_def Let_def div_mult2_eq [symmetric])
qed

lemma blocks_loop_correct:
  assumes "length R = 5" "\<And>i. i < 5 \<Longrightarrow> R ! i < 2 ^ 26" "acc_ok H" "length m mod 16 = 0"
  shows "\<exists>K. acc_ok K \<and> poly_blocks_loop (limbs R) m (push_bit 24 1) (limbs H) = limbs K
    \<and> limb_value K mod poly_p = poly_eval (limb_value R) m (limb_value H) mod poly_p"
  using assms(3,4)
proof (induction "length m" arbitrary: m H rule: less_induct)
  case less
  show ?case
  proof (cases "m = []")
    case True
    then show ?thesis
      using less(2) by (auto simp: poly_blocks_loop.simps)
  next
    case False
    then have len: "length m \<ge> 16"
      using less(3) by (cases "length m < 16") auto
    let ?N = "le_nat (take 16 m) + 2 ^ 128"
    obtain K where K: "acc_ok K" "poly_block (limbs R) m (push_bit 24 1) (limbs H) = limbs K"
        "limb_value K mod poly_p = (limb_value H + ?N) * limb_value R mod poly_p"
      using poly_block_correct [OF len assms(1,2) less(2), of "push_bit 24 1" ?N] by blast
    have "length (drop 16 m) mod 16 = 0" "length (drop 16 m) < length m"
      using less(3) len by (simp_all add: mod_if)
    then have "\<exists>L. acc_ok L \<and> poly_blocks_loop (limbs R) (drop 16 m) (push_bit 24 1) (limbs K) = limbs L
        \<and> limb_value L mod poly_p = poly_eval (limb_value R) (drop 16 m) (limb_value K) mod poly_p"
      by (intro less(1) K(1))
    then obtain L where L: "acc_ok L" "poly_blocks_loop (limbs R) (drop 16 m) (push_bit 24 1) (limbs K) = limbs L"
        "limb_value L mod poly_p = poly_eval (limb_value R) (drop 16 m) (limb_value K) mod poly_p"
      by blast
    have "le_nat (take 16 m @ [1]) = ?N"
      using len by (simp add: le_nat_append)
    then have "poly_eval (limb_value R) m (limb_value H) mod poly_p =
        poly_eval (limb_value R) (drop 16 m) ((limb_value H + ?N) * limb_value R mod poly_p) mod poly_p"
      using False by (simp only: poly_eval.simps [of _ m] if_False)
    also have "\<dots> = poly_eval (limb_value R) (drop 16 m) (limb_value K) mod poly_p"
      using K(3) by (intro poly_eval_mod_cong) (simp only: mod_mod_trivial)
    finally show ?thesis
      using L K(2) len by (intro exI [of _ L]) (simp only: poly_blocks_loop.simps [of _ m] if_True)
  qed
qed

section \<open>The streaming context\<close>

text \<open>The accumulator after the whole blocks \<open>d\<close>, and the context with \<open>rest\<close> still buffered.\<close>

definition acc_after :: "bytes \<Rightarrow> bytes \<Rightarrow> sdb_poly1305 \<Rightarrow> bool" where
  "acc_after key d context \<longleftrightarrow>
    length d mod 16 = 0 \<and> poly_r context = limbs (msg_limbs (poly_clamp key))
    \<and> poly_pad context = poly_pad (sdb_poly1305_init key) \<and> length (poly_buffer context) = 16
    \<and> (\<exists>H. acc_ok H \<and> poly_h context = limbs H \<and> limb_value H mod poly_p = poly_eval (poly_clamp key) d 0 mod poly_p)"

definition buffering :: "bytes \<Rightarrow> bytes \<Rightarrow> bytes \<Rightarrow> sdb_poly1305 \<Rightarrow> bool" where
  "buffering key d rest context \<longleftrightarrow>
    acc_after key d context \<and> length rest < 16 \<and> poly_buffered context = length rest
    \<and> take (length rest) (poly_buffer context) = rest"

definition absorbed :: "bytes \<Rightarrow> bytes \<Rightarrow> sdb_poly1305 \<Rightarrow> bool" where
  "absorbed key msg context \<longleftrightarrow> (\<exists>d rest. msg = d @ rest \<and> buffering key d rest context)"

lemma absorbed_init: "length key = 32 \<Longrightarrow> absorbed key [] (sdb_poly1305_init key)"
proof -
  assume "length key = 32"
  moreover have "acc_ok [0, 0, 0, 0, 0]" "limbs [0, 0, 0, 0, 0] = [0, 0, 0, 0, 0]" "limb_value [0, 0, 0, 0, 0] = 0"
    by (simp_all add: acc_ok_def limbs_def limb_value_def)
  ultimately have "acc_after key [] (sdb_poly1305_init key)"
    unfolding acc_after_def using clamp_limbs [of key]
    by (auto simp: sdb_poly1305_init_def intro!: exI [of _ "[0, 0, 0, 0, 0]"])
  then show ?thesis
    by (auto simp: absorbed_def buffering_def sdb_poly1305_init_def)
qed

lemma blocks_fields:
  "poly_r (sdb_poly1305_blocks context m hb) = poly_r context"
  "poly_pad (sdb_poly1305_blocks context m hb) = poly_pad context"
  "poly_buffer (sdb_poly1305_blocks context m hb) = poly_buffer context"
  "poly_buffered (sdb_poly1305_blocks context m hb) = poly_buffered context"
  "poly_h (sdb_poly1305_blocks context m hb) = poly_blocks_loop (poly_r context) m hb (poly_h context)"
  by (simp_all add: sdb_poly1305_blocks_def)

lemma acc_after_blocks:
  assumes "acc_after key d context" "length m mod 16 = 0"
  shows "acc_after key (d @ m) (sdb_poly1305_blocks context m (push_bit 24 1))"
proof -
  obtain H where H: "acc_ok H" "poly_h context = limbs H"
      "limb_value H mod poly_p = poly_eval (poly_clamp key) d 0 mod poly_p" and d: "length d mod 16 = 0"
    using assms(1) unfolding acc_after_def by (elim conjE exE) (rule that; assumption)
  let ?R = "msg_limbs (poly_clamp key)"
  have "length ?R = 5"
    by (simp add: msg_limbs_def)
  then have "\<exists>K. acc_ok K \<and> poly_blocks_loop (limbs ?R) m (push_bit 24 1) (limbs H) = limbs K
      \<and> limb_value K mod poly_p = poly_eval (limb_value ?R) m (limb_value H) mod poly_p"
    by (rule blocks_loop_correct) (use clamp_bounds H(1) assms(2) in blast)+
  moreover have "poly_eval (poly_clamp key) m (limb_value H) mod poly_p = poly_eval (poly_clamp key) (d @ m) 0 mod poly_p"
    unfolding poly_eval_append [OF d] by (rule poly_eval_mod_cong [OF H(3)])
  ultimately have "\<exists>K. acc_ok K \<and> poly_blocks_loop (limbs ?R) m (push_bit 24 1) (limbs H) = limbs K
      \<and> limb_value K mod poly_p = poly_eval (poly_clamp key) (d @ m) 0 mod poly_p"
    unfolding limb_value_msg by (simp only:)
  moreover have "length (d @ m) mod 16 = 0"
    using d assms(2) by (simp add: mod_eq_0_iff_dvd)
  ultimately show ?thesis
    using assms(1) H(2) unfolding acc_after_def blocks_fields by (simp only: simp_thms)
qed

lemma acc_after_buffer:
  "acc_after key d context \<Longrightarrow> length buf = 16 \<Longrightarrow> acc_after key d (context\<lparr>poly_buffer := buf, poly_buffered := n\<rparr>)"
  "acc_after key d context \<Longrightarrow> acc_after key d (context\<lparr>poly_buffered := n\<rparr>)"
  by (simp_all add: acc_after_def)

lemma buffering_store:
  assumes "acc_after key d context" "length rest < 16"
  shows "buffering key d rest (context\<lparr>poly_buffer := blit 0 rest (poly_buffer context), poly_buffered := length rest\<rparr>)"
proof -
  have "length (poly_buffer context) = 16"
    using assms(1) by (simp add: acc_after_def)
  then have "length (blit 0 rest (poly_buffer context)) = 16" "take (length rest) (blit 0 rest (poly_buffer context)) = rest"
    using assms(2) by (simp_all add: blit_def)
  then show ?thesis
    using acc_after_buffer(1) [OF assms(1)] assms(2) by (simp add: buffering_def)
qed

lemma fill_correct:
  assumes "buffering key d rest context" "poly_fill context x = (context', y)"
  shows "\<exists>d' rest'. buffering key d' rest' context' \<and> d' @ rest' @ y = d @ rest @ x \<and> (rest' = [] \<or> y = [])"
proof (cases "rest = []")
  case True
  then show ?thesis
    using assms by (auto simp: poly_fill_def buffering_def)
next
  case False
  let ?t = "min (length x) (16 - length rest)"
  let ?buf = "blit (length rest) (take ?t x) (poly_buffer context)"
  let ?c = "context\<lparr>poly_buffer := ?buf, poly_buffered := length rest + ?t\<rparr>"
  have b: "acc_after key d context" "length rest < 16" "poly_buffered context = length rest"
      "take (length rest) (poly_buffer context) = rest" "length (poly_buffer context) = 16"
    using assms(1) by (auto simp: buffering_def acc_after_def)
  have lb: "length ?buf = 16"
    using b by (subst length_blit) auto
  have c: "acc_after key d ?c"
    using acc_after_buffer(1) [OF b(1) lb] .
  have buf: "take (length rest + ?t) ?buf = rest @ take ?t x"
    using b by (simp add: blit_def)
  have fill: "poly_fill context x = (if length rest + ?t = 16 then (sdb_poly1305_blocks ?c ?buf (push_bit 24 1))\<lparr>poly_buffered := 0\<rparr> else ?c, drop ?t x)"
    unfolding poly_fill_def Let_def b(3) min_def [symmetric] using False b(2)
    by (simp add: min_def)
  show ?thesis
  proof (cases "length rest + ?t = 16")
    case True
    then have "?buf = rest @ take ?t x"
      using buf lb by simp
    then have "acc_after key (d @ rest @ take ?t x) ((sdb_poly1305_blocks ?c ?buf (push_bit 24 1))\<lparr>poly_buffered := 0\<rparr>)"
      using acc_after_buffer(2) [OF acc_after_blocks [OF c, of ?buf]] lb by simp
    then have "buffering key (d @ rest @ take ?t x) [] context'"
      using fill assms(2) True by (auto simp: buffering_def)
    moreover have "y = drop ?t x"
      using fill assms(2) by simp
    ultimately show ?thesis
      by (intro exI [of _ "d @ rest @ take ?t x"] exI [of _ "[]"]) simp
  next
    case nf: False
    then have t: "?t = length x"
      using b(2) by (simp add: min_def split: if_splits)
    then have "buffering key d (rest @ x) ?c"
      using c buf nf b(2) by (simp add: buffering_def)
    then show ?thesis
      using fill assms(2) nf t by (intro exI [of _ d] exI [of _ "rest @ x"]) simp
  qed
qed

lemma absorbed_update:
  assumes "absorbed key msg context"
  shows "absorbed key (msg @ x) (sdb_poly1305_update context x)"
proof -
  obtain d rest where msg: "msg = d @ rest" and b: "buffering key d rest context"
    using assms by (auto simp: absorbed_def)
  obtain context' y where f: "poly_fill context x = (context', y)"
    by (cases "poly_fill context x")
  obtain d' rest' where b': "buffering key d' rest' context'" and cat: "d' @ rest' @ y = d @ rest @ x" and e: "rest' = [] \<or> y = []"
    using fill_correct [OF b f] by blast
  let ?n = "length y div 16 * 16"
  show ?thesis
  proof (cases "y = []")
    case True
    then have "sdb_poly1305_update context x = context'" "msg @ x = d' @ rest'"
      using f cat msg by (simp_all add: sdb_poly1305_update_def)
    then show ?thesis
      using b' by (auto simp: absorbed_def)
  next
    case False
    then have r: "rest' = []"
      using e by simp
    have acc: "acc_after key d' context'" "poly_buffered context' = 0"
      using b' r by (simp_all add: buffering_def)
    let ?c = "if length y \<ge> 16 then sdb_poly1305_blocks context' (take ?n y) (push_bit 24 1) else context'"
    have n0: "length y < 16 \<Longrightarrow> ?n = 0"
      by simp
    have c: "acc_after key (d' @ take ?n y) ?c"
    proof (cases "length y \<ge> 16")
      case True
      have "length (take ?n y) mod 16 = 0"
        by (simp add: min_absorb2)
      then show ?thesis
        using acc_after_blocks [OF acc(1)] True by (simp only: if_True)
    next
      case False
      then show ?thesis
        using acc(1) n0 by simp
    qed
    have bc: "poly_buffered ?c = 0"
      using acc(2) by (simp add: blocks_fields)
    have up: "sdb_poly1305_update context x = (if drop ?n y \<noteq> [] then
        ?c\<lparr>poly_buffer := blit 0 (drop ?n y) (poly_buffer ?c), poly_buffered := length (drop ?n y)\<rparr> else ?c)"
      using f n0 by (auto simp: sdb_poly1305_update_def Let_def)
    have lt: "length (drop ?n y) < 16"
      by (simp add: minus_div_mult_eq_mod)
    have "buffering key (d' @ take ?n y) (drop ?n y) (sdb_poly1305_update context x)"
    proof (cases "drop ?n y = []")
      case True
      then show ?thesis
        unfolding up using c bc by (simp only: buffering_def simp_thms if_False list.size take_0)
    next
      case nn: False
      then show ?thesis
        unfolding up using buffering_store [OF c lt] by (simp only: if_True simp_thms)
    qed
    moreover have "msg @ x = (d' @ take ?n y) @ drop ?n y"
      using cat msg r by simp
    ultimately show ?thesis
      unfolding absorbed_def by blast
  qed
qed

text \<open>The last, short block and the output.\<close>

lemma final_absorbed:
  assumes "length key = 32" "absorbed key msg context"
  shows "sdb_poly1305_final context = poly1305_spec key msg"
proof -
  obtain d rest where msg: "msg = d @ rest" and b: "buffering key d rest context"
    using assms by (auto simp: absorbed_def)
  let ?R = "msg_limbs (poly_clamp key)" and ?c = "poly_last_block context"
  have ctx: "length d mod 16 = 0" "poly_r context = limbs ?R" "poly_pad context = poly_pad (sdb_poly1305_init key)"
      "length (poly_buffer context) = 16" "length rest < 16" "poly_buffered context = length rest"
      "take (length rest) (poly_buffer context) = rest"
    using b by (simp_all add: buffering_def acc_after_def)
  obtain H where H: "acc_ok H" "poly_h context = limbs H" "limb_value H mod poly_p = poly_eval (poly_clamp key) d 0 mod poly_p"
    using b unfolding buffering_def acc_after_def by (elim conjE exE) (rule that; assumption)
  have pad: "poly_pad ?c = poly_pad (sdb_poly1305_init key)"
    using ctx by (simp add: poly_last_block_def Let_def blocks_fields)
  have "\<exists>K. acc_ok K \<and> poly_h ?c = limbs K \<and> limb_value K mod poly_p = poly_eval (poly_clamp key) msg 0 mod poly_p"
  proof (cases "rest = []")
    case True
    then have "?c = context" "msg = d"
      using ctx msg by (simp_all add: poly_last_block_def)
    then show ?thesis
      using H by (intro exI [of _ H]) (simp only: simp_thms)
  next
    case False
    let ?n = "length rest + 1"
    let ?buf = "rest @ 1 # zeros (16 - ?n)"
    have "blit ?n (zeros (16 - ?n)) ((poly_buffer context)[length rest := 1]) = ?buf"
      using ctx by (simp add: blit_def upd_conv_take_nth_drop take_Cons' ctx(7))
    then have "poly_h ?c = poly_blocks_loop (limbs ?R) ?buf 0 (limbs H)"
      using False ctx H(2) by (simp add: poly_last_block_def Let_def blocks_fields)
    also have "\<dots> = poly_block (limbs ?R) ?buf 0 (limbs H)"
      using ctx(5) by (intro blocks_loop_one) simp
    finally have h: "poly_h ?c = poly_block (limbs ?R) ?buf 0 (limbs H)" .
    have N: "le_nat (take 16 ?buf) = le_nat (take 16 rest @ [1])"
      using ctx(5) by (simp add: le_nat_append le_nat_zeros)
    have "\<exists>K. acc_ok K \<and> poly_block (limbs ?R) ?buf 0 (limbs H) = limbs K
        \<and> limb_value K mod poly_p = (limb_value H + le_nat (take 16 ?buf)) * limb_value ?R mod poly_p"
      using ctx(5) clamp_bounds H(1) by (intro poly_block_correct) (auto simp: msg_limbs_def)
    moreover have "poly_eval (poly_clamp key) msg 0 = (poly_eval (poly_clamp key) d 0 + le_nat (take 16 ?buf)) * poly_clamp key mod poly_p"
      unfolding msg poly_eval_append [OF ctx(1)] N
      using False ctx(5) by (simp add: poly_eval.simps [of _ rest])
    moreover have "(limb_value H + n) * poly_clamp key mod poly_p = (poly_eval (poly_clamp key) d 0 + n) * poly_clamp key mod poly_p" for n
      using H(3) by (metis mod_add_left_eq mod_mult_left_eq)
    ultimately show ?thesis
      unfolding h limb_value_msg by (simp only: mod_mod_trivial)
  qed
  then obtain K where K: "acc_ok K" "poly_h ?c = limbs K" "limb_value K mod poly_p = poly_eval (poly_clamp key) msg 0 mod poly_p"
    by (elim exE conjE) (rule that; assumption)
  obtain F where F: "length F = 5" "\<forall>x \<in> set F. x < 2 ^ 26" "poly_freeze (limbs K) = limbs F" "limb_value F = limb_value K mod poly_p"
    using poly_freeze_correct [OF K(1)] by (elim exE conjE) (rule that; assumption)
  have "limb_value F = poly_eval (poly_clamp key) msg 0"
    unfolding F(4) K(3) using poly_eval_lt [OF poly_p_pos] by (rule mod_less)
  moreover have "poly_emit (limbs F) (poly_pad ?c) = nat_bytes 16 (limb_value F + le_nat (drop 16 key))"
    unfolding pad init_pad [OF assms(1)] Let_def by (rule poly_emit_correct [OF F(1,2) refl])
  ultimately show ?thesis
    unfolding sdb_poly1305_final_def Let_def K(2) F(3) poly1305_spec_def by simp
qed

lemma replicate_numeral: "replicate (numeral k) x = x # replicate (pred_numeral k) x"
  by (simp add: numeral_eq_Suc)

lemma of_nat_mod_256: "(of_nat (n mod 256) :: byte) = of_nat n"
proof -
  have "n mod 256 = take_bit 8 n"
    by (simp add: take_bit_eq_mod)
  then show ?thesis
    by (intro bit_word_eqI) (simp add: bit_simps)
qed

lemma nat_bytes_numeral: "nat_bytes (numeral k) n = of_nat (n mod 256) # nat_bytes (pred_numeral k) (n div 256)"
  by (simp only: numeral_eq_Suc [of k] nat_bytes.simps of_nat_mod_256)

section \<open>Properties\<close>

text \<open>
  C25: The one-time authenticator. Whatever the pieces the message is handed over
  in, the tag the limb arithmetic computes is the polynomial of RFC 8439
  evaluated modulo \<open>2\<^sup>1\<^sup>3\<^sup>0 - 5\<close>, plus the second key half modulo \<open>2\<^sup>1\<^sup>2\<^sup>8\<close>: no
  product, carry or shift loses a bit.
\<close>

theorem poly1305_correct:
  assumes "length key = 32"
  shows "sdb_poly1305_final (fold (\<lambda>piece context. sdb_poly1305_update context piece) pieces (sdb_poly1305_init key))
    = poly1305_spec key (concat pieces)"
proof -
  have "absorbed key msg c \<Longrightarrow>
      absorbed key (msg @ concat pieces) (fold (\<lambda>piece context. sdb_poly1305_update context piece) pieces c)" for msg c
  proof (induction pieces arbitrary: msg c)
    case (Cons piece pieces)
    then show ?case
      using Cons.IH [OF absorbed_update [OF Cons.prems, of piece]] by simp
  qed simp
  from this [OF absorbed_init [OF assms]] show ?thesis
    using final_absorbed [OF assms] by simp
qed

theorem poly1305_correct_witness:
  "sdb_poly1305_final (fold (\<lambda>piece context. sdb_poly1305_update context piece)
     [[67, 114, 121, 112, 116, 111, 103, 114, 97, 112, 104, 105, 99],
      [32, 70, 111, 114, 117, 109, 32, 82, 101, 115, 101, 97, 114, 99, 104, 32, 71, 114, 111, 117, 112]]
     (sdb_poly1305_init [133, 214, 190, 120, 87, 85, 109, 51, 127, 68, 82, 254, 66, 213, 6, 168, 1, 3, 128, 138, 251, 13, 178, 253, 74, 191, 246, 175, 65, 73, 245, 27]))
   = [168, 6, 29, 193, 48, 81, 54, 198, 194, 43, 139, 175, 12, 1, 39, 169]"
  by (subst poly1305_correct)
    (simp_all add: poly1305_spec_def poly_eval.simps poly_clamp_def poly_p_def, simp add: nat_bytes_numeral)

lemma pad16_zeros: "absorbed key msg context \<Longrightarrow>
    absorbed key (msg @ zeros ((16 - n mod 16) mod 16)) (sdb_poly1305_pad16 context n)"
  using absorbed_update [of key msg "context" "zeros (16 - n mod 16)"] by (auto simp: sdb_poly1305_pad16_def Let_def)

definition pad16 :: "bytes \<Rightarrow> bytes" where
  "pad16 xs = xs @ zeros ((16 - length xs mod 16) mod 16)"

lemma aead_tag_spec:
  assumes "length key = 32"
  shows "sdb_aead_tag key aad ciphertext =
    poly1305_spec key (pad16 aad @ pad16 ciphertext @ nat_bytes 8 (length aad) @ nat_bytes 8 (length ciphertext))"
proof -
  have up: "absorbed key msg c \<Longrightarrow>
      absorbed key (msg @ pad16 x) (sdb_poly1305_pad16 (if length x \<noteq> 0 then sdb_poly1305_update c x else c) (length x))"
    for msg c x
    unfolding pad16_def append_assoc [symmetric] by (rule pad16_zeros) (auto intro: absorbed_update)
  have z: "zeros 16 = zeros 8 @ zeros 8"
    by (simp add: zeros_append)
  have lens: "sdb_write_u64_le (sdb_write_u64_le (zeros 16) 0 (of_nat (length aad))) 8 (of_nat (length ciphertext)) =
      nat_bytes 8 (length aad) @ nat_bytes 8 (length ciphertext)"
    unfolding z by (simp add: wr_blits layout_simps le_bytes_of_nat)
  show ?thesis
    unfolding sdb_aead_tag_def Let_def lens
    using absorbed_update [OF up [OF up [OF absorbed_init [OF assms]]]]
    by (intro final_absorbed [OF assms]) simp
qed

text \<open>
  The tag of the authenticated encryption is the one-time authenticator over
  the associated data and the ciphertext, each padded with zeros to a multiple
  of 16 bytes, followed by their two lengths as 64-bit little-endian numbers.
\<close>

theorem aead_tag_correct:
  assumes "length key = 32"
  shows "sdb_aead_tag key aad ciphertext =
    poly1305_spec key (pad16 aad @ pad16 ciphertext @ nat_bytes 8 (length aad) @ nat_bytes 8 (length ciphertext))"
  using assms by (rule aead_tag_spec)

theorem aead_tag_correct_witness:
  "sdb_aead_tag [133, 214, 190, 120, 87, 85, 109, 51, 127, 68, 82, 254, 66, 213, 6, 168, 1, 3, 128, 138, 251, 13, 178, 253, 74, 191, 246, 175, 65, 73, 245, 27]
     [1, 2, 3] [4, 5]
   = [133, 8, 92, 211, 169, 233, 59, 177, 186, 238, 73, 125, 100, 237, 39, 192]"
proof -
  have key: "length [133 :: byte, 214, 190, 120, 87, 85, 109, 51, 127, 68, 82, 254, 66, 213, 6, 168, 1, 3, 128, 138, 251, 13, 178, 253, 74, 191, 246, 175, 65, 73, 245, 27] = 32"
    by simp
  have msg: "pad16 [1, 2, 3] @ pad16 [4, 5] @ nat_bytes 8 (length [1 :: byte, 2, 3]) @ nat_bytes 8 (length [4 :: byte, 5]) =
      [1, 2, 3, 0, 0, 0, 0, 0, 0, 0, 0, 0, 0, 0, 0, 0, 4, 5, 0, 0, 0, 0, 0, 0, 0, 0, 0, 0, 0, 0, 0, 0,
       3, 0, 0, 0, 0, 0, 0, 0, 2, 0, 0, 0, 0, 0, 0, 0]"
    by (simp add: pad16_def zeros_def nat_bytes_numeral replicate_numeral)
  show ?thesis
    unfolding aead_tag_correct [OF key] msg
    by (simp add: poly1305_spec_def poly_eval.simps poly_clamp_def poly_p_def, simp add: nat_bytes_numeral)
qed

end
