(* ===== verification/Chacha.thy ===== *)
theory Chacha
  imports Poly1305_Spec Sha256
begin

text \<open>
  The stream cipher and the authenticated encryption of
  \<open>src/xchacha20poly1305.c\<close>, with the eight-lane implementation of
  \<open>src/chacha_avx2.c\<close>. A 256-bit register is the list of its eight 32-bit lanes;
  whether the processor has the instructions is the argument \<open>avx2\<close>. Buffers that
  hold key material are wiped after use, which has no counterpart here.
\<close>

section \<open>The block function\<close>

definition sdb_rotl32 :: "u32 \<Rightarrow> nat \<Rightarrow> u32" where
  "sdb_rotl32 value amount = push_bit amount value OR drop_bit (32 - amount) value"

definition sdb_chacha_quarter :: "u32 \<Rightarrow> u32 \<Rightarrow> u32 \<Rightarrow> u32 \<Rightarrow> u32 \<times> u32 \<times> u32 \<times> u32" where
  "sdb_chacha_quarter a b c d =
    (let a = a + b; d = d XOR a; d = sdb_rotl32 d 16;
         c = c + d; b = b XOR c; b = sdb_rotl32 b 12;
         a = a + b; d = d XOR a; d = sdb_rotl32 d 8;
         c = c + d; b = b XOR c; b = sdb_rotl32 b 7
     in (a, b, c, d))"

definition quarter_at :: "nat \<Rightarrow> nat \<Rightarrow> nat \<Rightarrow> nat \<Rightarrow> u32 list \<Rightarrow> u32 list" where
  "quarter_at i j k l state =
    (let (a, b, c, d) = sdb_chacha_quarter (state ! i) (state ! j) (state ! k) (state ! l)
     in state[i := a, j := b, k := c, l := d])"

definition double_round :: "u32 list \<Rightarrow> u32 list" where
  "double_round state =
    (let state = quarter_at 0 4 8 12 state;
         state = quarter_at 1 5 9 13 state;
         state = quarter_at 2 6 10 14 state;
         state = quarter_at 3 7 11 15 state;
         state = quarter_at 0 5 10 15 state;
         state = quarter_at 1 6 11 12 state;
         state = quarter_at 2 7 8 13 state
     in quarter_at 3 4 9 14 state)"

definition sdb_chacha_rounds :: "u32 list \<Rightarrow> u32 list" where
  "sdb_chacha_rounds state = fold (\<lambda>round state. double_round state) [0..<10] state"

definition chacha_constants :: "u32 list" where
  "chacha_constants = [0x61707865, 0x3320646e, 0x79622d32, 0x6b206574]"

definition key_words :: "bytes \<Rightarrow> u32 list" where
  "key_words key = map (\<lambda>index. sdb_read_u32_le key (index * 4)) [0..<8]"

definition sdb_chacha_state :: "bytes \<Rightarrow> u32 \<Rightarrow> bytes \<Rightarrow> u32 list" where
  "sdb_chacha_state key counter nonce =
    chacha_constants @ key_words key @
      [counter, sdb_read_u32_le nonce 0, sdb_read_u32_le nonce 4, sdb_read_u32_le nonce 8]"

definition sdb_chacha_block :: "bytes \<Rightarrow> u32 \<Rightarrow> bytes \<Rightarrow> bytes" where
  "sdb_chacha_block key counter nonce =
    (let initial = sdb_chacha_state key counter nonce;
         state = sdb_chacha_rounds initial
     in fold (\<lambda>index output. sdb_write_u32_le output (index * 4) (state ! index + initial ! index)) [0..<16] (zeros 64))"

definition sdb_hchacha20 :: "bytes \<Rightarrow> bytes \<Rightarrow> bytes" where
  "sdb_hchacha20 key nonce =
    (let state = chacha_constants @ key_words key @ map (\<lambda>index. sdb_read_u32_le nonce (index * 4)) [0..<4];
         state = sdb_chacha_rounds state;
         output = zeros 32;
         output = sdb_write_u32_le output 0 (state ! 0);
         output = sdb_write_u32_le output 4 (state ! 1);
         output = sdb_write_u32_le output 8 (state ! 2);
         output = sdb_write_u32_le output 12 (state ! 3);
         output = sdb_write_u32_le output 16 (state ! 12);
         output = sdb_write_u32_le output 20 (state ! 13);
         output = sdb_write_u32_le output 24 (state ! 14)
     in sdb_write_u32_le output 28 (state ! 15))"

section \<open>The eight-lane implementation\<close>

type_synonym m256 = "u32 list"

definition mm256_set1_epi32 :: "u32 \<Rightarrow> m256" where
  "mm256_set1_epi32 x = replicate 8 x"

definition mm256_add_epi32 :: "m256 \<Rightarrow> m256 \<Rightarrow> m256" where
  "mm256_add_epi32 x y = map2 (+) x y"

definition mm256_xor_si256 :: "m256 \<Rightarrow> m256 \<Rightarrow> m256" where
  "mm256_xor_si256 x y = map2 (\<lambda>a b. a XOR b) x y"

definition mm256_or_si256 :: "m256 \<Rightarrow> m256 \<Rightarrow> m256" where
  "mm256_or_si256 x y = map2 (\<lambda>a b. a OR b) x y"

definition mm256_slli_epi32 :: "m256 \<Rightarrow> nat \<Rightarrow> m256" where
  "mm256_slli_epi32 x n = map (push_bit n) x"

definition mm256_srli_epi32 :: "m256 \<Rightarrow> nat \<Rightarrow> m256" where
  "mm256_srli_epi32 x n = map (drop_bit n) x"

definition SDB_ROTV :: "m256 \<Rightarrow> nat \<Rightarrow> m256" where
  "SDB_ROTV x n = mm256_or_si256 (mm256_slli_epi32 x n) (mm256_srli_epi32 x (32 - n))"

definition SDB_QR :: "nat \<Rightarrow> nat \<Rightarrow> nat \<Rightarrow> nat \<Rightarrow> m256 list \<Rightarrow> m256 list" where
  "SDB_QR i j k l v =
    (let a = v ! i; b = v ! j; c = v ! k; d = v ! l;
         a = mm256_add_epi32 a b; d = mm256_xor_si256 d a; d = SDB_ROTV d 16;
         c = mm256_add_epi32 c d; b = mm256_xor_si256 b c; b = SDB_ROTV b 12;
         a = mm256_add_epi32 a b; d = mm256_xor_si256 d a; d = SDB_ROTV d 8;
         c = mm256_add_epi32 c d; b = mm256_xor_si256 b c; b = SDB_ROTV b 7
     in v[i := a, j := b, k := c, l := d])"

definition sdb_rd32le :: "bytes \<Rightarrow> nat \<Rightarrow> u32" where
  "sdb_rd32le p i = ucast (p ! i) OR push_bit 8 (ucast (p ! (i + 1)))
    OR push_bit 16 (ucast (p ! (i + 2))) OR push_bit 24 (ucast (p ! (i + 3)))"

definition sdb_wr32le :: "bytes \<Rightarrow> nat \<Rightarrow> u32 \<Rightarrow> bytes" where
  "sdb_wr32le p i v = p[i := ucast v, i + 1 := ucast (drop_bit 8 v), i + 2 := ucast (drop_bit 16 v), i + 3 := ucast (drop_bit 24 v)]"

definition chacha8_init :: "bytes \<Rightarrow> bytes \<Rightarrow> u32 \<Rightarrow> m256 list" where
  "chacha8_init key nonce counter =
    map mm256_set1_epi32 [0x61707865, 0x3320646e, 0x79622d32, 0x6b206574]
    @ map (\<lambda>i. mm256_set1_epi32 (sdb_rd32le key (i * 4))) [0..<8]
    @ [mm256_add_epi32 (mm256_set1_epi32 counter) [0, 1, 2, 3, 4, 5, 6, 7],
       mm256_set1_epi32 (sdb_rd32le nonce 0), mm256_set1_epi32 (sdb_rd32le nonce 4), mm256_set1_epi32 (sdb_rd32le nonce 8)]"

definition chacha8_round :: "m256 list \<Rightarrow> m256 list" where
  "chacha8_round v =
    (let v = SDB_QR 0 4 8 12 v; v = SDB_QR 1 5 9 13 v; v = SDB_QR 2 6 10 14 v; v = SDB_QR 3 7 11 15 v;
         v = SDB_QR 0 5 10 15 v; v = SDB_QR 1 6 11 12 v; v = SDB_QR 2 7 8 13 v
     in SDB_QR 3 4 9 14 v)"

definition chacha8_group :: "bytes \<Rightarrow> bytes \<Rightarrow> u32 \<Rightarrow> bytes \<Rightarrow> bytes" where
  "chacha8_group key nonce counter input =
    (let init = chacha8_init key nonce counter;
         v = fold (\<lambda>r v. chacha8_round v) [0..<10] init;
         ks = map2 mm256_add_epi32 v init
     in concat (map (\<lambda>j. let keystream = fold (\<lambda>i keystream. sdb_wr32le keystream (i * 4) (ks ! i ! j)) [0..<16] (zeros 64)
                         in map (\<lambda>i. input ! (j * 64 + i) XOR keystream ! i) [0..<64]) [0..<8]))"

primrec sdb_chacha8_xor :: "bytes \<Rightarrow> bytes \<Rightarrow> u32 \<Rightarrow> bytes \<Rightarrow> nat \<Rightarrow> bytes" where
  "sdb_chacha8_xor key nonce counter input 0 = []"
| "sdb_chacha8_xor key nonce counter input (Suc groups) =
    chacha8_group key nonce counter input @ sdb_chacha8_xor key nonce (counter + 8) (drop 512 input) groups"

section \<open>The stream\<close>

function chacha_loop :: "bytes \<Rightarrow> bytes \<Rightarrow> u32 \<Rightarrow> bytes \<Rightarrow> bytes" where
  "chacha_loop key nonce counter input =
    (if length input \<noteq> 0
     then let taken = (if length input < 64 then length input else 64);
              block = sdb_chacha_block key counter nonce
          in map (\<lambda>index. input ! index XOR block ! index) [0..<taken]
             @ chacha_loop key nonce (counter + 1) (drop taken input)
     else [])"
  by pat_completeness auto
termination
  by (relation "measure (\<lambda>(key, nonce, counter, input). length input)") auto

declare chacha_loop.simps [simp del]

definition sdb_chacha_xor :: "bool \<Rightarrow> bytes \<Rightarrow> bytes \<Rightarrow> u32 \<Rightarrow> bytes \<Rightarrow> bytes" where
  "sdb_chacha_xor avx2 key nonce counter input =
    (if length input \<ge> 512 \<and> avx2
     then let groups = length input div 512;
              n = groups * 512
          in sdb_chacha8_xor key nonce counter input groups
             @ chacha_loop key nonce (counter + of_nat (groups * 8)) (drop n input)
     else chacha_loop key nonce counter input)"

section \<open>Authenticated encryption\<close>

definition sdb_xchacha_setup :: "bytes \<Rightarrow> bytes \<Rightarrow> bytes \<times> bytes" where
  "sdb_xchacha_setup key nonce = (sdb_hchacha20 key nonce, zeros 4 @ slice 16 8 nonce)"

definition UINT32_MAX :: nat where
  "UINT32_MAX = 2 ^ 32 - 1"

definition sdb_xchacha20poly1305_encrypt :: "bool \<Rightarrow> bytes \<Rightarrow> bytes \<Rightarrow> bytes \<Rightarrow> bytes \<Rightarrow> (bytes \<times> bytes) result" where
  "sdb_xchacha20poly1305_encrypt avx2 key nonce aad plaintext =
    (if length plaintext > (UINT32_MAX - 1) * 64 then Inl SDB_E_INVALID_ARGUMENT
     else let (subkey, ietf_nonce) = sdb_xchacha_setup key nonce;
              first_block = sdb_chacha_block subkey 0 ietf_nonce;
              ciphertext = (if length plaintext \<noteq> 0 then sdb_chacha_xor avx2 subkey ietf_nonce 1 plaintext else []);
              tag = sdb_aead_tag (take 32 first_block) aad ciphertext
          in Inr (ciphertext, tag))"

definition sdb_xchacha20poly1305_decrypt :: "bool \<Rightarrow> bytes \<Rightarrow> bytes \<Rightarrow> bytes \<Rightarrow> bytes \<Rightarrow> bytes \<Rightarrow> bytes result" where
  "sdb_xchacha20poly1305_decrypt avx2 key nonce aad ciphertext tag =
    (if length ciphertext > (UINT32_MAX - 1) * 64 then Inl SDB_E_INVALID_ARGUMENT
     else let (subkey, ietf_nonce) = sdb_xchacha_setup key nonce;
              first_block = sdb_chacha_block subkey 0 ietf_nonce;
              expected = sdb_aead_tag (take 32 first_block) aad ciphertext
          in if \<not> sdb_constant_time_equal expected tag 16 then Inl SDB_E_CORRUPT
             else Inr (if length ciphertext \<noteq> 0 then sdb_chacha_xor avx2 subkey ietf_nonce 1 ciphertext else []))"

section \<open>One block as a concatenation of words\<close>

definition words_le :: "u32 list \<Rightarrow> bytes" where
  "words_le ws = concat (map (le_bytes 4) ws)"

lemma length_words_le [simp]: "length (words_le ws) = 4 * length ws"
  by (induction ws) (simp_all add: words_le_def)

lemma write_words:
  assumes wr: "\<And>buf p v. p + 4 \<le> length buf \<Longrightarrow> wr buf p v = blit p (le_bytes 4 v) buf" and "n \<le> m"
  shows "fold (\<lambda>i out. wr out (i * 4) (f i)) [0..<n] (zeros (m * 4)) = words_le (map f [0..<n]) @ zeros ((m - n) * 4)"
  using assms(2)
proof (induction n)
  case (Suc n)
  have z: "zeros ((m - n) * 4) = zeros 4 @ zeros ((m - Suc n) * 4)"
    using Suc.prems by (simp add: zeros_append diff_mult_distrib)
  have "fold (\<lambda>i out. wr out (i * 4) (f i)) [0..<Suc n] (zeros (m * 4))
      = wr (words_le (map f [0..<n]) @ zeros 4 @ zeros ((m - Suc n) * 4)) (n * 4) (f n)"
    using Suc by (simp add: z)
  also have "\<dots> = words_le (map f [0..<n]) @ le_bytes 4 (f n) @ zeros ((m - Suc n) * 4)"
    by (subst wr) (simp_all add: layout_simps)
  finally show ?case
    by (simp add: words_le_def)
qed (simp add: words_le_def)

lemma wr32le_blit: "p + 4 \<le> length buf \<Longrightarrow> sdb_wr32le buf p v = blit p (le_bytes 4 v) buf"
  using fold_update_blit [of p 4 buf "\<lambda>i. ucast (drop_bit (i * 8) v)"]
  by (simp add: sdb_wr32le_def le_bytes_map upt_rec numeral_3_eq_3)

lemma chacha_block_words:
  "sdb_chacha_block key counter nonce = words_le (map (\<lambda>i. sdb_chacha_rounds (sdb_chacha_state key counter nonce) ! i
    + sdb_chacha_state key counter nonce ! i) [0..<16])"
  using write_words [of sdb_write_u32_le 16 16] by (simp add: sdb_chacha_block_def Let_def wr_blits)

lemma length_chacha_block [simp]: "length (sdb_chacha_block key counter nonce) = 64"
  by (simp add: chacha_block_words)

section \<open>Lanes\<close>

text \<open>The state of one block inside the registers.\<close>

definition lane :: "nat \<Rightarrow> m256 list \<Rightarrow> u32 list" where
  "lane n v = map (\<lambda>x. x ! n) v"

definition m256s :: "m256 list \<Rightarrow> bool" where
  "m256s v \<longleftrightarrow> length v = 16 \<and> (\<forall>x \<in> set v. length x = 8)"

lemma m256_lengths [simp]:
  "length (mm256_add_epi32 x y) = min (length x) (length y)"
  "length (mm256_xor_si256 x y) = min (length x) (length y)"
  "length (SDB_ROTV x n) = length x"
  "length (mm256_set1_epi32 w) = 8"
  by (simp_all add: mm256_add_epi32_def mm256_xor_si256_def SDB_ROTV_def mm256_or_si256_def mm256_slli_epi32_def
      mm256_srli_epi32_def mm256_set1_epi32_def)

lemma m256_nths [simp]:
  "n < length x \<Longrightarrow> n < length y \<Longrightarrow> mm256_add_epi32 x y ! n = x ! n + y ! n"
  "n < length x \<Longrightarrow> n < length y \<Longrightarrow> mm256_xor_si256 x y ! n = x ! n XOR y ! n"
  "n < length x \<Longrightarrow> SDB_ROTV x k ! n = sdb_rotl32 (x ! n) k"
  "n < 8 \<Longrightarrow> mm256_set1_epi32 w ! n = w"
  by (simp_all add: mm256_add_epi32_def mm256_xor_si256_def SDB_ROTV_def mm256_or_si256_def mm256_slli_epi32_def
      mm256_srli_epi32_def mm256_set1_epi32_def sdb_rotl32_def)

lemma m256s_update: "m256s v \<Longrightarrow> length x = 8 \<Longrightarrow> m256s (v[i := x])"
  using set_update_subset_insert [of v i x] by (auto simp: m256s_def)

lemma m256s_nth: "m256s v \<Longrightarrow> i < 16 \<Longrightarrow> length (v ! i) = 8"
  by (simp add: m256s_def)

lemma QR_lane:
  assumes "m256s v" "i < 16" "j < 16" "k < 16" "l < 16" "n < 8"
  shows "m256s (SDB_QR i j k l v) \<and> lane n (SDB_QR i j k l v) = quarter_at i j k l (lane n v)"
proof -
  have len: "length (v ! i) = 8" "length (v ! j) = 8" "length (v ! k) = 8" "length (v ! l) = 8" "length v = 16"
    using assms by (simp_all add: m256s_def)
  then have "lane n (SDB_QR i j k l v) = quarter_at i j k l (lane n v)"
    using assms by (simp add: SDB_QR_def quarter_at_def sdb_chacha_quarter_def lane_def Let_def map_update)
  moreover have "m256s (SDB_QR i j k l v)"
    using assms(1) len by (simp add: SDB_QR_def Let_def m256s_update)
  ultimately show ?thesis
    by simp
qed

lemma round_lane:
  assumes "m256s v" "n < 8"
  shows "m256s (chacha8_round v) \<and> lane n (chacha8_round v) = double_round (lane n v)"
proof -
  have q: "m256s (SDB_QR i j k l v)" "lane n (SDB_QR i j k l v) = quarter_at i j k l (lane n v)"
    if "m256s v" "i < 16" "j < 16" "k < 16" "l < 16" for i j k l v
    using QR_lane [OF that assms(2)] by simp_all
  show ?thesis
    unfolding chacha8_round_def double_round_def Let_def using assms(1) by (simp add: q)
qed

lemma rounds_lane:
  assumes "m256s v" "n < 8"
  shows "m256s (fold (\<lambda>r v. chacha8_round v) rs v) \<and>
    lane n (fold (\<lambda>r v. chacha8_round v) rs v) = fold (\<lambda>r state. double_round state) rs (lane n v)"
  using assms(1) by (induction rs arbitrary: v) (simp_all add: round_lane [OF _ assms(2)])

lemma rd32le_read: "sdb_rd32le p i = sdb_read_u32_le p i"
  by (simp add: sdb_rd32le_def sdb_read_u32_le_def)

lemma init_lane:
  assumes "n < 8"
  shows "m256s (chacha8_init key nonce counter) \<and>
    lane n (chacha8_init key nonce counter) = sdb_chacha_state key (counter + of_nat n) nonce"
proof -
  have "[0, 1, 2, 3, 4, 5, 6, 7 :: u32] ! n = of_nat n"
    using assms by (auto simp: less_Suc_eq numeral_eq_Suc)
  then show ?thesis
    using assms by (auto simp: m256s_def chacha8_init_def lane_def sdb_chacha_state_def chacha_constants_def key_words_def rd32le_read)
qed

lemma group_blocks:
  "chacha8_group key nonce counter input = concat (map (\<lambda>j.
     map (\<lambda>i. input ! (j * 64 + i) XOR sdb_chacha_block key (counter + of_nat j) nonce ! i) [0..<64]) [0..<8])"
proof -
  define init where "init = chacha8_init key nonce counter"
  define v where "v = fold (\<lambda>r v. chacha8_round v) [0..<10] init"
  have "fold (\<lambda>i keystream. sdb_wr32le keystream (i * 4) (map2 mm256_add_epi32 v init ! i ! j)) [0..<16] (zeros 64)
      = sdb_chacha_block key (counter + of_nat j) nonce" if "j < 8" for j
  proof -
    have i: "m256s init" "lane j init = sdb_chacha_state key (counter + of_nat j) nonce"
      using init_lane [OF that] by (simp_all add: init_def)
    have v: "m256s v" "lane j v = sdb_chacha_rounds (sdb_chacha_state key (counter + of_nat j) nonce)"
      unfolding v_def sdb_chacha_rounds_def i(2) [symmetric] using rounds_lane [OF i(1) that] by blast+
    have "map2 mm256_add_epi32 v init ! k ! j = lane j v ! k + lane j init ! k" if "k < 16" for k
      using i(1) v(1) that \<open>j < 8\<close> by (simp add: m256s_def lane_def)
    then have m: "map (\<lambda>k. map2 mm256_add_epi32 v init ! k ! j) [0..<16] = map (\<lambda>k. lane j v ! k + lane j init ! k) [0..<16]"
      by simp
    show ?thesis
      unfolding chacha_block_words v(2) [symmetric] unfolding i(2) [symmetric] m [symmetric]
      using write_words [of sdb_wr32le 16 16 "\<lambda>k. map2 mm256_add_epi32 v init ! k ! j"] by (simp add: wr32le_blit)
  qed
  note ks = this
  show ?thesis
    unfolding chacha8_group_def Let_def init_def [symmetric] v_def [symmetric]
  proof (rule arg_cong [where f = concat], rule map_cong [OF refl])
    fix j :: nat
    assume "j \<in> set [0..<8]"
    then show "map (\<lambda>i. input ! (j * 64 + i) XOR fold (\<lambda>i keystream. sdb_wr32le keystream (i * 4) (map2 mm256_add_epi32 v init ! i ! j)) [0..<16] (zeros 64) ! i) [0..<64]
        = map (\<lambda>i. input ! (j * 64 + i) XOR sdb_chacha_block key (counter + of_nat j) nonce ! i) [0..<64]"
      by (simp only: ks set_upt atLeastLessThan_iff)
  qed
qed

section \<open>The stream block by block\<close>

lemma chacha_loop_step:
  "length input \<ge> 64 \<Longrightarrow> chacha_loop key nonce counter input =
    map (\<lambda>i. input ! i XOR sdb_chacha_block key counter nonce ! i) [0..<64] @ chacha_loop key nonce (counter + 1) (drop 64 input)"
  by (subst chacha_loop.simps) (simp only: Let_def, auto)

lemma chacha_loop_short:
  "length input < 64 \<Longrightarrow> chacha_loop key nonce counter input =
    map (\<lambda>i. input ! i XOR sdb_chacha_block key counter nonce ! i) [0..<length input]"
  by (auto simp: chacha_loop.simps [of key nonce counter input] chacha_loop.simps [of _ _ _ "[]"] Let_def)

lemma loop_blocks:
  "64 * n \<le> length input \<Longrightarrow> chacha_loop key nonce counter input =
    concat (map (\<lambda>j. map (\<lambda>i. input ! (j * 64 + i) XOR sdb_chacha_block key (counter + of_nat j) nonce ! i) [0..<64]) [0..<n])
    @ chacha_loop key nonce (counter + of_nat n) (drop (64 * n) input)"
proof (induction n)
  case (Suc n)
  have "chacha_loop key nonce (counter + of_nat n) (drop (64 * n) input) =
      map (\<lambda>i. drop (64 * n) input ! i XOR sdb_chacha_block key (counter + of_nat n) nonce ! i) [0..<64]
      @ chacha_loop key nonce (counter + of_nat n + 1) (drop 64 (drop (64 * n) input))"
    using Suc.prems by (intro chacha_loop_step) simp
  moreover have "map (\<lambda>i. drop (64 * n) input ! i XOR sdb_chacha_block key (counter + of_nat n) nonce ! i) [0..<64] =
      map (\<lambda>i. input ! (n * 64 + i) XOR sdb_chacha_block key (counter + of_nat n) nonce ! i) [0..<64]"
    using Suc.prems by (intro map_cong refl) (simp add: mult.commute)
  moreover have "drop 64 (drop (64 * n) input) = drop (64 * Suc n) input" "counter + of_nat n + 1 = counter + of_nat (Suc n)"
    by (simp_all add: add.commute)
  ultimately show ?case
    using Suc.IH Suc.prems by (simp only: upt_Suc_append zero_le map_append concat_append append_assoc list.map concat.simps append_Nil2) simp
qed simp

lemma chacha8_loop:
  "512 * groups \<le> length input \<Longrightarrow>
    sdb_chacha8_xor key nonce counter input groups @ chacha_loop key nonce (counter + of_nat (groups * 8)) (drop (groups * 512) input)
    = chacha_loop key nonce counter input"
proof (induction groups arbitrary: counter input)
  case (Suc groups)
  have c: "counter + 8 + of_nat (groups * 8) = counter + of_nat (Suc groups * 8)"
    by simp
  have "chacha_loop key nonce counter input = chacha8_group key nonce counter input @ chacha_loop key nonce (counter + 8) (drop 512 input)"
    using loop_blocks [of 8 input key nonce counter] Suc.prems unfolding group_blocks by (simp only: of_nat_numeral) simp
  moreover have "512 * groups \<le> length (drop 512 input)"
    using Suc.prems by simp
  note Suc.IH [OF this, of "counter + 8"]
  moreover have "drop (groups * 512) (drop 512 input) = drop (Suc groups * 512) input"
    by (simp add: add.commute)
  ultimately show ?case
    unfolding c by (simp only: sdb_chacha8_xor.simps append_assoc)
qed simp

lemma chacha_xor_loop: "sdb_chacha_xor avx2 key nonce counter input = chacha_loop key nonce counter input"
proof -
  have "512 * (length input div 512) \<le> length input"
    by simp
  then show ?thesis
    using chacha8_loop [of "length input div 512" input key nonce counter] by (simp add: sdb_chacha_xor_def Let_def)
qed

lemma length_chacha_loop [simp]: "length (chacha_loop key nonce counter input) = length input"
proof (induction "length input" arbitrary: input counter rule: less_induct)
  case less
  show ?case
    using less [of "drop 64 input" "counter + 1"] by (cases "length input < 64") (simp_all add: chacha_loop_short chacha_loop_step)
qed

lemma chacha_loop_involution: "chacha_loop key nonce counter (chacha_loop key nonce counter input) = input"
proof (induction "length input" arbitrary: input counter rule: less_induct)
  case less
  let ?b = "sdb_chacha_block key counter nonce"
  show ?case
  proof (cases "length input < 64")
    case True
    then show ?thesis
      by (intro nth_equalityI) (simp_all add: chacha_loop_short xor.assoc)
  next
    case False
    let ?x = "map (\<lambda>i. input ! i XOR ?b ! i) [0..<64]" and ?r = "chacha_loop key nonce (counter + 1) (drop 64 input)"
    have out: "chacha_loop key nonce counter input = ?x @ ?r"
      using False by (intro chacha_loop_step) simp
    have "chacha_loop key nonce counter (?x @ ?r) = map (\<lambda>i. (?x @ ?r) ! i XOR ?b ! i) [0..<64] @ chacha_loop key nonce (counter + 1) (drop 64 (?x @ ?r))"
      by (intro chacha_loop_step) simp
    also have "map (\<lambda>i. (?x @ ?r) ! i XOR ?b ! i) [0..<64] = take 64 input"
      using False by (intro nth_equalityI) (simp_all add: nth_append xor.assoc)
    also have "drop 64 (?x @ ?r) = ?r"
      by simp
    also have "chacha_loop key nonce (counter + 1) ?r = drop 64 input"
      using less [of "drop 64 input" "counter + 1"] False by simp
    finally show ?thesis
      unfolding out by simp
  qed
qed

lemma nth_chacha_loop:
  "i < length input \<Longrightarrow> chacha_loop key nonce counter input ! i =
    input ! i XOR sdb_chacha_block key (counter + of_nat (i div 64)) nonce ! (i mod 64)"
proof (induction "length input" arbitrary: input counter i rule: less_induct)
  case less
  show ?case
  proof (cases "length input < 64")
    case True
    then show ?thesis
      using less(2) by (simp add: chacha_loop_short)
  next
    case False
    then have step: "chacha_loop key nonce counter input = map (\<lambda>i. input ! i XOR sdb_chacha_block key counter nonce ! i) [0..<64]
        @ chacha_loop key nonce (counter + 1) (drop 64 input)"
      by (intro chacha_loop_step) simp
    show ?thesis
    proof (cases "i < 64")
      case True
      then show ?thesis
        unfolding step by (simp add: nth_append)
    next
      case i: False
      then have "i div 64 = Suc ((i - 64) div 64)" "i mod 64 = (i - 64) mod 64"
        by (simp_all add: le_div_geq le_mod_geq)
      moreover have "chacha_loop key nonce (counter + 1) (drop 64 input) ! (i - 64) = drop 64 input ! (i - 64)
          XOR sdb_chacha_block key (counter + 1 + of_nat ((i - 64) div 64)) nonce ! ((i - 64) mod 64)"
        using less(2) i False by (intro less(1)) simp_all
      ultimately show ?thesis
        unfolding step using i less(2) False by (simp add: nth_append add.assoc)
    qed
  qed
qed

lemma length_poly1305_spec [simp]: "length (poly1305_spec key msg) = 16"
  by (simp add: poly1305_spec_def)

lemma length_aead_tag [simp]: "length (sdb_aead_tag (take 32 (sdb_chacha_block subkey 0 nonce)) aad ciphertext) = 16"
  by (subst aead_tag_spec) simp_all

lemmas aead_unfold = sdb_xchacha20poly1305_encrypt_def sdb_xchacha20poly1305_decrypt_def sdb_xchacha_setup_def
  chacha_xor_loop Let_def

lemma chacha_loop_eq_iff: "chacha_loop key nonce counter x = y \<longleftrightarrow> chacha_loop key nonce counter y = x"
  using chacha_loop_involution by metis

lemma chacha_loop_Nil [simp]: "chacha_loop key nonce counter [] = []"
  by (simp add: chacha_loop.simps)

lemma decrypt_iff_encrypt:
  assumes "length tag = 16"
  shows "sdb_xchacha20poly1305_decrypt avx2 key nonce aad ciphertext tag = Inr plaintext \<longleftrightarrow>
    sdb_xchacha20poly1305_encrypt avx2' key nonce aad plaintext = Inr (ciphertext, tag)"
proof -
  let ?subkey = "sdb_hchacha20 key nonce" and ?nonce = "zeros 4 @ slice 16 8 nonce"
  let ?t = "\<lambda>c. sdb_aead_tag (take 32 (sdb_chacha_block ?subkey 0 ?nonce)) aad c"
  have xor: "(if length x \<noteq> 0 then chacha_loop ?subkey ?nonce 1 x else []) = chacha_loop ?subkey ?nonce 1 x" for x
    by simp
  have dec: "sdb_xchacha20poly1305_decrypt avx2 key nonce aad ciphertext tag = Inr plaintext \<longleftrightarrow>
      length ciphertext \<le> (UINT32_MAX - 1) * 64 \<and> ?t ciphertext = tag \<and> chacha_loop ?subkey ?nonce 1 ciphertext = plaintext"
    using assms unfolding aead_unfold prod.case xor by (auto simp: constant_time_equal_iff)
  have enc: "sdb_xchacha20poly1305_encrypt avx2' key nonce aad plaintext = Inr (ciphertext, tag) \<longleftrightarrow>
      length plaintext \<le> (UINT32_MAX - 1) * 64 \<and> chacha_loop ?subkey ?nonce 1 plaintext = ciphertext \<and> ?t ciphertext = tag"
    unfolding aead_unfold prod.case xor by auto
  show ?thesis
    unfolding dec enc chacha_loop_eq_iff [of _ _ _ ciphertext] by (metis length_chacha_loop)
qed

section \<open>The contract of the cipher\<close>

text \<open>
  What the page format and the key manager rely on. Opening succeeds exactly on
  what sealing produces, sealing succeeds up to the size limit, and a message
  within the limit is either opened or reported corrupt.
\<close>

locale aead_cipher =
  fixes seal :: "bytes \<Rightarrow> bytes \<Rightarrow> bytes \<Rightarrow> bytes \<Rightarrow> (bytes \<times> bytes) result"
    and unseal :: "bytes \<Rightarrow> bytes \<Rightarrow> bytes \<Rightarrow> bytes \<Rightarrow> bytes \<Rightarrow> bytes result"
    and limit :: nat
  assumes unseal_iff: "length t = 16 \<Longrightarrow> unseal k n a c t = Inr p \<longleftrightarrow> seal k n a p = Inr (c, t)"
    and seal_total: "length p \<le> limit \<Longrightarrow> \<exists>c t. seal k n a p = Inr (c, t) \<and> length c = length p \<and> length t = 16"
    and seal_limit: "seal k n a p = Inr (c, t) \<Longrightarrow> length p \<le> limit"
    and unseal_total: "length c \<le> limit \<Longrightarrow> (\<exists>p. unseal k n a c t = Inr p) \<or> unseal k n a c t = Inl SDB_E_CORRUPT"
begin

lemma seal_lengths: "seal k n a p = Inr (c, t) \<Longrightarrow> length c = length p \<and> length t = 16"
  using seal_total [OF seal_limit, of k n a p c t k n a] by auto

lemma unseal_sealed: "seal k n a p = Inr (c, t) \<Longrightarrow> unseal k n a c t = Inr p"
  using unseal_iff seal_lengths by blast

end

interpretation xc: aead_cipher "sdb_xchacha20poly1305_encrypt avx2" "sdb_xchacha20poly1305_decrypt avx2'" "(UINT32_MAX - 1) * 64"
  for avx2 avx2'
proof unfold_locales
  show "length t = 16 \<Longrightarrow> sdb_xchacha20poly1305_decrypt avx2' k n a c t = Inr p \<longleftrightarrow> sdb_xchacha20poly1305_encrypt avx2 k n a p = Inr (c, t)"
    for t k n a c p
    by (rule decrypt_iff_encrypt)
  show "length p \<le> (UINT32_MAX - 1) * 64 \<Longrightarrow>
      \<exists>c t. sdb_xchacha20poly1305_encrypt avx2 k n a p = Inr (c, t) \<and> length c = length p \<and> length t = 16" for p k n a
    by (simp add: aead_unfold)
  show "sdb_xchacha20poly1305_encrypt avx2 k n a p = Inr (c, t) \<Longrightarrow> length p \<le> (UINT32_MAX - 1) * 64" for k n a p c t
    by (auto simp: aead_unfold split: if_splits)
  show "length c \<le> (UINT32_MAX - 1) * 64 \<Longrightarrow> (\<exists>p. sdb_xchacha20poly1305_decrypt avx2' k n a c t = Inr p)
      \<or> sdb_xchacha20poly1305_decrypt avx2' k n a c t = Inl SDB_E_CORRUPT" for c k n a t
    by (simp add: aead_unfold)
qed

section \<open>Properties\<close>

text \<open>
  C26: The eight-lane implementation and the portable one produce the same bytes
  for every key, nonce, counter and input of any size.
\<close>

theorem chacha_simd_equivalent:
  "sdb_chacha_xor True key nonce counter input = sdb_chacha_xor False key nonce counter input"
  by (simp only: chacha_xor_loop)

text \<open>
  C27: Decryption is the exact inverse of encryption: it accepts a ciphertext with
  a tag precisely when encrypting the returned plaintext under the same key,
  nonce and associated data produces that ciphertext and that tag. In
  particular, what was encrypted decrypts to itself, on machines with and
  without the vector instructions alike, and any other tag is refused.
\<close>

theorem aead_decrypt_iff_encrypt:
  assumes "length tag = 16"
  shows "sdb_xchacha20poly1305_decrypt avx2 key nonce aad ciphertext tag = Inr plaintext \<longleftrightarrow>
    sdb_xchacha20poly1305_encrypt avx2' key nonce aad plaintext = Inr (ciphertext, tag)"
  using assms by (rule decrypt_iff_encrypt)

theorem aead_decrypt_iff_encrypt_witness:
  "\<exists>ciphertext tag. sdb_xchacha20poly1305_encrypt False (zeros 32) (zeros 24) [7] [1, 2, 3] = Inr (ciphertext, tag) \<and> length tag = 16 \<and>
     sdb_xchacha20poly1305_decrypt True (zeros 32) (zeros 24) [7] ciphertext tag = Inr [1, 2, 3]"
proof -
  obtain c t where ct: "sdb_xchacha20poly1305_encrypt False (zeros 32) (zeros 24) [7] [1, 2, 3] = Inr (c, t)" "length t = 16"
    by (simp add: aead_unfold UINT32_MAX_def)
  then show ?thesis
    using aead_decrypt_iff_encrypt [OF ct(2), of True "zeros 32" "zeros 24" "[7]" c "[1, 2, 3]" False] by blast
qed

text \<open>
  C28: Every accepted message is encrypted with block counters that do not wrap:
  byte \<open>i\<close> is masked with the keystream block number \<open>i div 64 + 1\<close>, and as a
  32-bit counter that number is neither 0, whose block keys the authenticator,
  nor the number of another block of the message.
\<close>

theorem aead_counter_never_wraps:
  assumes "sdb_xchacha20poly1305_encrypt avx2 key nonce aad plaintext = Inr (ciphertext, tag)" "i < length plaintext"
  shows "ciphertext ! i = plaintext ! i XOR
      sdb_chacha_block (sdb_hchacha20 key nonce) (of_nat (i div 64 + 1)) (zeros 4 @ slice 16 8 nonce) ! (i mod 64)
    \<and> unat (of_nat (i div 64 + 1) :: u32) = i div 64 + 1"
proof -
  have c: "ciphertext = chacha_loop (sdb_hchacha20 key nonce) (zeros 4 @ slice 16 8 nonce) 1 plaintext"
    and n: "length plaintext \<le> (UINT32_MAX - 1) * 64"
    using assms by (auto simp: aead_unfold split: if_splits)
  have "i div 64 < UINT32_MAX - 1"
    using n assms(2) by (intro less_mult_imp_div_less) linarith
  then have "i div 64 + 1 < 2 ^ 32"
    by (simp add: UINT32_MAX_def)
  then have "unat (of_nat (i div 64 + 1) :: u32) = i div 64 + 1"
    by (rule unat_of_nat_u32)
  then show ?thesis
    using nth_chacha_loop [OF assms(2)] by (simp add: c)
qed

theorem aead_counter_never_wraps_witness:
  "\<exists>ciphertext tag. sdb_xchacha20poly1305_encrypt False (zeros 32) (zeros 24) [7] (zeros 65) = Inr (ciphertext, tag) \<and>
     ciphertext ! 64 = zeros 65 ! 64 XOR
       sdb_chacha_block (sdb_hchacha20 (zeros 32) (zeros 24)) (of_nat (64 div 64 + 1)) (zeros 4 @ slice 16 8 (zeros 24)) ! (64 mod 64)
     \<and> unat (of_nat (64 div 64 + 1) :: u32) = 64 div 64 + 1"
proof -
  obtain c t where ct: "sdb_xchacha20poly1305_encrypt False (zeros 32) (zeros 24) [7] (zeros 65) = Inr (c, t)"
    by (simp add: aead_unfold UINT32_MAX_def)
  then show ?thesis
    using aead_counter_never_wraps [OF ct, of 64] by (metis length_zeros numeral_less_iff rel_simps)
qed

end
