(* ===== verification/Encrypted_Page.thy ===== *)
theory Encrypted_Page
  imports Superblock Chacha
begin

text \<open>
  The encrypted page format of \<open>src/encrypted_page.c\<close>: the payload of a page of
  type \<open>SDB_PAGE_TYPE_ENCRYPTED\<close> is a 52-byte header with the nonce and the tag
  followed by the ciphertext, sealed with the file id, the page id, the LSN, the
  plaintext type and size as associated data. The 24 bytes the operating system's
  generator delivers are the argument \<open>random\<close>.
\<close>

section \<open>Model\<close>

definition SDB_ENCRYPTED_PAYLOAD_HEADER_SIZE :: nat where
  "SDB_ENCRYPTED_PAYLOAD_HEADER_SIZE = 52"

definition sdb_encrypted_magic :: bytes where
  "sdb_encrypted_magic = [0x53, 0x45, 0x4e, 0x31]"

definition sdb_encrypted_aad :: "sdb_superblock_v1 \<Rightarrow> u64 \<Rightarrow> u64 \<Rightarrow> u16 \<Rightarrow> u32 \<Rightarrow> bytes" where
  "sdb_encrypted_aad sb page_id page_lsn plaintext_type plaintext_size =
    (let aad = zeros 40;
         aad = blit 0 (file_id sb) aad;
         aad = sdb_write_u64_le aad 16 page_id;
         aad = sdb_write_u64_le aad 24 page_lsn;
         aad = sdb_write_u16_le aad 32 plaintext_type
     in sdb_write_u32_le aad 36 plaintext_size)"

definition sdb_encrypted_page_encode ::
    "(nat \<Rightarrow> bool) \<Rightarrow> bytes result \<Rightarrow> bool \<Rightarrow> sdb_superblock_v1 \<Rightarrow> bytes \<Rightarrow> nat \<Rightarrow> u16 \<Rightarrow> u64 \<Rightarrow> u64 \<Rightarrow> bytes \<Rightarrow> bytes result" where
  "sdb_encrypted_page_encode malloc_ok random avx2 sb data_key psize plaintext_type page_id page_lsn plaintext =
    (if page_id = 0 \<or> (plaintext_type \<noteq> SDB_PAGE_TYPE_DATA \<and> plaintext_type \<noteq> SDB_PAGE_TYPE_FREE)
        \<or> psize < SDB_PAGE_HEADER_SIZE + SDB_ENCRYPTED_PAYLOAD_HEADER_SIZE
        \<or> length plaintext > UINT32_MAX
        \<or> length plaintext > psize - SDB_PAGE_HEADER_SIZE - SDB_ENCRYPTED_PAYLOAD_HEADER_SIZE
     then Inl SDB_E_INVALID_ARGUMENT
     else if \<not> malloc_ok (SDB_ENCRYPTED_PAYLOAD_HEADER_SIZE + length plaintext) then Inl SDB_E_OUT_OF_MEMORY
     else let payload = zeros (SDB_ENCRYPTED_PAYLOAD_HEADER_SIZE + length plaintext);
              payload = blit 0 sdb_encrypted_magic payload;
              payload = sdb_write_u16_le payload 4 1;
              payload = sdb_write_u16_le payload 6 plaintext_type
          in rbind random (\<lambda>nonce.
             let payload = blit 8 nonce payload;
                 payload = sdb_write_u32_le payload 32 (of_nat (length plaintext));
                 aad = sdb_encrypted_aad sb page_id page_lsn plaintext_type (of_nat (length plaintext))
             in rbind (sdb_xchacha20poly1305_encrypt avx2 data_key nonce aad plaintext) (\<lambda>(ciphertext, tag).
                let payload = blit SDB_ENCRYPTED_PAYLOAD_HEADER_SIZE ciphertext payload;
                    payload = blit 36 tag payload
                in sdb_page_encode psize SDB_PAGE_TYPE_ENCRYPTED page_id page_lsn payload)))"

text \<open>
  A failure carries the status and the size the caller reads back, which is
  the required capacity when the buffer is too small.
\<close>

definition sdb_encrypted_page_decrypt ::
    "bool \<Rightarrow> sdb_superblock_v1 \<Rightarrow> bytes \<Rightarrow> sdb_page_view \<Rightarrow> nat \<Rightarrow> (sdb_status \<times> nat) + (u16 \<times> bytes)" where
  "sdb_encrypted_page_decrypt avx2 sb data_key encrypted_view plaintext_capacity =
    (if pv_type encrypted_view \<noteq> SDB_PAGE_TYPE_ENCRYPTED
        \<or> unat (pv_payload_size encrypted_view) < SDB_ENCRYPTED_PAYLOAD_HEADER_SIZE
     then Inl (SDB_E_INVALID_ARGUMENT, 0)
     else let payload = pv_payload encrypted_view;
              version = sdb_read_u16_le payload 4;
              plaintext_type = sdb_read_u16_le payload 6;
              plaintext_size = sdb_read_u32_le payload 32
          in if take 4 payload \<noteq> sdb_encrypted_magic \<or> version \<noteq> 1
                \<or> (plaintext_type \<noteq> SDB_PAGE_TYPE_DATA \<and> plaintext_type \<noteq> SDB_PAGE_TYPE_FREE)
                \<or> unat plaintext_size \<noteq> unat (pv_payload_size encrypted_view) - SDB_ENCRYPTED_PAYLOAD_HEADER_SIZE
             then Inl (SDB_E_CORRUPT, 0)
             else if plaintext_capacity < unat plaintext_size then Inl (SDB_E_BUFFER_TOO_SMALL, unat plaintext_size)
             else let expected_nonce = slice 8 24 payload;
                      aad = sdb_encrypted_aad sb (pv_page_id encrypted_view) (pv_page_lsn encrypted_view) plaintext_type plaintext_size
                  in case sdb_xchacha20poly1305_decrypt avx2 data_key expected_nonce aad
                            (slice SDB_ENCRYPTED_PAYLOAD_HEADER_SIZE (unat plaintext_size) payload) (slice 36 16 payload) of
                       Inl e \<Rightarrow> Inl (e, 0)
                     | Inr plaintext \<Rightarrow> Inr (plaintext_type, plaintext))"

section \<open>The sealed payload\<close>

definition sealed_payload :: "bytes \<Rightarrow> u16 \<Rightarrow> bytes \<Rightarrow> bytes \<Rightarrow> bytes" where
  "sealed_payload nonce type tag ciphertext =
    sdb_encrypted_magic @ le_bytes 2 (1 :: u16) @ le_bytes 2 type @ nonce @ le_bytes 4 (of_nat (length ciphertext) :: u32) @ tag @ ciphertext"

lemma length_encrypted_magic [simp]: "length sdb_encrypted_magic = 4"
  by (simp add: sdb_encrypted_magic_def)

lemma length_sealed_payload [simp]:
  "length nonce = 24 \<Longrightarrow> length tag = 16 \<Longrightarrow> length (sealed_payload nonce type tag c) = 52 + length c"
  by (simp add: sealed_payload_def)

lemma aad_layout:
  assumes "length (file_id sb) = 16"
  shows "sdb_encrypted_aad sb page_id page_lsn type n =
    file_id sb @ le_bytes 8 page_id @ le_bytes 8 page_lsn @ le_bytes 2 type @ zeros 2 @ le_bytes 4 n"
proof -
  have z: "zeros 40 = zeros 16 @ zeros 8 @ zeros 8 @ zeros 2 @ zeros 2 @ zeros 4"
    by (simp add: zeros_append)
  show ?thesis
    using assms unfolding sdb_encrypted_aad_def Let_def z by (simp add: wr_blits layout_simps)
qed

lemma sealed_writes:
  assumes "length nonce = 24" "length c = n" "length t = 16"
  shows "blit 36 t (blit 52 c (sdb_write_u32_le (blit 8 nonce (sdb_write_u16_le (sdb_write_u16_le
      (blit 0 sdb_encrypted_magic (zeros (52 + n))) 4 1) 6 type)) 32 (of_nat n))) = sealed_payload nonce type t c"
proof -
  have z: "zeros (52 + n) = zeros 4 @ zeros 2 @ zeros 2 @ zeros 24 @ zeros 4 @ zeros 16 @ zeros n"
    by (simp add: zeros_append)
  show ?thesis
    using assms unfolding z by (simp add: wr_blits layout_simps sealed_payload_def)
qed

lemma encode_eq:
  assumes "length nonce = 24" "page_id \<noteq> 0" "type = SDB_PAGE_TYPE_DATA \<or> type = SDB_PAGE_TYPE_FREE"
    and "84 + length plaintext \<le> psize" "length plaintext < 2 ^ 32" "malloc_ok (52 + length plaintext)"
    and e: "sdb_xchacha20poly1305_encrypt avx2 data_key nonce
      (sdb_encrypted_aad sb page_id page_lsn type (of_nat (length plaintext))) plaintext = Inr (c, t)"
  shows "sdb_encrypted_page_encode malloc_ok (Inr nonce) avx2 sb data_key psize type page_id page_lsn plaintext =
    sdb_page_encode psize SDB_PAGE_TYPE_ENCRYPTED page_id page_lsn (sealed_payload nonce type t c)"
proof -
  have len: "length c = length plaintext" "length t = 16"
    using xc.seal_lengths [OF e] by simp_all
  show ?thesis
    using assms sealed_writes [OF assms(1) len]
    by (auto simp: sdb_encrypted_page_encode_def SDB_ENCRYPTED_PAYLOAD_HEADER_SIZE_def SDB_PAGE_HEADER_SIZE_def UINT32_MAX_def Let_def)
qed

lemma encode_sealed:
  assumes "length (file_id sb) = 16" "random = Inr nonce" "length nonce = 24"
    and "sdb_encrypted_page_encode malloc_ok random avx2 sb data_key psize type page_id page_lsn plaintext = Inr page"
  obtains c t where "sdb_xchacha20poly1305_encrypt avx2 data_key nonce
      (sdb_encrypted_aad sb page_id page_lsn type (of_nat (length plaintext))) plaintext = Inr (c, t)"
    and "type = SDB_PAGE_TYPE_DATA \<or> type = SDB_PAGE_TYPE_FREE" "length plaintext < 2 ^ 32"
    and "sdb_page_encode psize SDB_PAGE_TYPE_ENCRYPTED page_id page_lsn (sealed_payload nonce type t c) = Inr page"
proof -
  let ?n = "length plaintext"
  obtain c t where e: "sdb_xchacha20poly1305_encrypt avx2 data_key nonce
        (sdb_encrypted_aad sb page_id page_lsn type (of_nat ?n)) plaintext = Inr (c, t)"
      and ty: "type = SDB_PAGE_TYPE_DATA \<or> type = SDB_PAGE_TYPE_FREE" and n: "?n < 2 ^ 32"
      and pg: "sdb_page_encode psize SDB_PAGE_TYPE_ENCRYPTED page_id page_lsn (blit 36 t (blit 52 c (sdb_write_u32_le (blit 8 nonce
        (sdb_write_u16_le (sdb_write_u16_le (blit 0 sdb_encrypted_magic (zeros (52 + ?n))) 4 1) 6 type)) 32 (of_nat ?n)))) = Inr page"
    using assms(4) by (auto simp: sdb_encrypted_page_encode_def assms(2) Let_def rbind_eq_Inr
        SDB_ENCRYPTED_PAYLOAD_HEADER_SIZE_def UINT32_MAX_def split: if_splits)
  have "length c = ?n" "length t = 16"
    using xc.seal_lengths [OF e] by simp_all
  then show ?thesis
    using e ty n pg sealed_writes [OF assms(3)] by (intro that) simp_all
qed

lemma sealed_fields:
  assumes p: "p = sealed_payload nonce type tag c" and len: "length nonce = 24" "length tag = 16"
  shows "take 4 p = sdb_encrypted_magic" "sdb_read_u16_le p 4 = 1" "sdb_read_u16_le p 6 = type" "slice 8 24 p = nonce"
    and "sdb_read_u32_le p 32 = of_nat (length c)" "slice 36 16 p = tag" "slice 52 (length c) p = c"
proof -
  have l: "length p = 52 + length c"
    using len by (simp add: p)
  show "take 4 p = sdb_encrypted_magic" "slice 8 24 p = nonce" "slice 36 16 p = tag" "slice 52 (length c) p = c"
    using len by (simp_all add: p sealed_payload_def layout_simps)
  show "sdb_read_u16_le p 4 = 1" "sdb_read_u16_le p 6 = type" "sdb_read_u32_le p 32 = of_nat (length c)"
    using l len by (simp_all add: rd_slices) (simp_all add: p sealed_payload_def layout_simps)
qed

text \<open>A payload that passes the format tests is laid out as a sealed payload.\<close>

lemma payload_layout:
  assumes "length p = 52 + n" "take 4 p = sdb_encrypted_magic" "sdb_read_u16_le p 4 = 1" "unat (sdb_read_u32_le p 32) = n"
  shows "p = sealed_payload (slice 8 24 p) (sdb_read_u16_le p 6) (slice 36 16 p) (slice 52 n p)"
proof -
  have "le_bytes 2 (1 :: u16) = slice 4 2 p"
    using assms(1) le16.le_bytes_rd [of 4 p] unfolding assms(3) by simp
  moreover have "le_bytes 2 (sdb_read_u16_le p 6) = slice 6 2 p"
    using assms(1) by (simp add: le_bytes_rds)
  moreover have "(of_nat n :: u32) = sdb_read_u32_le p 32"
    unfolding assms(4) [symmetric] by simp
  then have "le_bytes 4 (of_nat n :: u32) = slice 32 4 p"
    using assms(1) by (simp add: le_bytes_rds)
  moreover have "sdb_encrypted_magic = slice 0 4 p"
    using assms(2) by (simp add: slice_0_prefix)
  moreover have "slice 0 4 p @ slice 4 2 p @ slice 6 2 p @ slice 8 24 p @ slice 32 4 p @ slice 36 16 p @ slice 52 n p = p"
    using assms(1) slice_append_slice [of 36 16 p n] slice_append_slice [of 32 4 p "16 + n"] slice_append_slice [of 8 24 p "20 + n"]
      slice_append_slice [of 6 2 p "44 + n"] slice_append_slice [of 4 2 p "46 + n"] slice_append_slice [of 0 4 p "48 + n"]
    by (simp add: layout_simps)
  ultimately show ?thesis
    using assms(1) unfolding sealed_payload_def by simp
qed

lemma aad_inject:
  assumes "length (file_id sb) = 16" "length (file_id sb') = 16"
    and "sdb_encrypted_aad sb pid lsn ty n = sdb_encrypted_aad sb' pid' lsn' ty' n'"
  shows "file_id sb = file_id sb' \<and> pid = pid' \<and> lsn = lsn' \<and> ty = ty' \<and> n = n'"
  using assms by (auto simp: aad_layout le_bytes_inject)

lemma decrypt_encoded:
  assumes "length (file_id sb) = 16" "length nonce = 24" "length plaintext \<le> capacity"
    and "sdb_encrypted_page_encode malloc_ok (Inr nonce) avx2 sb data_key psize type page_id page_lsn plaintext = Inr page"
  shows "\<exists>v. sdb_page_decode page page_id = Inr v \<and>
    sdb_encrypted_page_decrypt avx2' sb data_key v capacity = Inr (type, plaintext)"
proof -
  let ?aad = "sdb_encrypted_aad sb page_id page_lsn type (of_nat (length plaintext))"
  obtain c t where e: "sdb_xchacha20poly1305_encrypt avx2 data_key nonce ?aad plaintext = Inr (c, t)"
      and ty: "type = SDB_PAGE_TYPE_DATA \<or> type = SDB_PAGE_TYPE_FREE" and n: "length plaintext < 2 ^ 32"
      and pg: "sdb_page_encode psize SDB_PAGE_TYPE_ENCRYPTED page_id page_lsn (sealed_payload nonce type t c) = Inr page"
    using encode_sealed [OF assms(1) refl assms(2,4)] by blast
  have len: "length c = length plaintext" "length t = 16"
    using xc.seal_lengths [OF e] by simp_all
  let ?p = "sealed_payload nonce type t c"
  have ok: "page_args_ok psize SDB_PAGE_TYPE_ENCRYPTED page_id ?p" "page = page_image psize SDB_PAGE_TYPE_ENCRYPTED page_id page_lsn ?p"
    using pg by (simp_all add: page_encode_image split: if_splits)
  have "length ?p < 2 ^ 32"
    using ok(1) page_size_ok_bounds [of psize] by (auto simp: page_args_ok_def)
  then have u: "unat (of_nat (length ?p) :: u32) = length ?p"
    by (rule unat_of_nat_u32)
  have d: "sdb_xchacha20poly1305_decrypt avx2' data_key nonce ?aad c t = Inr plaintext"
    using e by (rule xc.unseal_sealed)
  have "unat (of_nat (length plaintext) :: u32) = length plaintext"
    using n by (rule unat_of_nat_u32)
  moreover have "slice 52 (length plaintext) ?p = c"
    using sealed_fields(7) [OF refl assms(2) len(2), where c = c] by (simp only: len)
  ultimately show ?thesis
    unfolding ok(2) page_decode_image [OF ok(1)] using u d ty assms(2,3)
    by (simp add: sdb_encrypted_page_decrypt_def SDB_ENCRYPTED_PAYLOAD_HEADER_SIZE_def Let_def
        sealed_fields(1-6) [OF refl assms(2) len(2)] len)
qed

definition example_file :: sdb_superblock_v1 where
  "example_file = \<lparr>page_size = 4096, flags = 1, generation = 1, checkpoint_lsn = 0, root_page = 0,
     freelist_page = 0, next_page_id = 9, key_wrap_id = 1, kdf_iterations = 600000, salt = replicate 16 1,
     file_id = replicate 16 2, wrapped_key = zeros 32, key_wrap_tag = zeros 16\<rparr>"

lemma example_encoded: "\<exists>page. sdb_encrypted_page_encode (\<lambda>_. True) (Inr (zeros 24)) avx2 example_file (zeros 32) 4096 1 5 8 [1, 2, 3] = Inr page"
proof -
  obtain c t where e: "sdb_xchacha20poly1305_encrypt avx2 (zeros 32) (zeros 24)
      (sdb_encrypted_aad example_file 5 8 1 (of_nat (length [1 :: byte, 2, 3]))) [1, 2, 3] = Inr (c, t)" "length c = 3" "length t = 16"
    using xc.seal_total [of "[1, 2, 3]"] by (fastforce simp: UINT32_MAX_def)
  have "page_size_ok 4096"
    by (simp add: page_size_ok_def page_consts)
  then have "page_args_ok 4096 SDB_PAGE_TYPE_ENCRYPTED 5 (sealed_payload (zeros 24) 1 t c)"
    using e(2,3) by (simp add: page_args_ok_def sdb_page_type_valid_def)
  then show ?thesis
    by (subst encode_eq [OF _ _ _ _ _ _ e(1)]) (simp_all add: page_consts page_encode_image)
qed

lemma example_decrypts:
  "\<exists>page v. sdb_page_decode page 5 = Inr v \<and> sdb_encrypted_page_decrypt True example_file (zeros 32) v 3 = Inr (1, [1, 2, 3])"
proof -
  obtain page where p: "sdb_encrypted_page_encode (\<lambda>_. True) (Inr (zeros 24)) False example_file (zeros 32) 4096 1 5 8 [1, 2, 3] = Inr page"
    using example_encoded by blast
  show ?thesis
    using decrypt_encoded [OF _ _ _ p, of 3 True] by (auto simp: example_file_def)
qed

section \<open>Properties\<close>

text \<open>
  C30: An encrypted page decodes and decrypts to the type and the plaintext it was
  made from, for every page the encoder accepts.
\<close>

theorem encrypted_page_roundtrip:
  assumes "length (file_id sb) = 16" "length nonce = 24" "length plaintext \<le> capacity"
    and "sdb_encrypted_page_encode malloc_ok (Inr nonce) avx2 sb data_key psize type page_id page_lsn plaintext = Inr page"
  shows "\<exists>v. sdb_page_decode page page_id = Inr v \<and>
    sdb_encrypted_page_decrypt avx2' sb data_key v capacity = Inr (type, plaintext)"
  using assms by (rule decrypt_encoded)

theorem encrypted_page_roundtrip_witness:
  "\<exists>page v. sdb_encrypted_page_encode (\<lambda>_. True) (Inr (zeros 24)) False example_file (zeros 32) 4096 1 5 8 [1, 2, 3] = Inr page \<and>
     sdb_page_decode page 5 = Inr v \<and> sdb_encrypted_page_decrypt True example_file (zeros 32) v 3 = Inr (1, [1, 2, 3])"
proof -
  obtain page where p: "sdb_encrypted_page_encode (\<lambda>_. True) (Inr (zeros 24)) False example_file (zeros 32) 4096 1 5 8 [1, 2, 3] = Inr page"
    using example_encoded by blast
  show ?thesis
    using p encrypted_page_roundtrip [OF _ _ _ p, of 3 True] by (auto simp: example_file_def)
qed

text \<open>
  C31: A page that decodes and decrypts is exactly an encryption of what it decrypts
  to, for this file, this page id, this LSN and this plaintext type: re-encrypting
  the plaintext with the page's nonce gives back the page byte for byte.
\<close>

theorem encrypted_page_authentic:
  assumes "length (file_id sb) = 16" "sdb_page_decode page page_id = Inr v"
    and "sdb_encrypted_page_decrypt avx2 sb data_key v capacity = Inr (type, plaintext)"
  shows "length plaintext \<le> capacity \<and> (\<exists>nonce. length nonce = 24 \<and>
    sdb_encrypted_page_encode (\<lambda>_. True) (Inr nonce) avx2' sb data_key (length page) type page_id (pv_page_lsn v) plaintext = Inr page)"
proof -
  let ?p = "pv_payload v" and ?n = "unat (sdb_read_u32_le (pv_payload v) 32)"
  let ?aad = "sdb_encrypted_aad sb page_id (pv_page_lsn v) (sdb_read_u16_le ?p 6) (sdb_read_u32_le ?p 32)"
  note inv = page_decode_inv [OF assms(2)]
  have sz: "length ?p \<le> length page - 32" "page_size_ok (length page)" "page_id \<noteq> 0"
    using inv(1) by (simp_all add: page_args_ok_def)
  then have "length ?p < 2 ^ 32"
    using page_size_ok_bounds [of "length page"] by (simp; linarith)
  then have u: "unat (pv_payload_size v) = length ?p"
    unfolding inv(4) by (rule unat_of_nat_u32)
  have len: "length ?p = 52 + ?n" and m: "take 4 ?p = sdb_encrypted_magic" "sdb_read_u16_le ?p 4 = 1"
    and ty: "type = sdb_read_u16_le ?p 6" "type = SDB_PAGE_TYPE_DATA \<or> type = SDB_PAGE_TYPE_FREE" and cap: "?n \<le> capacity"
    and vt: "pv_type v = SDB_PAGE_TYPE_ENCRYPTED"
    and d: "sdb_xchacha20poly1305_decrypt avx2 data_key (slice 8 24 ?p) ?aad (slice 52 ?n ?p) (slice 36 16 ?p) = Inr plaintext"
    using assms(3) u inv(3)
    by (auto simp: sdb_encrypted_page_decrypt_def SDB_ENCRYPTED_PAYLOAD_HEADER_SIZE_def Let_def split: if_splits sum.splits)
  have t: "length (slice 36 16 ?p) = 16" "length (slice 8 24 ?p) = 24" "length (slice 52 ?n ?p) = ?n"
    using len by simp_all
  have e: "sdb_xchacha20poly1305_encrypt avx2' data_key (slice 8 24 ?p) ?aad plaintext = Inr (slice 52 ?n ?p, slice 36 16 ?p)"
    using d unfolding decrypt_iff_encrypt [OF t(1), where avx2' = avx2'] .
  have n: "length plaintext = ?n"
    using xc.seal_lengths [OF e] t(3) by simp
  then have aad: "?aad = sdb_encrypted_aad sb page_id (pv_page_lsn v) type (of_nat (length plaintext))"
    by (simp add: ty(1))
  have "sdb_encrypted_page_encode (\<lambda>_. True) (Inr (slice 8 24 ?p)) avx2' sb data_key (length page) type page_id (pv_page_lsn v) plaintext
      = sdb_page_encode (length page) SDB_PAGE_TYPE_ENCRYPTED page_id (pv_page_lsn v) (sealed_payload (slice 8 24 ?p) type (slice 36 16 ?p) (slice 52 ?n ?p))"
    using len sz page_size_ok_bounds [OF sz(2)] n
    by (intro encode_eq [OF t(2) sz(3) ty(2) _ _ _ e [unfolded aad]]) (simp, linarith?)+
  also have "sealed_payload (slice 8 24 ?p) type (slice 36 16 ?p) (slice 52 ?n ?p) = ?p"
    unfolding ty(1) by (rule payload_layout [OF len m refl, symmetric])
  also have "sdb_page_encode (length page) SDB_PAGE_TYPE_ENCRYPTED page_id (pv_page_lsn v) ?p = Inr page"
    using inv(1,5) unfolding vt by (simp add: page_encode_image)
  finally show ?thesis
    using t(2) n cap by (metis (no_types))
qed

theorem encrypted_page_authentic_witness:
  "\<exists>page v. sdb_page_decode page 5 = Inr v \<and> sdb_encrypted_page_decrypt True example_file (zeros 32) v 3 = Inr (1, [1, 2, 3]) \<and>
     (\<exists>nonce. length nonce = 24 \<and>
       sdb_encrypted_page_encode (\<lambda>_. True) (Inr nonce) False example_file (zeros 32) (length page) 1 5 (pv_page_lsn v) [1, 2, 3] = Inr page)"
proof -
  have f: "length (file_id example_file) = 16"
    by (simp add: example_file_def)
  obtain page v where p: "sdb_page_decode page 5 = Inr v" "sdb_encrypted_page_decrypt True example_file (zeros 32) v 3 = Inr (1, [1, 2, 3])"
    using example_decrypts by blast
  show ?thesis
    using p encrypted_page_authentic [OF f p, of False] by blast
qed

end
