(* ===== verification/Wal_Recover.thy ===== *)
theory Wal_Recover
  imports Wal Directory Encrypted_Page
begin

text \<open>
  Reading the log back (\<open>sdb_wal_recover_all\<close> of \<open>src/wal.c\<close> and the functions it
  calls): the identity gate on the header, the scan for the next committed
  transaction, the validation of its frames and their replay into the database
  file. A pointer into the log buffer is the rest of the buffer from there on.
\<close>

section \<open>Model\<close>

definition SDB_FILE_ID_SIZE :: nat where
  "SDB_FILE_ID_SIZE = 16"

text \<open>Replaying the frames of one transaction.\<close>

fun wal_apply_loop :: "nat \<Rightarrow> u64 \<Rightarrow> u64 \<Rightarrow> nat \<Rightarrow> nat \<Rightarrow> bytes \<Rightarrow> unit file_io" where
  "wal_apply_loop psize txn_id limit rec_hdr_size 0 cursor = freturn ()"
| "wal_apply_loop psize txn_id limit rec_hdr_size (Suc n) cursor =
    (let page_id = sdb_read_u64_le cursor 0;
         data_offset = SDB_SUPERBLOCK_SLOT_SIZE * SDB_SUPERBLOCK_SLOT_COUNT in
     if page_id = 0 \<or> page_id \<ge> limit \<or> unat (page_id - 1) > UINT64_MAX div psize
     then fthrow SDB_E_CORRUPT
     else
       let relative = unat (page_id - 1) * psize in
       if relative > UINT64_MAX - data_offset then fthrow SDB_E_CORRUPT
       else
         let offset = data_offset + relative;
             image = slice rec_hdr_size psize cursor in
         case sdb_page_decode image page_id of
           Inl _ \<Rightarrow> fthrow SDB_E_CORRUPT
         | Inr view \<Rightarrow>
             if pv_page_lsn view \<noteq> txn_id then fthrow SDB_E_CORRUPT
             else fbind (sdb_file_write_full offset image) (\<lambda>_.
                  wal_apply_loop psize txn_id limit rec_hdr_size n (drop (rec_hdr_size + psize) cursor)))"

definition sdb_wal_apply_frames ::
  "bytes \<Rightarrow> nat \<Rightarrow> nat \<Rightarrow> u64 \<Rightarrow> u64 \<Rightarrow> nat \<Rightarrow> bool \<Rightarrow> unit file_io" where
  "sdb_wal_apply_frames frames psize page_count txn_id limit rec_hdr_size sync_after =
    fbind (wal_apply_loop psize txn_id limit rec_hdr_size page_count frames) (\<lambda>_.
      if sync_after then sdb_file_sync else freturn ())"

text \<open>
  Validating them first. Every frame must describe itself, belong to the database
  and hold an intact page of the transaction listed once; in an encrypted database
  it must also be a sealed page that opens under the data key.
\<close>

definition wal_frame_described :: "bytes \<Rightarrow> u64 \<Rightarrow> nat \<Rightarrow> nat \<Rightarrow> bool" where
  "wal_frame_described cursor txn_id index page_count \<longleftrightarrow>
    \<not> (sdb_read_u64_le cursor SDB_WAL_FRAME_V4_TXN_ID_OFFSET \<noteq> txn_id
       \<or> sdb_read_u32_le cursor SDB_WAL_FRAME_V4_FRAME_INDEX_OFFSET \<noteq> of_nat index
       \<or> sdb_read_u32_le cursor SDB_WAL_FRAME_V4_FRAME_COUNT_OFFSET \<noteq> of_nat page_count)"

definition wal_frame_opens :: "bool \<Rightarrow> sdb_superblock_v1 \<Rightarrow> bytes option \<Rightarrow> sdb_page_view \<Rightarrow> nat \<Rightarrow> bool" where
  "wal_frame_opens avx2 sb data_key view psize \<longleftrightarrow>
    (case data_key of
       None \<Rightarrow> True
     | Some key \<Rightarrow> \<not> (pv_type view \<noteq> SDB_PAGE_TYPE_ENCRYPTED)
         \<and> (case sdb_encrypted_page_decrypt avx2 sb key view psize of Inl _ \<Rightarrow> False | Inr _ \<Rightarrow> True))"

fun wal_validate_loop ::
  "bool \<Rightarrow> nat \<Rightarrow> nat \<Rightarrow> u64 \<Rightarrow> u64 \<Rightarrow> nat \<Rightarrow> bool \<Rightarrow> sdb_superblock_v1 \<Rightarrow> bytes option
    \<Rightarrow> nat \<Rightarrow> nat \<Rightarrow> u64 list \<Rightarrow> bytes \<Rightarrow> unit result option" where
  "wal_validate_loop avx2 psize page_count txn_id limit rec_hdr_size v4_meta sb data_key index 0 page_ids cursor
    = Some (Inr ())"
| "wal_validate_loop avx2 psize page_count txn_id limit rec_hdr_size v4_meta sb data_key index (Suc n) page_ids cursor =
    (let page_id = sdb_read_u64_le cursor 0 in
     if v4_meta \<and> \<not> wal_frame_described cursor txn_id index page_count then Some (Inl SDB_E_CORRUPT)
     else if rec_hdr_size = SDB_WAL_RECORD_HEADER_SIZE_V5
             \<and> slice SDB_WAL_FRAME_V5_FILE_ID_OFFSET SDB_FILE_ID_SIZE cursor \<noteq> file_id sb
     then Some (Inl SDB_E_CORRUPT)
     else if page_id = 0 \<or> page_id \<ge> limit then Some (Inl SDB_E_CORRUPT)
     else case sdb_wal_id_set_insert page_ids page_id of
       None \<Rightarrow> None
     | Some (fresh, page_ids') \<Rightarrow>
         if \<not> fresh then Some (Inl SDB_E_CORRUPT)
         else case sdb_page_decode (slice rec_hdr_size psize cursor) page_id of
           Inl _ \<Rightarrow> Some (Inl SDB_E_CORRUPT)
         | Inr view \<Rightarrow>
             if pv_page_lsn view \<noteq> txn_id then Some (Inl SDB_E_CORRUPT)
             else if \<not> wal_frame_opens avx2 sb data_key view psize then Some (Inl SDB_E_CORRUPT)
             else wal_validate_loop avx2 psize page_count txn_id limit rec_hdr_size v4_meta sb data_key
               (index + 1) n page_ids' (drop (rec_hdr_size + psize) cursor))"

definition sdb_wal_validate_frames ::
  "(nat \<Rightarrow> bool) \<Rightarrow> bool \<Rightarrow> bytes \<Rightarrow> nat \<Rightarrow> nat \<Rightarrow> u64 \<Rightarrow> u64 \<Rightarrow> nat \<Rightarrow> bool \<Rightarrow> sdb_superblock_v1
    \<Rightarrow> bytes option \<Rightarrow> unit result option" where
  "sdb_wal_validate_frames malloc_ok avx2 frames psize page_count txn_id limit rec_hdr_size v4_meta sb data_key =
    (case sdb_wal_id_set_create malloc_ok page_count of
       None \<Rightarrow> None
     | Some (Inl e) \<Rightarrow> Some (Inl e)
     | Some (Inr page_ids) \<Rightarrow>
         if data_key \<noteq> None \<and> \<not> malloc_ok psize then Some (Inl SDB_E_OUT_OF_MEMORY)
         else wal_validate_loop avx2 psize page_count txn_id limit rec_hdr_size v4_meta sb data_key
                0 page_count page_ids frames)"

text \<open>
  Where the next transaction ends. A self-describing log says so in its first
  frame; \<open>rest\<close> is the buffer from the cursor on and the result is the commit
  record with the number of frames, or nothing where the scan stops.
\<close>

definition wal_commit_at :: "bytes \<Rightarrow> nat \<Rightarrow> nat \<Rightarrow> (sdb_wal_commit_rec \<times> u32) option" where
  "wal_commit_at rest frame_size count =
    (let commit_ptr = slice (count * frame_size) SDB_WAL_COMMIT_SIZE rest in
     if take 4 commit_ptr \<noteq> sdb_wal_commit_magic then None
     else case sdb_wal_decode_commit_rec commit_ptr of
       Inl _ \<Rightarrow> None
     | Inr (rec, stored_running_crc) \<Rightarrow>
         if wc_frame_count rec \<noteq> of_nat count \<or> sdb_crc32 (take (count * frame_size) rest) \<noteq> stored_running_crc
         then None
         else Some (rec, stored_running_crc))"

definition wal_declared_count :: "bytes \<Rightarrow> nat \<Rightarrow> nat option" where
  "wal_declared_count rest frame_size =
    (let declared_count = unat (sdb_read_u32_le rest SDB_WAL_FRAME_V4_FRAME_COUNT_OFFSET) in
     if declared_count = 0 \<or> declared_count > SDB_WAL_MAX_RECORDS
        \<or> declared_count > (length rest - SDB_WAL_COMMIT_SIZE) div frame_size
     then None else Some declared_count)"

definition sdb_wal_first_txn_is_self_describing :: "bytes \<Rightarrow> nat \<Rightarrow> nat \<Rightarrow> bytes \<Rightarrow> bool" where
  "sdb_wal_first_txn_is_self_describing buf psize record_header_size expected_file_id =
    (let frame_size = record_header_size + psize;
         rest = drop SDB_WAL_HEADER_SIZE buf in
     if length buf \<le> SDB_WAL_HEADER_SIZE then False
     else if record_header_size \<noteq> SDB_WAL_RECORD_HEADER_SIZE_V4
             \<and> record_header_size \<noteq> SDB_WAL_RECORD_HEADER_SIZE_V5 then False
     else if length rest < frame_size + SDB_WAL_COMMIT_SIZE then False
     else if sdb_read_u32_le rest SDB_WAL_FRAME_V4_FRAME_INDEX_OFFSET \<noteq> 0 then False
     else if record_header_size = SDB_WAL_RECORD_HEADER_SIZE_V5
             \<and> slice SDB_WAL_FRAME_V5_FILE_ID_OFFSET SDB_FILE_ID_SIZE rest \<noteq> expected_file_id then False
     else case wal_declared_count rest frame_size of
       None \<Rightarrow> False
     | Some declared_count \<Rightarrow> wal_commit_at rest frame_size declared_count \<noteq> None)"

definition wal_next_self_describing :: "bytes \<Rightarrow> nat \<Rightarrow> u64 \<Rightarrow> u64 \<Rightarrow> (sdb_wal_commit_rec \<times> nat) option" where
  "wal_next_self_describing rest frame_size expected_next target_next_page_id =
    (case wal_declared_count rest frame_size of
       None \<Rightarrow> None
     | Some declared_count \<Rightarrow>
         (case wal_commit_at rest frame_size declared_count of
            None \<Rightarrow> None
          | Some (rec, _) \<Rightarrow>
              if wc_txn_id rec \<noteq> expected_next \<or> wc_next_page_id rec < target_next_page_id
                 \<or> (wc_freelist_page rec \<noteq> 0 \<and> wc_freelist_page rec \<ge> wc_next_page_id rec)
              then None else Some (rec, declared_count)))"

text \<open>
  In the older format the end is found by probing; a commit magic without an
  intact record behind it stops the scan.
\<close>

fun wal_probe_commit ::
  "sdb_superblock_v1 \<Rightarrow> bytes \<Rightarrow> nat \<Rightarrow> u64 \<Rightarrow> u64 \<Rightarrow> nat \<Rightarrow> nat \<Rightarrow> (sdb_wal_commit_rec \<times> nat) option" where
  "wal_probe_commit sb rest frame_size expected_next target_next_page_id k 0 = None"
| "wal_probe_commit sb rest frame_size expected_next target_next_page_id k (Suc n) =
    (let commit_ptr = slice (k * frame_size) SDB_WAL_COMMIT_SIZE rest in
     if take 4 commit_ptr \<noteq> sdb_wal_commit_magic
     then wal_probe_commit sb rest frame_size expected_next target_next_page_id (k + 1) n
     else case sdb_wal_decode_commit_rec commit_ptr of
       Inl _ \<Rightarrow> None
     | Inr (rec, stored_running_crc) \<Rightarrow>
         if wc_frame_count rec \<noteq> of_nat k then None
         else if sdb_crc32 (take (k * frame_size) rest) \<noteq> stored_running_crc then None
         else if wc_txn_id rec \<noteq> expected_next then None
         else if \<not> sdb_page_geometry_valid (wc_next_page_id rec) (page_size sb)
                 \<or> wc_next_page_id rec < target_next_page_id
                 \<or> (wc_freelist_page rec \<noteq> 0 \<and> wc_freelist_page rec \<ge> wc_next_page_id rec) then None
         else Some (rec, k))"

definition wal_next_legacy ::
  "sdb_superblock_v1 \<Rightarrow> bytes \<Rightarrow> nat \<Rightarrow> u64 \<Rightarrow> u64 \<Rightarrow> (sdb_wal_commit_rec \<times> nat) option" where
  "wal_next_legacy sb rest frame_size expected_next target_next_page_id =
    (let max_frames = (length rest - SDB_WAL_COMMIT_SIZE) div frame_size;
         max_frames = (if max_frames > SDB_WAL_MAX_RECORDS then SDB_WAL_MAX_RECORDS else max_frames)
     in wal_probe_commit sb rest frame_size expected_next target_next_page_id 1 max_frames)"

text \<open>The gate on the identity header: which format to scan, or a refusal.\<close>

definition wal_header_mismatch :: "sdb_superblock_v1 \<Rightarrow> bytes \<Rightarrow> bool" where
  "wal_header_mismatch sb buf \<longleftrightarrow>
    (let header_version = sdb_read_u16_le buf 4 in
     take 4 buf \<noteq> sdb_wal_magic
     \<or> (header_version \<noteq> SDB_WAL_VERSION_V1 \<and> header_version \<noteq> SDB_WAL_VERSION
        \<and> header_version \<noteq> SDB_WAL_VERSION_V3 \<and> header_version \<noteq> SDB_WAL_VERSION_V4
        \<and> header_version \<noteq> SDB_WAL_VERSION_V5)
     \<or> sdb_read_u16_le buf 6 \<noteq> of_nat SDB_WAL_HEADER_SIZE
     \<or> sdb_read_u32_le buf 16 \<noteq> page_size sb
     \<or> slice 24 SDB_FILE_ID_SIZE buf \<noteq> file_id sb)"

record wal_identity =
  wid_self_describing :: bool
  wid_bound :: bool
  wid_record_header_size :: nat

definition wal_header_gate :: "sdb_superblock_v1 \<Rightarrow> bytes \<Rightarrow> wal_identity result" where
  "wal_header_gate sb buf =
    (let psize = unat (page_size sb);
         header_present = list_ex (\<lambda>b. b \<noteq> 0) (take SDB_WAL_HEADER_SIZE buf);
         legacy = \<lparr>wid_self_describing = False, wid_bound = False,
                   wid_record_header_size = SDB_WAL_RECORD_HEADER_SIZE\<rparr> in
     if \<not> header_present then Inr legacy
     else
       let header_version = sdb_read_u16_le buf 4;
           crc_ok = (sdb_crc32_zeroed_range (take SDB_WAL_HEADER_SIZE buf) SDB_WAL_HEADER_CHECKSUM_OFFSET 4
                     = sdb_read_u32_le buf SDB_WAL_HEADER_CHECKSUM_OFFSET);
           selected = legacy\<lparr>wid_bound := crc_ok\<rparr> in
       if crc_ok \<and> wal_header_mismatch sb buf then Inl SDB_E_CORRUPT
       else if crc_ok \<and> header_version = SDB_WAL_VERSION_V4
       then Inr (selected\<lparr>wid_self_describing := True, wid_record_header_size := SDB_WAL_RECORD_HEADER_SIZE_V4\<rparr>)
       else if crc_ok \<and> header_version = SDB_WAL_VERSION_V5
       then Inr (selected\<lparr>wid_self_describing := True, wid_record_header_size := SDB_WAL_RECORD_HEADER_SIZE_V5\<rparr>)
       else if \<not> crc_ok \<and> sdb_wal_first_txn_is_self_describing buf psize SDB_WAL_RECORD_HEADER_SIZE_V5 (file_id sb)
       then Inr \<lparr>wid_self_describing = True, wid_bound = True,
                 wid_record_header_size = SDB_WAL_RECORD_HEADER_SIZE_V5\<rparr>
       else if \<not> crc_ok \<and> sdb_wal_first_txn_is_self_describing buf psize SDB_WAL_RECORD_HEADER_SIZE_V4 (file_id sb)
       then Inr (selected\<lparr>wid_self_describing := True, wid_record_header_size := SDB_WAL_RECORD_HEADER_SIZE_V4\<rparr>)
       else Inr selected)"

text \<open>The scan itself. Its state is what the code keeps in local variables.\<close>

record wal_scan =
  sc_cursor :: nat
  sc_last_lsn :: u64
  sc_next_page_id :: u64
  sc_freelist_page :: u64
  sc_expected_next :: u64
  sc_applied :: bool

definition wal_next_txn :: "sdb_superblock_v1 \<Rightarrow> wal_identity \<Rightarrow> bytes \<Rightarrow> wal_scan \<Rightarrow> (sdb_wal_commit_rec \<times> nat) option" where
  "wal_next_txn sb ident buf sc =
    (let frame_size = wid_record_header_size ident + unat (page_size sb);
         rest = drop (sc_cursor sc) buf in
     if sc_cursor sc \<ge> length buf then None
     else if length rest < frame_size + SDB_WAL_COMMIT_SIZE then None
     else if wid_self_describing ident
     then wal_next_self_describing rest frame_size (sc_expected_next sc) (sc_next_page_id sc)
     else wal_next_legacy sb rest frame_size (sc_expected_next sc) (sc_next_page_id sc))"

definition wal_advance :: "sdb_superblock_v1 \<Rightarrow> wal_identity \<Rightarrow> sdb_wal_commit_rec \<Rightarrow> nat \<Rightarrow> bool \<Rightarrow> wal_scan \<Rightarrow> wal_scan" where
  "wal_advance sb ident rec count applied sc =
    \<lparr>sc_cursor = sc_cursor sc + count * (wid_record_header_size ident + unat (page_size sb)) + SDB_WAL_COMMIT_SIZE,
     sc_last_lsn = wc_txn_id rec, sc_next_page_id = wc_next_page_id rec,
     sc_freelist_page = wc_freelist_page rec, sc_expected_next = wc_txn_id rec + 1,
     sc_applied = sc_applied sc \<or> applied\<rparr>"

function wal_replay ::
  "(nat \<Rightarrow> bool) \<Rightarrow> bool \<Rightarrow> sdb_superblock_v1 \<Rightarrow> bytes option \<Rightarrow> wal_identity \<Rightarrow> bytes \<Rightarrow> wal_scan \<Rightarrow> sdb_file
    \<Rightarrow> (wal_scan result \<times> sdb_file) option" where
  "wal_replay malloc_ok avx2 sb data_key ident buf sc database =
    (case wal_next_txn sb ident buf sc of
       None \<Rightarrow> Some (Inr sc, database)
     | Some (rec, count) \<Rightarrow>
         let psize = unat (page_size sb);
             frames = drop (sc_cursor sc) buf in
         case sdb_wal_validate_frames malloc_ok avx2 frames psize count (wc_txn_id rec) (wc_next_page_id rec)
                (wid_record_header_size ident) (wid_self_describing ident) sb data_key of
           None \<Rightarrow> None
         | Some (Inl e) \<Rightarrow> Some (Inl e, database)
         | Some (Inr _) \<Rightarrow>
             if wc_txn_id rec > checkpoint_lsn sb then
               (case sdb_wal_apply_frames frames psize count (wc_txn_id rec) (wc_next_page_id rec)
                       (wid_record_header_size ident) False database of
                  (Inl e, database') \<Rightarrow> Some (Inl e, database')
                | (Inr _, database') \<Rightarrow>
                    wal_replay malloc_ok avx2 sb data_key ident buf (wal_advance sb ident rec count True sc) database')
             else wal_replay malloc_ok avx2 sb data_key ident buf (wal_advance sb ident rec count False sc) database)"
  by pat_completeness auto
termination
proof (relation "measure (\<lambda>(malloc_ok, avx2, sb, data_key, ident, buf, sc, database). length buf - sc_cursor sc)")
qed (auto simp: wal_next_txn_def wal_advance_def SDB_WAL_COMMIT_SIZE_def Let_def split: if_splits
    intro!: diff_less_mono2)

declare wal_replay.simps [simp del]

record wal_recovered =
  wr_last_lsn :: u64
  wr_next_page_id :: u64
  wr_freelist_page :: u64
  wr_replayed :: bool

definition nothing_recovered :: "sdb_superblock_v1 \<Rightarrow> wal_recovered" where
  "nothing_recovered sb = \<lparr>wr_last_lsn = checkpoint_lsn sb, wr_next_page_id = next_page_id sb,
    wr_freelist_page = freelist_page sb, wr_replayed = False\<rparr>"

text \<open>
  The scan of a log once it is in memory, the second half of \<open>sdb_wal_recover_all\<close>; it is
  reached by logs longer than the header only.
\<close>

definition wal_recover_buffer ::
  "(nat \<Rightarrow> bool) \<Rightarrow> bool \<Rightarrow> sdb_superblock_v1 \<Rightarrow> bytes option \<Rightarrow> bytes \<Rightarrow> sdb_file \<Rightarrow> (wal_recovered result \<times> sdb_file) option" where
  "wal_recover_buffer malloc_ok avx2 sb data_key buf database =
    (case wal_header_gate sb buf of
       Inl e \<Rightarrow> Some (Inl e, database)
     | Inr ident \<Rightarrow>
         if \<not> wid_bound ident \<and> \<not> wid_self_describing ident \<and> data_key = None
         then Some (Inl SDB_E_CORRUPT, database)
         else
           let start = \<lparr>sc_cursor = SDB_WAL_HEADER_SIZE, sc_last_lsn = checkpoint_lsn sb,
                 sc_next_page_id = next_page_id sb, sc_freelist_page = freelist_page sb,
                 sc_expected_next = checkpoint_lsn sb + 1, sc_applied = False\<rparr> in
           case wal_replay malloc_ok avx2 sb data_key ident buf start database of
             None \<Rightarrow> None
           | Some (Inl e, database') \<Rightarrow> Some (Inl e, database')
           | Some (Inr sc, database') \<Rightarrow>
               Some (fbind (if sc_applied sc then sdb_file_sync else freturn ()) (\<lambda>_.
                 freturn \<lparr>wr_last_lsn = sc_last_lsn sc, wr_next_page_id = sc_next_page_id sc,
                   wr_freelist_page = sc_freelist_page sc, wr_replayed = sc_applied sc\<rparr>) database'))"

text \<open>
  The whole of recovery: opening the log in its directory, reading it, and the
  scan. The log is closed on every path, and the outcome of that is ignored.
\<close>

definition sdb_wal_recover_all ::
  "(nat \<Rightarrow> bool) \<Rightarrow> bool \<Rightarrow> string \<Rightarrow> sdb_superblock_v1 \<Rightarrow> bytes option \<Rightarrow> directory \<Rightarrow> sdb_file
    \<Rightarrow> (wal_recovered result \<times> directory \<times> sdb_file) option" where
  "sdb_wal_recover_all malloc_ok avx2 wal_path sb data_key d database =
    (let psize = unat (page_size sb) in
     if \<not> page_size_ok psize then Some (Inl SDB_E_INVALID_ARGUMENT, d, database)
     else if \<not> sdb_page_geometry_valid (next_page_id sb) (page_size sb) then Some (Inl SDB_E_CORRUPT, d, database)
     else case sdb_file_open_existing wal_path False d of
       (Inl e, d) \<Rightarrow>
         Some (if e = SDB_E_NOT_FOUND then Inr (nothing_recovered sb) else Inl e, d, database)
     | (Inr h, d) \<Rightarrow>
         (case on_file h sdb_file_size d of
            (Inl e, d) \<Rightarrow> Some (Inl e, close_ignored h d, database)
          | (Inr file_size, d) \<Rightarrow>
              if file_size > SDB_WAL_MAX_BYTES then Some (Inl SDB_E_CORRUPT, close_ignored h d, database)
              else if file_size > SIZE_MAX then Some (Inl SDB_E_OVERFLOW, close_ignored h d, database)
              else if file_size \<le> SDB_WAL_HEADER_SIZE
              then Some (Inr (nothing_recovered sb), close_ignored h d, database)
              else if \<not> malloc_ok file_size then Some (Inl SDB_E_OUT_OF_MEMORY, close_ignored h d, database)
              else (case on_file h (sdb_file_read_full 0 file_size) d of
                      (Inl e, d) \<Rightarrow> Some (Inl e, close_ignored h d, database)
                    | (Inr buf, d) \<Rightarrow>
                        map_option (\<lambda>(r, database'). (r, close_ignored h d, database'))
                          (wal_recover_buffer malloc_ok avx2 sb data_key buf database))))"

text \<open>Emptying the log.\<close>

definition sdb_wal_clear :: "(nat \<Rightarrow> bool) \<Rightarrow> string \<Rightarrow> unit dir_io" where
  "sdb_wal_clear malloc_ok wal_path d =
    (case sdb_file_open_existing wal_path True d of
       (Inl e, d) \<Rightarrow> (if e = SDB_E_NOT_FOUND then Inr () else Inl e, d)
     | (Inr h, d) \<Rightarrow>
         let (status, d) = on_file h (fbind (sdb_file_resize 0) (\<lambda>_. sdb_file_sync)) d;
             (close_status, d) = on_file h sdb_file_close d;
             (status, d) = (if is_ok status \<and> is_ok close_status
               then sdb_file_sync_parent_directory malloc_ok wal_path d else (status, d))
         in (if \<not> is_ok status then status else close_status, d))"

end
