(* ===== verification/Wal_Replay.thy ===== *)
theory Wal_Replay
  imports Wal_Recover
begin

text \<open>
  What recovery makes of a log: it replays exactly the transactions whose commit
  record is there, in order, and drops what a crash left behind the last one.
\<close>

section \<open>Reading frames back\<close>

lemma frame_reads:
  fixes rest :: bytes
  assumes "length fid = 16" "length (wp_bytes p) = psize"
  shows "sdb_read_u64_le (frame_image fid txn_id count index p @ rest) 0 = wp_page_id p"
    and "wal_frame_described (frame_image fid txn_id count index p @ rest) txn_id index count"
    and "sdb_read_u32_le (frame_image fid txn_id count index p @ rest) 20 = of_nat count"
    and "slice 24 16 (frame_image fid txn_id count index p @ rest) = fid"
    and "slice 40 psize (frame_image fid txn_id count index p @ rest) = wp_bytes p"
    and "drop (40 + psize) (frame_image fid txn_id count index p @ rest) = rest"
  using assms by (simp_all add: frame_image_def wal_frame_described_def wal_consts rd_slices layout_simps)

text \<open>In an encrypted database the pages of the log open under the data key.\<close>

definition page_opens :: "bool \<Rightarrow> sdb_superblock_v1 \<Rightarrow> bytes option \<Rightarrow> sdb_wal_page \<Rightarrow> bool" where
  "page_opens avx2 sb data_key p \<longleftrightarrow>
    (\<forall>view. sdb_page_decode (wp_bytes p) (wp_page_id p) = Inr view \<longrightarrow>
      wal_frame_opens avx2 sb data_key view (unat (page_size sb)))"

lemma validate_loop_image:
  assumes fid: "length (file_id sb) = 16" and psize: "psize = unat (page_size sb)"
    and "id_set_inv room ids slots" "length ps \<le> room"
    and "list_all (txn_page_ok limit txn_id) ps" "distinct (map wp_page_id ps)" "ids \<inter> wp_page_id ` set ps = {}"
    and "pages_sized psize ps" "\<forall>p \<in> set ps. page_opens avx2 sb data_key p"
  shows "wal_validate_loop avx2 psize count txn_id limit 40 True sb data_key index (length ps) slots
    (frames_image (file_id sb) txn_id count index ps @ rest) = Some (Inr ())"
  using assms(3-)
proof (induction ps arbitrary: room ids slots index)
  case (Cons p ps)
  then obtain room' where room: "room = Suc room'"
    by (cases room) auto
  let ?k = "wp_page_id p" and ?tail = "frames_image (file_id sb) txn_id count (index + 1) ps @ rest"
  have p: "?k \<noteq> 0" "?k < limit" "length (wp_bytes p) = psize" "?k \<notin> ids"
    using Cons.prems by (auto simp: txn_page_ok_def)
  obtain view where view: "sdb_page_decode (wp_bytes p) ?k = Inr view" "pv_page_lsn view = txn_id"
    using Cons.prems(3) by (auto simp: txn_page_ok_def)
  have opens: "wal_frame_opens avx2 sb data_key view psize"
    using Cons.prems(7) view psize by (auto simp: page_opens_def)
  obtain slots' where ins: "sdb_wal_id_set_insert slots ?k = Some (True, slots')"
    "id_set_inv room' (insert ?k ids) slots'"
    using id_set_insert_spec [of room' ids slots ?k] Cons.prems(1) p unfolding room by auto
  have "wal_validate_loop avx2 psize count txn_id limit 40 True sb data_key (index + 1) (length ps) slots' ?tail
      = Some (Inr ())"
    using Cons.prems room by (intro Cons.IH [OF ins(2)]) auto
  then show ?case
    using p view opens ins(1) frame_reads [OF fid p(3), of txn_id count index ?tail]
    by (simp add: wal_consts SDB_FILE_ID_SIZE_def Let_def)
qed simp

lemma validate_frames_image:
  assumes fid: "length (file_id sb) = 16" and psize: "psize = unat (page_size sb)"
    and acc: "txn_accepted sb' txn_id ps" and sized: "pages_sized psize ps"
    and opens: "\<forall>p \<in> set ps. page_opens avx2 sb data_key p"
  shows "sdb_wal_validate_frames malloc_ok avx2 (frames_image (file_id sb) txn_id (length ps) 0 ps @ rest) psize
      (length ps) txn_id (next_page_id sb') 40 True sb data_key \<in>
    (if (\<exists>n. \<not> malloc_ok n) then {Some (Inr ()), Some (Inl SDB_E_OUT_OF_MEMORY)} else {Some (Inr ())})"
proof -
  obtain c where c: "sdb_wal_id_set_create malloc_ok (length ps) = c"
    by simp
  have n: "0 < length ps" "length ps \<le> 2 ^ 58"
    using acc by (auto simp: txn_accepted_def SDB_WAL_MAX_RECORDS_def)
  from id_set_create_inv [OF c] show ?thesis
  proof
    assume "\<exists>slots. c = Some (Inr slots) \<and> id_set_inv (length ps) {} slots"
    then obtain slots where s: "c = Some (Inr slots)" "id_set_inv (length ps) {} slots"
      by blast
    have "wal_validate_loop avx2 psize (length ps) txn_id (next_page_id sb') 40 True sb data_key 0 (length ps) slots
      (frames_image (file_id sb) txn_id (length ps) 0 ps @ rest) = Some (Inr ())"
      using acc by (intro validate_loop_image [OF fid psize s(2)] sized opens) (auto simp: txn_accepted_def txn_pages_ok_def)
    with c s(1) show ?thesis
      by (auto simp: sdb_wal_validate_frames_def)
  qed (use n c in \<open>auto simp: sdb_wal_validate_frames_def\<close>)
qed

section \<open>Replaying them\<close>

definition page_offset :: "nat \<Rightarrow> u64 \<Rightarrow> nat" where
  "page_offset psize page_id = 8192 + (unat page_id - 1) * psize"

definition write_pages :: "nat \<Rightarrow> sdb_wal_page list \<Rightarrow> bytes \<Rightarrow> bytes" where
  "write_pages psize ps c = fold (\<lambda>p. file_write (page_offset psize (wp_page_id p)) (wp_bytes p)) ps c"

lemma write_pages_simps [simp]:
  "write_pages psize [] c = c"
  "write_pages psize (p # ps) c = write_pages psize ps (file_write (page_offset psize (wp_page_id p)) (wp_bytes p) c)"
  by (simp_all add: write_pages_def)

text \<open>
  What an interrupted replay can leave: only bytes of the replayed pages differ,
  and the file has grown no further than they reach.
\<close>

definition nth0 :: "bytes \<Rightarrow> nat \<Rightarrow> byte" where
  "nth0 c i = (if i < length c then c ! i else 0)"

definition touched :: "nat \<Rightarrow> sdb_wal_page list \<Rightarrow> nat \<Rightarrow> bool" where
  "touched psize ps i \<longleftrightarrow>
    (\<exists>p \<in> set ps. page_offset psize (wp_page_id p) \<le> i \<and> i < page_offset psize (wp_page_id p) + length (wp_bytes p))"

fun pages_end :: "nat \<Rightarrow> sdb_wal_page list \<Rightarrow> nat" where
  "pages_end psize [] = 0"
| "pages_end psize (p # ps) = max (page_offset psize (wp_page_id p) + length (wp_bytes p)) (pages_end psize ps)"

definition partly_written :: "nat \<Rightarrow> sdb_wal_page list \<Rightarrow> bytes \<Rightarrow> bytes \<Rightarrow> bool" where
  "partly_written psize ps c c' \<longleftrightarrow> length c \<le> length c' \<and> length c' \<le> max (length c) (pages_end psize ps)
    \<and> (\<forall>i. \<not> touched psize ps i \<longrightarrow> nth0 c' i = nth0 c i)"

lemma touched_simps [simp]:
  "\<not> touched psize [] i"
  "touched psize (p # ps) i \<longleftrightarrow>
    page_offset psize (wp_page_id p) \<le> i \<and> i < page_offset psize (wp_page_id p) + length (wp_bytes p) \<or> touched psize ps i"
  "touched psize (ps @ qs) i \<longleftrightarrow> touched psize ps i \<or> touched psize qs i"
  by (auto simp: touched_def)

lemma pages_end_append [simp]: "pages_end psize (ps @ qs) = max (pages_end psize ps) (pages_end psize qs)"
  by (induction ps) auto

lemma nth0_file_write:
  "nth0 (file_write off bs c) i = (if off \<le> i \<and> i < off + length bs then bs ! (i - off) else nth0 c i)"
proof (cases "bs = []")
  case False
  have len: "off + length bs \<le> length (file_grow (off + length bs) c)"
    by (simp add: file_grow_def)
  then have "nth0 (file_write off bs c) i = (if off \<le> i \<and> i < off + length bs then bs ! (i - off)
      else nth0 (file_grow (off + length bs) c) i)"
    using False by (auto simp: file_write_def nth0_def nth_blit)
  then show ?thesis
    by (auto simp: nth0_def file_grow_def nth_append)
qed (auto simp: file_write_def)

lemma length_write_page: "bs \<noteq> [] \<Longrightarrow> length (file_write off bs c) = max (length c) (off + length bs)"
  by (simp add: file_write_def file_grow_def)

lemma partly_written_refl [simp]: "partly_written psize ps c c"
  by (simp add: partly_written_def)

lemma partly_written_append:
  "partly_written psize ps c c' \<Longrightarrow> partly_written psize qs c' c'' \<Longrightarrow> partly_written psize (ps @ qs) c c''"
  by (auto simp: partly_written_def)

lemma partly_written_page:
  "partly_written psize [p] c (file_write (page_offset psize (wp_page_id p)) (take k (wp_bytes p)) c)"
proof (cases "take k (wp_bytes p) = []")
  case True
  then show ?thesis
    by (auto simp: file_write_def)
next
  case False
  then show ?thesis
    unfolding partly_written_def length_write_page [OF False] by (auto simp: nth0_file_write)
qed

lemma partly_written_all: "partly_written psize ps c (write_pages psize ps c)"
proof (induction ps arbitrary: c)
  case (Cons p ps)
  show ?case
    using partly_written_append [OF partly_written_page [of psize p c "length (wp_bytes p)"] Cons.IH] by simp
qed simp

lemma length_write_pages:
  "\<forall>p \<in> set ps. wp_bytes p \<noteq> [] \<Longrightarrow> length (write_pages psize ps c) = max (length c) (pages_end psize ps)"
  by (induction ps arbitrary: c) (auto simp: length_write_page)

lemma write_pages_agree:
  "(\<And>i. \<not> touched psize ps i \<Longrightarrow> nth0 c i = nth0 c' i) \<Longrightarrow>
    nth0 (write_pages psize ps c) i = nth0 (write_pages psize ps c') i"
proof (induction ps arbitrary: c c')
  case (Cons p ps)
  show ?case
    unfolding write_pages_simps by (rule Cons.IH) (use Cons.prems in \<open>auto simp: nth0_file_write\<close>)
qed simp

lemma write_pages_again:
  assumes "partly_written psize ps c c'" "\<forall>p \<in> set ps. wp_bytes p \<noteq> []"
  shows "write_pages psize ps c' = write_pages psize ps c"
proof (rule nth_equalityI)
  show len: "length (write_pages psize ps c') = length (write_pages psize ps c)"
    using assms by (auto simp: length_write_pages partly_written_def)
  fix i
  assume "i < length (write_pages psize ps c')"
  moreover have "nth0 (write_pages psize ps c') i = nth0 (write_pages psize ps c) i"
    using assms(1) by (intro write_pages_agree) (simp add: partly_written_def)
  ultimately show "write_pages psize ps c' ! i = write_pages psize ps c ! i"
    using len by (simp add: nth0_def)
qed

lemma page_offset_fits:
  assumes "k \<noteq> 0" "k < limit" "unat limit * psize + 8192 \<le> INT64_MAX"
  shows "page_offset psize k + psize \<le> INT64_MAX"
    and "unat (k - 1) = unat k - 1" "(unat k - 1) * psize \<le> UINT64_MAX - 8192"
    and "0 < psize \<Longrightarrow> unat k - 1 \<le> UINT64_MAX div psize"
proof -
  have k: "0 < unat k" "unat k < unat limit"
    using assms by (simp_all add: unat_gt_0 word_less_nat_alt)
  show "unat (k - 1) = unat k - 1"
    using assms(1) by (simp add: unat_minus_one)
  have "(unat k - 1) * psize + psize = unat k * psize"
    using k(1) by (metis Suc_diff_1 add.commute mult_Suc)
  also have "\<dots> \<le> unat limit * psize"
    using k(2) by (intro mult_le_mono1) simp
  finally have le: "(unat k - 1) * psize + psize + 8192 \<le> INT64_MAX"
    using assms(3) by simp
  then show "page_offset psize k + psize \<le> INT64_MAX"
    by (simp add: page_offset_def)
  show "(unat k - 1) * psize \<le> UINT64_MAX - 8192"
    using le by (simp add: INT64_MAX_def UINT64_MAX_def)
  then show "unat k - 1 \<le> UINT64_MAX div psize" if "0 < psize"
    using that by (simp add: less_eq_div_iff_mult_less_eq)
qed

text \<open>The pages in a run of frames, whatever the size of the frame header.\<close>

fun parse_frames :: "nat \<Rightarrow> nat \<Rightarrow> nat \<Rightarrow> bytes \<Rightarrow> sdb_wal_page list" where
  "parse_frames hdr psize 0 cursor = []"
| "parse_frames hdr psize (Suc n) cursor =
    \<lparr>wp_page_id = sdb_read_u64_le cursor 0, wp_bytes = slice hdr psize cursor\<rparr>
    # parse_frames hdr psize n (drop (hdr + psize) cursor)"

lemma parse_frames_image:
  "length fid = 16 \<Longrightarrow> pages_sized psize ps \<Longrightarrow>
    parse_frames 40 psize (length ps) (frames_image fid txn_id count index ps @ rest) = ps"
  by (induction ps arbitrary: index) (auto simp: frame_reads simp del: drop_append intro: sdb_wal_page.equality)

lemma apply_loop_spec:
  assumes pos: "0 < psize" and lim: "unat limit * psize + 8192 \<le> INT64_MAX"
    and "list_all (txn_page_ok limit txn_id) (parse_frames hdr psize n cursor)"
      "pages_sized psize (parse_frames hdr psize n cursor)"
    and "wal_apply_loop psize txn_id limit hdr n cursor db = (r, db')"
  shows "set (fscript db') \<subseteq> set (fscript db) \<and> fdurable db' = fdurable db \<and>
    partly_written psize (parse_frames hdr psize n cursor) (fcontent db) (fcontent db') \<and>
    (r = Inr () \<and> fcontent db' = write_pages psize (parse_frames hdr psize n cursor) (fcontent db)
     \<or> r = Inl SDB_E_IO \<and> may_fail db)"
  using assms(3-)
proof (induction n arbitrary: cursor db)
  case (Suc n)
  let ?k = "sdb_read_u64_le cursor 0" and ?b = "slice hdr psize cursor" and ?tail = "drop (hdr + psize) cursor"
  let ?p = "\<lparr>wp_page_id = ?k, wp_bytes = ?b\<rparr>"
  have p: "?k \<noteq> 0" "?k < limit" "length ?b = psize"
    using Suc.prems by (auto simp: txn_page_ok_def)
  obtain view where view: "sdb_page_decode ?b ?k = Inr view" "pv_page_lsn view = txn_id"
    using Suc.prems(1) by (auto simp: txn_page_ok_def)
  note off = page_offset_fits [OF p(1,2) lim]
  have run: "wal_apply_loop psize txn_id limit hdr (Suc n) cursor
    = fbind (sdb_file_write_full (page_offset psize ?k) ?b) (\<lambda>_. wal_apply_loop psize txn_id limit hdr n ?tail)"
    using p(1) p(2) [folded not_le] view off(2,3) off(4) [OF pos]
    by (simp add: superblock_consts page_offset_def Let_def not_less)
  obtain r1 db1 where w: "sdb_file_write_full (page_offset psize ?k) ?b db = (r1, db1)"
    by fastforce
  obtain m where m: "wrote_prefix (page_offset psize ?k) ?b db m db1"
    "r1 = Inr () \<and> m = length ?b \<or> r1 = Inl SDB_E_IO \<and> may_fail db"
    using sdb_file_write_full_spec [OF w] off(1) p(3) by metis
  have part: "partly_written psize [?p] (fcontent db) (fcontent db1)"
    using m(1) partly_written_page [of psize ?p "fcontent db" m] by (simp add: wrote_prefix_def)
  show ?case
  proof (cases r1)
    case (Inl e)
    with m Suc.prems(3) w partly_written_append [OF part partly_written_refl] show ?thesis
      unfolding run by (auto simp: fbind_def wrote_prefix_def)
  next
    case (Inr u)
    then have "wal_apply_loop psize txn_id limit hdr n ?tail db1 = (r, db')"
      using Suc.prems(3) w unfolding run by (simp add: fbind_def)
    from Suc.IH [OF _ _ this] Suc.prems(1,2) have
      "set (fscript db') \<subseteq> set (fscript db1)" "fdurable db' = fdurable db1"
      "partly_written psize (parse_frames hdr psize n ?tail) (fcontent db1) (fcontent db')"
      "r = Inr () \<and> fcontent db' = write_pages psize (parse_frames hdr psize n ?tail) (fcontent db1)
        \<or> r = Inl SDB_E_IO \<and> may_fail db1"
      by auto
    with m Inr partly_written_append [OF part] show ?thesis
      by (auto simp: wrote_prefix_def may_fail_def)
  qed
qed (simp add: freturn_def)

section \<open>Finding the next transaction\<close>

text \<open>The scan at the start of \<open>rest\<close>, as far as it depends on what it has seen.\<close>

definition next_v5 :: "nat \<Rightarrow> bytes \<Rightarrow> u64 \<Rightarrow> u64 \<Rightarrow> (sdb_wal_commit_rec \<times> nat) option" where
  "next_v5 psize rest expected_next target =
    (if length rest < 40 + psize + 44 then None
     else wal_next_self_describing rest (40 + psize) expected_next target)"

definition ident_v5 :: wal_identity where
  "ident_v5 = \<lparr>wid_self_describing = True, wid_bound = True, wid_record_header_size = 40\<rparr>"

lemma wal_next_txn_v5:
  "wal_next_txn sb ident_v5 buf sc =
    next_v5 (unat (page_size sb)) (drop (sc_cursor sc) buf) (sc_expected_next sc) (sc_next_page_id sc)"
  by (auto simp: wal_next_txn_def next_v5_def ident_v5_def wal_consts Let_def)

lemma declared_count_image:
  assumes fid: "length (file_id sb) = 16" and psize: "psize = unat (page_size sb)" and "ps \<noteq> []"
    and sized: "pages_sized psize ps" and few: "length ps \<le> 1048576"
    and n: "24 \<le> n"
  shows "sdb_read_u32_le (take n (txn_image sb txn_id ps) @ rest) 20 = of_nat (length ps)"
proof -
  obtain p ps' where ps: "ps = p # ps'"
    using assms(3) by (cases ps) auto
  let ?f = "frame_image (file_id sb) txn_id (length ps) 0 p"
  obtain rest' where img: "txn_image sb txn_id ps = ?f @ rest'"
    by (simp add: txn_image_def ps Let_def)
  have "le_bytes 8 (wp_page_id p) @ le_bytes 8 txn_id @ le_bytes 4 (0 :: u32) @ le_bytes 4 (of_nat (length ps) :: u32)
      = take 24 ?f"
    by (simp add: frame_image_def)
  then have "\<exists>more. take n (txn_image sb txn_id ps) @ rest =
      (le_bytes 8 (wp_page_id p) @ le_bytes 8 txn_id @ le_bytes 4 (0 :: u32) @ le_bytes 4 (of_nat (length ps) :: u32)) @ more"
    using n by (auto simp: img frame_image_def take_append)
  then show ?thesis
    by (auto simp: rd_slices layout_simps)
qed

lemma txn_size_count: "txn_size sb ps = length ps * (40 + unat (page_size sb)) + 44"
  by (simp add: txn_size_def)

lemma next_v5_image:
  assumes fid: "length (file_id sb) = 16" and acc: "txn_accepted sb txn_id ps"
    and sized: "pages_sized (unat (page_size sb)) ps"
    and target: "target \<le> next_page_id sb" "freelist_page sb = 0 \<or> freelist_page sb < next_page_id sb"
  shows "next_v5 (unat (page_size sb)) (txn_image sb txn_id ps @ rest) txn_id target =
    Some (txn_commit_rec sb txn_id ps, length ps)"
proof -
  let ?fs = "40 + unat (page_size sb)" and ?n = "length ps"
  let ?frames = "frames_image (file_id sb) txn_id ?n 0 ps"
  let ?rec = "txn_commit_rec sb txn_id ps"
  have n: "0 < ?n" "?n \<le> 1048576" "ps \<noteq> []"
    using acc by (auto simp: txn_accepted_def SDB_WAL_MAX_RECORDS_def)
  have lf: "length ?frames = ?n * ?fs"
    using length_frames_image [OF fid sized] by simp
  have len: "length (txn_image sb txn_id ps @ rest) = ?n * ?fs + 44 + length rest"
    using length_txn_image [OF fid sized] by (simp add: txn_size_count)
  have count: "unat (of_nat ?n :: u32) = ?n"
    using n(2) by (intro unat_of_nat_u32) simp
  have more: "\<not> b + 44 + c < a + 44" if "1 * a \<le> b" for a b c :: nat
    using that by simp
  have enough: "\<not> length (txn_image sb txn_id ps @ rest) < ?fs + 44"
    unfolding len using n(1) by (intro more mult_le_mono1) linarith
  have "?n \<le> (?n * ?fs + length rest) div ?fs"
    by (simp add: div_plus_div_distrib_dvd_left)
  then have dec: "wal_declared_count (txn_image sb txn_id ps @ rest) ?fs = Some ?n"
    using declared_count_image [OF fid refl n(3) sized n(2), of "length (txn_image sb txn_id ps)" txn_id rest]
      n count len length_txn_image [OF fid sized, of txn_id]
    by (simp add: wal_declared_count_def wal_consts SDB_WAL_MAX_RECORDS_def txn_size_def Let_def)
  have "slice (?n * ?fs) 44 (txn_image sb txn_id ps @ rest) = commit_image 5 ?rec (sdb_crc32 ?frames)"
    using lf by (simp add: txn_image_def Let_def layout_simps)
  moreover have "take (?n * ?fs) (txn_image sb txn_id ps @ rest) = ?frames"
    using lf by (simp add: txn_image_def Let_def)
  moreover have "take 4 (commit_image 5 ?rec (sdb_crc32 ?frames)) = sdb_wal_commit_magic"
    using commit_layout_reads(1) [of _ 5 ?rec "sdb_crc32 ?frames" "[]"] by (simp add: commit_image_def)
  moreover have "sdb_wal_decode_commit_rec (commit_image 5 ?rec (sdb_crc32 ?frames)) = Inr (?rec, sdb_crc32 ?frames)"
    using decode_commit_image [of 5 ?rec "sdb_crc32 ?frames" "[]"] by simp
  ultimately have "wal_commit_at (txn_image sb txn_id ps @ rest) ?fs ?n = Some (?rec, sdb_crc32 ?frames)"
    by (simp add: wal_commit_at_def wal_consts Let_def txn_commit_rec_def)
  with dec enough target show ?thesis
    by (auto simp: next_v5_def wal_next_self_describing_def txn_commit_rec_def not_le)
qed

text \<open>A transaction of which the end is missing is not found.\<close>

lemma next_v5_torn:
  assumes fid: "length (file_id sb) = 16" and acc: "txn_accepted sb txn_id ps"
    and sized: "pages_sized (unat (page_size sb)) ps"
    and torn: "n < txn_size sb ps"
  shows "next_v5 (unat (page_size sb)) (take n (txn_image sb txn_id ps)) expected_next target = None"
proof (cases "n < 40 + unat (page_size sb) + 44")
  case True
  then have "length (take n (txn_image sb txn_id ps)) < 40 + unat (page_size sb) + 44"
    by simp
  then show ?thesis
    unfolding next_v5_def by (rule if_P)
next
  case False
  let ?fs = "40 + unat (page_size sb)" and ?n = "length ps"
  have n: "?n \<le> 1048576" "ps \<noteq> []"
    using acc by (auto simp: txn_accepted_def SDB_WAL_MAX_RECORDS_def)
  have count: "unat (of_nat ?n :: u32) = ?n"
    using n(1) by (intro unat_of_nat_u32) simp
  have "n - 44 < ?n * ?fs"
    using torn False unfolding txn_size_count by simp
  then have "(n - 44) div ?fs < ?n"
    by (simp add: div_less_iff_less_mult)
  moreover have "length (take n (txn_image sb txn_id ps)) = n"
    using torn length_txn_image [OF fid sized, of txn_id] by simp
  ultimately have "wal_declared_count (take n (txn_image sb txn_id ps)) ?fs = None"
    using declared_count_image [OF fid refl n(2) sized n(1), of n txn_id "[]"] False count
    by (simp add: wal_declared_count_def wal_consts Let_def)
  then show ?thesis
    by (simp add: next_v5_def wal_next_self_describing_def)
qed

text \<open>
  What makes the scan take a transaction: a commit record that carries its number,
  behind as many frames as the first of them declares, with their checksum.
\<close>

definition sealed_txn :: "nat \<Rightarrow> u64 \<Rightarrow> bytes \<Rightarrow> bool" where
  "sealed_txn psize txn_id rest \<longleftrightarrow> (let n = unat (sdb_read_u32_le rest 20); frames = n * (40 + psize) in
    0 < n \<and> (\<exists>version \<in> {3, 4, 5}. \<exists>rec. wc_txn_id rec = txn_id \<and> wc_frame_count rec = of_nat n
      \<and> slice frames 44 rest = commit_image version rec (sdb_crc32 (take frames rest))))"

lemma next_v5_unsealed:
  assumes "\<not> sealed_txn psize txn_id rest"
  shows "next_v5 psize rest txn_id target = None"
proof (rule ccontr)
  assume "next_v5 psize rest txn_id target \<noteq> None"
  then obtain rec n crc where n: "wal_declared_count rest (40 + psize) = Some n"
    and c: "wal_commit_at rest (40 + psize) n = Some (rec, crc)" and id: "wc_txn_id rec = txn_id"
    by (auto simp: next_v5_def wal_next_self_describing_def split: if_splits option.splits prod.splits)
  have n': "n = unat (sdb_read_u32_le rest 20)" "0 < n"
    using n by (auto simp: wal_declared_count_def wal_consts Let_def split: if_splits)
  have "sdb_wal_decode_commit_rec (slice (n * (40 + psize)) 44 rest) = Inr (rec, crc)" "wc_frame_count rec = of_nat n"
    "crc = sdb_crc32 (take (n * (40 + psize)) rest)"
    using c by (auto simp: wal_commit_at_def wal_consts Let_def split: if_splits sum.splits)
  with decode_commit_inv [of "slice (n * (40 + psize)) 44 rest" rec crc] id n' assms show False
    by (auto simp: sealed_txn_def Let_def slice_def)
qed

text \<open>The checksum at work: frames of which four adjacent bytes were lost are not sealed.\<close>

lemma burst_unsealed:
  assumes fid: "length (file_id sb) = 16" and ps: "ps \<noteq> []" "length ps \<le> 1048576"
    and sized: "pages_sized (unat (page_size sb)) ps"
    and w: "24 \<le> off" "off + length w \<le> length ps * (40 + unat (page_size sb))" "length w \<le> 4"
      "w \<noteq> slice off (length w) (txn_image sb txn_id ps)"
  shows "\<not> sealed_txn (unat (page_size sb)) txn_id (blit off w (txn_image sb txn_id ps))"
proof
  let ?fs = "40 + unat (page_size sb)" and ?n = "length ps"
  let ?frames = "frames_image (file_id sb) txn_id ?n 0 ps" and ?rec = "txn_commit_rec sb txn_id ps"
  assume sealed: "sealed_txn (unat (page_size sb)) txn_id (blit off w (txn_image sb txn_id ps))"
  have lf: "length ?frames = ?n * ?fs"
    using length_frames_image [OF fid sized] by simp
  have img: "txn_image sb txn_id ps = ?frames @ commit_image 5 ?rec (sdb_crc32 ?frames)"
    by (simp add: txn_image_def Let_def)
  have b: "blit off w (txn_image sb txn_id ps) = blit off w ?frames @ commit_image 5 ?rec (sdb_crc32 ?frames)"
    unfolding img using w(2) lf by (simp add: blit_def)
  have "sdb_read_u32_le (blit off w (txn_image sb txn_id ps)) 20 = sdb_read_u32_le (txn_image sb txn_id ps) 20"
    using w(1,2) lf by (intro le32.rd_blit_other) (auto simp: img)
  also have "\<dots> = of_nat ?n"
    using declared_count_image [OF fid refl ps(1) sized ps(2), of "length (txn_image sb txn_id ps)" txn_id "[]"]
      length_txn_image [OF fid sized, of txn_id] by (simp add: txn_size_def)
  finally have n: "unat (sdb_read_u32_le (blit off w (txn_image sb txn_id ps)) 20) = ?n"
    using unat_of_nat_u32 ps(2) by simp
  have "take (?n * ?fs) (blit off w (txn_image sb txn_id ps)) = blit off w ?frames"
    "slice (?n * ?fs) 44 (blit off w (txn_image sb txn_id ps)) = commit_image 5 ?rec (sdb_crc32 ?frames)"
    using lf w(2) unfolding b by (simp_all add: layout_simps)
  with sealed obtain version rec where "version \<in> {3, 4, 5}"
    "commit_image 5 ?rec (sdb_crc32 ?frames) = commit_image version rec (sdb_crc32 (blit off w ?frames))"
    by (auto simp: sealed_txn_def n Let_def)
  then have "sdb_crc32 ?frames = sdb_crc32 (blit off w ?frames)"
    using decode_commit_image [of 5 ?rec "sdb_crc32 ?frames" "[]"] decode_commit_image [of version rec "sdb_crc32 (blit off w ?frames)" "[]"]
    by simp
  moreover have "w \<noteq> slice off (length w) ?frames"
    using w(2,4) lf by (simp add: img slice_def)
  ultimately show False
    using crc32_blit_burst [of off w ?frames] w(2,3) lf by simp
qed

section \<open>Logs\<close>

text \<open>
  A log is the list of its committed transactions, each with the superblock the
  writer held at the time and its pages; the transactions are numbered from \<open>e\<close>.
\<close>

type_synonym wal_log = "(sdb_superblock_v1 \<times> sdb_wal_page list) list"

fun log_image :: "u64 \<Rightarrow> wal_log \<Rightarrow> bytes" where
  "log_image e [] = []"
| "log_image e ((sb, ps) # ts) = txn_image sb e ps @ log_image (e + 1) ts"

definition txn_replayable ::
  "bool \<Rightarrow> sdb_superblock_v1 \<Rightarrow> bytes option \<Rightarrow> u64 \<Rightarrow> u64 \<Rightarrow> sdb_superblock_v1 \<Rightarrow> sdb_wal_page list \<Rightarrow> bool" where
  "txn_replayable avx2 sb data_key target e sb' ps \<longleftrightarrow>
    file_id sb' = file_id sb \<and> page_size sb' = page_size sb \<and> checkpoint_lsn sb < e
    \<and> target \<le> next_page_id sb' \<and> (freelist_page sb' = 0 \<or> freelist_page sb' < next_page_id sb')
    \<and> txn_accepted sb' e ps \<and> pages_sized (unat (page_size sb)) ps \<and> (\<forall>p \<in> set ps. page_opens avx2 sb data_key p)
    \<and> unat (next_page_id sb') * unat (page_size sb) + 8192 \<le> INT64_MAX"

fun log_replayable :: "bool \<Rightarrow> sdb_superblock_v1 \<Rightarrow> bytes option \<Rightarrow> u64 \<Rightarrow> u64 \<Rightarrow> wal_log \<Rightarrow> bool" where
  "log_replayable avx2 sb data_key target e [] \<longleftrightarrow> True"
| "log_replayable avx2 sb data_key target e ((sb', ps) # ts) \<longleftrightarrow>
    txn_replayable avx2 sb data_key target e sb' ps
    \<and> log_replayable avx2 sb data_key (next_page_id sb') (e + 1) ts"

fun log_pages :: "wal_log \<Rightarrow> sdb_wal_page list" where
  "log_pages [] = []"
| "log_pages ((sb, ps) # ts) = ps @ log_pages ts"

definition log_end :: "sdb_superblock_v1 \<Rightarrow> wal_log \<Rightarrow> sdb_superblock_v1" where
  "log_end sb ts = (if ts = [] then sb else fst (last ts))"

text \<open>The state of the scan behind a log.\<close>

definition scan_after :: "nat \<Rightarrow> u64 \<Rightarrow> wal_log \<Rightarrow> wal_scan \<Rightarrow> wal_scan" where
  "scan_after cursor e ts sc =
    (if ts = [] then sc
     else \<lparr>sc_cursor = cursor, sc_last_lsn = e + of_nat (length ts) - 1,
           sc_next_page_id = next_page_id (fst (last ts)), sc_freelist_page = freelist_page (fst (last ts)),
           sc_expected_next = e + of_nat (length ts), sc_applied = True\<rparr>)"

lemma replay_txn:
  assumes fid: "length (file_id sb) = 16" and pos: "0 < unat (page_size sb)"
    and txn: "txn_replayable avx2 sb data_key (sc_next_page_id sc) (sc_expected_next sc) sb' ps"
    and rest: "drop (sc_cursor sc) buf = txn_image sb' (sc_expected_next sc) ps @ rest"
  defines "sc' \<equiv> wal_advance sb ident_v5 (txn_commit_rec sb' (sc_expected_next sc) ps) (length ps) True sc"
  shows "(\<exists>db'. wal_replay malloc_ok avx2 sb data_key ident_v5 buf sc db = wal_replay malloc_ok avx2 sb data_key ident_v5 buf sc' db'
        \<and> fcontent db' = write_pages (unat (page_size sb)) ps (fcontent db) \<and> set (fscript db') \<subseteq> set (fscript db)
        \<and> fdurable db' = fdurable db)
    \<or> (\<exists>db' e. wal_replay malloc_ok avx2 sb data_key ident_v5 buf sc db = Some (Inl e, db')
        \<and> (e = SDB_E_IO \<and> may_fail db \<or> e = SDB_E_OUT_OF_MEMORY \<and> (\<exists>n. \<not> malloc_ok n)) \<and> fdurable db' = fdurable db
        \<and> partly_written (unat (page_size sb)) ps (fcontent db) (fcontent db'))"
proof -
  let ?e = "sc_expected_next sc" and ?psize = "unat (page_size sb)"
  let ?rec = "txn_commit_rec sb' ?e ps"
  have same: "file_id sb' = file_id sb" "page_size sb' = page_size sb"
    and newer: "checkpoint_lsn sb < ?e" and acc: "txn_accepted sb' ?e ps" and sized: "pages_sized ?psize ps"
    and opens: "\<forall>p \<in> set ps. page_opens avx2 sb data_key p"
    and lim: "unat (next_page_id sb') * ?psize + 8192 \<le> INT64_MAX"
    and ok: "sc_next_page_id sc \<le> next_page_id sb'" "freelist_page sb' = 0 \<or> freelist_page sb' < next_page_id sb'"
    using txn by (auto simp: txn_replayable_def)
  have "wal_next_txn sb ident_v5 buf sc = Some (?rec, length ps)"
    unfolding wal_next_txn_v5 rest
    using next_v5_image [of sb' ?e ps "sc_next_page_id sc" rest] same fid acc sized ok by simp
  moreover obtain frames where fr: "drop (sc_cursor sc) buf = frames_image (file_id sb) ?e (length ps) 0 ps @ frames"
    unfolding rest by (simp add: txn_image_def Let_def same)
  note valid = validate_frames_image [OF fid refl acc sized opens, of malloc_ok frames]
  obtain r db' where app: "wal_apply_loop ?psize ?e (next_page_id sb') 40 (length ps)
      (frames_image (file_id sb) ?e (length ps) 0 ps @ frames) db = (r, db')"
    by fastforce
  have "list_all (txn_page_ok (next_page_id sb') ?e) ps"
    using acc by (simp add: txn_accepted_def txn_pages_ok_def)
  then have applied: "set (fscript db') \<subseteq> set (fscript db) \<and> fdurable db' = fdurable db \<and>
      partly_written ?psize ps (fcontent db) (fcontent db') \<and>
      (r = Inr () \<and> fcontent db' = write_pages ?psize ps (fcontent db) \<or> r = Inl SDB_E_IO \<and> may_fail db)"
    using apply_loop_spec [OF pos lim _ _ app] parse_frames_image [OF fid sized] sized by simp
  have "wc_txn_id ?rec = ?e" "wc_next_page_id ?rec = next_page_id sb'"
    by (simp_all add: txn_commit_rec_def)
  ultimately have run: "wal_replay malloc_ok avx2 sb data_key ident_v5 buf sc db =
    (case sdb_wal_validate_frames malloc_ok avx2 (frames_image (file_id sb) ?e (length ps) 0 ps @ frames) ?psize
        (length ps) ?e (next_page_id sb') 40 True sb data_key of
       None \<Rightarrow> None | Some (Inl e) \<Rightarrow> Some (Inl e, db)
     | Some (Inr _) \<Rightarrow>
         (case r of Inl e \<Rightarrow> Some (Inl e, db')
          | Inr _ \<Rightarrow> wal_replay malloc_ok avx2 sb data_key ident_v5 buf sc' db'))"
    using newer app unfolding sc'_def
    by (subst wal_replay.simps) (auto simp: fr ident_v5_def sdb_wal_apply_frames_def fbind_def freturn_def Let_def
        split: option.split sum.split)
  show ?thesis
    using valid applied unfolding run by (auto split: if_splits)
qed

lemma replay_log:
  assumes fid: "length (file_id sb) = 16" and pos: "0 < unat (page_size sb)"
    and "log_replayable avx2 sb data_key (sc_next_page_id sc) (sc_expected_next sc) ts"
    and "drop (sc_cursor sc) buf = log_image (sc_expected_next sc) ts @ tail"
    and "\<forall>target. next_v5 (unat (page_size sb)) tail (sc_expected_next sc + of_nat (length ts)) target = None"
  shows "(\<exists>db'. wal_replay malloc_ok avx2 sb data_key ident_v5 buf sc db =
        Some (Inr (scan_after (sc_cursor sc + length (log_image (sc_expected_next sc) ts)) (sc_expected_next sc) ts sc), db')
        \<and> fcontent db' = write_pages (unat (page_size sb)) (log_pages ts) (fcontent db)
        \<and> set (fscript db') \<subseteq> set (fscript db) \<and> fdurable db' = fdurable db \<and> (ts = [] \<longrightarrow> db' = db))
    \<or> (\<exists>db' e. wal_replay malloc_ok avx2 sb data_key ident_v5 buf sc db = Some (Inl e, db')
        \<and> (e = SDB_E_IO \<and> may_fail db \<or> e = SDB_E_OUT_OF_MEMORY \<and> (\<exists>n. \<not> malloc_ok n)) \<and> fdurable db' = fdurable db
        \<and> partly_written (unat (page_size sb)) (log_pages ts) (fcontent db) (fcontent db'))"
  using assms(3-)
proof (induction ts arbitrary: sc db)
  case Nil
  then have "wal_next_txn sb ident_v5 buf sc = None"
    by (simp add: wal_next_txn_v5)
  then show ?case
    by (subst (1) wal_replay.simps) (simp add: scan_after_def)
next
  case (Cons t ts)
  obtain sb' ps where t: "t = (sb', ps)"
    by fastforce
  let ?e = "sc_expected_next sc" and ?psize = "unat (page_size sb)"
  let ?sc = "wal_advance sb ident_v5 (txn_commit_rec sb' ?e ps) (length ps) True sc"
  have txn: "txn_replayable avx2 sb data_key (sc_next_page_id sc) ?e sb' ps"
    and more: "log_replayable avx2 sb data_key (next_page_id sb') (?e + 1) ts"
    using Cons.prems(1) by (simp_all add: t)
  have len: "length (txn_image sb' ?e ps) = length ps * (40 + ?psize) + 44"
    using txn fid length_txn_image [of sb' ps ?e] by (simp add: txn_replayable_def txn_size_count)
  have sc': "sc_cursor ?sc = sc_cursor sc + length (txn_image sb' ?e ps)" "sc_expected_next ?sc = ?e + 1"
    "sc_next_page_id ?sc = next_page_id sb'" "sc_freelist_page ?sc = freelist_page sb'" "sc_last_lsn ?sc = ?e" "sc_applied ?sc"
    by (simp_all add: wal_advance_def ident_v5_def txn_commit_rec_def wal_consts len)
  have rest: "drop (sc_cursor sc) buf = txn_image sb' ?e ps @ log_image (?e + 1) ts @ tail"
    using Cons.prems(2) by (simp add: t)
  have "drop (sc_cursor ?sc) buf = log_image (sc_expected_next ?sc) ts @ tail"
    unfolding sc' drop_drop [symmetric] add.commute [of "sc_cursor sc"] using rest by simp
  note IH = Cons.IH [of ?sc, OF _ this]
  have IH': "(\<exists>db''. wal_replay malloc_ok avx2 sb data_key ident_v5 buf ?sc db' =
        Some (Inr (scan_after (sc_cursor ?sc + length (log_image (?e + 1) ts)) (?e + 1) ts ?sc), db'')
        \<and> fcontent db'' = write_pages ?psize (log_pages ts) (fcontent db')
        \<and> set (fscript db'') \<subseteq> set (fscript db') \<and> fdurable db'' = fdurable db')
    \<or> (\<exists>db'' e. wal_replay malloc_ok avx2 sb data_key ident_v5 buf ?sc db' = Some (Inl e, db'')
        \<and> (e = SDB_E_IO \<and> may_fail db' \<or> e = SDB_E_OUT_OF_MEMORY \<and> (\<exists>n. \<not> malloc_ok n)) \<and> fdurable db'' = fdurable db'
        \<and> partly_written ?psize (log_pages ts) (fcontent db') (fcontent db''))" for db'
    using IH [of db'] more Cons.prems(3) by (auto simp: sc' add.assoc)
  have after: "scan_after (sc_cursor ?sc + length (log_image (?e + 1) ts)) (?e + 1) ts ?sc =
      scan_after (sc_cursor sc + length (log_image ?e (t # ts))) ?e (t # ts) sc"
    using sc' by (cases ts) (auto simp: scan_after_def t algebra_simps intro!: wal_scan.equality)
  have weaken: "partly_written ?psize (log_pages (t # ts)) c c'" if "partly_written ?psize ps c c'" for c c'
    using partly_written_append [OF that partly_written_refl] by (simp add: t)
  from replay_txn [OF fid pos txn rest, of malloc_ok db] show ?case
  proof (elim disjE exE conjE)
    fix db'
    assume run: "wal_replay malloc_ok avx2 sb data_key ident_v5 buf sc db = wal_replay malloc_ok avx2 sb data_key ident_v5 buf ?sc db'"
      and c: "fcontent db' = write_pages ?psize ps (fcontent db)" and s: "set (fscript db') \<subseteq> set (fscript db)"
      and d: "fdurable db' = fdurable db"
    have "may_fail db' \<Longrightarrow> may_fail db"
      using s by (auto simp: may_fail_def)
    moreover have "write_pages ?psize (log_pages ts) (fcontent db') = write_pages ?psize (log_pages (t # ts)) (fcontent db)"
      by (simp add: c t write_pages_def)
    moreover have "partly_written ?psize (log_pages (t # ts)) (fcontent db) c''"
      if "partly_written ?psize (log_pages ts) (fcontent db') c''" for c''
      using partly_written_append [OF partly_written_all that [unfolded c]] by (simp add: t)
    ultimately show ?case
      using IH' [of db'] s d unfolding run after by auto
  qed (auto dest: weaken)
qed

section \<open>The whole of recovery\<close>

lemma wal_header_reads:
  assumes "length (file_id sb) = 16" "length c = 4"
  shows "take 4 (wal_header_layout sb version txn_id n c @ rest) = sdb_wal_magic"
    and "sdb_read_u16_le (wal_header_layout sb version txn_id n c @ rest) 4 = version"
    and "sdb_read_u16_le (wal_header_layout sb version txn_id n c @ rest) 6 = 64"
    and "sdb_read_u32_le (wal_header_layout sb version txn_id n c @ rest) 16 = page_size sb"
    and "slice 24 16 (wal_header_layout sb version txn_id n c @ rest) = file_id sb"
    and "sdb_read_u32_le (wal_header_layout sb version txn_id n c @ rest) 60 = le_word c"
  using assms by (simp_all add: wal_header_layout_def rd_slices layout_simps)

lemma header_gate_image:
  assumes fid: "length (file_id sb) = 16" and same: "file_id sb' = file_id sb" "page_size sb' = page_size sb"
  shows "wal_header_gate sb (wal_header_image sb' 5 txn_id n @ rest) = Inr ident_v5"
proof -
  let ?l = "wal_header_layout sb' 5 txn_id (of_nat n)"
  let ?c = "le_bytes 4 (sdb_crc32 (?l (zeros 4)))"
  have fid': "length (file_id sb') = 16"
    using fid same by simp
  have img: "wal_header_image sb' 5 txn_id n = ?l ?c"
    by (simp add: wal_header_image_def)
  have present: "list_ex (\<lambda>b. b \<noteq> 0) (take 64 (?l ?c @ rest))"
    using fid' by (simp add: wal_header_layout_def sdb_wal_magic_def)
  have crc: "sdb_crc32_zeroed_range (take 64 (?l ?c @ rest)) 60 4 = sdb_read_u32_le (?l ?c @ rest) 60"
    using fid' blit_wal_header_checksum [of sb' ?c "zeros 4" 5 txn_id "of_nat n" "[]"]
    by (simp add: wal_header_reads crc32_zeroed_range_blit)
  have "\<not> wal_header_mismatch sb (?l ?c @ rest)"
    using fid' same by (simp add: wal_header_mismatch_def wal_header_reads
        wal_header_reads(1) [where rest = "[]", simplified] wal_consts wal_versions SDB_FILE_ID_SIZE_def Let_def)
  then show ?thesis
    unfolding img wal_header_gate_def Let_def wal_consts
    using present crc fid' by (simp add: wal_header_reads(2) wal_versions ident_v5_def)
qed

definition recovered :: "sdb_superblock_v1 \<Rightarrow> wal_log \<Rightarrow> wal_recovered" where
  "recovered sb ts = \<lparr>wr_last_lsn = checkpoint_lsn sb + of_nat (length ts),
    wr_next_page_id = next_page_id (log_end sb ts), wr_freelist_page = freelist_page (log_end sb ts),
    wr_replayed = (ts \<noteq> [])\<rparr>"

definition resource_failure :: "(nat \<Rightarrow> bool) \<Rightarrow> bool \<Rightarrow> sdb_status \<Rightarrow> bool" where
  "resource_failure malloc_ok faulty e \<longleftrightarrow>
    e = SDB_E_IO \<and> faulty \<or> e = SDB_E_OUT_OF_MEMORY \<and> (\<exists>n. \<not> malloc_ok n)"

definition recovery_outcome ::
  "(nat \<Rightarrow> bool) \<Rightarrow> bool \<Rightarrow> sdb_superblock_v1 \<Rightarrow> wal_log \<Rightarrow> sdb_file \<Rightarrow> wal_recovered result \<Rightarrow> sdb_file \<Rightarrow> bool" where
  "recovery_outcome malloc_ok faulty sb ts db r db' \<longleftrightarrow>
    (case r of
       Inl e \<Rightarrow> resource_failure malloc_ok faulty e \<and> fdurable db' = fdurable db
         \<and> partly_written (unat (page_size sb)) (log_pages ts) (fcontent db) (fcontent db')
     | Inr out \<Rightarrow> out = recovered sb ts
         \<and> fcontent db' = write_pages (unat (page_size sb)) (log_pages ts) (fcontent db)
         \<and> (if ts = [] then db' = db else fdurable db' = fcontent db'))"

lemma recover_buffer_log:
  assumes fid: "length (file_id sb) = 16" and pos: "0 < unat (page_size sb)"
    and same: "file_id sb' = file_id sb" "page_size sb' = page_size sb"
    and log: "log_replayable avx2 sb data_key (next_page_id sb) (checkpoint_lsn sb + 1) ts"
    and tail: "\<forall>target. next_v5 (unat (page_size sb)) tail (checkpoint_lsn sb + 1 + of_nat (length ts)) target = None"
    and buf: "buf = wal_header_image sb' 5 txn_id n @ log_image (checkpoint_lsn sb + 1) ts @ tail"
  shows "\<exists>r db'. wal_recover_buffer malloc_ok avx2 sb data_key buf db = Some (r, db') \<and>
    recovery_outcome malloc_ok (may_fail db) sb ts db r db'"
proof -
  let ?e = "checkpoint_lsn sb + 1"
  let ?start = "\<lparr>sc_cursor = 64, sc_last_lsn = checkpoint_lsn sb, sc_next_page_id = next_page_id sb,
    sc_freelist_page = freelist_page sb, sc_expected_next = ?e, sc_applied = False\<rparr>"
  let ?final = "scan_after (64 + length (log_image ?e ts)) ?e ts ?start"
  have gate: "wal_header_gate sb buf = Inr ident_v5"
    unfolding buf by (rule header_gate_image [OF fid same])
  have "drop 64 buf = log_image ?e ts @ tail"
    using fid same by (simp add: buf)
  then have run: "(\<exists>db'. wal_replay malloc_ok avx2 sb data_key ident_v5 buf ?start db = Some (Inr ?final, db')
        \<and> fcontent db' = write_pages (unat (page_size sb)) (log_pages ts) (fcontent db)
        \<and> set (fscript db') \<subseteq> set (fscript db) \<and> fdurable db' = fdurable db \<and> (ts = [] \<longrightarrow> db' = db))
    \<or> (\<exists>db' e. wal_replay malloc_ok avx2 sb data_key ident_v5 buf ?start db = Some (Inl e, db')
        \<and> (e = SDB_E_IO \<and> may_fail db \<or> e = SDB_E_OUT_OF_MEMORY \<and> (\<exists>n. \<not> malloc_ok n)) \<and> fdurable db' = fdurable db
        \<and> partly_written (unat (page_size sb)) (log_pages ts) (fcontent db) (fcontent db'))"
    using replay_log [OF fid pos, of avx2 data_key ?start ts buf tail malloc_ok db] log tail by simp
  have out: "\<lparr>wr_last_lsn = sc_last_lsn ?final, wr_next_page_id = sc_next_page_id ?final,
      wr_freelist_page = sc_freelist_page ?final, wr_replayed = sc_applied ?final\<rparr> = recovered sb ts"
    by (simp add: scan_after_def recovered_def log_end_def)
  have applied: "sc_applied ?final = (ts \<noteq> [])"
    by (simp add: scan_after_def)
  have eq: "wal_recover_buffer malloc_ok avx2 sb data_key buf db =
      (case wal_replay malloc_ok avx2 sb data_key ident_v5 buf ?start db of
         None \<Rightarrow> None
       | Some (Inl e, db') \<Rightarrow> Some (Inl e, db')
       | Some (Inr sc, db') \<Rightarrow>
           Some (fbind (if sc_applied sc then sdb_file_sync else freturn ()) (\<lambda>_.
             freturn \<lparr>wr_last_lsn = sc_last_lsn sc, wr_next_page_id = sc_next_page_id sc,
               wr_freelist_page = sc_freelist_page sc, wr_replayed = sc_applied sc\<rparr>) db'))"
    using gate by (simp add: wal_recover_buffer_def ident_v5_def SDB_WAL_HEADER_SIZE_def Let_def)
  from run show ?thesis
  proof (elim disjE exE conjE)
    fix db'
    assume r: "wal_replay malloc_ok avx2 sb data_key ident_v5 buf ?start db = Some (Inr ?final, db')"
      and c: "fcontent db' = write_pages (unat (page_size sb)) (log_pages ts) (fcontent db)"
      and s: "set (fscript db') \<subseteq> set (fscript db)" "fdurable db' = fdurable db" and e: "ts = [] \<longrightarrow> db' = db"
    show ?thesis
    proof (cases "ts = []")
      case True
      with r c e applied out show ?thesis
        unfolding eq by (simp add: fbind_def freturn_def recovery_outcome_def)
    next
      case False
      obtain rs dbs where sync: "sdb_file_sync db' = (rs, dbs)"
        by fastforce
      have "may_fail db' \<Longrightarrow> may_fail db" "partly_written (unat (page_size sb)) (log_pages ts) (fcontent db) (fcontent db')"
        using s partly_written_all by (auto simp: may_fail_def c)
      with sdb_file_sync_spec [OF sync] False r c s applied out sync show ?thesis
        unfolding eq
        by (auto simp: fbind_def freturn_def recovery_outcome_def resource_failure_def same_file_def)
    qed
  qed (auto simp: eq recovery_outcome_def resource_failure_def)
qed

definition wal_file :: "directory \<Rightarrow> string \<Rightarrow> bytes \<Rightarrow> bool" where
  "wal_file d path content \<longleftrightarrow> (\<exists>h < length (d_inodes d). d_names d path = Some h \<and> fcontent (d_inodes d ! h) = content)"

lemma recover_all_reads:
  assumes psize: "page_size_ok (unat (page_size sb))" and geo: "sdb_page_geometry_valid (next_page_id sb) (page_size sb)"
    and wal: "wal_file d path content" and small: "length content \<le> SDB_WAL_MAX_BYTES"
  shows "(\<exists>r d'. sdb_wal_recover_all malloc_ok avx2 path sb data_key d db = Some (r, d', db) \<and> dir_unchanged d d' \<and>
      (resource_failure malloc_ok (dir_may_fail d) (status_of r) \<and> \<not> is_ok r
       \<or> length content \<le> 64 \<and> r = Inr (nothing_recovered sb)))
    \<or> 64 < length content \<and> (\<exists>d'. dir_unchanged d d' \<and>
      sdb_wal_recover_all malloc_ok avx2 path sb data_key d db =
        map_option (\<lambda>(r, db'). (r, d', db')) (wal_recover_buffer malloc_ok avx2 sb data_key content db))"
proof -
  obtain h where h: "h < length (d_inodes d)" "d_names d path = Some h" "fcontent (d_inodes d ! h) = content"
    using wal by (auto simp: wal_file_def)
  obtain ro d1 where op: "sdb_file_open_existing path False d = (ro, d1)"
    by fastforce
  note o1 = open_existing_spec [OF op h(2)]
  have h1: "h < length (d_inodes d1)" "fcontent (d_inodes d1 ! h) = content"
    using dir_unchanged_inode [OF o1(1) h(1)] h(3) by simp_all
  obtain rs d2 where sz: "on_file h sdb_file_size d1 = (rs, d2)"
    by fastforce
  note s2 = on_file_size [OF sz h1(1), unfolded h1(2)]
  have h2: "h < length (d_inodes d2)" "fcontent (d_inodes d2 ! h) = content"
    using dir_unchanged_inode [OF s2(1) h1(1)] h1(2) by simp_all
  obtain rr d3 where rd: "on_file h (sdb_file_read_full 0 (length content)) d2 = (rr, d3)"
    by fastforce
  have "length content \<le> INT64_MAX"
    using small by (simp add: SDB_WAL_MAX_BYTES_def INT64_MAX_def)
  then have s3: "dir_unchanged d2 d3" "rr = Inr content \<or> rr = Inl SDB_E_IO \<and> dir_may_fail d2"
    using on_file_read [OF rd h2(1)] h2(2) by (simp_all add: file_read_def)
  have h3: "h < length (d_inodes d3)"
    using dir_unchanged_inode [OF s3(1) h2(1)] by simp
  have un: "dir_unchanged d (close_ignored h d2)" "dir_unchanged d (close_ignored h d3)" "dir_unchanged d d1"
    "dir_unchanged d d2"
    using o1(1) s2(1) s3(1) close_ignored_unchanged [OF h2(1)] close_ignored_unchanged [OF h3] by (meson dir_unchanged_trans)+
  have mf: "dir_may_fail d1 \<Longrightarrow> dir_may_fail d" "dir_may_fail d2 \<Longrightarrow> dir_may_fail d"
    using un dir_unchanged_may_fail by blast+
  note rs = s2(2) and rr = s3(2)
  show ?thesis
  proof (cases "ro = Inr h")
    case False
    then have "sdb_wal_recover_all malloc_ok avx2 path sb data_key d db = Some (Inl SDB_E_IO, d1, db)" "dir_may_fail d"
      using psize geo op o1(2) by (auto simp: sdb_wal_recover_all_def)
    then show ?thesis
      using un(3) by (simp add: resource_failure_def)
  next
    case True
    note op = op [unfolded True]
    have run: "sdb_wal_recover_all malloc_ok avx2 path sb data_key d db =
      (case rs of Inl e \<Rightarrow> Some (Inl e, close_ignored h d2, db)
       | Inr _ \<Rightarrow>
          if length content \<le> 64 then Some (Inr (nothing_recovered sb), close_ignored h d2, db)
          else if \<not> malloc_ok (length content) then Some (Inl SDB_E_OUT_OF_MEMORY, close_ignored h d2, db)
          else (case rr of Inl e \<Rightarrow> Some (Inl e, close_ignored h d3, db)
                | Inr buf \<Rightarrow> map_option (\<lambda>(r, db'). (r, close_ignored h d3, db'))
                    (wal_recover_buffer malloc_ok avx2 sb data_key buf db)))"
      using psize geo op sz rd small rs
      by (auto simp: sdb_wal_recover_all_def SDB_WAL_HEADER_SIZE_def SDB_WAL_MAX_BYTES_def SIZE_MAX_def
          split: sum.split)
    consider "rs = Inl SDB_E_IO" "dir_may_fail d1" | "rs = Inr (length content)" "length content \<le> 64"
      | "rs = Inr (length content)" "64 < length content" "\<not> malloc_ok (length content)"
      | "rs = Inr (length content)" "64 < length content" "malloc_ok (length content)" "rr = Inl SDB_E_IO" "dir_may_fail d2"
      | "rs = Inr (length content)" "64 < length content" "malloc_ok (length content)" "rr = Inr content"
      using rs rr by force
    then show ?thesis
      unfolding run using un mf by cases (auto simp: resource_failure_def)
  qed
qed

lemma recover_log:
  assumes fid: "length (file_id sb) = 16" and psize: "page_size_ok (unat (page_size sb))"
    and geo: "sdb_page_geometry_valid (next_page_id sb) (page_size sb)"
    and same: "file_id sb' = file_id sb" "page_size sb' = page_size sb"
    and log: "log_replayable avx2 sb data_key (next_page_id sb) (checkpoint_lsn sb + 1) ts"
    and tail: "\<forall>target. next_v5 (unat (page_size sb)) tail (checkpoint_lsn sb + 1 + of_nat (length ts)) target = None"
    and wal: "wal_file d path (wal_header_image sb' 5 txn_id n @ log_image (checkpoint_lsn sb + 1) ts @ tail)"
    and small: "64 + length (log_image (checkpoint_lsn sb + 1) ts @ tail) \<le> SDB_WAL_MAX_BYTES"
  shows "\<exists>r d' db'. sdb_wal_recover_all malloc_ok avx2 path sb data_key d db = Some (r, d', db') \<and> dir_unchanged d d' \<and>
    recovery_outcome malloc_ok (dir_may_fail d \<or> may_fail db) sb ts db r db'"
proof -
  let ?c = "wal_header_image sb' 5 txn_id n @ log_image (checkpoint_lsn sb + 1) ts @ tail"
  have len: "length ?c = 64 + length (log_image (checkpoint_lsn sb + 1) ts @ tail)"
    using fid same by simp
  have pos: "0 < unat (page_size sb)"
    using page_size_ok_bounds [OF psize] by simp
  have small': "length ?c \<le> SDB_WAL_MAX_BYTES"
    using small len by simp
  from recover_all_reads [OF psize geo wal small', of malloc_ok avx2 data_key db] show ?thesis
  proof (elim disjE exE conjE)
    fix r d'
    assume run: "sdb_wal_recover_all malloc_ok avx2 path sb data_key d db = Some (r, d', db)" "dir_unchanged d d'"
      "resource_failure malloc_ok (dir_may_fail d) (status_of r)" "\<not> is_ok r"
    then show ?thesis
      by (cases r) (auto simp: recovery_outcome_def resource_failure_def)
  next
    fix r d'
    assume run: "sdb_wal_recover_all malloc_ok avx2 path sb data_key d db = Some (r, d', db)" "dir_unchanged d d'"
      "length ?c \<le> 64" "r = Inr (nothing_recovered sb)"
    then have "log_image (checkpoint_lsn sb + 1) ts = []"
      using len by simp
    then have "ts = []"
      by (cases ts) (auto simp: txn_image_def Let_def commit_image_def commit_layout_def sdb_wal_commit_magic_def)
    with run show ?thesis
      by (simp add: recovery_outcome_def recovered_def nothing_recovered_def log_end_def)
  next
    fix d'
    assume "dir_unchanged d d'" "sdb_wal_recover_all malloc_ok avx2 path sb data_key d db =
        map_option (\<lambda>(r, db'). (r, d', db')) (wal_recover_buffer malloc_ok avx2 sb data_key ?c db)"
    moreover obtain r db' where "wal_recover_buffer malloc_ok avx2 sb data_key ?c db = Some (r, db')"
      "recovery_outcome malloc_ok (may_fail db) sb ts db r db'"
      using recover_buffer_log [OF fid pos same log tail refl] by blast
    ultimately show ?thesis
      by (auto simp: recovery_outcome_def resource_failure_def split: sum.splits)
  qed
qed

text \<open>The log file as the writer leaves it behind a list of transactions.\<close>

definition wal_content :: "sdb_superblock_v1 \<Rightarrow> wal_log \<Rightarrow> bytes" where
  "wal_content sb ts =
    (case ts of
       [] \<Rightarrow> []
     | (sb', ps) # _ \<Rightarrow> wal_header_image sb' 5 (checkpoint_lsn sb + 1) (length ps) @ log_image (checkpoint_lsn sb + 1) ts)"

definition wal_tail :: "sdb_superblock_v1 \<Rightarrow> wal_log \<Rightarrow> nat" where
  "wal_tail sb ts = 64 + length (log_image (checkpoint_lsn sb + 1) ts)"

lemma log_image_append: "log_image e (ts @ us) = log_image e ts @ log_image (e + of_nat (length ts)) us"
  by (induction e ts rule: log_image.induct) (simp_all add: add.assoc add.commute)

lemma log_replayable_append:
  "log_replayable avx2 sb data_key target e (ts @ us) \<longleftrightarrow>
    log_replayable avx2 sb data_key target e ts \<and>
    log_replayable avx2 sb data_key (if ts = [] then target else next_page_id (fst (last ts))) (e + of_nat (length ts)) us"
  by (induction ts arbitrary: target e) (auto simp: add.assoc add.commute)

lemma next_v5_Nil: "next_v5 psize [] e target = None"
  by (simp add: next_v5_def)

lemma log_image_Nil_iff: "log_image e ts = [] \<longleftrightarrow> ts = []"
  by (cases ts) (auto simp: txn_image_def Let_def commit_image_def commit_layout_def sdb_wal_commit_magic_def)

lemma recover_short:
  assumes psize: "page_size_ok (unat (page_size sb))"
    and geo: "sdb_page_geometry_valid (next_page_id sb) (page_size sb)"
    and wal: "wal_file d path content" and short: "length content \<le> 64"
  shows "\<exists>r d' db'. sdb_wal_recover_all malloc_ok avx2 path sb data_key d db = Some (r, d', db') \<and> dir_unchanged d d' \<and>
    recovery_outcome malloc_ok (dir_may_fail d \<or> may_fail db) sb [] db r db'"
proof -
  have "length content \<le> SDB_WAL_MAX_BYTES"
    using short by (simp add: SDB_WAL_MAX_BYTES_def)
  then obtain r d' where "sdb_wal_recover_all malloc_ok avx2 path sb data_key d db = Some (r, d', db)" "dir_unchanged d d'"
    "resource_failure malloc_ok (dir_may_fail d) (status_of r) \<and> \<not> is_ok r \<or> r = Inr (nothing_recovered sb)"
    using recover_all_reads [OF psize geo wal, of malloc_ok avx2 data_key db] short by auto
  then show ?thesis
    by (cases r) (auto simp: recovery_outcome_def recovered_def nothing_recovered_def log_end_def resource_failure_def)
qed

definition recoverable_superblock :: "sdb_superblock_v1 \<Rightarrow> bool" where
  "recoverable_superblock sb \<longleftrightarrow> length (file_id sb) = 16 \<and> page_size_ok (unat (page_size sb))
    \<and> sdb_page_geometry_valid (next_page_id sb) (page_size sb)"

lemma torn_append:
  assumes sb: "recoverable_superblock sb"
    and log: "log_replayable avx2 sb data_key (next_page_id sb) (checkpoint_lsn sb + 1) (ts @ [(sb', ps)])"
    and room: "wal_tail sb (ts @ [(sb', ps)]) \<le> SDB_WAL_MAX_BYTES"
    and written: "written = ws_buffer (staged_txn sb' (wal_tail sb ts) (checkpoint_lsn sb + 1 + of_nat (length ts)) ps)"
    and k: "k \<le> length written"
    and wal: "wal_file d path (wal_content sb ts @ take k written)"
  shows "\<exists>r d' db'. sdb_wal_recover_all malloc_ok avx2 path sb data_key d db = Some (r, d', db') \<and> dir_unchanged d d' \<and>
    recovery_outcome malloc_ok (dir_may_fail d \<or> may_fail db) sb
      (if k < length written then ts else ts @ [(sb', ps)]) db r db'"
proof -
  let ?base = "checkpoint_lsn sb + 1"
  let ?e = "?base + of_nat (length ts)"
  have fid: "length (file_id sb) = 16" and psize: "page_size_ok (unat (page_size sb))"
    and geo: "sdb_page_geometry_valid (next_page_id sb) (page_size sb)"
    using sb by (simp_all add: recoverable_superblock_def)
  have log1: "log_replayable avx2 sb data_key (next_page_id sb) ?base ts"
    and txn: "\<exists>target. txn_replayable avx2 sb data_key target ?e sb' ps"
    using log by (auto simp: log_replayable_append)
  have same: "file_id sb' = file_id sb" "page_size sb' = page_size sb" and acc: "txn_accepted sb' ?e ps"
    and sized: "pages_sized (unat (page_size sb')) ps"
    using txn by (auto simp: txn_replayable_def)
  have len: "length (txn_image sb' ?e ps) = txn_size sb' ps"
    using length_txn_image [OF _ sized] fid same by simp
  have first: "wal_tail sb ts = 64 \<longleftrightarrow> ts = []"
    by (simp add: wal_tail_def log_image_Nil_iff)
  define sb1 t1 n1 where "sb1 = (if ts = [] then sb' else fst (hd ts))" and "t1 = ?base"
    and "n1 = (if ts = [] then length ps else length (snd (hd ts)))"
  have same1: "file_id sb1 = file_id sb" "page_size sb1 = page_size sb"
    using same log1 by (cases ts; auto simp: sb1_def txn_replayable_def)+
  let ?h = "wal_header_image sb1 5 t1 n1"
  have hdr: "length ?h = 64"
    using fid same1 by simp
  have content: "wal_content sb ts @ written = ?h @ log_image ?base ts @ txn_image sb' ?e ps"
    using first by (cases ts) (auto simp: wal_content_def written staged_txn_def sb1_def t1_def n1_def)
  have lw: "length written = (if ts = [] then 64 else 0) + txn_size sb' ps"
    using first len fid same by (simp add: written staged_txn_def)
  have lc: "length (wal_content sb ts) = (if ts = [] then 0 else 64 + length (log_image ?base ts))"
    using fid same1 by (cases ts) (auto simp: wal_content_def sb1_def)
  show ?thesis
  proof (cases "k < length written")
    case False
    then have full: "wal_file d path (?h @ log_image ?base (ts @ [(sb', ps)]) @ [])"
      using wal content k by (simp add: log_image_append)
    with False show ?thesis
      using recover_log [OF fid psize geo same1 log _ full] room by (simp add: wal_tail_def next_v5_Nil)
  next
    case True
    show ?thesis
    proof (cases "ts = [] \<and> k \<le> 64")
      case True
      then have "length (wal_content sb ts @ take k written) \<le> 64"
        using lc by (auto simp: min_def)
      from recover_short [OF psize geo wal this] True \<open>k < length written\<close> show ?thesis
        by simp
    next
      case False
      define m where "m = k - (if ts = [] then 64 else 0)"
      have m: "m < txn_size sb' ps"
        using True False lw by (auto simp: m_def split: if_splits)
      have "wal_content sb ts @ take k written = take (length (wal_content sb ts) + k) (wal_content sb ts @ written)"
        by simp
      also have "\<dots> = ?h @ log_image ?base ts @ take m (txn_image sb' ?e ps)"
        unfolding content using hdr lc False by (cases ts) (auto simp: m_def)
      finally have torn: "wal_file d path (?h @ log_image ?base ts @ take m (txn_image sb' ?e ps))"
        using wal by simp
      have none: "\<forall>target. next_v5 (unat (page_size sb)) (take m (txn_image sb' ?e ps)) ?e target = None"
        using next_v5_torn [OF _ acc sized m] fid same by simp
      have "64 + length (log_image ?base ts @ take m (txn_image sb' ?e ps)) \<le> SDB_WAL_MAX_BYTES"
        using room by (simp add: wal_tail_def log_image_append)
      with recover_log [OF fid psize geo same1 log1 none torn] True show ?thesis
        by simp
    qed
  qed
qed

text \<open>
  What a crash in the append of \<open>ps\<close> to a log of the transactions \<open>ts\<close> can leave in the
  log file, and whether the transaction counts: a prefix of what the append writes, where
  it counts if it is all there; or, with everything up to the frames intact, any bytes
  whatever that are not sealed by their checksum, where it does not count.
\<close>

inductive crash_leaves ::
  "sdb_superblock_v1 \<Rightarrow> wal_log \<Rightarrow> sdb_superblock_v1 \<Rightarrow> sdb_wal_page list \<Rightarrow> bytes \<Rightarrow> bool \<Rightarrow> bool" for sb ts sb' ps where
  torn: "written = ws_buffer (staged_txn sb' (wal_tail sb ts) (checkpoint_lsn sb + 1 + of_nat (length ts)) ps)
    \<Longrightarrow> k \<le> length written \<Longrightarrow> crash_leaves sb ts sb' ps (wal_content sb ts @ take k written) (k = length written)"
| garbled: "length tail \<le> txn_size sb' ps
    \<Longrightarrow> \<not> sealed_txn (unat (page_size sb)) (checkpoint_lsn sb + 1 + of_nat (length ts)) tail
    \<Longrightarrow> crash_leaves sb ts sb' ps (take (wal_tail sb ts) (wal_content sb (ts @ [(sb', ps)])) @ tail) False"

lemma garbled_append:
  assumes sb: "recoverable_superblock sb"
    and log: "log_replayable avx2 sb data_key (next_page_id sb) (checkpoint_lsn sb + 1) (ts @ [(sb', ps)])"
    and room: "wal_tail sb (ts @ [(sb', ps)]) \<le> SDB_WAL_MAX_BYTES"
    and tail: "length tail \<le> txn_size sb' ps" "\<not> sealed_txn (unat (page_size sb)) (checkpoint_lsn sb + 1 + of_nat (length ts)) tail"
    and wal: "wal_file d path (take (wal_tail sb ts) (wal_content sb (ts @ [(sb', ps)])) @ tail)"
  shows "\<exists>r d' db'. sdb_wal_recover_all malloc_ok avx2 path sb data_key d db = Some (r, d', db') \<and> dir_unchanged d d' \<and>
    recovery_outcome malloc_ok (dir_may_fail d \<or> may_fail db) sb ts db r db'"
proof -
  let ?base = "checkpoint_lsn sb + 1"
  let ?e = "?base + of_nat (length ts)"
  have sb': "length (file_id sb) = 16" "page_size_ok (unat (page_size sb))" "sdb_page_geometry_valid (next_page_id sb) (page_size sb)"
    using sb by (simp_all add: recoverable_superblock_def)
  have log1: "log_replayable avx2 sb data_key (next_page_id sb) ?base ts"
    and txn: "\<exists>target. txn_replayable avx2 sb data_key target ?e sb' ps"
    using log by (auto simp: log_replayable_append)
  have same: "file_id sb' = file_id sb" "page_size sb' = page_size sb" and sized: "pages_sized (unat (page_size sb')) ps"
    using txn by (auto simp: txn_replayable_def)
  obtain sb1 ps1 us where us: "ts @ [(sb', ps)] = (sb1, ps1) # us"
    by (cases ts) auto
  have same1: "file_id sb1 = file_id sb" "page_size sb1 = page_size sb"
    using log unfolding us by (auto simp: txn_replayable_def)
  let ?h = "wal_header_image sb1 5 ?base (length ps1)"
  have "wal_content sb (ts @ [(sb', ps)]) = ?h @ log_image ?base (ts @ [(sb', ps)])"
    unfolding us by (simp add: wal_content_def)
  also have "\<dots> = (?h @ log_image ?base ts) @ txn_image sb' ?e ps"
    by (simp add: log_image_append)
  finally have content: "take (wal_tail sb ts) (wal_content sb (ts @ [(sb', ps)])) = ?h @ log_image ?base ts"
    using sb'(1) same1 by (simp add: wal_tail_def)
  have "length (log_image ?base (ts @ [(sb', ps)])) = length (log_image ?base ts) + txn_size sb' ps"
    using length_txn_image [OF _ sized, of ?e] sb'(1) same by (simp add: log_image_append)
  then have "64 + length (log_image ?base ts @ tail) \<le> SDB_WAL_MAX_BYTES"
    using room tail(1) by (simp add: wal_tail_def)
  then show ?thesis
    using recover_log [OF sb' same1 log1 _ wal [unfolded content append_assoc]] next_v5_unsealed [OF tail(2)] by simp
qed

section \<open>Properties\<close>

text \<open>
  C1: a commit is atomic across a crash. Let the log hold the committed transactions
  \<open>ts\<close>, and let a crash in the append of the next one leave either any prefix of what the
  append writes (header, frames and commit record are one write) or, with the header and
  the older transactions intact, any bytes at all in place of the new transaction, unless
  those bytes carry a commit record with the matching number, frame count and checksum of
  the frames in front of it. Recovery then replays \<open>ts\<close> with the new transaction if all of
  it reached the disk, and exactly \<open>ts\<close> otherwise: it reports the last transaction, page
  count and free list of that point, and the database file holds, on stable storage, its
  old contents with the pages of those transactions written in order. The only other
  outcomes are a failed system call and memory running out. A first append that leaves
  damaged bytes in the header itself is not covered.
\<close>
theorem wal_crash_atomic:
  assumes "recoverable_superblock sb"
    and "log_replayable avx2 sb data_key (next_page_id sb) (checkpoint_lsn sb + 1) (ts @ [(sb', ps)])"
    and "wal_tail sb (ts @ [(sb', ps)]) \<le> SDB_WAL_MAX_BYTES"
    and "crash_leaves sb ts sb' ps content complete"
    and "wal_file d path content"
  shows "\<exists>r d' db'. sdb_wal_recover_all malloc_ok avx2 path sb data_key d db = Some (r, d', db') \<and> dir_unchanged d d' \<and>
    recovery_outcome malloc_ok (dir_may_fail d \<or> may_fail db) sb (if complete then ts @ [(sb', ps)] else ts) db r db'"
  using assms(4)
proof cases
  case (torn written k)
  then show ?thesis
    using torn_append [OF assms(1-3) torn(3,4), of d path malloc_ok db] assms(5) by auto
next
  case (garbled tail)
  then show ?thesis
    using garbled_append [OF assms(1-3) garbled(3,4)] assms(5) by simp
qed

definition example_directory :: "bytes \<Rightarrow> directory" where
  "example_directory content = \<lparr>d_names = [''db.wal'' \<mapsto> 0], d_durable = [''db.wal'' \<mapsto> 0],
    d_inodes = [\<lparr>fcontent = content, fdurable = content, fpending = [], fscript = []\<rparr>], d_script = []\<rparr>"

lemma example_wal_page_ok:
  "txn_page_ok 9 4 example_wal_page" "length (wp_bytes example_wal_page) = 4096"
proof -
  have "page_args_ok 4096 1 1 [1, 2, 3]"
    by (simp add: page_args_ok_def page_size_ok_def page_consts sdb_page_type_valid_def)
  then have "sdb_page_decode (page_image 4096 1 1 4 [1, 2, 3]) 1 =
      Inr \<lparr>pv_type = 1, pv_flags = 0, pv_page_id = 1, pv_page_lsn = 4, pv_payload = [1, 2, 3],
        pv_payload_size = of_nat (length [1, 2, 3 :: byte])\<rparr>"
    using page_decode_image [of 4096 1 1 "[1, 2, 3]" 4] by simp
  then show "txn_page_ok 9 4 example_wal_page"
    by (simp add: txn_page_ok_def example_wal_page_def)
  show "length (wp_bytes example_wal_page) = 4096"
    by (simp add: example_wal_page_def page_image_def)
qed

lemma example_txn:
  "recoverable_superblock example_superblock"
  "txn_replayable avx2 example_superblock None 9 4 example_superblock [example_wal_page]"
  using example_wal_page_ok
  by (simp_all add: recoverable_superblock_def example_superblock_def page_size_ok_def page_consts geometry_valid_iff
      txn_replayable_def txn_accepted_def txn_pages_ok_def SDB_WAL_MAX_RECORDS_def page_opens_def wal_frame_opens_def
      INT64_MAX_def)

text \<open>The witness: one byte of the page was lost, header and commit record are there; nothing is replayed.\<close>

theorem wal_crash_atomic_witness:
  "let img = txn_image example_superblock 4 [example_wal_page];
       log = wal_header_image example_superblock 5 4 1 @ blit 1000 [img ! 1000 + 1] img in
   \<exists>r d' db'. sdb_wal_recover_all (\<lambda>_. True) True ''db.wal'' example_superblock None (example_directory log) empty_wal = Some (r, d', db')
     \<and> dir_unchanged (example_directory log) d' \<and> recovery_outcome (\<lambda>_. True) False example_superblock [] empty_wal r db'"
proof -
  let ?ts = "[(example_superblock, [example_wal_page])]"
  let ?img = "txn_image example_superblock 4 [example_wal_page]"
  let ?tail = "blit 1000 [?img ! 1000 + 1] ?img"
  let ?d = "example_directory (wal_header_image example_superblock 5 4 1 @ ?tail)"
  have sized: "length (file_id example_superblock) = 16" "pages_sized (unat (page_size example_superblock)) [example_wal_page]"
    using example_wal_page_ok(2) by (simp_all add: example_superblock_def)
  have len: "length ?img = 4180" "txn_size example_superblock [example_wal_page] = 4180"
    using length_txn_image [OF sized, of 4] by (simp_all add: txn_size_def example_superblock_def)
  have "slice 1000 1 ?img = [?img ! 1000]"
    using len(1) by (simp add: slice_def take_Suc hd_drop_conv_nth)
  then have "\<not> sealed_txn (unat (page_size example_superblock)) 4 ?tail"
    by (intro burst_unsealed [OF sized(1) _ _ sized(2)]) (simp_all add: example_superblock_def)
  then have "crash_leaves example_superblock [] example_superblock [example_wal_page]
      (take (wal_tail example_superblock []) (wal_content example_superblock ([] @ ?ts)) @ ?tail) False"
    using len by (intro garbled) (simp_all add: example_superblock_def)
  moreover have "take (wal_tail example_superblock []) (wal_content example_superblock ([] @ ?ts)) = wal_header_image example_superblock 5 4 1"
    using sized(1) by (simp add: wal_tail_def wal_content_def) (simp add: example_superblock_def)
  ultimately have left: "crash_leaves example_superblock [] example_superblock [example_wal_page]
      (wal_header_image example_superblock 5 4 1 @ ?tail) False"
    by simp
  have "\<exists>r d' db'. sdb_wal_recover_all (\<lambda>_. True) True ''db.wal'' example_superblock None ?d empty_wal = Some (r, d', db')
      \<and> dir_unchanged ?d d' \<and> recovery_outcome (\<lambda>_. True) (dir_may_fail ?d \<or> may_fail empty_wal) example_superblock
        (if False then [] @ ?ts else []) empty_wal r db'"
  proof (rule wal_crash_atomic [OF example_txn(1) _ _ left])
    show "log_replayable True example_superblock None (next_page_id example_superblock)
        (checkpoint_lsn example_superblock + 1) ([] @ ?ts)"
      using example_txn(2) [of True] by (simp add: example_superblock_def)
    show "wal_tail example_superblock ([] @ ?ts) \<le> SDB_WAL_MAX_BYTES"
      using len(1) by (simp add: wal_tail_def SDB_WAL_MAX_BYTES_def) (simp add: example_superblock_def)
    show "wal_file ?d ''db.wal'' (wal_header_image example_superblock 5 4 1 @ ?tail)"
      by (simp add: wal_file_def example_directory_def)
  qed
  moreover have "\<not> dir_may_fail ?d" "\<not> may_fail empty_wal"
    by (simp_all add: dir_may_fail_def example_directory_def may_fail_def empty_wal_def)
  ultimately show ?thesis
    by (simp add: Let_def)
qed

end
