(* ===== verification/Wal_Safety.thy ===== *)
theory Wal_Safety
  imports Wal_Replay
begin

text \<open>
  What recovery guarantees whatever the log file holds, and what it does when it is
  itself interrupted: only intact pages are written, and only over pages; a log of
  another database is refused; and an interrupted replay can be repeated.
\<close>

section \<open>Replaying arbitrary bytes\<close>

lemma write_loop_complete:
  "sdb_file_write_loop off bs k g = (Inr (), f') \<Longrightarrow> k \<le> length bs \<Longrightarrow>
    fcontent f' = file_write (off + k) (drop k bs) (fcontent g)"
proof (induction off bs k g rule: sdb_file_write_loop.induct)
  case (1 off bs k g)
  show ?case
  proof (cases "k < length bs")
    case False
    with "1.prems" show ?thesis
      by (simp add: sdb_file_write_loop.simps [of off bs k g] file_write_def)
  next
    case True
    define m where "m n = min (sdb_posix_chunk (length bs - k) SIZE_MAX) (max 1 n)" for n
    obtain n g1 where call: "\<not> k > UINT64_MAX - off" "\<not> off + k > INT64_MAX" "os_call g = (Some n, g1)"
      and rec: "sdb_file_write_loop off bs (k + length (slice k (m n) bs))
        (g1\<lparr>fcontent := file_write (off + k) (slice k (m n) bs) (fcontent g1),
            fpending := fpending g1 @ [FWrite (off + k) (slice k (m n) bs)]\<rparr>) = (Inr (), f')"
      using "1.prems"(1) True
      by (auto simp: sdb_file_write_loop.simps [of off bs k g] Let_def m_def split: if_splits prod.splits option.splits)
    let ?t = "slice k (m n) bs"
    have "fcontent f' = file_write (off + (k + length ?t)) (drop (k + length ?t) bs)
        (file_write (off + k) ?t (fcontent g1))"
      using "1.IH" [OF True refl call(1) refl call(2) call(3) [symmetric] refl, folded m_def] rec True by simp
    also have "\<dots> = file_write (off + k) (?t @ drop (k + length ?t) bs) (fcontent g1)"
      using file_write_append [of "off + k" ?t "drop (k + length ?t) bs" "fcontent g1"] by (simp add: add.assoc)
    also have "?t @ drop (k + length ?t) bs = drop k bs"
      by (simp add: slice_def min_def add.commute [of k] drop_drop [symmetric] del: drop_drop)
    finally show ?thesis
      using os_call_same [OF call(3)] by (simp add: same_file_def)
  qed
qed

lemma write_full_complete:
  "sdb_file_write_full off bs f = (Inr (), f') \<Longrightarrow> fcontent f' = file_write off bs (fcontent f)"
  using write_loop_complete [of off bs 0 f f'] by (simp add: sdb_file_write_full_def split: if_splits)

text \<open>A page the log may replace: it decodes, is newer than the checkpoint, and opens.\<close>

definition intact_page :: "bool \<Rightarrow> sdb_superblock_v1 \<Rightarrow> bytes option \<Rightarrow> u64 \<Rightarrow> sdb_wal_page \<Rightarrow> bool" where
  "intact_page avx2 sb data_key limit p \<longleftrightarrow> wp_page_id p \<noteq> 0 \<and> wp_page_id p < limit \<and>
    (\<exists>view. sdb_page_decode (wp_bytes p) (wp_page_id p) = Inr view \<and> checkpoint_lsn sb < pv_page_lsn view
      \<and> wal_frame_opens avx2 sb data_key view (unat (page_size sb)))"

lemma intact_page_mono: "intact_page avx2 sb data_key limit p \<Longrightarrow> limit \<le> limit' \<Longrightarrow> intact_page avx2 sb data_key limit' p"
  by (auto simp: intact_page_def)

lemma validate_loop_sound:
  "wal_validate_loop avx2 (unat (page_size sb)) count txn_id limit hdr meta sb data_key index n slots cursor = Some (Inr ()) \<Longrightarrow>
    checkpoint_lsn sb < txn_id \<Longrightarrow>
    list_all (intact_page avx2 sb data_key limit) (parse_frames hdr (unat (page_size sb)) n cursor)"
proof (induction n arbitrary: index slots cursor)
  case (Suc n)
  from Suc.prems(1) obtain slots' view where
    "sdb_read_u64_le cursor 0 \<noteq> 0" "\<not> limit \<le> sdb_read_u64_le cursor 0"
    "sdb_page_decode (slice hdr (unat (page_size sb)) cursor) (sdb_read_u64_le cursor 0) = Inr view"
    "pv_page_lsn view = txn_id" "wal_frame_opens avx2 sb data_key view (unat (page_size sb))"
    "wal_validate_loop avx2 (unat (page_size sb)) count txn_id limit hdr meta sb data_key (index + 1) n slots'
      (drop (hdr + unat (page_size sb)) cursor) = Some (Inr ())"
    by (auto simp: Let_def split: if_splits option.splits sum.splits prod.splits)
  with Suc.IH Suc.prems(2) show ?case
    by (auto simp: intact_page_def)
qed simp

text \<open>
  Where a page the log may replace comes from: a frame of the log, which in a version 5
  log names the database, in a log whose header is bound to it. An encrypted database
  needs no header, as its pages open under its own key only; an unencrypted version 4
  log is read without its header when the header's checksum is wrong.
\<close>

definition log_frame :: "sdb_superblock_v1 \<Rightarrow> nat \<Rightarrow> bytes \<Rightarrow> sdb_wal_page \<Rightarrow> bool" where
  "log_frame sb hdr buf p \<longleftrightarrow> (\<exists>at. sdb_read_u64_le (drop at buf) 0 = wp_page_id p
    \<and> slice hdr (unat (page_size sb)) (drop at buf) = wp_bytes p
    \<and> (hdr = SDB_WAL_RECORD_HEADER_SIZE_V5 \<longrightarrow> slice SDB_WAL_FRAME_V5_FILE_ID_OFFSET SDB_FILE_ID_SIZE (drop at buf) = file_id sb))"

definition header_intact :: "bytes \<Rightarrow> bool" where
  "header_intact buf \<longleftrightarrow> sdb_crc32_zeroed_range (take SDB_WAL_HEADER_SIZE buf) SDB_WAL_HEADER_CHECKSUM_OFFSET 4
    = sdb_read_u32_le buf SDB_WAL_HEADER_CHECKSUM_OFFSET"

definition log_bound :: "sdb_superblock_v1 \<Rightarrow> bytes option \<Rightarrow> nat \<Rightarrow> bytes \<Rightarrow> bool" where
  "log_bound sb data_key hdr buf \<longleftrightarrow>
    (header_intact buf \<and> take 4 buf = sdb_wal_magic \<and> sdb_read_u32_le buf 16 = page_size sb
      \<and> slice 24 SDB_FILE_ID_SIZE buf = file_id sb)
    \<or> hdr = SDB_WAL_RECORD_HEADER_SIZE_V5 \<or> data_key \<noteq> None
    \<or> hdr = SDB_WAL_RECORD_HEADER_SIZE_V4 \<and> \<not> header_intact buf"

lemma validate_loop_framed:
  "wal_validate_loop avx2 (unat (page_size sb)) count txn_id limit hdr meta sb data_key index n slots cursor = Some (Inr ()) \<Longrightarrow>
    cursor = drop at buf \<Longrightarrow> list_all (log_frame sb hdr buf) (parse_frames hdr (unat (page_size sb)) n cursor)"
proof (induction n arbitrary: index slots cursor at)
  case (Suc n)
  from Suc.prems(1) obtain slots' where
    id: "hdr = SDB_WAL_RECORD_HEADER_SIZE_V5 \<longrightarrow> slice SDB_WAL_FRAME_V5_FILE_ID_OFFSET SDB_FILE_ID_SIZE cursor = file_id sb"
    and rec: "wal_validate_loop avx2 (unat (page_size sb)) count txn_id limit hdr meta sb data_key (index + 1) n slots'
      (drop (hdr + unat (page_size sb)) cursor) = Some (Inr ())"
    by (auto simp: Let_def split: if_splits option.splits sum.splits prod.splits)
  have "list_all (log_frame sb hdr buf)
      (parse_frames hdr (unat (page_size sb)) n (drop (hdr + unat (page_size sb)) cursor))"
    by (rule Suc.IH [OF rec, of "hdr + unat (page_size sb) + at"]) (simp add: Suc.prems(2))
  moreover have "log_frame sb hdr buf \<lparr>wp_page_id = sdb_read_u64_le cursor 0, wp_bytes = slice hdr (unat (page_size sb)) cursor\<rparr>"
    unfolding log_frame_def using id Suc.prems(2) by auto
  ultimately show ?case
    by simp
qed simp

lemma header_gate_bound:
  assumes "wal_header_gate sb buf = Inr ident" "wid_bound ident \<or> wid_self_describing ident \<or> data_key \<noteq> None"
  shows "log_bound sb data_key (wid_record_header_size ident) buf"
  using assms
  by (auto simp: wal_header_gate_def wal_header_mismatch_def log_bound_def header_intact_def Let_def split: if_splits)

lemma apply_loop_sound:
  "wal_apply_loop psize txn_id limit hdr n cursor db = (Inr (), db') \<Longrightarrow>
    fcontent db' = write_pages psize (parse_frames hdr psize n cursor) (fcontent db)"
proof (induction n arbitrary: cursor db)
  case (Suc n)
  let ?k = "sdb_read_u64_le cursor 0"
  from Suc.prems obtain db1 where k: "?k \<noteq> 0"
    and w: "sdb_file_write_full (8192 + unat (?k - 1) * psize) (slice hdr psize cursor) db = (Inr (), db1)"
    and rec: "wal_apply_loop psize txn_id limit hdr n (drop (hdr + psize) cursor) db1 = (Inr (), db')"
    by (auto simp: Let_def fbind_eq_Inr fthrow_def superblock_consts split: if_splits sum.splits)
  have "8192 + unat (?k - 1) * psize = page_offset psize ?k"
    using k by (simp add: page_offset_def unat_minus_one)
  with Suc.IH [OF rec] write_full_complete [OF w] show ?case
    by simp
qed (simp add: freturn_def)

lemma next_txn_grows:
  assumes "wal_next_txn sb ident buf sc = Some (rec, count)"
  shows "sc_next_page_id sc \<le> wc_next_page_id rec"
proof -
  have probe: "wal_probe_commit sb rest fs e target k n = Some (rec, count) \<Longrightarrow> target \<le> wc_next_page_id rec"
    for rest fs e target k n
    by (induction n arbitrary: k) (auto simp: Let_def not_less split: if_splits sum.splits)
  show ?thesis
    using assms by (auto simp: wal_next_txn_def wal_next_self_describing_def wal_next_legacy_def Let_def
        dest!: probe split: if_splits option.splits)
qed

lemma replay_sound:
  "wal_replay malloc_ok avx2 sb data_key ident buf sc db = Some (Inr sc', db') \<Longrightarrow>
    \<exists>ps. fcontent db' = write_pages (unat (page_size sb)) ps (fcontent db)
      \<and> list_all (intact_page avx2 sb data_key (sc_next_page_id sc')) ps
      \<and> list_all (log_frame sb (wid_record_header_size ident) buf) ps
      \<and> sc_next_page_id sc \<le> sc_next_page_id sc'"
proof (induction malloc_ok avx2 sb data_key ident buf sc db rule: wal_replay.induct)
  case (1 malloc_ok avx2 sb data_key ident buf sc db)
  let ?psize = "unat (page_size sb)" and ?hdr = "wid_record_header_size ident"
  let ?frames = "drop (sc_cursor sc) buf"
  show ?case
  proof (cases "wal_next_txn sb ident buf sc")
    case None
    with "1.prems" show ?thesis
      by (subst (asm) wal_replay.simps) (auto intro!: exI [of _ "[]"])
  next
    case (Some found)
    obtain rec count where found: "found = (rec, count)"
      by fastforce
    have nxt: "wal_next_txn sb ident buf sc = Some (rec, count)"
      using Some found by simp
    note grow = next_txn_grows [OF nxt]
    have valid: "sdb_wal_validate_frames malloc_ok avx2 ?frames ?psize count (wc_txn_id rec) (wc_next_page_id rec)
        ?hdr (wid_self_describing ident) sb data_key = Some (Inr ())"
      using "1.prems" nxt by (subst (asm) wal_replay.simps) (auto simp: Let_def split: option.splits sum.splits)
    show ?thesis
    proof (cases "wc_txn_id rec > checkpoint_lsn sb")
      case True
      let ?sc = "wal_advance sb ident rec count True sc"
      obtain db1 where app: "sdb_wal_apply_frames ?frames ?psize count (wc_txn_id rec) (wc_next_page_id rec) ?hdr False db
          = (Inr (), db1)"
        and run: "wal_replay malloc_ok avx2 sb data_key ident buf ?sc db1 = Some (Inr sc', db')"
        using "1.prems" nxt valid True
        by (subst (asm) wal_replay.simps) (auto simp: Let_def split: sum.splits prod.splits)
      obtain ps where ps: "fcontent db' = write_pages ?psize ps (fcontent db1)"
        "list_all (intact_page avx2 sb data_key (sc_next_page_id sc')) ps" "sc_next_page_id ?sc \<le> sc_next_page_id sc'"
        "list_all (log_frame sb ?hdr buf) ps"
        using "1.IH"(1) [OF nxt refl refl refl valid refl True app [symmetric] refl run] by blast
      have le: "wc_next_page_id rec \<le> sc_next_page_id sc'"
        using ps(3) by (simp add: wal_advance_def)
      let ?new = "parse_frames ?hdr ?psize count ?frames"
      have "fcontent db1 = write_pages ?psize ?new (fcontent db)"
        using app by (auto simp: sdb_wal_apply_frames_def fbind_eq_Inr freturn_def dest!: apply_loop_sound)
      moreover have "list_all (intact_page avx2 sb data_key (wc_next_page_id rec)) ?new"
        using valid True
        by (auto simp: sdb_wal_validate_frames_def dest!: validate_loop_sound split: option.splits sum.splits if_splits)
      then have "list_all (intact_page avx2 sb data_key (sc_next_page_id sc')) ?new"
        using le by (auto simp: list_all_iff intro: intact_page_mono)
      moreover have "list_all (log_frame sb ?hdr buf) ?new"
        using valid by (auto simp: sdb_wal_validate_frames_def dest!: validate_loop_framed
            split: option.splits sum.splits if_splits)
      ultimately show ?thesis
        using ps grow le by (intro exI [of _ "?new @ ps"]) (auto simp: write_pages_def)
    next
      case False
      let ?sc = "wal_advance sb ident rec count False sc"
      have run: "wal_replay malloc_ok avx2 sb data_key ident buf ?sc db = Some (Inr sc', db')"
        using "1.prems" nxt valid False by (subst (asm) wal_replay.simps) (simp add: Let_def)
      have "sc_next_page_id sc \<le> sc_next_page_id ?sc"
        using grow by (simp add: wal_advance_def)
      then show ?thesis
        using "1.IH"(2) [OF nxt refl refl refl valid refl False run] by (meson order_trans)
    qed
  qed
qed

lemma recover_buffer_sound:
  assumes "wal_recover_buffer malloc_ok avx2 sb data_key buf db = Some (Inr out, db')"
  shows "\<exists>ps hdr. fcontent db' = write_pages (unat (page_size sb)) ps (fcontent db)
    \<and> list_all (intact_page avx2 sb data_key (wr_next_page_id out)) ps
    \<and> list_all (log_frame sb hdr buf) ps \<and> log_bound sb data_key hdr buf \<and> next_page_id sb \<le> wr_next_page_id out"
proof -
  let ?start = "\<lparr>sc_cursor = SDB_WAL_HEADER_SIZE, sc_last_lsn = checkpoint_lsn sb, sc_next_page_id = next_page_id sb,
    sc_freelist_page = freelist_page sb, sc_expected_next = checkpoint_lsn sb + 1, sc_applied = False\<rparr>"
  obtain ident sc db1 where gate: "wal_header_gate sb buf = Inr ident"
      "wid_bound ident \<or> wid_self_describing ident \<or> data_key \<noteq> None"
    and run: "wal_replay malloc_ok avx2 sb data_key ident buf ?start db = Some (Inr sc, db1)"
    and out: "wr_next_page_id out = sc_next_page_id sc" and same: "fcontent db' = fcontent db1"
    using assms
    by (auto simp: wal_recover_buffer_def fbind_eq_Inr freturn_def Let_def dest!: sdb_file_sync_spec(1)
        split: sum.splits if_splits option.splits)
  show ?thesis
    using replay_sound [OF run] header_gate_bound [OF gate] out same
    by (metis wal_scan.select_convs(3))
qed

lemma take_file_write: "n \<le> off \<Longrightarrow> n \<le> length c \<Longrightarrow> take n (file_write off bs c) = take n c"
  by (cases "bs = []") (simp add: file_write_def, simp add: file_write_alt)

lemma take_write_pages: "8192 \<le> length c \<Longrightarrow> take 8192 (write_pages psize ps c) = take 8192 c"
proof (induction ps arbitrary: c)
  case (Cons p ps)
  have "8192 \<le> length (file_write (page_offset psize (wp_page_id p)) (wp_bytes p) c)"
    using Cons.prems by (cases "wp_bytes p = []") (auto simp: length_write_page, simp add: file_write_def)
  with Cons show ?case
    by (simp add: take_file_write page_offset_def)
qed simp

section \<open>Running recovery again\<close>

definition holds_log :: "bool \<Rightarrow> sdb_superblock_v1 \<Rightarrow> bytes option \<Rightarrow> wal_log \<Rightarrow> bytes \<Rightarrow> bool" where
  "holds_log avx2 sb data_key ts content \<longleftrightarrow>
    log_replayable avx2 sb data_key (next_page_id sb) (checkpoint_lsn sb + 1) ts \<and> length content \<le> SDB_WAL_MAX_BYTES
    \<and> (\<exists>sb' txn_id n tail. file_id sb' = file_id sb \<and> page_size sb' = page_size sb
      \<and> content = wal_header_image sb' 5 txn_id n @ log_image (checkpoint_lsn sb + 1) ts @ tail
      \<and> (\<forall>target. next_v5 (unat (page_size sb)) tail (checkpoint_lsn sb + 1 + of_nat (length ts)) target = None))"

lemma recover_holds_log:
  assumes "recoverable_superblock sb" "holds_log avx2 sb data_key ts content" "wal_file d path content"
  shows "\<exists>r d' db'. sdb_wal_recover_all malloc_ok avx2 path sb data_key d db = Some (r, d', db') \<and> dir_unchanged d d' \<and>
    recovery_outcome malloc_ok (dir_may_fail d \<or> may_fail db) sb ts db r db'"
proof -
  obtain sb' txn_id n tail where c: "content = wal_header_image sb' 5 txn_id n @ log_image (checkpoint_lsn sb + 1) ts @ tail"
    and same: "file_id sb' = file_id sb" "page_size sb' = page_size sb"
    and tail: "\<forall>target. next_v5 (unat (page_size sb)) tail (checkpoint_lsn sb + 1 + of_nat (length ts)) target = None"
    using assms(2) by (auto simp: holds_log_def)
  have sb: "length (file_id sb) = 16" "page_size_ok (unat (page_size sb))"
      "sdb_page_geometry_valid (next_page_id sb) (page_size sb)"
    using assms(1) by (simp_all add: recoverable_superblock_def)
  moreover have "64 + length (log_image (checkpoint_lsn sb + 1) ts @ tail) \<le> SDB_WAL_MAX_BYTES"
    using assms(2) sb(1) same by (simp add: holds_log_def c)
  ultimately show ?thesis
    using recover_log [OF _ _ _ same _ tail assms(3) [unfolded c]] assms(2) by (simp add: holds_log_def)
qed

lemma log_pages_sized:
  "log_replayable avx2 sb data_key target e ts \<Longrightarrow> p \<in> set (log_pages ts) \<Longrightarrow> length (wp_bytes p) = unat (page_size sb)"
proof (induction ts arbitrary: target e rule: log_pages.induct)
  case (2 sb' ps ts)
  then show ?case
    by (auto simp: txn_replayable_def pages_sized_def)
qed simp

lemma log_pages_nonempty:
  assumes "recoverable_superblock sb" "holds_log avx2 sb data_key ts content"
  shows "\<forall>p \<in> set (log_pages ts). wp_bytes p \<noteq> []"
proof -
  have "0 < unat (page_size sb)"
    using assms(1) page_size_ok_bounds [of "unat (page_size sb)"] by (auto simp: recoverable_superblock_def)
  with log_pages_sized assms(2) show ?thesis
    unfolding holds_log_def by (metis length_0_conv not_gr_zero)
qed

section \<open>Properties\<close>

text \<open>
  C32: whatever bytes the log holds, a recovery that succeeds changes the database
  file only by writing pages at their own place, each of which is in a frame of the
  log, decodes under its own id, carries a transaction number above the checkpoint
  and, in an encrypted database, opens under the data key; both superblock copies keep
  their bytes and the page count never shrinks. The log is one of this database: its
  intact header names the file id and page size, or every frame replayed names the
  file id (version 5), or the pages open under the data key; the one exception is an
  unencrypted version 4 log whose header is damaged, which is read as it stands.
\<close>
theorem recovery_writes_only_intact_pages:
  assumes "wal_recover_buffer malloc_ok avx2 sb data_key buf db = Some (Inr out, db')"
  shows "\<exists>ps hdr. fcontent db' = write_pages (unat (page_size sb)) ps (fcontent db)
    \<and> list_all (intact_page avx2 sb data_key (wr_next_page_id out)) ps
    \<and> list_all (log_frame sb hdr buf) ps
    \<and> log_bound sb data_key hdr buf
    \<and> next_page_id sb \<le> wr_next_page_id out
    \<and> (8192 \<le> length (fcontent db) \<longrightarrow> take 8192 (fcontent db') = take 8192 (fcontent db))"
proof -
  obtain ps hdr where "fcontent db' = write_pages (unat (page_size sb)) ps (fcontent db)"
    "list_all (intact_page avx2 sb data_key (wr_next_page_id out)) ps"
    "list_all (log_frame sb hdr buf) ps" "log_bound sb data_key hdr buf" "next_page_id sb \<le> wr_next_page_id out"
    using recover_buffer_sound [OF assms] by blast
  then show ?thesis
    by (intro exI [of _ ps] exI [of _ hdr]) (simp add: take_write_pages)
qed

lemma example_recovery:
  "\<exists>db'. wal_recover_buffer (\<lambda>_. True) True example_superblock None
      (wal_header_image example_superblock 5 4 1 @ txn_image example_superblock 4 [example_wal_page]) empty_wal
    = Some (Inr (recovered example_superblock [(example_superblock, [example_wal_page])]), db')
    \<and> fcontent db' = write_pages 4096 [example_wal_page] []"
proof -
  let ?ts = "[(example_superblock, [example_wal_page])]"
  have psize: "unat (page_size example_superblock) = 4096"
    by (simp add: example_superblock_def)
  have img: "log_image (checkpoint_lsn example_superblock + 1) ?ts @ [] = txn_image example_superblock 4 [example_wal_page]"
    by (simp add: example_superblock_def)
  have "\<exists>r db'. wal_recover_buffer (\<lambda>_. True) True example_superblock None
      (wal_header_image example_superblock 5 4 1 @ log_image (checkpoint_lsn example_superblock + 1) ?ts @ []) empty_wal
      = Some (r, db') \<and> recovery_outcome (\<lambda>_. True) (may_fail empty_wal) example_superblock ?ts empty_wal r db'"
    using example_txn(2) [of True] psize
    by (intro recover_buffer_log [OF _ _ refl refl _ _ refl]) (auto simp: example_superblock_def next_v5_Nil)
  then obtain r db' where run: "wal_recover_buffer (\<lambda>_. True) True example_superblock None
      (wal_header_image example_superblock 5 4 1 @ txn_image example_superblock 4 [example_wal_page]) empty_wal = Some (r, db')"
    and out: "recovery_outcome (\<lambda>_. True) (may_fail empty_wal) example_superblock ?ts empty_wal r db'"
    unfolding img by blast
  have "\<not> may_fail empty_wal" "fcontent empty_wal = []"
    by (simp_all add: may_fail_def empty_wal_def)
  then have "r = Inr (recovered example_superblock ?ts)" "fcontent db' = write_pages 4096 [example_wal_page] []"
    using out psize by (cases r; simp add: recovery_outcome_def resource_failure_def)+
  with run show ?thesis
    by blast
qed

theorem recovery_writes_only_intact_pages_witness:
  "\<exists>ps (db' :: sdb_file). fcontent db' = write_pages 4096 ps (fcontent empty_wal) \<and> ps \<noteq> []
    \<and> list_all (intact_page True example_superblock None 9) ps"
proof -
  obtain db' where run: "wal_recover_buffer (\<lambda>_. True) True example_superblock None
      (wal_header_image example_superblock 5 4 1 @ txn_image example_superblock 4 [example_wal_page]) empty_wal
    = Some (Inr (recovered example_superblock [(example_superblock, [example_wal_page])]), db')"
    and c: "fcontent db' = write_pages 4096 [example_wal_page] []"
    using example_recovery by blast
  obtain ps where ps: "fcontent db' = write_pages (unat (page_size example_superblock)) ps (fcontent empty_wal)"
    "list_all (intact_page True example_superblock None
      (wr_next_page_id (recovered example_superblock [(example_superblock, [example_wal_page])]))) ps"
    using recovery_writes_only_intact_pages [OF run] by blast
  have "length (fcontent db') = 12288"
    unfolding c using example_wal_page_ok(2)
    by (subst length_write_pages) (auto simp: page_offset_def example_wal_page_def)
  then have "ps \<noteq> []"
    using ps(1) by (auto simp: empty_wal_def)
  with ps show ?thesis
    by (intro exI [of _ ps] exI [of _ db']) (simp add: recovered_def log_end_def example_superblock_def)
qed

text \<open>
  C33: an interrupted recovery can be repeated. Whatever a first run over a log ends
  with, a failed system call and a lack of memory included, a later run over the same
  log and the database as the first run left it ends: it succeeds when no system call
  fails and memory is available, and fails only for want of one of these. A run that
  succeeds reports the log's last transaction and leaves the database with the
  contents that one undisturbed run would have given.
\<close>
theorem recovery_restartable:
  assumes "recoverable_superblock sb" "holds_log avx2 sb data_key ts content" "wal_file d path content"
    and "sdb_wal_recover_all malloc_ok avx2 path sb data_key d db = Some (r, d1, db1)"
    and "wal_file d2 path content" "fcontent db2 = fcontent db1"
  shows "\<exists>r2 d3 db3. sdb_wal_recover_all malloc_ok' avx2 path sb data_key d2 db2 = Some (r2, d3, db3)
    \<and> (case r2 of
         Inl e \<Rightarrow> resource_failure malloc_ok' (dir_may_fail d2 \<or> may_fail db2) e
       | Inr out \<Rightarrow> out = recovered sb ts
           \<and> fcontent db3 = write_pages (unat (page_size sb)) (log_pages ts) (fcontent db))
    \<and> ((\<forall>size. malloc_ok' size) \<and> \<not> dir_may_fail d2 \<and> \<not> may_fail db2 \<longrightarrow> is_ok r2)"
proof -
  let ?psize = "unat (page_size sb)"
  have "recovery_outcome malloc_ok (dir_may_fail d \<or> may_fail db) sb ts db r db1"
    using recover_holds_log [OF assms(1-3), of malloc_ok db] assms(4) by auto
  then have partly: "partly_written ?psize (log_pages ts) (fcontent db) (fcontent db1)"
    by (auto simp: recovery_outcome_def partly_written_all split: sum.splits)
  obtain r2 d3 db3 where run: "sdb_wal_recover_all malloc_ok' avx2 path sb data_key d2 db2 = Some (r2, d3, db3)"
    and out: "recovery_outcome malloc_ok' (dir_may_fail d2 \<or> may_fail db2) sb ts db2 r2 db3"
    using recover_holds_log [OF assms(1,2,5)] by blast
  show ?thesis
    using run out write_pages_again [OF partly log_pages_nonempty [OF assms(1,2)]] assms(6)
    by (intro exI [of _ r2] exI [of _ d3] exI [of _ db3])
      (auto simp: recovery_outcome_def resource_failure_def split: sum.splits)
qed

definition example_log :: bytes where
  "example_log = wal_header_image example_superblock 5 4 1 @ txn_image example_superblock 4 [example_wal_page]"

lemma example_holds_log: "holds_log True example_superblock None [(example_superblock, [example_wal_page])] example_log"
proof -
  have sized: "length (file_id example_superblock) = 16" "pages_sized (unat (page_size example_superblock)) [example_wal_page]"
    using example_wal_page_ok(2) by (simp_all add: example_superblock_def)
  have "log_replayable True example_superblock None (next_page_id example_superblock) (checkpoint_lsn example_superblock + 1)
      [(example_superblock, [example_wal_page])]"
    using example_txn(2) [of True] by (simp add: example_superblock_def)
  moreover have "length example_log \<le> SDB_WAL_MAX_BYTES"
    using length_txn_image [OF sized, of 4] sized(1)
    by (simp add: example_log_def txn_size_def example_superblock_def SDB_WAL_MAX_BYTES_def)
  moreover have "example_log = wal_header_image example_superblock 5 4 1
      @ log_image (checkpoint_lsn example_superblock + 1) [(example_superblock, [example_wal_page])] @ []"
    by (simp add: example_log_def example_superblock_def)
  ultimately show ?thesis
    unfolding holds_log_def using next_v5_Nil by blast
qed

theorem recovery_restartable_witness:
  "\<exists>r d1 db1 db2 out d3 db3. fcontent db2 = fcontent db1 \<and>
    sdb_wal_recover_all (\<lambda>_. False) True ''db.wal'' example_superblock None (example_directory example_log) empty_wal = Some (r, d1, db1)
    \<and> sdb_wal_recover_all (\<lambda>_. True) True ''db.wal'' example_superblock None (example_directory example_log) db2 = Some (Inr out, d3, db3)
    \<and> out = recovered example_superblock [(example_superblock, [example_wal_page])]
    \<and> fcontent db3 = write_pages 4096 [example_wal_page] []"
proof -
  let ?ts = "[(example_superblock, [example_wal_page])]"
  note wal = example_txn(1) example_holds_log
  have stored: "wal_file (example_directory example_log) ''db.wal'' example_log"
    by (simp add: wal_file_def example_directory_def)
  obtain r d1 db1 where first: "sdb_wal_recover_all (\<lambda>_. False) True ''db.wal'' example_superblock None
      (example_directory example_log) empty_wal = Some (r, d1, db1)"
    using recover_holds_log [OF wal stored] by blast
  define db2 where "db2 = db1\<lparr>fscript := []\<rparr>"
  have healthy: "\<not> dir_may_fail (example_directory example_log)" "\<not> may_fail db2" "fcontent db2 = fcontent db1"
    by (simp_all add: dir_may_fail_def may_fail_def example_directory_def db2_def)
  have psize: "unat (page_size example_superblock) = 4096" "log_pages ?ts = [example_wal_page]" "fcontent empty_wal = []"
    by (simp_all add: example_superblock_def empty_wal_def)
  obtain r2 d3 db3 where second: "sdb_wal_recover_all (\<lambda>_. True) True ''db.wal'' example_superblock None
      (example_directory example_log) db2 = Some (r2, d3, db3)" "is_ok r2"
    and out: "case r2 of Inl e \<Rightarrow> resource_failure (\<lambda>_. True) (dir_may_fail (example_directory example_log) \<or> may_fail db2) e
      | Inr out \<Rightarrow> out = recovered example_superblock ?ts \<and> fcontent db3 = write_pages 4096 [example_wal_page] []"
    using recovery_restartable [OF wal stored first stored healthy(3), of "\<lambda>_. True", unfolded psize] healthy(1,2) by blast
  from second(2) obtain o2 where "r2 = Inr o2"
    by (cases r2) simp_all
  with first second(1) out healthy(3) show ?thesis
    by (intro exI [of _ r] exI [of _ d1] exI [of _ db1] exI [of _ db2] exI [of _ o2] exI [of _ d3] exI [of _ db3]) simp
qed

text \<open>
  C35: a log that belongs to another database is refused before anything is written.
  A header whose checksum is intact but which names another file id or page size
  makes the scan of the log return \<open>SDB_E_CORRUPT\<close> with the database untouched. (A log
  no longer than its header is never scanned: it holds no transaction.)
\<close>
theorem foreign_log_refused:
  assumes "length (file_id sb') = 16" "length (file_id sb) = 16"
    and "file_id sb' \<noteq> file_id sb \<or> page_size sb' \<noteq> page_size sb"
  shows "wal_recover_buffer malloc_ok avx2 sb data_key (wal_header_image sb' version txn_id n @ rest) db =
    Some (Inl SDB_E_CORRUPT, db)"
proof -
  let ?l = "wal_header_layout sb' version txn_id (of_nat n)"
  let ?c = "le_bytes 4 (sdb_crc32 (?l (zeros 4)))"
  have img: "wal_header_image sb' version txn_id n = ?l ?c"
    by (simp add: wal_header_image_def)
  have present: "list_ex (\<lambda>b. b \<noteq> 0) (take 64 (?l ?c @ rest))"
    using assms(1) by (simp add: wal_header_layout_def sdb_wal_magic_def)
  have crc: "sdb_crc32_zeroed_range (take 64 (?l ?c @ rest)) 60 4 = sdb_read_u32_le (?l ?c @ rest) 60"
    using assms(1) blit_wal_header_checksum [of sb' ?c "zeros 4" version txn_id "of_nat n" "[]"]
    by (simp add: wal_header_reads crc32_zeroed_range_blit)
  have "wal_header_mismatch sb (?l ?c @ rest)"
    using assms by (auto simp: wal_header_mismatch_def wal_header_reads SDB_FILE_ID_SIZE_def Let_def)
  then show ?thesis
    unfolding img wal_recover_buffer_def wal_header_gate_def Let_def wal_consts
    using present crc by simp
qed

theorem foreign_log_refused_witness:
  "wal_recover_buffer (\<lambda>_. True) True example_superblock None
    (wal_header_image (example_superblock\<lparr>file_id := replicate 16 8\<rparr>) 5 4 1 @ [1, 2]) empty_wal = Some (Inl SDB_E_CORRUPT, empty_wal)"
  by (rule foreign_log_refused) (simp_all add: example_superblock_def)

lemma zeroed_buffer_refused: "wal_recover_buffer malloc_ok avx2 sb None (zeros n) db = Some (Inl SDB_E_CORRUPT, db)"
proof -
  have "\<not> list_ex (\<lambda>b. b \<noteq> 0) (take 64 (zeros n))"
    by (auto simp: list_ex_iff zeros_def dest: in_set_takeD)
  then show ?thesis
    by (simp add: wal_recover_buffer_def wal_header_gate_def SDB_WAL_HEADER_SIZE_def Let_def)
qed

text \<open>
  C39: in an unencrypted database a log longer than its header whose bytes are still
  all zero, as after a power cut during the very first append that left the file with
  its length only, is refused, not skipped: recovery returns \<open>SDB_E_CORRUPT\<close>,
  although no transaction was ever committed. Zero bytes up to the length of the
  header are an empty log. The database is untouched either way, and the only other
  results are the failures of a system call or of memory.
\<close>
theorem zeroed_log_refused:
  assumes "recoverable_superblock sb" "wal_file d path (zeros n)" "n \<le> SDB_WAL_MAX_BYTES"
  shows "\<exists>r d'. sdb_wal_recover_all malloc_ok avx2 path sb None d db = Some (r, d', db) \<and> dir_unchanged d d'
    \<and> (r = (if 64 < n then Inl SDB_E_CORRUPT else Inr (nothing_recovered sb))
       \<or> (\<exists>e. r = Inl e \<and> resource_failure malloc_ok (dir_may_fail d) e))"
proof -
  have sb: "page_size_ok (unat (page_size sb))" "sdb_page_geometry_valid (next_page_id sb) (page_size sb)"
    using assms(1) by (simp_all add: recoverable_superblock_def)
  have "length (zeros n) \<le> SDB_WAL_MAX_BYTES"
    using assms(3) by simp
  from recover_all_reads [OF sb assms(2) this, of malloc_ok avx2 None db] show ?thesis
  proof (elim disjE exE conjE)
    fix r d'
    assume "sdb_wal_recover_all malloc_ok avx2 path sb None d db = Some (r, d', db)" "dir_unchanged d d'"
      "resource_failure malloc_ok (dir_may_fail d) (status_of r)" "\<not> is_ok r"
    then show ?thesis
      by (intro exI [of _ r] exI [of _ d']) (cases r; simp)
  qed (auto simp: zeroed_buffer_refused)
qed

theorem zeroed_log_refused_witness:
  "\<exists>d'. sdb_wal_recover_all (\<lambda>_. True) True ''db.wal'' example_superblock None (example_directory (zeros 4200)) empty_wal
    = Some (Inl SDB_E_CORRUPT, d', empty_wal)"
proof -
  have stored: "wal_file (example_directory (zeros 4200)) ''db.wal'' (zeros 4200)"
    by (simp add: wal_file_def example_directory_def)
  have "\<not> dir_may_fail (example_directory (zeros 4200))"
    by (simp add: dir_may_fail_def example_directory_def)
  then show ?thesis
    using zeroed_log_refused [OF example_txn(1) stored, of "\<lambda>_. True" True empty_wal]
    by (auto simp: SDB_WAL_MAX_BYTES_def resource_failure_def)
qed

end
