(* ===== verification/Wal_Legacy.thy ===== *)
theory Wal_Legacy
  imports Wal_Safety
begin

text \<open>
  The single-transaction log of the format versions 1 and 2
  (\<open>sdb_wal_write_committed\<close> and \<open>sdb_wal_recover\<close> of \<open>src/wal.c\<close>), which a current
  database still reads: 64 bytes of header, frames with an 8-byte header and a
  24-byte commit record carrying the checksum of everything before it.
\<close>

section \<open>Model\<close>

definition sdb_wal_expected_size :: "nat \<Rightarrow> nat \<Rightarrow> nat result" where
  "sdb_wal_expected_size psize page_count =
    (case Option.bind (sdb_checked_add_size SDB_WAL_RECORD_HEADER_SIZE psize) (\<lambda>record_size.
          Option.bind (sdb_checked_mul_size record_size page_count) (\<lambda>records_size.
          Option.bind (sdb_checked_add_size SDB_WAL_HEADER_SIZE records_size) (\<lambda>without_commit.
          sdb_checked_add_size without_commit SDB_WAL_LEGACY_COMMIT_SIZE))) of
       None \<Rightarrow> Inl SDB_E_OVERFLOW
     | Some sz \<Rightarrow> Inr sz)"

definition sdb_wal_open_reset :: "(nat \<Rightarrow> bool) \<Rightarrow> string \<Rightarrow> nat dir_io" where
  "sdb_wal_open_reset malloc_ok path d =
    (let (status, d) = sdb_file_open_existing path True d;
         opened_existing = is_ok status;
         (status, d) = (if opened_existing then (status, d) else sdb_file_create_new path d)
     in case status of
          Inl e \<Rightarrow> (Inl e, d)
        | Inr h \<Rightarrow>
            let (reset, d) = on_file h (sdb_file_resize 0) d;
                (reset, d) = (if is_ok reset \<and> \<not> opened_existing
                  then sdb_file_sync_parent_directory malloc_ok path d else (reset, d))
            in case reset of
                 Inl e \<Rightarrow> (Inl e, close_ignored h d)
               | Inr _ \<Rightarrow> (Inr h, d))"

fun legacy_write_frames :: "nat \<Rightarrow> nat \<Rightarrow> sdb_wal_page list \<Rightarrow> bytes \<Rightarrow> bytes" where
  "legacy_write_frames psize cursor [] buf = buf"
| "legacy_write_frames psize cursor (p # ps) buf =
    (let buf = sdb_write_u64_le buf cursor (wp_page_id p);
         buf = blit (cursor + SDB_WAL_RECORD_HEADER_SIZE) (wp_bytes p) buf
     in legacy_write_frames psize (cursor + SDB_WAL_RECORD_HEADER_SIZE + psize) ps buf)"

text \<open>The 24 bytes behind the frames; \<open>data\<close> is what they seal.\<close>

definition legacy_commit :: "u16 \<Rightarrow> u64 \<Rightarrow> bytes \<Rightarrow> bytes" where
  "legacy_commit version txn_id data =
    (let commit = zeros SDB_WAL_LEGACY_COMMIT_SIZE;
         commit = blit 0 sdb_wal_commit_magic commit;
         commit = sdb_write_u16_le commit 4 version;
         commit = sdb_write_u16_le commit 6 (of_nat SDB_WAL_LEGACY_COMMIT_SIZE);
         commit = sdb_write_u64_le commit 8 txn_id;
         commit = sdb_write_u32_le commit 16 (sdb_crc32 data)
     in sdb_write_u32_le commit SDB_WAL_COMMIT_CHECKSUM_OFFSET
          (sdb_crc32_zeroed_range commit SDB_WAL_COMMIT_CHECKSUM_OFFSET 4))"

text \<open>The file operations: everything but the commit record is synced before it is written.\<close>

definition legacy_store :: "(nat \<Rightarrow> bool) \<Rightarrow> string \<Rightarrow> bytes \<Rightarrow> bytes \<Rightarrow> unit dir_io" where
  "legacy_store malloc_ok wal_path data commit d =
    (case sdb_wal_open_reset malloc_ok wal_path d of
       (Inl e, d) \<Rightarrow> (Inl e, d)
     | (Inr h, d) \<Rightarrow>
         let (status, d) = on_file h
               (fbind (sdb_file_write_full 0 data) (\<lambda>_.
                fbind sdb_file_sync (\<lambda>_.
                fbind (sdb_file_write_full (length data) commit) (\<lambda>_.
                sdb_file_sync)))) d;
             (close_status, d) = on_file h sdb_file_close d
         in (if \<not> is_ok status then status else close_status, d))"

definition sdb_wal_write_committed ::
  "(nat \<Rightarrow> bool) \<Rightarrow> string \<Rightarrow> sdb_superblock_v1 \<Rightarrow> u64 \<Rightarrow> sdb_wal_page list \<Rightarrow> directory
    \<Rightarrow> (unit result \<times> directory) option" where
  "sdb_wal_write_committed malloc_ok wal_path sb txn_id pages d =
    (let page_count = length pages;
         psize = unat (page_size sb) in
     if txn_id = 0 \<or> page_count = 0 \<or> page_count > SDB_WAL_MAX_RECORDS \<or> page_count > 2 ^ 32 - 1
     then Some (Inl SDB_E_INVALID_ARGUMENT, d)
     else case sdb_wal_expected_size psize page_count of
       Inl e \<Rightarrow> Some (Inl e, d)
     | Inr total_size \<Rightarrow>
         if total_size > SDB_WAL_MAX_BYTES then Some (Inl SDB_E_OVERFLOW, d)
         else case sdb_wal_id_set_create malloc_ok page_count of
           None \<Rightarrow> None
         | Some (Inl e) \<Rightarrow> Some (Inl e, d)
         | Some (Inr page_ids) \<Rightarrow>
             (case wal_pages_valid (next_page_id sb) txn_id page_ids pages of
                None \<Rightarrow> None
              | Some False \<Rightarrow> Some (Inl SDB_E_INVALID_ARGUMENT, d)
              | Some True \<Rightarrow>
                  if \<not> malloc_ok total_size then Some (Inl SDB_E_OUT_OF_MEMORY, d)
                  else
                    let buf = wal_write_header sb SDB_WAL_VERSION txn_id page_count (zeros total_size);
                        buf = legacy_write_frames psize SDB_WAL_HEADER_SIZE pages buf;
                        data_size = SDB_WAL_HEADER_SIZE + (SDB_WAL_RECORD_HEADER_SIZE + psize) * page_count;
                        data = take data_size buf;
                        commit = legacy_commit SDB_WAL_VERSION txn_id data
                    in Some (legacy_store malloc_ok wal_path data commit d)))"

record legacy_recovered =
  lr_txn_id :: u64
  lr_next_page_id :: u64
  lr_freelist_page :: u64
  lr_replayed :: bool

definition legacy_nothing :: "sdb_superblock_v1 \<Rightarrow> legacy_recovered" where
  "legacy_nothing sb = \<lparr>lr_txn_id = 0, lr_next_page_id = next_page_id sb,
    lr_freelist_page = freelist_page sb, lr_replayed = False\<rparr>"

text \<open>
  The header read first decides whether this is such a log at all: not one
  (\<open>Legacy_Skip\<close>), one of another database (\<open>Legacy_Remove\<close>), a damaged one, or one
  to be read in full.
\<close>

datatype legacy_header = Legacy_Skip | Legacy_Remove | Legacy_Corrupt | Legacy_Read

definition legacy_header_ok :: "bytes \<Rightarrow> bool" where
  "legacy_header_ok header \<longleftrightarrow>
    \<not> ((sdb_read_u16_le header 4 \<noteq> SDB_WAL_VERSION_V1 \<and> sdb_read_u16_le header 4 \<noteq> SDB_WAL_VERSION)
       \<or> sdb_read_u16_le header 6 \<noteq> of_nat SDB_WAL_HEADER_SIZE
       \<or> sdb_crc32_zeroed_range (take SDB_WAL_HEADER_SIZE header) SDB_WAL_HEADER_CHECKSUM_OFFSET 4
          \<noteq> sdb_read_u32_le header SDB_WAL_HEADER_CHECKSUM_OFFSET)"

definition legacy_classify :: "sdb_superblock_v1 \<Rightarrow> nat \<Rightarrow> bytes \<Rightarrow> legacy_header" where
  "legacy_classify sb file_size header =
    (if take 4 header \<noteq> sdb_wal_magic then Legacy_Skip
     else
       let wal_version = sdb_read_u16_le header 4 in
       if wal_version = SDB_WAL_VERSION_V3 \<or> wal_version = SDB_WAL_VERSION_V4 \<or> wal_version = SDB_WAL_VERSION_V5
       then Legacy_Skip
       else if sdb_read_u32_le header 16 \<noteq> page_size sb \<or> slice 24 SDB_FILE_ID_SIZE header \<noteq> file_id sb
       then Legacy_Remove
       else if \<not> legacy_header_ok header then Legacy_Corrupt
       else
         let page_count = unat (sdb_read_u32_le header 20) in
         if page_count = 0 \<or> page_count > SDB_WAL_MAX_RECORDS
            \<or> sdb_wal_expected_size (unat (page_size sb)) page_count \<noteq> Inr file_size
         then Legacy_Skip else Legacy_Read)"

text \<open>The page count and free list the transaction leaves, from the header's reserved bytes.\<close>

definition legacy_targets :: "sdb_superblock_v1 \<Rightarrow> bytes \<Rightarrow> (u64 \<times> u64) result" where
  "legacy_targets sb buf =
    (if sdb_read_u16_le buf 4 = SDB_WAL_VERSION_V1 then
       if list_ex (\<lambda>b. b \<noteq> 0) (slice 40 20 buf) then Inl SDB_E_CORRUPT
       else Inr (next_page_id sb, freelist_page sb)
     else
       let target_next_page_id = sdb_read_u64_le buf 40;
           target_freelist_page = sdb_read_u64_le buf 48 in
       if list_ex (\<lambda>b. b \<noteq> 0) (slice 56 4 buf) then Inl SDB_E_CORRUPT
       else if \<not> sdb_page_geometry_valid target_next_page_id (page_size sb)
               \<or> target_next_page_id < next_page_id sb \<or> target_freelist_page \<ge> target_next_page_id
       then Inl SDB_E_CORRUPT
       else Inr (target_next_page_id, target_freelist_page))"

definition legacy_committed :: "bytes \<Rightarrow> u64 \<Rightarrow> bool" where
  "legacy_committed buf txn_id \<longleftrightarrow>
    (let data_size = length buf - SDB_WAL_LEGACY_COMMIT_SIZE;
         commit = drop data_size buf;
         checksum = sdb_crc32_zeroed_range commit SDB_WAL_COMMIT_CHECKSUM_OFFSET 4 in
     \<not> (take 4 commit \<noteq> sdb_wal_commit_magic
        \<or> sdb_read_u16_le commit 4 \<noteq> sdb_read_u16_le buf 4
        \<or> sdb_read_u16_le commit 6 \<noteq> of_nat SDB_WAL_LEGACY_COMMIT_SIZE
        \<or> sdb_read_u64_le commit 8 \<noteq> txn_id
        \<or> sdb_read_u32_le commit 16 \<noteq> sdb_crc32 (take data_size buf)
        \<or> sdb_read_u32_le commit 20 \<noteq> checksum))"

definition legacy_replay ::
  "(nat \<Rightarrow> bool) \<Rightarrow> bool \<Rightarrow> sdb_superblock_v1 \<Rightarrow> bytes option \<Rightarrow> bytes \<Rightarrow> sdb_file \<Rightarrow> (legacy_recovered result \<times> sdb_file) option" where
  "legacy_replay malloc_ok avx2 sb data_key buf database =
    (if length buf < SDB_WAL_HEADER_SIZE + SDB_WAL_LEGACY_COMMIT_SIZE \<or> take 4 buf \<noteq> sdb_wal_magic
     then Some (Inr (legacy_nothing sb), database)
     else if \<not> legacy_header_ok buf \<or> sdb_read_u32_le buf 16 \<noteq> page_size sb
             \<or> slice 24 SDB_FILE_ID_SIZE buf \<noteq> file_id sb
     then Some (Inl SDB_E_CORRUPT, database)
     else case legacy_targets sb buf of
       Inl e \<Rightarrow> Some (Inl e, database)
     | Inr (target_next_page_id, target_freelist_page) \<Rightarrow>
         let psize = unat (page_size sb);
             page_count = unat (sdb_read_u32_le buf 20);
             txn_id = sdb_read_u64_le buf 8 in
         if page_count = 0 \<or> page_count > SDB_WAL_MAX_RECORDS \<or> txn_id = 0
            \<or> sdb_wal_expected_size psize page_count \<noteq> Inr (length buf)
         then Some (Inr (legacy_nothing sb), database)
         else if \<not> legacy_committed buf txn_id then Some (Inr (legacy_nothing sb), database)
         else
           let frames = drop SDB_WAL_HEADER_SIZE buf;
               out = \<lparr>lr_txn_id = txn_id, lr_next_page_id = target_next_page_id,
                      lr_freelist_page = target_freelist_page, lr_replayed = txn_id > checkpoint_lsn sb\<rparr> in
           case sdb_wal_validate_frames malloc_ok avx2 frames psize page_count txn_id target_next_page_id
                  SDB_WAL_RECORD_HEADER_SIZE False sb data_key of
             None \<Rightarrow> None
           | Some (Inl e) \<Rightarrow> Some (Inl e, database)
           | Some (Inr _) \<Rightarrow>
               if txn_id > checkpoint_lsn sb
               then Some (fbind (sdb_wal_apply_frames frames psize page_count txn_id target_next_page_id
                            SDB_WAL_RECORD_HEADER_SIZE True) (\<lambda>_. freturn out) database)
               else Some (Inr out, database))"

definition legacy_discard :: "(nat \<Rightarrow> bool) \<Rightarrow> nat \<Rightarrow> string \<Rightarrow> directory \<Rightarrow> directory" where
  "legacy_discard malloc_ok h wal_path d =
    snd (sdb_file_sync_parent_directory malloc_ok wal_path (snd (sdb_file_remove wal_path True (close_ignored h d))))"

definition sdb_wal_recover ::
  "(nat \<Rightarrow> bool) \<Rightarrow> bool \<Rightarrow> string \<Rightarrow> sdb_superblock_v1 \<Rightarrow> bytes option \<Rightarrow> directory \<Rightarrow> sdb_file
    \<Rightarrow> (legacy_recovered result \<times> directory \<times> sdb_file) option" where
  "sdb_wal_recover malloc_ok avx2 wal_path sb data_key d database =
    (let nothing = Inr (legacy_nothing sb) in
     case sdb_file_open_existing wal_path False d of
       (Inl e, d) \<Rightarrow> Some (if e = SDB_E_NOT_FOUND then nothing else Inl e, d, database)
     | (Inr h, d) \<Rightarrow>
         (case on_file h sdb_file_size d of
            (Inl e, d) \<Rightarrow> Some (Inl e, close_ignored h d, database)
          | (Inr file_size, d) \<Rightarrow>
              if file_size = 0 then Some (nothing, close_ignored h d, database)
              else if file_size > SDB_WAL_MAX_BYTES then Some (Inl SDB_E_CORRUPT, close_ignored h d, database)
              else if file_size > SIZE_MAX then Some (Inl SDB_E_OVERFLOW, close_ignored h d, database)
              else if file_size < SDB_WAL_HEADER_SIZE + SDB_WAL_LEGACY_COMMIT_SIZE
              then Some (nothing, legacy_discard malloc_ok h wal_path d, database)
              else (case on_file h (sdb_file_read_full 0 SDB_WAL_HEADER_SIZE) d of
                      (Inl e, d) \<Rightarrow> Some (Inl e, close_ignored h d, database)
                    | (Inr header, d) \<Rightarrow>
                        (case legacy_classify sb file_size header of
                           Legacy_Skip \<Rightarrow> Some (nothing, close_ignored h d, database)
                         | Legacy_Remove \<Rightarrow> Some (nothing, legacy_discard malloc_ok h wal_path d, database)
                         | Legacy_Corrupt \<Rightarrow> Some (Inl SDB_E_CORRUPT, close_ignored h d, database)
                         | Legacy_Read \<Rightarrow>
                             if \<not> malloc_ok file_size
                             then Some (Inl SDB_E_OUT_OF_MEMORY, close_ignored h d, database)
                             else (case on_file h (sdb_file_read_full 0 file_size) d of
                                     (Inl e, d) \<Rightarrow> Some (Inl e, close_ignored h d, database)
                                   | (Inr buf, d) \<Rightarrow>
                                       map_option (\<lambda>(r, database'). (r, close_ignored h d, database'))
                                         (legacy_replay malloc_ok avx2 sb data_key buf database))))))"

section \<open>The image\<close>

fun legacy_frames :: "sdb_wal_page list \<Rightarrow> bytes" where
  "legacy_frames [] = []"
| "legacy_frames (p # ps) = le_bytes 8 (wp_page_id p) @ wp_bytes p @ legacy_frames ps"

lemma length_legacy_frames: "pages_sized psize ps \<Longrightarrow> length (legacy_frames ps) = (8 + psize) * length ps"
  by (induction ps) simp_all

lemma legacy_write_frames_image:
  assumes "pages_sized psize ps" "length pre = cursor"
  shows "legacy_write_frames psize cursor ps (pre @ zeros ((8 + psize) * length ps) @ post) = pre @ legacy_frames ps @ post"
  using assms
proof (induction ps arbitrary: cursor pre)
  case (Cons p ps)
  let ?rest = "zeros ((8 + psize) * length ps) @ post"
  have split: "pre @ zeros ((8 + psize) * length (p # ps)) @ post = pre @ zeros 8 @ zeros psize @ ?rest"
    by (simp add: zeros_append algebra_simps)
  have one: "blit (cursor + 8) (wp_bytes p) (sdb_write_u64_le (pre @ zeros 8 @ zeros psize @ ?rest) cursor (wp_page_id p))
      = (pre @ le_bytes 8 (wp_page_id p) @ wp_bytes p) @ ?rest"
    using Cons.prems by (simp add: wr_blits layout_simps)
  show ?case
    using Cons.IH [of "pre @ le_bytes 8 (wp_page_id p) @ wp_bytes p" "cursor + 8 + psize"] Cons.prems
    unfolding split by (simp add: wal_consts Let_def one [simplified])
qed simp

lemma parse_legacy_frames:
  "pages_sized psize ps \<Longrightarrow> parse_frames 8 psize (length ps) (legacy_frames ps @ rest) = ps"
proof (induction ps)
  case (Cons p ps)
  then show ?case
    by (simp add: rd_slices layout_simps sdb_wal_page.equality)
qed simp

definition legacy_commit_layout :: "u16 \<Rightarrow> u64 \<Rightarrow> u32 \<Rightarrow> bytes \<Rightarrow> bytes" where
  "legacy_commit_layout version txn_id data_crc c =
    sdb_wal_commit_magic @ le_bytes 2 version @ le_bytes 2 (24 :: u16) @ le_bytes 8 txn_id @ le_bytes 4 data_crc @ c"

lemma legacy_commit_image:
  "legacy_commit version txn_id data = legacy_commit_layout version txn_id (sdb_crc32 data)
    (le_bytes 4 (sdb_crc32 (legacy_commit_layout version txn_id (sdb_crc32 data) (zeros 4))))"
proof -
  let ?l = "legacy_commit_layout version txn_id (sdb_crc32 data)"
  have z: "zeros 24 = zeros 4 @ zeros 2 @ zeros 2 @ zeros 8 @ zeros 4 @ zeros 4"
    by (simp only: zeros_append) simp
  have fields: "sdb_write_u32_le (sdb_write_u64_le (sdb_write_u16_le (sdb_write_u16_le
      (blit 0 sdb_wal_commit_magic (zeros 24)) 4 version) 6 24) 8 txn_id) 16 (sdb_crc32 data) = ?l (zeros 4)"
    unfolding z by (simp add: wr_blits layout_simps legacy_commit_layout_def)
  have len: "length (?l (zeros 4)) = 24"
    by (simp add: legacy_commit_layout_def)
  have blit20: "blit 20 c (?l (zeros 4)) = ?l c" if "length c = 4" for c
    using that by (simp add: legacy_commit_layout_def layout_simps)
  have "sdb_crc32_zeroed_range (?l (zeros 4)) 20 4 = sdb_crc32 (?l (zeros 4))"
    using len by (simp add: crc32_zeroed_range_blit blit20)
  then show ?thesis
    unfolding legacy_commit_def Let_def wal_consts
    using len by (simp add: fields) (simp add: wr_blits blit20)
qed

definition legacy_image :: "sdb_superblock_v1 \<Rightarrow> u64 \<Rightarrow> sdb_wal_page list \<Rightarrow> bytes" where
  "legacy_image sb txn_id pages =
    (let data = wal_header_image sb 2 txn_id (length pages) @ legacy_frames pages
     in data @ legacy_commit 2 txn_id data)"

lemma length_legacy_commit [simp]: "length (legacy_commit version txn_id data) = 24"
  by (simp add: legacy_commit_image legacy_commit_layout_def)

lemma length_legacy_image:
  "length (file_id sb) = 16 \<Longrightarrow> pages_sized psize pages \<Longrightarrow>
    length (legacy_image sb txn_id pages) = 64 + (8 + psize) * length pages + 24"
  by (simp add: legacy_image_def Let_def length_legacy_frames)

lemma legacy_commit_reads:
  defines "c \<equiv> \<lambda>version txn_id data. legacy_commit version txn_id data"
  shows "take 4 (c version txn_id data) = sdb_wal_commit_magic"
    "sdb_read_u16_le (c version txn_id data) 4 = version" "sdb_read_u16_le (c version txn_id data) 6 = 24"
    "sdb_read_u64_le (c version txn_id data) 8 = txn_id" "sdb_read_u32_le (c version txn_id data) 16 = sdb_crc32 data"
    "sdb_read_u32_le (c version txn_id data) 20 = sdb_crc32_zeroed_range (c version txn_id data) 20 4"
proof -
  let ?l = "legacy_commit_layout version txn_id (sdb_crc32 data)"
  let ?c = "le_bytes 4 (sdb_crc32 (?l (zeros 4)))"
  have "sdb_crc32_zeroed_range (?l ?c) 20 4 = sdb_crc32 (?l (zeros 4))"
    by (simp add: crc32_zeroed_range_blit legacy_commit_layout_def layout_simps)
  then show "sdb_read_u32_le (c version txn_id data) 20 = sdb_crc32_zeroed_range (c version txn_id data) 20 4"
    unfolding c_def legacy_commit_image by (simp add: legacy_commit_layout_def rd_slices layout_simps)
qed (simp_all add: c_def legacy_commit_image legacy_commit_layout_def rd_slices layout_simps)

lemma expected_size_image:
  assumes "length pages \<le> 1048576"
  shows "sdb_wal_expected_size (unat (page_size sb)) (length pages) =
    Inr (64 + (8 + unat (page_size sb)) * length pages + 24)"
proof -
  define m where "m = (8 + unat (page_size sb)) * length pages"
  have p: "unat (page_size sb) < 2 ^ 32"
    using unsigned_less [of "page_size sb"] by simp
  then have "m \<le> (8 + 2 ^ 32) * 1048576"
    unfolding m_def using assms by (intro mult_le_mono) simp_all
  with p show ?thesis
    by (auto simp: sdb_wal_expected_size_def wal_consts sdb_checked_add_size_def checked_mul_size_iff SIZE_MAX_def
        simp flip: m_def)
qed

section \<open>Reading it back\<close>

lemma validate_loop_legacy:
  assumes psize: "psize = unat (page_size sb)"
    and "id_set_inv room ids slots" "n \<le> room"
    and "list_all (txn_page_ok limit txn_id) (parse_frames 8 psize n cursor)"
      "distinct (map wp_page_id (parse_frames 8 psize n cursor))"
      "ids \<inter> wp_page_id ` set (parse_frames 8 psize n cursor) = {}"
      "\<forall>p \<in> set (parse_frames 8 psize n cursor). page_opens avx2 sb data_key p"
  shows "wal_validate_loop avx2 psize count txn_id limit 8 False sb data_key index n slots cursor = Some (Inr ())"
  using assms(2-)
proof (induction n arbitrary: room ids slots index cursor)
  case (Suc n)
  then obtain room' where room: "room = Suc room'"
    by (cases room) auto
  let ?k = "sdb_read_u64_le cursor 0" and ?tail = "drop (8 + psize) cursor"
  have p: "?k \<noteq> 0" "\<not> limit \<le> ?k" "?k \<notin> ids"
    using Suc.prems by (auto simp: txn_page_ok_def)
  obtain view where view: "sdb_page_decode (slice 8 psize cursor) ?k = Inr view" "pv_page_lsn view = txn_id"
    using Suc.prems(3) by (auto simp: txn_page_ok_def)
  have opens: "wal_frame_opens avx2 sb data_key view psize"
    using Suc.prems(6) view psize by (auto simp: page_opens_def)
  obtain slots' where ins: "sdb_wal_id_set_insert slots ?k = Some (True, slots')"
    "id_set_inv room' (insert ?k ids) slots'"
    using id_set_insert_spec [of room' ids slots ?k] Suc.prems(1) p unfolding room by auto
  have "wal_validate_loop avx2 psize count txn_id limit 8 False sb data_key (index + 1) n slots' ?tail = Some (Inr ())"
    using Suc.prems room by (intro Suc.IH [OF ins(2)]) auto
  then show ?case
    using p view opens ins(1) by (simp add: wal_consts Let_def)
qed simp

lemma validate_frames_legacy:
  assumes psize: "psize = unat (page_size sb)" and acc: "txn_accepted sb' txn_id ps" and sized: "pages_sized psize ps"
    and opens: "\<forall>p \<in> set ps. page_opens avx2 sb data_key p"
  shows "sdb_wal_validate_frames malloc_ok avx2 (legacy_frames ps @ rest) psize (length ps) txn_id (next_page_id sb') 8
      False sb data_key \<in>
    (if (\<exists>n. \<not> malloc_ok n) then {Some (Inr ()), Some (Inl SDB_E_OUT_OF_MEMORY)} else {Some (Inr ())})"
proof -
  obtain c where c: "sdb_wal_id_set_create malloc_ok (length ps) = c"
    by simp
  have n: "0 < length ps" "length ps \<le> 2 ^ 58"
    using acc by (auto simp: txn_accepted_def SDB_WAL_MAX_RECORDS_def)
  from id_set_create_inv [OF c] show ?thesis
  proof
    assume "\<exists>slots. c = Some (Inr slots) \<and> id_set_inv (length ps) {} slots"
    then obtain slots where s: "c = Some (Inr slots)" "id_set_inv (length ps) {} slots"
      by blast
    have "wal_validate_loop avx2 psize (length ps) txn_id (next_page_id sb') 8 False sb data_key 0 (length ps) slots
      (legacy_frames ps @ rest) = Some (Inr ())"
      using acc opens unfolding parse_legacy_frames [OF sized, symmetric]
      by (intro validate_loop_legacy [OF psize s(2)])
        (auto simp: txn_accepted_def txn_pages_ok_def parse_legacy_frames [OF sized])
    with c s(1) show ?thesis
      by (auto simp: sdb_wal_validate_frames_def)
  qed (use n c in \<open>auto simp: sdb_wal_validate_frames_def\<close>)
qed

text \<open>The writer's superblock \<open>sb'\<close> names the state the reader with \<open>sb\<close> arrives at.\<close>

definition legacy_replayable ::
  "bool \<Rightarrow> sdb_superblock_v1 \<Rightarrow> bytes option \<Rightarrow> sdb_superblock_v1 \<Rightarrow> u64 \<Rightarrow> sdb_wal_page list \<Rightarrow> bool" where
  "legacy_replayable avx2 sb data_key sb' txn_id ps \<longleftrightarrow>
    txn_replayable avx2 sb data_key (next_page_id sb) txn_id sb' ps \<and> freelist_page sb' < next_page_id sb'
    \<and> 64 + (8 + unat (page_size sb)) * length ps + 24 \<le> SDB_WAL_MAX_BYTES"

definition legacy_outcome ::
  "(nat \<Rightarrow> bool) \<Rightarrow> bool \<Rightarrow> sdb_superblock_v1 \<Rightarrow> u64 \<Rightarrow> sdb_wal_page list \<Rightarrow> sdb_file \<Rightarrow> legacy_recovered result \<Rightarrow> sdb_file \<Rightarrow> bool" where
  "legacy_outcome malloc_ok faulty sb' txn_id ps db r db' \<longleftrightarrow>
    (case r of
       Inl e \<Rightarrow> resource_failure malloc_ok faulty e
     | Inr out \<Rightarrow> out = \<lparr>lr_txn_id = txn_id, lr_next_page_id = next_page_id sb', lr_freelist_page = freelist_page sb',
           lr_replayed = True\<rparr>
         \<and> fcontent db' = write_pages (unat (page_size sb')) ps (fcontent db) \<and> fdurable db' = fcontent db')"

lemma legacy_image_reads:
  fixes txn_id :: u64
  assumes fid: "length (file_id sb') = 16" and few: "length ps \<le> 1048576"
  defines "buf \<equiv> legacy_image sb' txn_id ps"
  shows "take 4 buf = sdb_wal_magic" "sdb_read_u16_le buf 4 = 2" "sdb_read_u64_le buf 8 = txn_id"
    "sdb_read_u32_le buf 16 = page_size sb'" "unat (sdb_read_u32_le buf 20) = length ps" "slice 24 16 buf = file_id sb'"
    "sdb_read_u64_le buf 40 = next_page_id sb'" "sdb_read_u64_le buf 48 = freelist_page sb'" "slice 56 4 buf = zeros 4"
    "legacy_header_ok buf" "drop 64 buf = legacy_frames ps
      @ legacy_commit 2 txn_id (wal_header_image sb' 2 txn_id (length ps) @ legacy_frames ps)"
proof -
  let ?l = "wal_header_layout sb' 2 txn_id (of_nat (length ps))"
  let ?c = "le_bytes 4 (sdb_crc32 (?l (zeros 4)))"
  obtain rest where img: "buf = ?l ?c @ rest"
    by (simp add: buf_def legacy_image_def wal_header_image_def Let_def)
  have lc: "length ?c = 4"
    by simp
  note reads = wal_header_reads [OF fid lc, of 2 txn_id "of_nat (length ps)" rest]
  show "take 4 buf = sdb_wal_magic" "sdb_read_u16_le buf 4 = 2" "sdb_read_u32_le buf 16 = page_size sb'"
      "slice 24 16 buf = file_id sb'"
    unfolding img using reads by simp_all
  have count: "unat (of_nat (length ps) :: u32) = length ps"
    using few by (intro unat_of_nat_u32) simp
  show "sdb_read_u64_le buf 8 = txn_id" "sdb_read_u64_le buf 40 = next_page_id sb'"
      "sdb_read_u64_le buf 48 = freelist_page sb'" "slice 56 4 buf = zeros 4"
    unfolding img wal_header_layout_def using fid by (simp_all add: rd_slices layout_simps)
  show "unat (sdb_read_u32_le buf 20) = length ps"
    unfolding img wal_header_layout_def using fid count by (simp add: rd_slices layout_simps)
  have "sdb_crc32_zeroed_range (take 64 buf) 60 4 = sdb_read_u32_le buf 60"
    unfolding img using fid blit_wal_header_checksum [of sb' ?c "zeros 4" 2 txn_id "of_nat (length ps)" "[]"] reads(6)
    by (simp add: crc32_zeroed_range_blit)
  then show "legacy_header_ok buf"
    unfolding legacy_header_ok_def wal_consts wal_versions using reads(2,3) by (simp add: img)
  show "drop 64 buf = legacy_frames ps @ legacy_commit 2 txn_id (wal_header_image sb' 2 txn_id (length ps) @ legacy_frames ps)"
    using fid by (simp add: buf_def legacy_image_def Let_def)
qed

lemma legacy_image_committed:
  assumes fid: "length (file_id sb') = 16" and few: "length ps \<le> 1048576"
  shows "legacy_committed (legacy_image sb' txn_id ps) txn_id"
proof -
  let ?data = "wal_header_image sb' 2 txn_id (length ps) @ legacy_frames ps"
  have img: "legacy_image sb' txn_id ps = ?data @ legacy_commit 2 txn_id ?data"
    by (simp add: legacy_image_def Let_def)
  have "sdb_read_u16_le (legacy_image sb' txn_id ps) 4 = 2"
    using legacy_image_reads(2) [OF fid few] .
  then show ?thesis
    unfolding legacy_committed_def Let_def wal_consts img using legacy_commit_reads [of 2 txn_id ?data] by simp
qed

lemma legacy_replay_image:
  assumes fid: "length (file_id sb) = 16" and pos: "0 < unat (page_size sb)"
    and geo: "sdb_page_geometry_valid (next_page_id sb') (page_size sb)"
    and txn: "legacy_replayable avx2 sb data_key sb' txn_id ps"
  shows "\<exists>r db'. legacy_replay malloc_ok avx2 sb data_key (legacy_image sb' txn_id ps) db = Some (r, db') \<and>
    legacy_outcome malloc_ok (may_fail db) sb' txn_id ps db r db'"
proof -
  let ?buf = "legacy_image sb' txn_id ps" and ?psize = "unat (page_size sb)"
  have same: "file_id sb' = file_id sb" "page_size sb' = page_size sb"
    and newer: "checkpoint_lsn sb < txn_id" and acc: "txn_accepted sb' txn_id ps" and sized: "pages_sized ?psize ps"
    and opens: "\<forall>p \<in> set ps. page_opens avx2 sb data_key p"
    and lim: "unat (next_page_id sb') * ?psize + 8192 \<le> INT64_MAX"
    and tgt: "next_page_id sb \<le> next_page_id sb'" "freelist_page sb' < next_page_id sb'"
    using txn by (auto simp: legacy_replayable_def txn_replayable_def)
  have n: "ps \<noteq> []" "length ps \<le> 1048576" "txn_id \<noteq> 0"
    using acc by (auto simp: txn_accepted_def SDB_WAL_MAX_RECORDS_def)
  have fid': "length (file_id sb') = 16"
    using fid same by simp
  note reads = legacy_image_reads [OF fid' n(2), of txn_id]
  obtain rest where frames: "drop 64 ?buf = legacy_frames ps @ rest"
    using reads(11) by blast
  have len: "length ?buf = 64 + (8 + ?psize) * length ps + 24"
    using length_legacy_image [OF fid' sized] .
  have exp: "sdb_wal_expected_size ?psize (length ps) = Inr (length ?buf)"
    using expected_size_image [OF n(2), of sb] len by simp
  have targets: "legacy_targets sb ?buf = Inr (next_page_id sb', freelist_page sb')"
    using reads geo tgt by (simp add: legacy_targets_def wal_versions zeros_def list_ex_iff not_less not_le Let_def)
  obtain r db' where app: "wal_apply_loop ?psize txn_id (next_page_id sb') 8 (length ps) (legacy_frames ps @ rest) db = (r, db')"
    by fastforce
  have "list_all (txn_page_ok (next_page_id sb') txn_id) ps"
    using acc by (simp add: txn_accepted_def txn_pages_ok_def)
  then have applied: "set (fscript db') \<subseteq> set (fscript db)"
      "r = Inr () \<and> fcontent db' = write_pages ?psize ps (fcontent db) \<or> r = Inl SDB_E_IO \<and> may_fail db"
    using apply_loop_spec [OF pos lim _ _ app] parse_legacy_frames [OF sized] sized by simp_all
  let ?out = "\<lparr>lr_txn_id = txn_id, lr_next_page_id = next_page_id sb', lr_freelist_page = freelist_page sb', lr_replayed = True\<rparr>"
  have run: "legacy_replay malloc_ok avx2 sb data_key ?buf db =
    (case sdb_wal_validate_frames malloc_ok avx2 (legacy_frames ps @ rest) ?psize (length ps) txn_id (next_page_id sb') 8
        False sb data_key of
       None \<Rightarrow> None | Some (Inl e) \<Rightarrow> Some (Inl e, db)
     | Some (Inr _) \<Rightarrow> Some (fbind (fbind (wal_apply_loop ?psize txn_id (next_page_id sb') 8 (length ps) (legacy_frames ps @ rest))
         (\<lambda>_. sdb_file_sync)) (\<lambda>_. freturn ?out) db))"
    unfolding legacy_replay_def Let_def wal_consts SDB_FILE_ID_SIZE_def reads(1-8) frames same targets exp
      eqTrueI [OF newer] sdb_wal_apply_frames_def if_True
    using reads(10) legacy_image_committed [OF fid' n(2), of txn_id] n len
    by (simp add: SDB_WAL_MAX_RECORDS_def)
  have valid: "sdb_wal_validate_frames malloc_ok avx2 (legacy_frames ps @ rest) ?psize (length ps) txn_id (next_page_id sb') 8
        False sb data_key = Some (Inr ())
      \<or> sdb_wal_validate_frames malloc_ok avx2 (legacy_frames ps @ rest) ?psize (length ps) txn_id (next_page_id sb') 8
        False sb data_key = Some (Inl SDB_E_OUT_OF_MEMORY) \<and> (\<exists>n. \<not> malloc_ok n)"
    using validate_frames_legacy [OF refl acc sized opens, of malloc_ok rest] by (auto split: if_splits)
  obtain rs dbs where sync: "sdb_file_sync db' = (rs, dbs)"
    by fastforce
  have mf: "may_fail db' \<Longrightarrow> may_fail db"
    using applied(1) by (auto simp: may_fail_def)
  from valid show ?thesis
  proof
    assume "sdb_wal_validate_frames malloc_ok avx2 (legacy_frames ps @ rest) ?psize (length ps) txn_id (next_page_id sb') 8
        False sb data_key = Some (Inr ())"
    then have eq: "legacy_replay malloc_ok avx2 sb data_key ?buf db =
        Some (case r of Inl e \<Rightarrow> (Inl e, db') | Inr _ \<Rightarrow> (case rs of Inl e \<Rightarrow> (Inl e, dbs) | Inr _ \<Rightarrow> (Inr ?out, dbs)))"
      unfolding run using app sync by (cases r; cases rs) (simp_all add: fbind_def freturn_def)
    have "rs = Inr () \<and> fdurable dbs = fcontent dbs \<and> fcontent dbs = fcontent db' \<or> rs = Inl SDB_E_IO \<and> may_fail db"
      using sdb_file_sync_spec [OF sync] mf by auto
    with applied(2) show ?thesis
      unfolding eq same(2) [symmetric] by (elim disjE conjE) (simp_all add: legacy_outcome_def resource_failure_def)
  next
    assume "sdb_wal_validate_frames malloc_ok avx2 (legacy_frames ps @ rest) ?psize (length ps) txn_id (next_page_id sb') 8
        False sb data_key = Some (Inl SDB_E_OUT_OF_MEMORY) \<and> (\<exists>n. \<not> malloc_ok n)"
    then show ?thesis
      unfolding run by (auto simp: legacy_outcome_def resource_failure_def)
  qed
qed

section \<open>Writing it\<close>

lemma open_reset_spec:
  assumes "sdb_wal_open_reset malloc_ok path d = (Inr h, d')" and wf: "dir_wf d"
  shows "d_names d' path = Some h \<and> h < length (d_inodes d') \<and> fcontent (d_inodes d' ! h) = []"
proof -
  obtain s1 d1 where o1: "sdb_file_open_existing path True d = (s1, d1)"
    by fastforce
  obtain s2 d2 where o2: "(if is_ok s1 then (s1, d1) else sdb_file_create_new path d1) = (s2, d2)"
    by fastforce
  have s2: "s2 = Inr h"
    using assms(1) o1 o2 by (auto simp: sdb_wal_open_reset_def Let_def split: sum.splits prod.splits if_splits)
  have "dir_wf d1"
    using o1 wf open_posix_spec by (auto simp: sdb_file_open_existing_def)
  then have at: "d_names d2 path = Some h" "h < length (d_inodes d2)"
    using o1 o2 s2 wf open_posix_spec [of path _ _ "Inr h"]
    by (auto simp: sdb_file_open_existing_def sdb_file_create_new_def split: if_splits)
  obtain s3 d3 where o3: "on_file h (sdb_file_resize 0) d2 = (s3, d3)"
    by fastforce
  obtain s4 d4 where o4: "(if is_ok s3 \<and> \<not> is_ok s1 then sdb_file_sync_parent_directory malloc_ok path d3 else (s3, d3)) = (s4, d4)"
    by fastforce
  have ok: "s4 = Inr ()" "d' = d4"
    using assms(1) o1 o2 s2 o3 o4 by (auto simp: sdb_wal_open_reset_def Let_def split: sum.splits)
  then have s3: "s3 = Inr ()"
    using o4 by (cases s3) (auto split: if_splits)
  obtain f f' where "sdb_file_resize 0 f = (s3, f')" "fcontent (d_inodes d3 ! h) = fcontent f'" "d_names d3 = d_names d2"
      "length (d_inodes d3) = length (d_inodes d2)"
    using on_file_runs [OF o3 at(2)] by blast
  then have "fcontent (d_inodes d3 ! h) = []" "d_names d3 path = Some h" "h < length (d_inodes d3)"
    using s3 sdb_file_resize_spec(3) [of 0 f s3 f'] at by (auto simp: file_resize_def)
  moreover have "d_names d4 = d_names d3" "d_inodes d4 = d_inodes d3"
    using o4 sync_parent_names [of malloc_ok path d3] by (auto split: if_splits)
  ultimately show ?thesis
    using ok by simp
qed

lemma legacy_store_image:
  assumes run: "legacy_store malloc_ok path data commit d = (Inr (), d')" and wf: "dir_wf d"
  shows "wal_file d' path (data @ commit)"
proof -
  let ?w = "fbind (sdb_file_write_full 0 data) (\<lambda>_. fbind sdb_file_sync (\<lambda>_.
    fbind (sdb_file_write_full (length data) commit) (\<lambda>_. sdb_file_sync)))"
  obtain h d1 where op: "sdb_wal_open_reset malloc_ok path d = (Inr h, d1)"
    using run by (auto simp: legacy_store_def split: prod.splits sum.splits)
  obtain s d2 where w: "on_file h ?w d1 = (s, d2)"
    by fastforce
  obtain cs d3 where cl: "on_file h sdb_file_close d2 = (cs, d3)"
    by fastforce
  have s: "s = Inr ()" "d3 = d'"
    using run op w cl by (auto simp: legacy_store_def is_ok_iff split: if_splits)
  have at: "d_names d1 path = Some h" "h < length (d_inodes d1)" "fcontent (d_inodes d1 ! h) = []"
    using open_reset_spec [OF op wf] by simp_all
  obtain f f' where f: "?w f = (Inr (), f')" "fcontent f = []" "fcontent (d_inodes d2 ! h) = fcontent f'"
      "d_names d2 = d_names d1" "length (d_inodes d2) = length (d_inodes d1)"
    using on_file_runs [OF w at(2)] at(3) s by auto
  then obtain f1 f2 f3 where steps: "sdb_file_write_full 0 data f = (Inr (), f1)" "sdb_file_sync f1 = (Inr (), f2)"
      "sdb_file_write_full (length data) commit f2 = (Inr (), f3)" "sdb_file_sync f3 = (Inr (), f')"
    by (auto simp: fbind_eq_Inr)
  have "fcontent f1 = data"
    using write_full_complete [OF steps(1)] f(2) by (simp add: file_write_at_end)
  then have "fcontent f' = data @ commit"
    using write_full_complete [OF steps(3)] sdb_file_sync_spec(1) [OF steps(2)] sdb_file_sync_spec(1) [OF steps(4)]
    by (simp add: file_write_at_end)
  moreover obtain g g' where "sdb_file_close g = (cs, g')" "fcontent g = fcontent (d_inodes d2 ! h)"
      "fcontent (d_inodes d3 ! h) = fcontent g'" "d_names d3 = d_names d2" "length (d_inodes d3) = length (d_inodes d2)"
    using on_file_runs [OF cl] f(5) at(2) by auto
  ultimately show ?thesis
    using f at s sdb_file_close_same [of g cs g'] by (auto simp: wal_file_def same_file_def)
qed

lemma write_committed_image:
  assumes run: "sdb_wal_write_committed malloc_ok path sb txn_id pages d = Some (Inr (), d')" and wf: "dir_wf d"
    and fid: "length (file_id sb) = 16" and sized: "pages_sized (unat (page_size sb)) pages"
  shows "wal_file d' path (legacy_image sb txn_id pages)"
proof -
  let ?psize = "unat (page_size sb)" and ?n = "length pages"
  let ?m = "(8 + ?psize) * ?n"
  let ?data = "wal_header_image sb 2 txn_id ?n @ legacy_frames pages"
  have args: "\<not> (txn_id = 0 \<or> ?n = 0 \<or> ?n > SDB_WAL_MAX_RECORDS \<or> ?n > 2 ^ 32 - 1)"
    using run by (auto simp: sdb_wal_write_committed_def Let_def split: if_splits)
  have exp: "sdb_wal_expected_size ?psize ?n = Inr (64 + ?m + 24)"
    using expected_size_image [of pages sb] args by (simp add: SDB_WAL_MAX_RECORDS_def)
  have z: "zeros (64 + ?m + 24) = zeros 64 @ zeros ?m @ zeros 24"
    by (simp add: zeros_append)
  have buf: "legacy_write_frames ?psize 64 pages (wal_write_header sb 2 txn_id ?n (zeros (64 + ?m + 24)))
      = wal_header_image sb 2 txn_id ?n @ legacy_frames pages @ zeros 24"
    unfolding z using write_header_image [OF fid, of 2 txn_id ?n "zeros ?m @ zeros 24"]
      legacy_write_frames_image [OF sized, of "wal_header_image sb 2 txn_id ?n" 64 "zeros 24"] fid by simp
  have data: "take (64 + ?m) (wal_header_image sb 2 txn_id ?n @ legacy_frames pages @ zeros 24) = ?data"
    using fid length_legacy_frames [OF sized] by simp
  have "legacy_store malloc_ok path ?data (legacy_commit 2 txn_id ?data) d = (Inr (), d')"
    using run unfolding sdb_wal_write_committed_def Let_def wal_consts wal_versions if_not_P [OF args] exp sum.case buf data
    by (auto split: if_splits option.splits sum.splits bool.splits)
  then have "wal_file d' path (?data @ legacy_commit 2 txn_id ?data)"
    using wf by (rule legacy_store_image)
  then show ?thesis
    by (simp add: legacy_image_def Let_def)
qed

section \<open>Properties\<close>

lemma legacy_classify_image:
  assumes fid: "length (file_id sb) = 16" and txn: "legacy_replayable avx2 sb data_key sb' txn_id ps"
  shows "legacy_classify sb (length (legacy_image sb' txn_id ps)) (take 64 (legacy_image sb' txn_id ps)) = Legacy_Read"
proof -
  let ?buf = "legacy_image sb' txn_id ps"
  have same: "file_id sb' = file_id sb" "page_size sb' = page_size sb" and acc: "txn_accepted sb' txn_id ps"
    and sized: "pages_sized (unat (page_size sb)) ps"
    using txn by (auto simp: legacy_replayable_def txn_replayable_def)
  have fid': "length (file_id sb') = 16" and n: "ps \<noteq> []" "length ps \<le> 1048576"
    using fid same acc by (auto simp: txn_accepted_def SDB_WAL_MAX_RECORDS_def)
  note reads = legacy_image_reads [OF fid' n(2), of txn_id]
  have len: "64 \<le> length ?buf"
    using length_legacy_image [OF fid' sized, of txn_id] by simp
  have exp: "sdb_wal_expected_size (unat (page_size sb)) (length ps) = Inr (length ?buf)"
    using expected_size_image [OF n(2), of sb] length_legacy_image [OF fid' sized, of txn_id] by simp
  have head: "take 4 (take 64 ?buf) = take 4 ?buf" "slice 24 16 (take 64 ?buf) = slice 24 16 ?buf"
    "sdb_read_u16_le (take 64 ?buf) 4 = sdb_read_u16_le ?buf 4" "sdb_read_u32_le (take 64 ?buf) 16 = sdb_read_u32_le ?buf 16"
    "sdb_read_u32_le (take 64 ?buf) 20 = sdb_read_u32_le ?buf 20" "legacy_header_ok (take 64 ?buf) = legacy_header_ok ?buf"
    using len by (simp_all add: legacy_header_ok_def wal_consts rd_slices slice_def take_drop min_def)
  show ?thesis
    unfolding legacy_classify_def Let_def SDB_FILE_ID_SIZE_def head reads(1-6) same
    using reads(10) exp n by (simp add: wal_versions SDB_WAL_MAX_RECORDS_def)
qed

lemma recover_legacy_image:
  assumes sb: "recoverable_superblock sb" and geo: "sdb_page_geometry_valid (next_page_id sb') (page_size sb)"
    and txn: "legacy_replayable avx2 sb data_key sb' txn_id ps"
    and wal: "wal_file d path (legacy_image sb' txn_id ps)"
  shows "\<exists>r d' db'. sdb_wal_recover malloc_ok avx2 path sb data_key d db = Some (r, d', db') \<and> dir_unchanged d d' \<and>
    legacy_outcome malloc_ok (dir_may_fail d \<or> may_fail db) sb' txn_id ps db r db'"
proof -
  let ?buf = "legacy_image sb' txn_id ps"
  have fid: "length (file_id sb) = 16" and pos: "0 < unat (page_size sb)"
    using sb page_size_ok_bounds [of "unat (page_size sb)"] by (auto simp: recoverable_superblock_def)
  have "pages_sized (unat (page_size sb)) ps" "length (file_id sb') = 16"
    using txn fid by (auto simp: legacy_replayable_def txn_replayable_def)
  then have len: "88 \<le> length ?buf" "length ?buf \<le> SDB_WAL_MAX_BYTES"
    using txn length_legacy_image [of sb' "unat (page_size sb)" ps txn_id] by (auto simp: legacy_replayable_def)
  have fits: "length ?buf \<le> INT64_MAX"
    using len(2) by (simp add: SDB_WAL_MAX_BYTES_def INT64_MAX_def)
  obtain h where h: "h < length (d_inodes d)" "d_names d path = Some h" "fcontent (d_inodes d ! h) = ?buf"
    using wal by (auto simp: wal_file_def)
  obtain ro d1 where op: "sdb_file_open_existing path False d = (ro, d1)"
    by fastforce
  note o1 = open_existing_spec [OF op h(2)]
  have h1: "h < length (d_inodes d1)" "fcontent (d_inodes d1 ! h) = ?buf"
    using dir_unchanged_inode [OF o1(1) h(1)] h(3) by simp_all
  obtain rs d2 where sz: "on_file h sdb_file_size d1 = (rs, d2)"
    by fastforce
  note s2 = on_file_size [OF sz h1(1), unfolded h1(2)]
  have h2: "h < length (d_inodes d2)" "fcontent (d_inodes d2 ! h) = ?buf"
    using dir_unchanged_inode [OF s2(1) h1(1)] h1(2) by simp_all
  obtain rh d3 where hd: "on_file h (sdb_file_read_full 0 64) d2 = (rh, d3)"
    by fastforce
  have s3: "dir_unchanged d2 d3" "rh = Inr (take 64 ?buf) \<or> rh = Inl SDB_E_IO \<and> dir_may_fail d2"
    using on_file_read [OF hd h2(1)] h2(2) fits len(1) by (simp_all add: file_read_def slice_def)
  have h3: "h < length (d_inodes d3)" "fcontent (d_inodes d3 ! h) = ?buf"
    using dir_unchanged_inode [OF s3(1) h2(1)] h2(2) by simp_all
  obtain rr d4 where rd: "on_file h (sdb_file_read_full 0 (length ?buf)) d3 = (rr, d4)"
    by fastforce
  have s4: "dir_unchanged d3 d4" "rr = Inr ?buf \<or> rr = Inl SDB_E_IO \<and> dir_may_fail d3"
    using on_file_read [OF rd h3(1)] h3(2) fits by (simp_all add: file_read_def)
  have h4: "h < length (d_inodes d4)"
    using dir_unchanged_inode [OF s4(1) h3(1)] by simp
  have un: "dir_unchanged d d1" "dir_unchanged d d2" "dir_unchanged d d3"
    "dir_unchanged d (close_ignored h d2)" "dir_unchanged d (close_ignored h d3)" "dir_unchanged d (close_ignored h d4)"
    using o1(1) s2(1) s3(1) s4(1) close_ignored_unchanged [OF h2(1)] close_ignored_unchanged [OF h3(1)]
      close_ignored_unchanged [OF h4] by (meson dir_unchanged_trans)+
  have mf: "dir_may_fail d1 \<Longrightarrow> dir_may_fail d" "dir_may_fail d2 \<Longrightarrow> dir_may_fail d" "dir_may_fail d3 \<Longrightarrow> dir_may_fail d"
    using un(1-3) dir_unchanged_may_fail by blast+
  obtain r db' where replay: "legacy_replay malloc_ok avx2 sb data_key ?buf db = Some (r, db')"
    "legacy_outcome malloc_ok (may_fail db) sb' txn_id ps db r db'"
    using legacy_replay_image [OF fid pos geo txn] by blast
  have io: "legacy_outcome malloc_ok (dir_may_fail d \<or> may_fail db) sb' txn_id ps db (Inl SDB_E_IO) db" if "dir_may_fail d"
    using that by (simp add: legacy_outcome_def resource_failure_def)
  show ?thesis
  proof (cases "ro = Inr h")
    case False
    then have "sdb_wal_recover malloc_ok avx2 path sb data_key d db = Some (Inl SDB_E_IO, d1, db)" "dir_may_fail d"
      using op o1(2) by (auto simp: sdb_wal_recover_def)
    then show ?thesis
      using un(1) io by blast
  next
    case True
    have run: "sdb_wal_recover malloc_ok avx2 path sb data_key d db =
      (case rs of Inl e \<Rightarrow> Some (Inl e, close_ignored h d2, db)
       | Inr _ \<Rightarrow> (case rh of Inl e \<Rightarrow> Some (Inl e, close_ignored h d3, db)
          | Inr _ \<Rightarrow> if \<not> malloc_ok (length ?buf) then Some (Inl SDB_E_OUT_OF_MEMORY, close_ignored h d3, db)
             else (case rr of Inl e \<Rightarrow> Some (Inl e, close_ignored h d4, db)
                | Inr _ \<Rightarrow> Some (r, close_ignored h d4, db'))))"
      using op True sz hd rd s2(2) s3(2) s4(2) replay(1) legacy_classify_image [OF fid txn] len
      by (auto simp: sdb_wal_recover_def wal_consts SDB_WAL_MAX_BYTES_def SIZE_MAX_def Let_def split: sum.split)
    consider "rs = Inl SDB_E_IO" "dir_may_fail d" | "is_ok rs" "rh = Inl SDB_E_IO" "dir_may_fail d"
      | "is_ok rs" "is_ok rh" "\<not> malloc_ok (length ?buf)"
      | "is_ok rs" "is_ok rh" "malloc_ok (length ?buf)" "rr = Inl SDB_E_IO" "dir_may_fail d"
      | "is_ok rs" "is_ok rh" "malloc_ok (length ?buf)" "is_ok rr"
      using s2(2) s3(2) s4(2) mf by (auto simp: is_ok_iff)
    then show ?thesis
    proof cases
      case 5
      then show ?thesis
        unfolding run using un replay(2)
        by (auto simp: is_ok_iff legacy_outcome_def resource_failure_def split: sum.splits)
    qed (use un io in \<open>auto simp: run is_ok_iff legacy_outcome_def resource_failure_def\<close>)
  qed
qed

text \<open>
  C36: a transaction written in the single-transaction format of older versions is
  read back. When \<open>sdb_wal_write_committed\<close> reports success, a later recovery
  reports its number, page count and free list, and leaves the database file, on
  stable storage, with its pages written; the only other outcomes are a failed
  system call and memory running out.
\<close>
theorem legacy_log_roundtrip:
  assumes "sdb_wal_write_committed malloc_ok path sb' txn_id ps d = Some (Inr (), d1)" "dir_wf d"
    and "recoverable_superblock sb" "sdb_page_geometry_valid (next_page_id sb') (page_size sb)"
    and "legacy_replayable avx2 sb data_key sb' txn_id ps"
  shows "\<exists>r d2 db'. sdb_wal_recover malloc_ok' avx2 path sb data_key d1 db = Some (r, d2, db') \<and> dir_unchanged d1 d2 \<and>
    legacy_outcome malloc_ok' (dir_may_fail d1 \<or> may_fail db) sb' txn_id ps db r db'"
proof -
  have "length (file_id sb') = 16" "pages_sized (unat (page_size sb')) ps"
    using assms(3,5) by (auto simp: recoverable_superblock_def legacy_replayable_def txn_replayable_def)
  then show ?thesis
    using write_committed_image [OF assms(1,2)] recover_legacy_image [OF assms(3-5)] by blast
qed

lemma legacy_store_healthy:
  assumes "length data + length commit \<le> INT64_MAX"
  shows "\<exists>d1. legacy_store (\<lambda>_. True) ''db.wal'' data commit empty_directory = (Inr (), d1)"
proof -
  have resize: "\<exists>f'. sdb_file_resize 0 f = (Inr (), f') \<and> fscript f' = []" if "fscript f = []" for f
    using that by (simp add: sdb_file_resize_def healthy_os_call)
  have sync: "\<exists>f'. sdb_file_sync f = (Inr (), f') \<and> fscript f' = []" if "fscript f = []" for f
    using that by (simp add: sdb_file_sync_def healthy_os_call)
  have close: "\<exists>f'. sdb_file_close f = (Inr (), f') \<and> fscript f' = []" if "fscript f = []" for f
    using that by (simp add: sdb_file_close_def os_call_once_def)
  let ?w = "fbind (sdb_file_write_full 0 data) (\<lambda>_. fbind sdb_file_sync (\<lambda>_.
    fbind (sdb_file_write_full (length data) commit) (\<lambda>_. sdb_file_sync)))"
  have writes: "\<exists>f'. ?w f = (Inr (), f') \<and> fscript f' = []" if f: "fscript f = []" for f
  proof -
    obtain f1 where 1: "sdb_file_write_full 0 data f = (Inr (), f1)" "fscript f1 = []"
      using healthy_write [OF f, of 0 data] assms by auto
    obtain f2 where 2: "sdb_file_sync f1 = (Inr (), f2)" "fscript f2 = []"
      using sync [OF 1(2)] by blast
    obtain f3 where 3: "sdb_file_write_full (length data) commit f2 = (Inr (), f3)" "fscript f3 = []"
      using healthy_write [OF 2(2) assms] by blast
    show ?thesis
      using 1 2 3 sync [OF 3(2)] by (auto simp: fbind_def)
  qed
  let ?d1 = "empty_directory\<lparr>d_names := [''db.wal'' \<mapsto> 0],
    d_inodes := [\<lparr>fcontent = [], fdurable = [], fpending = [], fscript = []\<rparr>]\<rparr>"
  have op: "sdb_file_open_existing ''db.wal'' True empty_directory = (Inl SDB_E_NOT_FOUND, empty_directory)"
    "sdb_file_create_new ''db.wal'' empty_directory = (Inr 0, ?d1)"
    by (simp_all add: sdb_file_open_existing_def sdb_file_create_new_def sdb_file_open_posix_def empty_directory_def
        healthy_dir_call)
  obtain d2 where d2: "on_file 0 (sdb_file_resize 0) ?d1 = (Inr (), d2)" "d_script d2 = []"
    using on_file_healthy [of ?d1 "sdb_file_resize 0" "()" 0] resize by (auto simp: empty_directory_def)
  obtain d3 where d3: "sdb_file_sync_parent_directory (\<lambda>_. True) ''db.wal'' d2 = (Inr (), d3)" "d_script d3 = []"
    using d2(2) by (simp add: sdb_file_sync_parent_directory_def healthy_dir_call Let_def)
  obtain d4 where d4: "on_file 0 ?w d3 = (Inr (), d4)" "d_script d4 = []"
    using on_file_healthy [OF d3(2), of ?w "()" 0] writes by blast
  obtain d5 where d5: "on_file 0 sdb_file_close d4 = (Inr (), d5)"
    using on_file_healthy [OF d4(2), of sdb_file_close "()" 0] close by blast
  have "sdb_wal_open_reset (\<lambda>_. True) ''db.wal'' empty_directory = (Inr 0, d3)"
    using op d2 d3 by (simp add: sdb_wal_open_reset_def)
  then show ?thesis
    using d4 d5 by (simp add: legacy_store_def)
qed

lemma write_committed_example:
  "\<exists>d1. sdb_wal_write_committed (\<lambda>_. True) ''db.wal'' example_superblock 4 [example_wal_page] empty_directory = Some (Inr (), d1)"
proof -
  have ps: "unat (page_size example_superblock) = 4096" "next_page_id example_superblock = 9"
    by (simp_all add: example_superblock_def)
  have exp: "sdb_wal_expected_size 4096 1 = Inr 4192"
    using expected_size_image [of "[example_wal_page]" example_superblock] ps by simp
  obtain ids where ids: "sdb_wal_id_set_create (\<lambda>_. True) 1 = Some (Inr ids)" "id_set_inv 1 {} ids"
    using id_set_create_inv [of "\<lambda>_. True" 1] by auto
  have valid: "wal_pages_valid 9 4 ids [example_wal_page] = Some True"
    using wal_pages_valid_iff [OF ids(2), of "[example_wal_page]" 9 4] example_wal_page_ok(1) by simp
  define b where "b = legacy_write_frames 4096 64 [example_wal_page] (wal_write_header example_superblock 2 4 1 (zeros 4192))"
  have "length (take 4168 b) + length (legacy_commit 2 4 (take 4168 b)) \<le> INT64_MAX"
    by (simp add: INT64_MAX_def min_def)
  then obtain d1 where "legacy_store (\<lambda>_. True) ''db.wal'' (take 4168 b) (legacy_commit 2 4 (take 4168 b)) empty_directory = (Inr (), d1)"
    using legacy_store_healthy by blast
  then show ?thesis
    using ps exp ids(1) valid
    by (simp add: sdb_wal_write_committed_def Let_def wal_consts wal_versions SDB_WAL_MAX_RECORDS_def SDB_WAL_MAX_BYTES_def
        b_def del: legacy_write_frames.simps wal_pages_valid.simps)
qed

theorem legacy_log_roundtrip_witness:
  "\<exists>d1 r d2 db'. sdb_wal_write_committed (\<lambda>_. True) ''db.wal'' example_superblock 4 [example_wal_page] empty_directory = Some (Inr (), d1)
    \<and> sdb_wal_recover (\<lambda>_. True) True ''db.wal'' example_superblock None d1 empty_wal = Some (r, d2, db')
    \<and> legacy_outcome (\<lambda>_. True) (dir_may_fail d1 \<or> may_fail empty_wal) example_superblock 4 [example_wal_page] empty_wal r db'"
proof -
  obtain d1 where d1: "sdb_wal_write_committed (\<lambda>_. True) ''db.wal'' example_superblock 4 [example_wal_page] empty_directory
      = Some (Inr (), d1)"
    using write_committed_example by blast
  have wf: "dir_wf empty_directory"
    by (simp add: dir_wf_def empty_directory_def)
  have geo: "sdb_page_geometry_valid (next_page_id example_superblock) (page_size example_superblock)"
    using example_txn(1) by (simp add: recoverable_superblock_def)
  have "legacy_replayable True example_superblock None example_superblock 4 [example_wal_page]"
    using example_txn(2) [of True] by (simp add: legacy_replayable_def example_superblock_def SDB_WAL_MAX_BYTES_def)
  from legacy_log_roundtrip [OF d1 wf example_txn(1) geo this, of "\<lambda>_. True" empty_wal] d1 show ?thesis
    by blast
qed

end
