(* ===== verification/Replace.thy ===== *)
theory Replace
  imports Directory Checksum
begin

text \<open>
  Replacing a database file by another (\<open>src/replace.c\<close>): a marker file beside the
  database names the replacement before it is renamed into place, so that an
  interrupted replacement is completed or undone at the next open, and so that the
  log of the replaced database is never applied to the new one.
\<close>

section \<open>Model\<close>

definition SDB_REPLACE_MARKER_SIZE :: nat where "SDB_REPLACE_MARKER_SIZE = 32"
definition SDB_REPLACE_CHECKSUM_OFFSET :: nat where "SDB_REPLACE_CHECKSUM_OFFSET = 24"

definition sdb_replace_magic :: bytes where
  "sdb_replace_magic = [0x53, 0x42, 0x52, 0x31]"

definition sdb_replace_path :: "(nat \<Rightarrow> bool) \<Rightarrow> string \<Rightarrow> string \<Rightarrow> string result" where
  "sdb_replace_path malloc_ok database_path suffix =
    (if length database_path > SIZE_MAX - length suffix - 1 then Inl SDB_E_OVERFLOW
     else if \<not> malloc_ok (length database_path + length suffix + 1) then Inl SDB_E_OUT_OF_MEMORY
     else Inr (database_path @ suffix))"

definition sdb_replace_marker_encode :: "bytes \<Rightarrow> bytes" where
  "sdb_replace_marker_encode fid =
    (let marker = zeros SDB_REPLACE_MARKER_SIZE;
         marker = blit 0 sdb_replace_magic marker;
         marker = sdb_write_u16_le marker 4 1;
         marker = sdb_write_u16_le marker 6 (of_nat SDB_REPLACE_MARKER_SIZE);
         marker = blit 8 fid marker
     in sdb_write_u32_le marker SDB_REPLACE_CHECKSUM_OFFSET
          (sdb_crc32_zeroed_range marker SDB_REPLACE_CHECKSUM_OFFSET 4))"

definition sdb_replace_marker_decode :: "bytes \<Rightarrow> bytes result" where
  "sdb_replace_marker_decode marker =
    (if take 4 marker \<noteq> sdb_replace_magic
        \<or> sdb_read_u16_le marker 4 \<noteq> 1
        \<or> sdb_read_u16_le marker 6 \<noteq> of_nat SDB_REPLACE_MARKER_SIZE
        \<or> sdb_read_u32_le marker SDB_REPLACE_CHECKSUM_OFFSET
            \<noteq> sdb_crc32_zeroed_range marker SDB_REPLACE_CHECKSUM_OFFSET 4
     then Inl SDB_E_CORRUPT
     else if \<not> list_all (\<lambda>b. b = 0) (slice 28 4 marker) then Inl SDB_E_CORRUPT
     else Inr (slice 8 16 marker))"

definition sdb_replace_prepare :: "(nat \<Rightarrow> bool) \<Rightarrow> string \<Rightarrow> bytes \<Rightarrow> unit dir_io" where
  "sdb_replace_prepare malloc_ok database_path replacement_file_id d =
    (case rbind (sdb_replace_path malloc_ok database_path ''.replace'') (\<lambda>marker_path.
          rbind (sdb_replace_path malloc_ok database_path ''.replace.tmp'') (\<lambda>temporary_path.
          Inr (marker_path, temporary_path))) of
       Inl e \<Rightarrow> (Inl e, d)
     | Inr (marker_path, temporary_path) \<Rightarrow>
         let (_, d) = sdb_file_remove temporary_path True d in
         case sdb_file_create_new temporary_path d of
           (Inl e, d) \<Rightarrow> (Inl e, d)
         | (Inr h, d) \<Rightarrow>
             let (status, d) = on_file h
                   (fbind (sdb_file_write_full 0 (sdb_replace_marker_encode replacement_file_id)) (\<lambda>_.
                    sdb_file_sync)) d;
                 (close_status, d) = on_file h sdb_file_close d;
                 status = (if is_ok status then close_status else status);
                 (status, temporary_exists, d) =
                   (if is_ok status
                    then (case sdb_file_replace temporary_path marker_path True d of
                            (Inl e, d) \<Rightarrow> (Inl e, True, d)
                          | (Inr _, d) \<Rightarrow>
                              (case sdb_file_sync_parent_directory malloc_ok database_path d of
                                 (s, d) \<Rightarrow> (s, False, d)))
                    else (status, True, d));
                 d = (if temporary_exists then snd (sdb_file_remove temporary_path True d) else d)
             in (status, d))"

definition sdb_replace_finish :: "(nat \<Rightarrow> bool) \<Rightarrow> string \<Rightarrow> unit dir_io" where
  "sdb_replace_finish malloc_ok database_path d =
    (case rbind (sdb_replace_path malloc_ok database_path ''.wal'') (\<lambda>wal_path.
          rbind (sdb_replace_path malloc_ok database_path ''.replace'') (\<lambda>marker_path.
          Inr (wal_path, marker_path))) of
       Inl e \<Rightarrow> (Inl e, d)
     | Inr (wal_path, marker_path) \<Rightarrow>
         dbind (sdb_file_remove wal_path True) (\<lambda>_.
         dbind (sdb_file_sync_parent_directory malloc_ok database_path) (\<lambda>_.
         dbind (sdb_file_remove marker_path True) (\<lambda>_.
         sdb_file_sync_parent_directory malloc_ok database_path))) d)"

definition sdb_replace_abort :: "(nat \<Rightarrow> bool) \<Rightarrow> string \<Rightarrow> unit dir_io" where
  "sdb_replace_abort malloc_ok database_path d =
    (case sdb_replace_path malloc_ok database_path ''.replace'' of
       Inl e \<Rightarrow> (Inl e, d)
     | Inr marker_path \<Rightarrow>
         dbind (sdb_file_remove marker_path True) (\<lambda>_.
         sdb_file_sync_parent_directory malloc_ok database_path) d)"

definition sdb_replace_recover :: "(nat \<Rightarrow> bool) \<Rightarrow> string \<Rightarrow> bytes \<Rightarrow> unit dir_io" where
  "sdb_replace_recover malloc_ok database_path current_file_id d =
    (let d = (case sdb_replace_path malloc_ok database_path ''.replace.tmp'' of
                Inl _ \<Rightarrow> d
              | Inr temporary_path \<Rightarrow> snd (sdb_file_remove temporary_path True d)) in
     case sdb_replace_path malloc_ok database_path ''.replace'' of
       Inl e \<Rightarrow> (Inl e, d)
     | Inr marker_path \<Rightarrow>
         (case sdb_file_open_existing marker_path False d of
            (Inl e, d) \<Rightarrow> (if e = SDB_E_NOT_FOUND then Inr () else Inl e, d)
          | (Inr h, d) \<Rightarrow>
              let (marker, d) = on_file h (sdb_file_read_full 0 SDB_REPLACE_MARKER_SIZE) d;
                  d = close_ignored h d;
                  decoded = rbind marker sdb_replace_marker_decode
              in if decoded = Inr current_file_id then sdb_replace_finish malloc_ok database_path d
                 else if is_ok decoded
                         \<or> status_of decoded \<in> {SDB_E_CORRUPT, SDB_E_TRUNCATED, SDB_E_IO}
                 then dbind (sdb_file_remove marker_path True) (\<lambda>_.
                      sdb_file_sync_parent_directory malloc_ok database_path) d
                 else (map_sum (\<lambda>e. e) (\<lambda>_. ()) decoded, d)))"

lemmas replace_consts = SDB_REPLACE_MARKER_SIZE_def SDB_REPLACE_CHECKSUM_OFFSET_def

section \<open>The marker\<close>

definition marker_layout :: "bytes \<Rightarrow> bytes \<Rightarrow> bytes" where
  "marker_layout fid c = sdb_replace_magic @ le_bytes 2 (1 :: u16) @ le_bytes 2 (32 :: u16) @ fid @ c @ zeros 4"

definition marker_image :: "bytes \<Rightarrow> bytes" where
  "marker_image fid = marker_layout fid (le_bytes 4 (sdb_crc32 (marker_layout fid (zeros 4))))"

lemma length_replace_magic [simp]: "length sdb_replace_magic = 4"
  by (simp add: sdb_replace_magic_def)

lemma length_marker_layout [simp]: "length fid = 16 \<Longrightarrow> length c = 4 \<Longrightarrow> length (marker_layout fid c) = 32"
  by (simp add: marker_layout_def)

lemma length_marker_image [simp]: "length fid = 16 \<Longrightarrow> length (marker_image fid) = 32"
  by (simp add: marker_image_def)

lemma blit_marker_checksum:
  "length fid = 16 \<Longrightarrow> length c = 4 \<Longrightarrow> length d = 4 \<Longrightarrow> blit 24 d (marker_layout fid c) = marker_layout fid d"
  by (simp add: marker_layout_def layout_simps)

lemma marker_encode_image:
  assumes "length fid = 16"
  shows "sdb_replace_marker_encode fid = marker_image fid"
proof -
  have z: "zeros 32 = zeros 4 @ zeros 2 @ zeros 2 @ zeros 16 @ zeros 4 @ zeros 4"
    by (simp only: zeros_append) simp
  have fields: "blit 8 fid (sdb_write_u16_le (sdb_write_u16_le (blit 0 sdb_replace_magic (zeros 32)) 4 1) 6 32)
      = marker_layout fid (zeros 4)"
    using assms unfolding z by (simp add: wr_blits layout_simps marker_layout_def)
  have "sdb_crc32_zeroed_range (marker_layout fid (zeros 4)) 24 4 = sdb_crc32 (marker_layout fid (zeros 4))"
    using assms by (simp add: crc32_zeroed_range_blit blit_marker_checksum)
  then show ?thesis
    unfolding sdb_replace_marker_encode_def Let_def replace_consts marker_image_def
    using assms by (simp add: fields) (simp add: wr_blits blit_marker_checksum)
qed

lemma list_all_zeros4: "list_all (\<lambda>b. b = 0) (zeros n)"
  by (simp add: zeros_def list_all_iff)

lemma marker_decode_image:
  assumes "length fid = 16"
  shows "sdb_replace_marker_decode (marker_image fid) = Inr fid"
proof -
  let ?c = "le_bytes 4 (sdb_crc32 (marker_layout fid (zeros 4)))"
  have reads: "take 4 (marker_layout fid ?c) = sdb_replace_magic" "sdb_read_u16_le (marker_layout fid ?c) 4 = 1"
    "sdb_read_u16_le (marker_layout fid ?c) 6 = 32" "slice 8 16 (marker_layout fid ?c) = fid"
    "sdb_read_u32_le (marker_layout fid ?c) 24 = sdb_crc32 (marker_layout fid (zeros 4))"
    "slice 28 4 (marker_layout fid ?c) = zeros 4"
    using assms by (simp_all add: marker_layout_def rd_slices layout_simps)
  have "sdb_crc32_zeroed_range (marker_layout fid ?c) 24 4 = sdb_crc32 (marker_layout fid (zeros 4))"
    using assms by (simp add: crc32_zeroed_range_blit blit_marker_checksum)
  with reads show ?thesis
    by (simp add: sdb_replace_marker_decode_def marker_image_def replace_consts list_all_zeros4)
qed

lemma marker_decode_inv:
  assumes "sdb_replace_marker_decode m = Inr fid" "length m = 32"
  shows "m = marker_image fid"
proof -
  have fields: "take 4 m = sdb_replace_magic" "sdb_read_u16_le m 4 = 1" "sdb_read_u16_le m 6 = 32"
    "sdb_read_u32_le m 24 = sdb_crc32_zeroed_range m 24 4" "slice 28 4 m = zeros 4" "fid = slice 8 16 m"
    using assms by (auto simp: sdb_replace_marker_decode_def replace_consts list_all_iff all_zero_iff split: if_splits)
  have split: "m = marker_layout fid (slice 24 4 m)"
  proof -
    have "marker_layout fid (slice 24 4 m) = slice 0 4 m @ slice 4 2 m @ slice 6 2 m @ slice 8 16 m @ slice 24 4 m @ slice 28 4 m"
      using assms(2) fields(1,5,6) by (simp add: marker_layout_def le_bytes_rds slice_0_prefix flip: fields(2,3))
    also have "\<dots> = slice 0 32 m"
      by (simp add: slice_append_slice flip: append_assoc)
        (simp add: slice_append_slice [of 0 _ m, simplified] flip: append_assoc)
    finally show ?thesis
      using assms(2) by (simp add: slice_0_prefix)
  qed
  have fid: "length fid = 16" "length (slice 24 4 m) = 4"
    using assms(2) fields(6) by simp_all
  have "sdb_crc32_zeroed_range m 24 4 = sdb_crc32 (marker_layout fid (zeros 4))"
    by (subst split) (use fid assms(2) in \<open>simp add: crc32_zeroed_range_blit blit_marker_checksum\<close>)
  then have "slice 24 4 m = le_bytes 4 (sdb_crc32 (marker_layout fid (zeros 4)))"
    using fields(4) assms(2) le32.le_bytes_rd [of 24 m] by simp
  then show ?thesis
    using split by (simp add: marker_image_def)
qed

section \<open>The protocol\<close>

text \<open>
  After a crash a name refers to what the process last saw or to what the directory
  was known to hold, each name for itself. So a name may survive a crash if it is in
  one of the two, and is sure to survive if it is in both.
\<close>

definition may_survive :: "directory \<Rightarrow> string \<Rightarrow> bool" where
  "may_survive d name \<longleftrightarrow> d_names d name \<noteq> None \<or> d_durable d name \<noteq> None"

definition must_survive :: "directory \<Rightarrow> string \<Rightarrow> bool" where
  "must_survive d name \<longleftrightarrow> d_names d name \<noteq> None \<and> d_durable d name \<noteq> None"

lemma parent_suffix:
  assumes "CHR ''/'' \<notin> set suffix"
  shows "parent_directory (path @ suffix) = parent_directory path"
proof -
  have "dropWhile (\<lambda>c. c \<noteq> CHR ''/'') (rev suffix @ rev path) = dropWhile (\<lambda>c. c \<noteq> CHR ''/'') (rev path)"
    using assms by (intro dropWhile_append2) auto
  then show ?thesis
    using assms by (simp add: parent_directory_def)
qed

lemma sidecar_parents:
  "parent_directory (path @ ''.wal'') = parent_directory path"
  "parent_directory (path @ ''.replace'') = parent_directory path"
  "parent_directory (path @ ''.replace.tmp'') = parent_directory path"
  by (rule parent_suffix; simp)+

lemma replace_path_ok: "sdb_replace_path malloc_ok path suffix = Inr p \<Longrightarrow> p = path @ suffix"
  by (auto simp: sdb_replace_path_def split: if_splits)

lemma file_remove_spec:
  assumes "sdb_file_remove p True d = (r, d')"
  shows "d_durable d' = d_durable d" "d_inodes d' = d_inodes d" "set (d_script d') \<subseteq> set (d_script d)"
    "r = Inr () \<and> d_names d' = (d_names d)(p := None) \<or> r = Inl SDB_E_IO \<and> d_names d' = d_names d \<and> dir_may_fail d"
proof -
  obtain ok d1 where call: "dir_call d = (ok, d1)"
    by fastforce
  note c = dir_call_spec [OF call]
  have "r = (if ok then Inr () else Inl SDB_E_IO) \<and> d' = (if ok then d1\<lparr>d_names := (d_names d1)(p := None)\<rparr> else d1)"
    using assms call by (auto simp: sdb_file_remove_def fun_upd_idem split: bool.splits if_splits)
  then show "d_durable d' = d_durable d" "d_inodes d' = d_inodes d" "set (d_script d') \<subseteq> set (d_script d)"
      "r = Inr () \<and> d_names d' = (d_names d)(p := None) \<or> r = Inl SDB_E_IO \<and> d_names d' = d_names d \<and> dir_may_fail d"
    using c by (auto simp: same_dir_def split: if_splits)
qed

definition synced_names :: "string \<Rightarrow> directory \<Rightarrow> string \<Rightarrow> nat option" where
  "synced_names path d name = (if parent_directory name = parent_directory path then d_names d name else d_durable d name)"

lemma sync_parent_spec:
  assumes "sdb_file_sync_parent_directory malloc_ok path d = (r, d')"
  shows "d_names d' = d_names d" "d_durable d' = d_durable d \<or> d_durable d' = synced_names path d"
    "r = Inr () \<Longrightarrow> d_durable d' = synced_names path d"
proof -
  show "d_names d' = d_names d"
    using sync_parent_names [OF assms] by simp
  obtain a d1 where a: "dir_call d = (a, d1)"
    by fastforce
  obtain b d2 where b: "dir_call d1 = (b, d2)"
    by fastforce
  define d2' where "d2' = (if b then d2\<lparr>d_durable := \<lambda>name. if parent_directory name = parent_directory path
      then d_names d2 name else d_durable d2 name\<rparr> else d2)"
  obtain c d3 where c: "dir_call_once d2' = (c, d3)"
    by fastforce
  have cases: "d' \<in> {d, d1} \<and> r \<noteq> Inr () \<or> d' = d3 \<and> (r = Inr () \<longrightarrow> b)"
    using assms a b c by (auto simp: sdb_file_sync_parent_directory_def d2'_def split: if_splits bool.splits)
  have same: "same_dir d d1" "same_dir d1 d2" "same_dir d2' d3"
    using dir_call_spec(1) [OF a] dir_call_spec(1) [OF b] dir_call_once_spec(1) [OF c] .
  then have "d_durable d1 = d_durable d" "d_durable d3 = (if b then synced_names path d else d_durable d)"
    by (auto simp: same_dir_def d2'_def synced_names_def fun_eq_iff)
  with cases show "d_durable d' = d_durable d \<or> d_durable d' = synced_names path d"
    "r = Inr () \<Longrightarrow> d_durable d' = synced_names path d"
    by auto
qed

lemma dbind_post:
  assumes "dbind m k d = (r, d')" "\<And>e. m d = (Inl e, d') \<Longrightarrow> r = Inl e \<Longrightarrow> thesis"
    "\<And>v d1. m d = (Inr v, d1) \<Longrightarrow> k v d1 = (r, d') \<Longrightarrow> thesis"
  shows thesis
  using assms by (auto simp: dbind_def split: prod.splits sum.splits)

text \<open>Removing the marker once the log is gone for good.\<close>

lemma finish_marker:
  assumes "dbind (sdb_file_remove (path @ ''.replace'') True) (\<lambda>_. sdb_file_sync_parent_directory malloc_ok path) d = (r, d')"
    and "\<not> may_survive d (path @ ''.wal'')"
  shows "\<not> may_survive d' (path @ ''.wal'') \<and> (r = Inr () \<longrightarrow> \<not> may_survive d' (path @ ''.replace''))"
  using assms(1)
proof (rule dbind_post)
  fix e
  assume "sdb_file_remove (path @ ''.replace'') True d = (Inl e, d')" "r = Inl e"
  then show ?thesis
    using file_remove_spec [of "path @ ''.replace''" d "Inl e" d'] assms(2) by (auto simp: may_survive_def)
next
  fix v d1
  assume d1: "sdb_file_remove (path @ ''.replace'') True d = (Inr v, d1)"
    and d2: "sdb_file_sync_parent_directory malloc_ok path d1 = (r, d')"
  have "\<not> may_survive d1 (path @ ''.wal'')" "d_names d1 (path @ ''.replace'') = None"
    using file_remove_spec [OF d1] assms(2) by (auto simp: may_survive_def)
  then show ?thesis
    using sync_parent_spec [OF d2] by (auto simp: may_survive_def synced_names_def sidecar_parents)
qed

lemma finish_steps:
  assumes run: "dbind (sdb_file_remove (path @ ''.wal'') True) (\<lambda>_. dbind (sdb_file_sync_parent_directory malloc_ok path) (\<lambda>_.
      dbind (sdb_file_remove (path @ ''.replace'') True) (\<lambda>_. sdb_file_sync_parent_directory malloc_ok path))) d = (r, d')"
    and marker: "must_survive d (path @ ''.replace'')"
  shows "(may_survive d' (path @ ''.wal'') \<longrightarrow> must_survive d' (path @ ''.replace''))
    \<and> (r = Inr () \<longrightarrow> \<not> may_survive d' (path @ ''.wal'') \<and> \<not> may_survive d' (path @ ''.replace''))"
  using run
proof (rule dbind_post)
  fix e
  assume "sdb_file_remove (path @ ''.wal'') True d = (Inl e, d')" "r = Inl e"
  then show ?thesis
    using file_remove_spec [of "path @ ''.wal''" d "Inl e" d'] marker by (auto simp: must_survive_def)
next
  fix v d1
  assume d1: "sdb_file_remove (path @ ''.wal'') True d = (Inr v, d1)"
  have s1: "must_survive d1 (path @ ''.replace'')" "d_names d1 (path @ ''.wal'') = None"
    using file_remove_spec [OF d1] marker by (auto simp: must_survive_def)
  assume "dbind (sdb_file_sync_parent_directory malloc_ok path) (\<lambda>_.
      dbind (sdb_file_remove (path @ ''.replace'') True) (\<lambda>_. sdb_file_sync_parent_directory malloc_ok path)) d1 = (r, d')"
  then show ?thesis
  proof (rule dbind_post)
    fix e
    assume "sdb_file_sync_parent_directory malloc_ok path d1 = (Inl e, d')" "r = Inl e"
    then show ?thesis
      using sync_parent_spec [of malloc_ok path d1 "Inl e" d'] s1
      by (auto simp: must_survive_def synced_names_def sidecar_parents)
  next
    fix v d2
    assume d2: "sdb_file_sync_parent_directory malloc_ok path d1 = (Inr v, d2)"
      and rest: "dbind (sdb_file_remove (path @ ''.replace'') True) (\<lambda>_. sdb_file_sync_parent_directory malloc_ok path) d2 = (r, d')"
    have "\<not> may_survive d2 (path @ ''.wal'')"
      using sync_parent_spec [OF d2] s1 by (auto simp: may_survive_def synced_names_def sidecar_parents)
    with finish_marker [OF rest] show ?thesis
      by blast
  qed
qed

lemma finish_ordered:
  assumes run: "sdb_replace_finish malloc_ok path d = (r, d')" and marker: "must_survive d (path @ ''.replace'')"
  shows "(may_survive d' (path @ ''.wal'') \<longrightarrow> must_survive d' (path @ ''.replace''))
    \<and> (r = Inr () \<longrightarrow> \<not> may_survive d' (path @ ''.wal'') \<and> \<not> may_survive d' (path @ ''.replace''))"
proof (cases "\<exists>w m. sdb_replace_path malloc_ok path ''.wal'' = Inr w \<and> sdb_replace_path malloc_ok path ''.replace'' = Inr m")
  case True
  then obtain w m where paths: "sdb_replace_path malloc_ok path ''.wal'' = Inr w" "sdb_replace_path malloc_ok path ''.replace'' = Inr m"
    by blast
  show ?thesis
    using run paths replace_path_ok [OF paths(1)] replace_path_ok [OF paths(2)]
    by (intro finish_steps [OF _ marker]) (simp add: sdb_replace_finish_def)
next
  case False
  then have "d' = d" "r \<noteq> Inr ()"
    using run by (auto simp: sdb_replace_finish_def split: sum.splits)
      (cases "sdb_replace_path malloc_ok path ''.wal''"; cases "sdb_replace_path malloc_ok path ''.replace''"; auto)+
  with marker show ?thesis
    by simp
qed

section \<open>Recovery\<close>

text \<open>The directory holds a marker that names \<open>fid\<close>.\<close>

definition marker_at :: "directory \<Rightarrow> string \<Rightarrow> bytes \<Rightarrow> bool" where
  "marker_at d path fid \<longleftrightarrow> must_survive d (path @ ''.replace'') \<and>
    (\<exists>h < length (d_inodes d). d_names d (path @ ''.replace'') = Some h \<and> fcontent (d_inodes d ! h) = marker_image fid)"

lemma drop_temporary:
  assumes "d1 = (case sdb_replace_path malloc_ok path ''.replace.tmp'' of
      Inl _ \<Rightarrow> d | Inr temporary_path \<Rightarrow> snd (sdb_file_remove temporary_path True d))"
  shows "d_names d1 (path @ ''.wal'') = d_names d (path @ ''.wal'')" "d_durable d1 = d_durable d" "d_inodes d1 = d_inodes d"
    "d_names d1 (path @ ''.replace'') = d_names d (path @ ''.replace'')" "set (d_script d1) \<subseteq> set (d_script d)"
proof -
  obtain r d2 where rm: "sdb_file_remove (path @ ''.replace.tmp'') True d = (r, d2)"
    by fastforce
  have "d1 = d \<or> d1 = d2"
    using assms rm by (auto dest: replace_path_ok split: sum.splits)
  with file_remove_spec [OF rm] show "d_names d1 (path @ ''.wal'') = d_names d (path @ ''.wal'')"
    "d_durable d1 = d_durable d" "d_inodes d1 = d_inodes d"
    "d_names d1 (path @ ''.replace'') = d_names d (path @ ''.replace'')" "set (d_script d1) \<subseteq> set (d_script d)"
    by auto
qed

lemma drop_marker:
  assumes "dbind (sdb_file_remove (path @ ''.replace'') True) (\<lambda>_. sdb_file_sync_parent_directory malloc_ok path) d = (Inr (), d')"
  shows "\<not> may_survive d' (path @ ''.replace'') \<and> d_names d' (path @ ''.wal'') = d_names d (path @ ''.wal'')"
  using assms
proof (rule dbind_post)
  fix v d1
  assume d1: "sdb_file_remove (path @ ''.replace'') True d = (Inr v, d1)"
    and d2: "sdb_file_sync_parent_directory malloc_ok path d1 = (Inr (), d')"
  show ?thesis
    using file_remove_spec(4) [OF d1] sync_parent_spec(1,3) [OF d2]
    by (auto simp: may_survive_def synced_names_def sidecar_parents)
qed simp

lemma recover_decides:
  assumes run: "sdb_replace_recover malloc_ok path current d = (Inr (), d')"
    and marker: "marker_at d path fid" "length fid = 16" and healthy: "\<not> dir_may_fail d"
  shows "\<not> may_survive d' (path @ ''.replace'') \<and>
    (if fid = current then \<not> may_survive d' (path @ ''.wal'') else d_names d' (path @ ''.wal'') = d_names d (path @ ''.wal''))"
proof -
  define d1 where "d1 = (case sdb_replace_path malloc_ok path ''.replace.tmp'' of
      Inl _ \<Rightarrow> d | Inr temporary_path \<Rightarrow> snd (sdb_file_remove temporary_path True d))"
  note t = drop_temporary [OF d1_def]
  obtain h where h: "h < length (d_inodes d1)" "d_names d1 (path @ ''.replace'') = Some h"
      "fcontent (d_inodes d1 ! h) = marker_image fid" and must: "must_survive d1 (path @ ''.replace'')"
    using marker(1) t by (auto simp: marker_at_def must_survive_def)
  obtain m where m: "sdb_replace_path malloc_ok path ''.replace'' = Inr m"
    using run by (auto simp: sdb_replace_recover_def Let_def split: sum.splits)
  have mp: "m = path @ ''.replace''"
    by (rule replace_path_ok [OF m])
  have ok1: "\<not> dir_may_fail d1"
    using healthy t(5) by (auto simp: dir_may_fail_def)
  obtain ro d2 where op: "sdb_file_open_existing m False d1 = (ro, d2)"
    by fastforce
  have o2: "dir_unchanged d1 d2" "ro = Inr h"
    using open_existing_spec [OF op, of h] h(2) mp ok1 by simp_all
  have h2: "h < length (d_inodes d2)" "fcontent (d_inodes d2 ! h) = marker_image fid"
    using dir_unchanged_inode [OF o2(1) h(1)] h(3) by simp_all
  obtain rr d3 where rd: "on_file h (sdb_file_read_full 0 32) d2 = (rr, d3)"
    by fastforce
  have "rr = file_read 0 32 (marker_image fid)" and u3: "dir_unchanged d2 d3"
    using on_file_read [OF rd h2(1)] h2(2) marker(2) dir_unchanged_may_fail [OF o2(1)] ok1 by (auto simp: INT64_MAX_def)
  then have rr: "rr = Inr (marker_image fid)"
    using marker(2) by (simp add: file_read_def slice_0_prefix)
  let ?d4 = "close_ignored h d3"
  have "dir_unchanged d1 ?d4"
    using o2(1) u3 close_ignored_unchanged dir_unchanged_inode [OF u3 h2(1)] by (meson dir_unchanged_trans)
  then have d4: "d_names ?d4 = d_names d1" "d_durable ?d4 = d_durable d1"
    by (simp_all add: dir_unchanged_def)
  have eq: "(if fid = current then sdb_replace_finish malloc_ok path ?d4
      else dbind (sdb_file_remove (path @ ''.replace'') True) (\<lambda>_. sdb_file_sync_parent_directory malloc_ok path) ?d4) = (Inr (), d')"
    using run op rd rr m mp o2(2) marker_decode_image [OF marker(2)]
    unfolding sdb_replace_recover_def d1_def [symmetric] by (simp add: replace_consts Let_def split: if_splits)
  show ?thesis
  proof (cases "fid = current")
    case True
    then have "sdb_replace_finish malloc_ok path ?d4 = (Inr (), d')" "must_survive ?d4 (path @ ''.replace'')"
      using eq must d4 by (simp_all add: must_survive_def)
    with True finish_ordered show ?thesis
      by auto
  next
    case False
    then show ?thesis
      using eq drop_marker [of path malloc_ok ?d4 d'] d4 t(1) by simp
  qed
qed

text \<open>A marker that cannot be read is removed all the same.\<close>

lemma recover_unreadable:
  assumes marker: "d_names d (path @ ''.replace'') = Some h" "h < length (d_inodes d)"
    and temporary: "d_names d (path @ ''.replace.tmp'') = None"
    and script: "d_script d = [OS_Ok 0, OS_Ok 0, OS_Fail]"
    and path: "path \<noteq> []" "last path \<noteq> CHR ''/''" "length path \<le> 2 ^ 32"
  shows "\<exists>d'. sdb_replace_recover (\<lambda>_. True) path current d = (Inr (), d')
    \<and> \<not> may_survive d' (path @ ''.replace'') \<and> d_names d' (path @ ''.wal'') = d_names d (path @ ''.wal'')"
proof -
  let ?t = "path @ ''.replace.tmp''" and ?m = "path @ ''.replace''"
  have paths: "sdb_replace_path (\<lambda>_. True) path ''.replace.tmp'' = Inr ?t" "sdb_replace_path (\<lambda>_. True) path ''.replace'' = Inr ?m"
    using path(3) by (simp_all add: sdb_replace_path_def SIZE_MAX_def)
  let ?d1 = "d\<lparr>d_script := [OS_Ok 0, OS_Fail]\<rparr>" and ?d2 = "d\<lparr>d_script := [OS_Fail]\<rparr>"
  have rm: "sdb_file_remove ?t True d = (Inr (), ?d1)"
    using script temporary by (simp add: sdb_file_remove_def dir_call_def)
  have op: "sdb_file_open_existing ?m False ?d1 = (Inr h, ?d2)"
    using marker by (simp add: sdb_file_open_existing_def sdb_file_open_posix_def dir_call_def)
  obtain f' where "sdb_file_read_full 0 32 ((d_inodes d ! h)\<lparr>fscript := [OS_Fail]\<rparr>) = (Inl SDB_E_IO, f')" "fscript f' = []"
    by (simp add: sdb_file_read_full_def sdb_file_read_loop.simps [of 0 32 "[]"] os_call_def sdb_posix_chunk_def Let_def)
  then obtain d3 where rd: "on_file h (sdb_file_read_full 0 32) ?d2 = (Inl SDB_E_IO, d3)"
    and d3: "d_script d3 = []" "d_names d3 = d_names d"
    by (simp add: on_file_def)
  obtain cs d4 where cl: "on_file h sdb_file_close d3 = (cs, d4)"
    by fastforce
  have d4: "d_script d4 = []" "d_names d4 = d_names d"
    using cl d3 by (auto simp: on_file_def sdb_file_close_def os_call_once_def split: prod.splits)
  obtain d5 where d5: "sdb_file_remove ?m True d4 = (Inr (), d5)" "d_script d5 = []"
    using d4 marker(1) by (auto simp: sdb_file_remove_def healthy_dir_call)
  obtain d6 where d6: "sdb_file_sync_parent_directory (\<lambda>_. True) path d5 = (Inr (), d6)"
    using d5(2) path by (auto simp: sdb_file_sync_parent_directory_def healthy_dir_call Let_def)
  have seq: "dbind (sdb_file_remove ?m True) (\<lambda>_. sdb_file_sync_parent_directory (\<lambda>_. True) path) d4 = (Inr (), d6)"
    using d5 d6 by (simp add: dbind_def)
  have "sdb_replace_recover (\<lambda>_. True) path current d = (Inr (), d6)"
    using paths rm op rd cl seq by (simp add: sdb_replace_recover_def replace_consts close_ignored_def Let_def)
  then show ?thesis
    using drop_marker [OF seq] d4(2) by auto
qed

section \<open>Properties\<close>

text \<open>
  C37: the marker outlives the log. Finishing a replacement, stopped at any point by a
  failed call or a crash, never leaves a state in which the old log may still be found
  while the marker may already be gone; and when it reports success neither can
  come back.
\<close>
theorem replace_finish_ordered:
  assumes "sdb_replace_finish malloc_ok path d = (r, d')" "must_survive d (path @ ''.replace'')"
  shows "(may_survive d' (path @ ''.wal'') \<longrightarrow> must_survive d' (path @ ''.replace''))
    \<and> (r = Inr () \<longrightarrow> \<not> may_survive d' (path @ ''.wal'') \<and> \<not> may_survive d' (path @ ''.replace''))"
  using assms by (rule finish_ordered)

definition example_replace :: "os_outcome list \<Rightarrow> directory" where
  "example_replace script = \<lparr>d_names = [''db.replace'' \<mapsto> 0, ''db.wal'' \<mapsto> 1], d_durable = [''db.replace'' \<mapsto> 0, ''db.wal'' \<mapsto> 1],
    d_inodes = [\<lparr>fcontent = marker_image (replicate 16 7), fdurable = marker_image (replicate 16 7), fpending = [], fscript = []\<rparr>,
      \<lparr>fcontent = [1], fdurable = [1], fpending = [], fscript = []\<rparr>], d_script = script\<rparr>"

theorem replace_finish_ordered_witness:
  "\<exists>r d'. sdb_replace_finish (\<lambda>_. True) ''db'' (example_replace [OS_Ok 0, OS_Ok 0, OS_Fail]) = (r, d')
    \<and> (may_survive d' ''db.wal'' \<longrightarrow> must_survive d' ''db.replace'')"
proof -
  let ?d = "example_replace [OS_Ok 0, OS_Ok 0, OS_Fail]"
  obtain r d' where run: "sdb_replace_finish (\<lambda>_. True) ''db'' ?d = (r, d')"
    by fastforce
  have "must_survive ?d (''db'' @ ''.replace'')"
    by (simp add: must_survive_def example_replace_def)
  from replace_finish_ordered [OF run this] run show ?thesis
    by auto
qed

text \<open>
  C38: an interrupted replacement is decided by the marker. When no call fails and
  recovery returns, the marker is gone for good; if it named the database that is now
  in place, so is the log of the replaced one, and if it named another, the log is
  kept.
\<close>
theorem replace_recover_decides:
  assumes "sdb_replace_recover malloc_ok path current d = (Inr (), d')"
    and "marker_at d path fid" "length fid = 16" "\<not> dir_may_fail d"
  shows "\<not> may_survive d' (path @ ''.replace'') \<and>
    (if fid = current then \<not> may_survive d' (path @ ''.wal'') else d_names d' (path @ ''.wal'') = d_names d (path @ ''.wal''))"
  using assms by (rule recover_decides)

lemma example_replace_recovers:
  "\<exists>d'. sdb_replace_recover (\<lambda>_. True) ''db'' (replicate 16 9) (example_replace []) = (Inr (), d')"
proof -
  let ?d = "example_replace []"
  have rm: "sdb_file_remove ''db.replace.tmp'' True ?d = (Inr (), ?d)"
    by (simp add: sdb_file_remove_def healthy_dir_call example_replace_def)
  have op: "sdb_file_open_existing ''db.replace'' False ?d = (Inr 0, ?d)"
    by (simp add: sdb_file_open_existing_def sdb_file_open_posix_def healthy_dir_call example_replace_def)
  obtain rr d3 where rd: "on_file 0 (sdb_file_read_full 0 32) ?d = (rr, d3)"
    by fastforce
  have h: "0 < length (d_inodes ?d)" "fcontent (d_inodes ?d ! 0) = marker_image (replicate 16 7)" "\<not> dir_may_fail ?d"
    by (simp_all add: example_replace_def dir_may_fail_def)
  have "rr = Inr (marker_image (replicate 16 7))" and u: "dir_unchanged ?d d3"
    using on_file_read [OF rd h(1)] h by (simp_all add: INT64_MAX_def file_read_def slice_0_prefix)
  have "dir_unchanged ?d (close_ignored 0 d3)"
    using u close_ignored_unchanged dir_unchanged_inode [OF u h(1)] by (meson dir_unchanged_trans)
  then have s: "d_script (close_ignored 0 d3) = []" "d_names (close_ignored 0 d3) ''db.replace'' = Some 0"
    by (simp_all add: dir_unchanged_def example_replace_def)
  have "\<exists>d'. dbind (sdb_file_remove ''db.replace'' True) (\<lambda>_. sdb_file_sync_parent_directory (\<lambda>_. True) ''db'') (close_ignored 0 d3)
      = (Inr (), d')"
    using s by (simp add: dbind_def sdb_file_remove_def sdb_file_sync_parent_directory_def healthy_dir_call Let_def)
  then show ?thesis
    using rm op rd \<open>rr = _\<close> marker_decode_image [of "replicate 16 7"]
    by (simp add: sdb_replace_recover_def sdb_replace_path_def SIZE_MAX_def replace_consts Let_def)
qed

theorem replace_recover_decides_witness:
  "\<exists>d'. sdb_replace_recover (\<lambda>_. True) ''db'' (replicate 16 9) (example_replace []) = (Inr (), d')
    \<and> \<not> may_survive d' ''db.replace'' \<and> d_names d' ''db.wal'' = Some 1"
proof -
  obtain d' where run: "sdb_replace_recover (\<lambda>_. True) ''db'' (replicate 16 9) (example_replace []) = (Inr (), d')"
    using example_replace_recovers by blast
  have "marker_at (example_replace []) ''db'' (replicate 16 7)" "length (replicate 16 (7 :: byte)) = 16"
      "\<not> dir_may_fail (example_replace [])"
    by (simp_all add: marker_at_def must_survive_def example_replace_def dir_may_fail_def)
  from replace_recover_decides [OF run this] run show ?thesis
    by (simp add: example_replace_def)
qed

text \<open>
  C40: a marker that cannot be read is taken for one that names no database. When the
  read of the marker fails, recovery removes the marker and returns success while
  the log stays in place, even if the marker named the database that is now there: the
  order that finishing a replacement keeps is lost on this path.
\<close>
theorem unreadable_marker_strands_log:
  assumes "d_names d (path @ ''.replace'') = Some h" "h < length (d_inodes d)"
    and "d_names d (path @ ''.replace.tmp'') = None" "d_script d = [OS_Ok 0, OS_Ok 0, OS_Fail]"
    and "path \<noteq> []" "last path \<noteq> CHR ''/''" "length path \<le> 2 ^ 32"
  shows "\<exists>d'. sdb_replace_recover (\<lambda>_. True) path current d = (Inr (), d')
    \<and> \<not> may_survive d' (path @ ''.replace'') \<and> d_names d' (path @ ''.wal'') = d_names d (path @ ''.wal'')"
  using assms by (rule recover_unreadable)

theorem unreadable_marker_strands_log_witness:
  "\<exists>d'. sdb_replace_recover (\<lambda>_. True) ''db'' (replicate 16 7) (example_replace [OS_Ok 0, OS_Ok 0, OS_Fail]) = (Inr (), d')
    \<and> \<not> may_survive d' ''db.replace'' \<and> d_names d' ''db.wal'' = Some 1"
  using unreadable_marker_strands_log [of "example_replace [OS_Ok 0, OS_Ok 0, OS_Fail]" "''db''" 0 "replicate 16 7"]
  by (simp add: example_replace_def)

end
