(* ===== verification/Wal_Index.thy ===== *)
theory Wal_Index
  imports Probing
begin

text \<open>
  The in-memory index of \<open>src/wal_index.c\<close> from page ids to log offsets: open
  addressing with linear probing in a table of 16 slots that doubles when it is
  half full. Probing loops that have no bound in the source are partial functions
  whose value \<open>None\<close> is a loop that never ends; on every index the operations
  build they are proved to end, and the index to be a finite map.
\<close>

section \<open>Model\<close>

record sdb_wal_index_slot =
  wi_page_id :: u64
  wi_wal_offset :: u64

record sdb_wal_index =
  wi_slots :: "sdb_wal_index_slot list option"
  wi_capacity :: nat
  wi_size :: nat

definition SDB_WAL_INDEX_HASH_MUL :: u64 where
  "SDB_WAL_INDEX_HASH_MUL = 11400714819323198485"

definition SDB_WAL_INDEX_INITIAL_CAPACITY :: nat where
  "SDB_WAL_INDEX_INITIAL_CAPACITY = 16"

definition sizeof_wal_index_slot :: nat where
  "sizeof_wal_index_slot = 16"

definition empty_wal_index_slot :: sdb_wal_index_slot where
  "empty_wal_index_slot = \<lparr>wi_page_id = 0, wi_wal_offset = 0\<rparr>"

definition wal_index_home :: "nat \<Rightarrow> u64 \<Rightarrow> nat" where
  "wal_index_home capacity page_id =
    unat ((page_id * SDB_WAL_INDEX_HASH_MUL) AND of_nat (capacity - 1))"

partial_function (option) wal_index_probe ::
  "sdb_wal_index_slot list \<Rightarrow> nat \<Rightarrow> u64 \<Rightarrow> nat \<Rightarrow> nat option" where
  "wal_index_probe slots capacity page_id index =
    (if wi_page_id (slots ! index) \<noteq> 0 \<and> wi_page_id (slots ! index) \<noteq> page_id
     then wal_index_probe slots capacity page_id ((index + 1) AND (capacity - 1))
     else Some index)"

definition sdb_wal_index_slot_for :: "sdb_wal_index_slot list \<Rightarrow> nat \<Rightarrow> u64 \<Rightarrow> nat option" where
  "sdb_wal_index_slot_for slots capacity page_id =
    wal_index_probe slots capacity page_id (wal_index_home capacity page_id)"

fun wal_index_rehash ::
  "sdb_wal_index_slot list \<Rightarrow> sdb_wal_index_slot list \<Rightarrow> nat \<Rightarrow> sdb_wal_index_slot list option" where
  "wal_index_rehash [] new_slots new_capacity = Some new_slots"
| "wal_index_rehash (s # ss) new_slots new_capacity =
    (if wi_page_id s = 0 then wal_index_rehash ss new_slots new_capacity
     else case sdb_wal_index_slot_for new_slots new_capacity (wi_page_id s) of
       None \<Rightarrow> None
     | Some target \<Rightarrow>
         wal_index_rehash ss
           (new_slots[target := \<lparr>wi_page_id = wi_page_id s, wi_wal_offset = wi_wal_offset s\<rparr>]) new_capacity)"

definition sdb_wal_index_grow :: "(nat \<Rightarrow> bool) \<Rightarrow> sdb_wal_index \<Rightarrow> sdb_wal_index result option" where
  "sdb_wal_index_grow malloc_ok ix =
    (if wi_capacity ix > SIZE_MAX div 2 then Some (Inl SDB_E_OUT_OF_MEMORY)
     else let new_capacity = wi_capacity ix * 2
     in if new_capacity > SIZE_MAX div sizeof_wal_index_slot then Some (Inl SDB_E_OUT_OF_MEMORY)
     else if \<not> malloc_ok (new_capacity * sizeof_wal_index_slot) then Some (Inl SDB_E_OUT_OF_MEMORY)
     else case wal_index_rehash (the (wi_slots ix)) (replicate new_capacity empty_wal_index_slot) new_capacity of
       None \<Rightarrow> None
     | Some new_slots \<Rightarrow> Some (Inr (ix\<lparr>wi_slots := Some new_slots, wi_capacity := new_capacity\<rparr>)))"

definition sdb_wal_index_init :: "(nat \<Rightarrow> bool) \<Rightarrow> sdb_wal_index result" where
  "sdb_wal_index_init malloc_ok =
    (if \<not> malloc_ok (SDB_WAL_INDEX_INITIAL_CAPACITY * sizeof_wal_index_slot) then Inl SDB_E_OUT_OF_MEMORY
     else Inr \<lparr>wi_slots = Some (replicate SDB_WAL_INDEX_INITIAL_CAPACITY empty_wal_index_slot),
               wi_capacity = SDB_WAL_INDEX_INITIAL_CAPACITY, wi_size = 0\<rparr>)"

definition sdb_wal_index_free :: "sdb_wal_index \<Rightarrow> sdb_wal_index" where
  "sdb_wal_index_free ix = \<lparr>wi_slots = None, wi_capacity = 0, wi_size = 0\<rparr>"

definition sdb_wal_index_put ::
  "(nat \<Rightarrow> bool) \<Rightarrow> sdb_wal_index \<Rightarrow> u64 \<Rightarrow> u64 \<Rightarrow> sdb_wal_index result option" where
  "sdb_wal_index_put malloc_ok ix page_id wal_offset =
    (if wi_slots ix = None \<or> page_id = 0 then Some (Inl SDB_E_INVALID_ARGUMENT)
     else case sdb_wal_index_slot_for (the (wi_slots ix)) (wi_capacity ix) page_id of
       None \<Rightarrow> None
     | Some index \<Rightarrow>
         (if wi_page_id (the (wi_slots ix) ! index) = page_id
          then Some (Inr (ix\<lparr>wi_slots := Some ((the (wi_slots ix))
                 [index := (the (wi_slots ix) ! index)\<lparr>wi_wal_offset := wal_offset\<rparr>])\<rparr>))
          else let store = (\<lambda>ix index.
                 ix\<lparr>wi_slots := Some ((the (wi_slots ix))
                      [index := \<lparr>wi_page_id = page_id, wi_wal_offset = wal_offset\<rparr>]),
                    wi_size := wi_size ix + 1\<rparr>)
          in if wi_size ix * 2 \<ge> wi_capacity ix
             then (case sdb_wal_index_grow malloc_ok ix of
                 None \<Rightarrow> None
               | Some (Inl e) \<Rightarrow> Some (Inl e)
               | Some (Inr ix') \<Rightarrow>
                   (case sdb_wal_index_slot_for (the (wi_slots ix')) (wi_capacity ix') page_id of
                     None \<Rightarrow> None
                   | Some index' \<Rightarrow> Some (Inr (store ix' index'))))
             else Some (Inr (store ix index))))"

fun wal_index_find :: "sdb_wal_index_slot list \<Rightarrow> nat \<Rightarrow> u64 \<Rightarrow> nat \<Rightarrow> nat \<Rightarrow> nat option" where
  "wal_index_find slots msk page_id index 0 = None"
| "wal_index_find slots msk page_id index (Suc probes) =
    (let slot_id = wi_page_id (slots ! index)
     in if slot_id = 0 then None
        else if slot_id = page_id then Some index
        else wal_index_find slots msk page_id ((index + 1) AND msk) probes)"

definition sdb_wal_index_get :: "sdb_wal_index \<Rightarrow> u64 \<Rightarrow> u64 option" where
  "sdb_wal_index_get ix page_id =
    (case wi_slots ix of
      None \<Rightarrow> None
    | Some slots \<Rightarrow>
        (if page_id = 0 then None
         else map_option (\<lambda>index. wi_wal_offset (slots ! index))
           (wal_index_find slots (wi_capacity ix - 1) page_id (wal_index_home (wi_capacity ix) page_id)
             (wi_capacity ix))))"

definition sdb_wal_index_clear :: "sdb_wal_index \<Rightarrow> sdb_wal_index" where
  "sdb_wal_index_clear ix =
    (case wi_slots ix of
      None \<Rightarrow> ix
    | Some slots \<Rightarrow> ix\<lparr>wi_slots := Some (replicate (wi_capacity ix) empty_wal_index_slot), wi_size := 0\<rparr>)"

section \<open>The probing contracts\<close>

interpretation wi_scan: forward_scan "\<lambda>s k. wi_page_id s = 0 \<or> wi_page_id s = k"
  "\<lambda>slots k i. wal_index_probe slots (length slots) k i"
proof unfold_locales
  fix slots :: "sdb_wal_index_slot list" and i k
  assume "pow2 (length slots)" "i < length slots"
  then show "wal_index_probe slots (length slots) k i =
      (if wi_page_id (slots ! i) = 0 \<or> wi_page_id (slots ! i) = k then Some i
       else wal_index_probe slots (length slots) k (nxt (length slots) i))"
    by (subst wal_index_probe.simps) (simp only: nxt_and_mask, simp)
qed

interpretation wi_find: bounded_lookup wi_page_id
  "\<lambda>slots k i m. wal_index_find slots (length slots - 1) k i m"
  by unfold_locales (simp_all add: Let_def nxt_and_mask_Suc)

lemma wal_index_home_less: "0 < n \<Longrightarrow> n \<le> 2 ^ 64 \<Longrightarrow> wal_index_home n k < n"
  unfolding wal_index_home_def by (rule u64_and_mask_less)

text \<open>A table of slots in which every stored id can be found, and what it holds.\<close>

definition table_ok :: "sdb_wal_index_slot list \<Rightarrow> bool" where
  "table_ok slots \<longleftrightarrow> probing_inv (wal_index_home (length slots)) (map wi_page_id slots)"

definition table_slots :: "sdb_wal_index_slot list \<Rightarrow> sdb_wal_index_slot set" where
  "table_slots slots = {s \<in> set slots. wi_page_id s \<noteq> 0}"

lemma slot_for_spec:
  assumes "table_ok slots" "k \<noteq> 0"
  obtains r where "r < length slots" "sdb_wal_index_slot_for slots (length slots) k = Some r"
    "wi_page_id (slots ! r) = k \<or> wi_page_id (slots ! r) = 0 \<and> k \<notin> wi_page_id ` set slots"
    "\<And>q. q < length slots \<Longrightarrow>
      cdist (length slots) (wal_index_home (length slots) k) q < cdist (length slots) (wal_index_home (length slots) k) r \<Longrightarrow>
      wi_page_id (slots ! q) \<noteq> 0"
proof -
  let ?n = "length slots" and ?h = "wal_index_home (length slots) k"
  have inv: "probing_inv (wal_index_home ?n) (map wi_page_id slots)"
    using assms(1) by (simp add: table_ok_def)
  then have p: "pow2 ?n" and h: "?h < ?n"
    by (simp_all add: probing_inv_def)
  obtain e where "e < ?n" "wi_page_id (slots ! e) = 0"
    using probing_free_slot [OF inv] by auto
  then obtain r where r: "r < ?n" "wal_index_probe slots ?n k ?h = Some r"
      "wi_page_id (slots ! r) = 0 \<or> wi_page_id (slots ! r) = k"
    and path: "\<And>q. q < ?n \<Longrightarrow> cdist ?n ?h q < cdist ?n ?h r \<Longrightarrow>
      wi_page_id (slots ! q) \<noteq> 0 \<and> wi_page_id (slots ! q) \<noteq> k"
    using wi_scan.scan_returns [OF p _ _ h, of e k] by auto
  have "k \<notin> wi_page_id ` set slots" if z: "wi_page_id (slots ! r) = 0"
  proof
    assume "k \<in> wi_page_id ` set slots"
    then obtain i where i: "i < ?n" "wi_page_id (slots ! i) = k"
      by (auto simp: in_set_conv_nth)
    have "cdist ?n ?h i \<noteq> cdist ?n ?h r"
      using cdist_inj [OF h i(1) r(1)] z i assms(2) by auto
    moreover have "\<not> cdist ?n ?h i < cdist ?n ?h r"
      using path [OF i(1)] i(2) by auto
    moreover have "\<not> cdist ?n ?h r < cdist ?n ?h i"
      using probing_reach [OF inv, of i k r] i r z assms(2) by auto
    ultimately show False
      by simp
  qed
  then show ?thesis
    using that [of r] r path by (auto simp: sdb_wal_index_slot_for_def)
qed

lemma table_insert:
  assumes ok: "table_ok slots" and k: "wi_page_id s \<noteq> 0" "wi_page_id s \<notin> wi_page_id ` set slots"
    and r: "r < length slots" "wi_page_id (slots ! r) = 0"
    and path: "\<And>q. q < length slots \<Longrightarrow>
      cdist (length slots) (wal_index_home (length slots) (wi_page_id s)) q
        < cdist (length slots) (wal_index_home (length slots) (wi_page_id s)) r \<Longrightarrow>
      wi_page_id (slots ! q) \<noteq> 0"
    and room: "Suc (occupied (map wi_page_id slots)) < length slots"
  shows "table_ok (slots[r := s]) \<and> table_slots (slots[r := s]) = insert s (table_slots slots) \<and>
    occupied (map wi_page_id (slots[r := s])) = Suc (occupied (map wi_page_id slots))"
proof (intro conjI)
  show "table_ok (slots[r := s])"
    unfolding table_ok_def map_update length_list_update
    using ok k r room by (intro probing_inv_insert) (auto simp: table_ok_def path)
  show "occupied (map wi_page_id (slots[r := s])) = Suc (occupied (map wi_page_id slots))"
    using k r by (simp add: map_update occupied_insert)
  show "table_slots (slots[r := s]) = insert s (table_slots slots)"
    using r k by (auto simp: table_slots_def in_set_conv_nth nth_list_update split: if_splits)
qed


section \<open>The index is a finite map\<close>

definition wal_index_inv :: "sdb_wal_index \<Rightarrow> bool" where
  "wal_index_inv ix \<longleftrightarrow>
    (\<exists>slots. wi_slots ix = Some slots \<and> length slots = wi_capacity ix \<and> table_ok slots \<and>
      2 \<le> wi_capacity ix \<and> wi_capacity ix \<le> 2 ^ 60 \<and>
      occupied (map wi_page_id slots) = wi_size ix \<and> wi_size ix * 2 \<le> wi_capacity ix)"

lemma get_iff:
  assumes "wal_index_inv ix"
  shows "sdb_wal_index_get ix k = Some v \<longleftrightarrow>
    (\<exists>s \<in> table_slots (the (wi_slots ix)). wi_page_id s = k \<and> wi_wal_offset s = v)"
proof (cases "k = 0")
  case False
  obtain slots where s: "wi_slots ix = Some slots" "length slots = wi_capacity ix" "table_ok slots"
    using assms by (auto simp: wal_index_inv_def)
  have "wal_index_find slots (length slots - 1) k (wal_index_home (length slots) k) (length slots) = Some r
      \<longleftrightarrow> r < length slots \<and> wi_page_id (slots ! r) = k" for r
    using wi_find.find_iff [of "wal_index_home (length slots)" slots k r] s(3) False by (simp add: table_ok_def)
  then show ?thesis
    using s False by (auto simp: sdb_wal_index_get_def table_slots_def in_set_conv_nth)
qed (use assms in \<open>auto simp: sdb_wal_index_get_def table_slots_def wal_index_inv_def\<close>)

lemma get_None_iff:
  assumes "wal_index_inv ix"
  shows "sdb_wal_index_get ix k = None \<longleftrightarrow> k \<notin> wi_page_id ` table_slots (the (wi_slots ix))"
proof (cases "sdb_wal_index_get ix k")
  case None
  then show ?thesis
    using get_iff [OF assms, of k] by fastforce
next
  case (Some v)
  then show ?thesis
    using get_iff [OF assms, of k v] by auto
qed

lemma table_unique:
  assumes "table_ok slots" "s \<in> table_slots slots" "t \<in> table_slots slots" "wi_page_id s = wi_page_id t"
  shows "s = t"
proof -
  have "unique_ids (map wi_page_id slots)"
    using assms(1) by (simp add: table_ok_def probing_inv_def)
  then show ?thesis
    using assms(2-4) unique_idsD [of "map wi_page_id slots"]
    by (auto simp: table_slots_def in_set_conv_nth)
qed

lemma table_ok_empty:
  assumes "pow2 n" "n \<le> 2 ^ 64"
  shows "table_ok (replicate n empty_wal_index_slot)"
  using assms probing_inv_empty [of n "wal_index_home n"] wal_index_home_less [of n] pow2_pos [of n]
  by (simp add: table_ok_def empty_wal_index_slot_def)

lemma disjoint_subset: "B \<subseteq> insert x C \<Longrightarrow> x \<notin> A \<Longrightarrow> A \<inter> C = {} \<Longrightarrow> A \<inter> B = {}"
  by blast

lemma rehash_spec:
  assumes "table_ok new" "distinct (map wi_page_id (filter (\<lambda>s. wi_page_id s \<noteq> 0) ss))"
    and "wi_page_id ` table_slots ss \<inter> wi_page_id ` set new = {}"
    and "occupied (map wi_page_id new) + occupied (map wi_page_id ss) < length new"
  shows "\<exists>new'. wal_index_rehash ss new (length new) = Some new' \<and> length new' = length new \<and>
    table_ok new' \<and> table_slots new' = table_slots new \<union> table_slots ss \<and>
    occupied (map wi_page_id new') = occupied (map wi_page_id new) + occupied (map wi_page_id ss)"
  using assms
proof (induction ss arbitrary: new)
  case Nil
  then show ?case by (simp add: table_slots_def occupied_def)
next
  case (Cons s ss)
  show ?case
  proof (cases "wi_page_id s = 0")
    case True
    then have "table_slots (s # ss) = table_slots ss" "occupied (map wi_page_id (s # ss)) = occupied (map wi_page_id ss)"
      by (auto simp: table_slots_def occupied_def)
    with Cons True show ?thesis
      by simp
  next
    case False
    let ?s = "\<lparr>wi_page_id = wi_page_id s, wi_wal_offset = wi_wal_offset s\<rparr>"
    have s: "?s = s" and ts: "table_slots (s # ss) = insert s (table_slots ss)"
      and oc: "occupied (map wi_page_id (s # ss)) = Suc (occupied (map wi_page_id ss))"
      using False by (auto simp: table_slots_def occupied_def)
    have fresh: "wi_page_id s \<notin> wi_page_id ` set new"
      using Cons.prems(3) by (auto simp: ts)
    obtain r where r: "r < length new" "sdb_wal_index_slot_for new (length new) (wi_page_id s) = Some r"
        "wi_page_id (new ! r) = 0"
      and path: "\<And>q. q < length new \<Longrightarrow>
        cdist (length new) (wal_index_home (length new) (wi_page_id s)) q
          < cdist (length new) (wal_index_home (length new) (wi_page_id s)) r \<Longrightarrow> wi_page_id (new ! q) \<noteq> 0"
    proof (rule slot_for_spec [OF Cons.prems(1) False])
      fix r assume "r < length new" "sdb_wal_index_slot_for new (length new) (wi_page_id s) = Some r"
        and hit: "wi_page_id (new ! r) = wi_page_id s \<or> wi_page_id (new ! r) = 0 \<and> wi_page_id s \<notin> wi_page_id ` set new"
        and "\<And>q. q < length new \<Longrightarrow>
          cdist (length new) (wal_index_home (length new) (wi_page_id s)) q
            < cdist (length new) (wal_index_home (length new) (wi_page_id s)) r \<Longrightarrow> wi_page_id (new ! q) \<noteq> 0"
      moreover from hit have "wi_page_id (new ! r) = 0"
        using fresh \<open>r < length new\<close> by (metis image_eqI nth_mem)
      ultimately show thesis
        using that by blast
    qed
    let ?new = "new[r := s]"
    have ins: "table_ok ?new \<and> table_slots ?new = insert s (table_slots new) \<and>
        occupied (map wi_page_id ?new) = Suc (occupied (map wi_page_id new))"
      using Cons.prems(1,4) False fresh r(1,3) path oc by (intro table_insert) simp_all
    have ids: "wi_page_id ` set ?new \<subseteq> insert (wi_page_id s) (wi_page_id ` set new)"
      using set_update_subset_insert [of new r s] by auto
    have "wi_page_id s \<notin> wi_page_id ` table_slots ss"
      using Cons.prems(2) False by (auto simp: table_slots_def)
    moreover have "wi_page_id ` table_slots ss \<inter> wi_page_id ` set new = {}"
      using Cons.prems(3) by (simp add: ts)
    ultimately have "wi_page_id ` table_slots ss \<inter> wi_page_id ` set ?new = {}"
      using disjoint_subset [OF ids] by simp
    moreover have "distinct (map wi_page_id (filter (\<lambda>s. wi_page_id s \<noteq> 0) ss))"
      using Cons.prems(2) False by simp
    moreover have "occupied (map wi_page_id ?new) + occupied (map wi_page_id ss) < length ?new"
      using ins Cons.prems(4) oc by simp
    ultimately obtain new' where "wal_index_rehash ss ?new (length ?new) = Some new'" "length new' = length ?new"
        "table_ok new'" "table_slots new' = table_slots ?new \<union> table_slots ss"
        "occupied (map wi_page_id new') = occupied (map wi_page_id ?new) + occupied (map wi_page_id ss)"
      using Cons.IH [of ?new] ins by blast
    then show ?thesis
      using False r(2) ins oc ts by (intro exI [of _ new']) (simp add: s)
  qed
qed

lemma pow2_double: "pow2 n \<Longrightarrow> pow2 (n * 2)"
  unfolding pow2_def by (metis power_Suc2)

lemma grow_spec:
  assumes inv: "wal_index_inv ix"
  shows "(\<exists>ix'. sdb_wal_index_grow malloc_ok ix = Some (Inr ix') \<and> wal_index_inv ix' \<and>
      wi_capacity ix' = wi_capacity ix * 2 \<and> wi_size ix' = wi_size ix \<and>
      table_slots (the (wi_slots ix')) = table_slots (the (wi_slots ix)))
    \<or> sdb_wal_index_grow malloc_ok ix = Some (Inl SDB_E_OUT_OF_MEMORY) \<and>
      (wi_capacity ix * 2 > SIZE_MAX div 16 \<or> \<not> malloc_ok (wi_capacity ix * 32))"
proof -
  obtain slots where s: "wi_slots ix = Some slots" "length slots = wi_capacity ix" "table_ok slots"
      "2 \<le> wi_capacity ix" "occupied (map wi_page_id slots) = wi_size ix" "wi_size ix * 2 \<le> wi_capacity ix"
    using inv by (auto simp: wal_index_inv_def)
  let ?n = "wi_capacity ix * 2"
  show ?thesis
  proof (cases "wi_capacity ix > SIZE_MAX div 2 \<or> ?n > SIZE_MAX div 16 \<or> \<not> malloc_ok (?n * 16)")
    case True
    then show ?thesis
      by (auto simp: sdb_wal_index_grow_def sizeof_wal_index_slot_def Let_def SIZE_MAX_def mult.assoc)
  next
    case False
    let ?new = "replicate ?n empty_wal_index_slot"
    have n: "pow2 ?n" "?n \<le> 2 ^ 60"
      using s(2,3) False by (auto simp: table_ok_def probing_inv_def SIZE_MAX_def intro: pow2_double)
    then have new: "table_ok ?new"
      by (intro table_ok_empty) simp_all
    have "distinct (map wi_page_id (filter (\<lambda>s. wi_page_id s \<noteq> 0) slots))"
      using distinct_table_ids [of "map wi_page_id slots"] s(3)
      by (simp add: table_ok_def probing_inv_def filter_map o_def)
    moreover have "wi_page_id ` table_slots slots \<inter> wi_page_id ` set ?new = {}"
      by (auto simp: table_slots_def empty_wal_index_slot_def)
    moreover have e: "occupied (map wi_page_id ?new) = 0" "table_slots ?new = {}"
      by (auto simp: occupied_def table_slots_def empty_wal_index_slot_def)
    moreover have "wi_size ix < ?n"
      using s(4,6) by simp
    ultimately obtain new' where
      "wal_index_rehash slots ?new ?n = Some new'" "length new' = ?n" "table_ok new'"
      "table_slots new' = table_slots slots" "occupied (map wi_page_id new') = wi_size ix"
      using rehash_spec [OF new, of slots] s(5) by auto
    then show ?thesis
      using s n False
      by (auto simp: sdb_wal_index_grow_def sizeof_wal_index_slot_def Let_def wal_index_inv_def)
  qed
qed

lemma get_after_update:
  assumes "wal_index_inv ix" "wal_index_inv ix'"
    and "table_slots (the (wi_slots ix')) =
      insert \<lparr>wi_page_id = k, wi_wal_offset = v\<rparr> {s \<in> table_slots (the (wi_slots ix)). wi_page_id s \<noteq> k}"
  shows "sdb_wal_index_get ix' = (sdb_wal_index_get ix)(k \<mapsto> v)"
proof (rule ext)
  fix k'
  have "sdb_wal_index_get ix' k' = Some w \<longleftrightarrow> ((sdb_wal_index_get ix)(k \<mapsto> v)) k' = Some w" for w
    using get_iff [OF assms(1), of k' w] get_iff [OF assms(2), of k' w] unfolding assms(3) by auto
  then show "sdb_wal_index_get ix' k' = ((sdb_wal_index_get ix)(k \<mapsto> v)) k'"
    by (metis option.exhaust)
qed

lemma store_spec:
  assumes inv: "wal_index_inv ix" and k: "k \<noteq> 0" "k \<notin> wi_page_id ` table_slots (the (wi_slots ix))"
    and room: "wi_size ix * 2 < wi_capacity ix"
  shows "\<exists>r. sdb_wal_index_slot_for (the (wi_slots ix)) (wi_capacity ix) k = Some r \<and>
    wi_page_id (the (wi_slots ix) ! r) \<noteq> k \<and>
    wal_index_inv (ix\<lparr>wi_slots := Some ((the (wi_slots ix))[r := \<lparr>wi_page_id = k, wi_wal_offset = v\<rparr>]),
                   wi_size := wi_size ix + 1\<rparr>) \<and>
    table_slots ((the (wi_slots ix))[r := \<lparr>wi_page_id = k, wi_wal_offset = v\<rparr>]) =
      insert \<lparr>wi_page_id = k, wi_wal_offset = v\<rparr> (table_slots (the (wi_slots ix)))"
proof -
  obtain slots where s: "wi_slots ix = Some slots" "length slots = wi_capacity ix" "table_ok slots"
      "2 \<le> wi_capacity ix" "wi_capacity ix \<le> 2 ^ 60" "occupied (map wi_page_id slots) = wi_size ix"
    using inv by (auto simp: wal_index_inv_def)
  let ?s = "\<lparr>wi_page_id = k, wi_wal_offset = v\<rparr>"
  have fresh: "k \<notin> wi_page_id ` set slots"
    using k s(1) by (auto simp: table_slots_def)
  obtain m where "length slots = 2 ^ m"
    using s(3) by (auto simp: table_ok_def probing_inv_def pow2_def)
  then have "even (wi_capacity ix)"
    using s(2,4) by (cases m) auto
  then have half: "Suc (wi_size ix) * 2 \<le> wi_capacity ix"
    using room by presburger
  show ?thesis
  proof (rule slot_for_spec [OF s(3) k(1)])
    fix r assume r: "r < length slots" "sdb_wal_index_slot_for slots (length slots) k = Some r"
      and hit: "wi_page_id (slots ! r) = k \<or> wi_page_id (slots ! r) = 0 \<and> k \<notin> wi_page_id ` set slots"
      and path: "\<And>q. q < length slots \<Longrightarrow>
        cdist (length slots) (wal_index_home (length slots) k) q
          < cdist (length slots) (wal_index_home (length slots) k) r \<Longrightarrow> wi_page_id (slots ! q) \<noteq> 0"
    have z: "wi_page_id (slots ! r) = 0"
      using hit fresh r(1) by (metis image_eqI nth_mem)
    have room': "Suc (occupied (map wi_page_id slots)) < length slots"
      using half s(2,6) by simp
    have "table_ok (slots[r := ?s]) \<and> table_slots (slots[r := ?s]) = insert ?s (table_slots slots) \<and>
        occupied (map wi_page_id (slots[r := ?s])) = Suc (occupied (map wi_page_id slots))"
      using table_insert [OF s(3), of ?s r] k(1) fresh r(1) z path room' by simp
    then show ?thesis
      using s r z k(1) half by (intro exI [of _ r]) (simp add: wal_index_inv_def)
  qed
qed

lemma update_spec:
  assumes inv: "wal_index_inv ix" and k: "k \<noteq> 0" "k \<in> wi_page_id ` table_slots (the (wi_slots ix))"
  shows "\<exists>r. sdb_wal_index_slot_for (the (wi_slots ix)) (wi_capacity ix) k = Some r \<and>
    wi_page_id (the (wi_slots ix) ! r) = k \<and>
    wal_index_inv (ix\<lparr>wi_slots := Some ((the (wi_slots ix))
      [r := (the (wi_slots ix) ! r)\<lparr>wi_wal_offset := v\<rparr>])\<rparr>) \<and>
    table_slots ((the (wi_slots ix))[r := (the (wi_slots ix) ! r)\<lparr>wi_wal_offset := v\<rparr>]) =
      insert \<lparr>wi_page_id = k, wi_wal_offset = v\<rparr> {s \<in> table_slots (the (wi_slots ix)). wi_page_id s \<noteq> k}"
proof -
  obtain slots where s: "wi_slots ix = Some slots" "length slots = wi_capacity ix" "table_ok slots"
      "2 \<le> wi_capacity ix" "wi_capacity ix \<le> 2 ^ 60" "occupied (map wi_page_id slots) = wi_size ix"
      "wi_size ix * 2 \<le> wi_capacity ix"
    using inv by (auto simp: wal_index_inv_def)
  have mem: "k \<in> wi_page_id ` set slots"
    using k s(1) by (auto simp: table_slots_def)
  show ?thesis
  proof (rule slot_for_spec [OF s(3) k(1)])
    fix r assume r: "r < length slots" "sdb_wal_index_slot_for slots (length slots) k = Some r"
      and hit: "wi_page_id (slots ! r) = k \<or> wi_page_id (slots ! r) = 0 \<and> k \<notin> wi_page_id ` set slots"
    let ?s = "(slots ! r)\<lparr>wi_wal_offset := v\<rparr>"
    have rk: "wi_page_id (slots ! r) = k"
      using hit mem by blast
    then have ids: "map wi_page_id (slots[r := ?s]) = map wi_page_id slots"
      using r(1) by (simp add: map_update list_update_same_conv)
    have es: "?s = \<lparr>wi_page_id = k, wi_wal_offset = v\<rparr>"
      using rk by (cases "slots ! r") simp
    have only: "q = r" if "q < length slots" "wi_page_id (slots ! q) = k" for q
      using unique_idsD [of "map wi_page_id slots" q r] s(3) that r(1) rk k(1)
      by (simp add: table_ok_def probing_inv_def)
    have "table_slots (slots[r := ?s]) = insert ?s {s \<in> table_slots slots. wi_page_id s \<noteq> k}"
    proof (intro set_eqI iffI)
      fix t assume "t \<in> table_slots (slots[r := ?s])"
      then obtain q where q: "q < length slots" "t = slots[r := ?s] ! q" "wi_page_id t \<noteq> 0"
        by (auto simp: table_slots_def in_set_conv_nth)
      show "t \<in> insert ?s {s \<in> table_slots slots. wi_page_id s \<noteq> k}"
      proof (cases "q = r")
        case False
        then have "t = slots ! q" "wi_page_id t \<noteq> k"
          using q only [of q] by auto
        then show ?thesis
          using q nth_mem [of q slots] by (simp add: table_slots_def)
      qed (use q r(1) in simp)
    next
      fix t assume "t \<in> insert ?s {s \<in> table_slots slots. wi_page_id s \<noteq> k}"
      then consider "t = ?s" | "t \<in> set slots" "wi_page_id t \<noteq> k" "wi_page_id t \<noteq> 0"
        by (auto simp: table_slots_def)
      then show "t \<in> table_slots (slots[r := ?s])"
      proof cases
        case 1
        then show ?thesis
          using r(1) rk k(1) by (simp add: table_slots_def set_update_memI)
      next
        case 2
        then obtain q where "q < length slots" "t = slots ! q" "q \<noteq> r"
          using rk by (metis in_set_conv_nth)
        then show ?thesis
          using nth_mem [of q "slots[r := ?s]"] 2 by (simp add: table_slots_def)
      qed
    qed
    then show ?thesis
      using s r rk ids unfolding es by (intro exI [of _ r]) (simp add: wal_index_inv_def table_ok_def es)
  qed
qed

lemma put_spec:
  assumes inv: "wal_index_inv ix" and k: "k \<noteq> 0"
  shows "(\<exists>ix'. sdb_wal_index_put malloc_ok ix k v = Some (Inr ix') \<and> wal_index_inv ix' \<and>
      sdb_wal_index_get ix' = (sdb_wal_index_get ix)(k \<mapsto> v))
    \<or> sdb_wal_index_put malloc_ok ix k v = Some (Inl SDB_E_OUT_OF_MEMORY) \<and>
      sdb_wal_index_get ix k = None \<and> wi_size ix * 2 = wi_capacity ix \<and>
      (wi_capacity ix * 2 > SIZE_MAX div 16 \<or> \<not> malloc_ok (wi_capacity ix * 32))"
proof -
  have some: "wi_slots ix \<noteq> None"
    using inv by (auto simp: wal_index_inv_def)
  show ?thesis
  proof (cases "k \<in> wi_page_id ` table_slots (the (wi_slots ix))")
    case True
    from update_spec [OF inv k True, of v] obtain r where
      r: "sdb_wal_index_slot_for (the (wi_slots ix)) (wi_capacity ix) k = Some r"
        "wi_page_id (the (wi_slots ix) ! r) = k"
      and inv': "wal_index_inv (ix\<lparr>wi_slots := Some ((the (wi_slots ix))
          [r := (the (wi_slots ix) ! r)\<lparr>wi_wal_offset := v\<rparr>])\<rparr>)" (is "wal_index_inv ?ix")
      and ts: "table_slots ((the (wi_slots ix))[r := (the (wi_slots ix) ! r)\<lparr>wi_wal_offset := v\<rparr>]) =
        insert \<lparr>wi_page_id = k, wi_wal_offset = v\<rparr> {s \<in> table_slots (the (wi_slots ix)). wi_page_id s \<noteq> k}"
      by blast
    have "sdb_wal_index_put malloc_ok ix k v = Some (Inr ?ix)"
      using some k r by (simp add: sdb_wal_index_put_def)
    moreover have "sdb_wal_index_get ?ix = (sdb_wal_index_get ix)(k \<mapsto> v)"
      using get_after_update [OF inv inv'] ts by simp
    ultimately show ?thesis
      using inv' by blast
  next
    case fresh: False
    then have none: "sdb_wal_index_get ix k = None"
      by (simp add: get_None_iff [OF inv])
    have stored: "\<exists>r ix''. sdb_wal_index_slot_for (the (wi_slots ix')) (wi_capacity ix') k = Some r \<and>
        wi_page_id (the (wi_slots ix') ! r) \<noteq> k \<and>
        ix'\<lparr>wi_slots := Some ((the (wi_slots ix'))[r := \<lparr>wi_page_id = k, wi_wal_offset = v\<rparr>]),
            wi_size := wi_size ix' + 1\<rparr> = ix'' \<and> wal_index_inv ix'' \<and>
        sdb_wal_index_get ix'' = (sdb_wal_index_get ix)(k \<mapsto> v)"
      if inv': "wal_index_inv ix'" and same: "table_slots (the (wi_slots ix')) = table_slots (the (wi_slots ix))"
        and room: "wi_size ix' * 2 < wi_capacity ix'" for ix'
    proof -
      have "k \<notin> wi_page_id ` table_slots (the (wi_slots ix'))"
        using fresh same by simp
      from store_spec [OF inv' k this room, of v] obtain r where r:
        "sdb_wal_index_slot_for (the (wi_slots ix')) (wi_capacity ix') k = Some r"
        "wi_page_id (the (wi_slots ix') ! r) \<noteq> k"
        and inv'': "wal_index_inv (ix'\<lparr>wi_slots := Some ((the (wi_slots ix'))[r := \<lparr>wi_page_id = k, wi_wal_offset = v\<rparr>]),
            wi_size := wi_size ix' + 1\<rparr>)"
        and ts: "table_slots ((the (wi_slots ix'))[r := \<lparr>wi_page_id = k, wi_wal_offset = v\<rparr>]) =
            insert \<lparr>wi_page_id = k, wi_wal_offset = v\<rparr> (table_slots (the (wi_slots ix')))"
        by blast
      have "{s \<in> table_slots (the (wi_slots ix)). wi_page_id s \<noteq> k} = table_slots (the (wi_slots ix))"
        using fresh by auto
      then show ?thesis
        using r inv'' get_after_update [OF inv inv''] ts same by auto
    qed
    obtain index where idx: "sdb_wal_index_slot_for (the (wi_slots ix)) (wi_capacity ix) k = Some index"
        "wi_page_id (the (wi_slots ix) ! index) \<noteq> k"
    proof -
      obtain slots where s: "wi_slots ix = Some slots" "length slots = wi_capacity ix" "table_ok slots"
        using inv by (auto simp: wal_index_inv_def)
      have "k \<notin> wi_page_id ` set slots"
        using fresh k s(1) by (auto simp: table_slots_def)
      then show thesis
        using slot_for_spec [OF s(3) k] s that by (metis image_eqI nth_mem option.sel)
    qed
    show ?thesis
    proof (cases "wi_size ix * 2 < wi_capacity ix")
      case True
      then show ?thesis
        using stored [OF inv refl True] idx some k by (auto simp: sdb_wal_index_put_def Let_def)
    next
      case False
      then have full: "wi_size ix * 2 = wi_capacity ix"
        using inv by (auto simp: wal_index_inv_def)
      from grow_spec [OF inv, of malloc_ok] show ?thesis
      proof
        assume "\<exists>ix'. sdb_wal_index_grow malloc_ok ix = Some (Inr ix') \<and> wal_index_inv ix' \<and>
          wi_capacity ix' = wi_capacity ix * 2 \<and> wi_size ix' = wi_size ix \<and>
          table_slots (the (wi_slots ix')) = table_slots (the (wi_slots ix))"
        then obtain ix' where g: "sdb_wal_index_grow malloc_ok ix = Some (Inr ix')" "wal_index_inv ix'"
            "wi_capacity ix' = wi_capacity ix * 2" "wi_size ix' = wi_size ix"
            "table_slots (the (wi_slots ix')) = table_slots (the (wi_slots ix))"
          by blast
        have "wi_size ix' * 2 < wi_capacity ix'"
          using g(3,4) full inv by (auto simp: wal_index_inv_def)
        from stored [OF g(2,5) this] show ?thesis
          using g(1) idx some k full by (auto simp: sdb_wal_index_put_def Let_def)
      qed (use idx some k full none in \<open>simp add: sdb_wal_index_put_def\<close>)
    qed
  qed
qed

lemma init_inv:
  assumes "sdb_wal_index_init malloc_ok = Inr ix"
  shows "wal_index_inv ix \<and> sdb_wal_index_get ix = Map.empty"
proof -
  have "pow2 16"
    unfolding pow2_def by (rule exI [of _ 4]) simp
  then have "table_ok (replicate 16 empty_wal_index_slot)"
    by (intro table_ok_empty) simp_all
  then have inv: "wal_index_inv ix" and slots: "wi_slots ix = Some (replicate 16 empty_wal_index_slot)"
    using assms by (auto simp: sdb_wal_index_init_def wal_index_inv_def SDB_WAL_INDEX_INITIAL_CAPACITY_def
        occupied_def empty_wal_index_slot_def split: if_splits)
  have "sdb_wal_index_get ix k = None" for k
    using get_None_iff [OF inv] slots by (auto simp: table_slots_def empty_wal_index_slot_def)
  with inv show ?thesis
    by auto
qed

lemma clear_inv:
  assumes "wal_index_inv ix"
  shows "wal_index_inv (sdb_wal_index_clear ix) \<and> sdb_wal_index_get (sdb_wal_index_clear ix) = Map.empty"
proof -
  obtain slots where s: "wi_slots ix = Some slots" "length slots = wi_capacity ix" "table_ok slots"
      "2 \<le> wi_capacity ix" "wi_capacity ix \<le> 2 ^ 60"
    using assms by (auto simp: wal_index_inv_def)
  have "pow2 (wi_capacity ix)"
    using s(2,3) by (simp add: table_ok_def probing_inv_def)
  then have "table_ok (replicate (wi_capacity ix) empty_wal_index_slot)"
    using s(5) by (intro table_ok_empty) simp_all
  then have inv: "wal_index_inv (sdb_wal_index_clear ix)"
    using s by (simp add: sdb_wal_index_clear_def wal_index_inv_def occupied_def empty_wal_index_slot_def)
  have "sdb_wal_index_get (sdb_wal_index_clear ix) k = None" for k
    using get_None_iff [OF inv] s by (auto simp: sdb_wal_index_clear_def table_slots_def empty_wal_index_slot_def)
  with inv show ?thesis
    by auto
qed

section \<open>The contract the pager relies on\<close>

text \<open>
  An index from page ids to offsets: what every operation keeps, and what a
  lookup returns afterwards. Recording a batch of frames makes the newest offset
  of each page the one that is found.
\<close>

fun put_all :: "('m \<Rightarrow> u64 \<Rightarrow> u64 \<Rightarrow> 'm result option) \<Rightarrow> (u64 \<times> u64) list \<Rightarrow> 'm \<Rightarrow> 'm result option" where
  "put_all put [] m = Some (Inr m)"
| "put_all put ((k, v) # kvs) m =
    (case put m k v of
      None \<Rightarrow> None
    | Some (Inl e) \<Rightarrow> Some (Inl e)
    | Some (Inr m') \<Rightarrow> put_all put kvs m')"

locale offset_index =
  fixes inv :: "'m \<Rightarrow> bool"
    and get :: "'m \<Rightarrow> u64 \<Rightarrow> u64 option"
    and put :: "'m \<Rightarrow> u64 \<Rightarrow> u64 \<Rightarrow> 'm result option"
  assumes put_ends: "inv m \<Longrightarrow> put m k v \<noteq> None"
    and put_inv: "inv m \<Longrightarrow> put m k v = Some (Inr m') \<Longrightarrow> inv m'"
    and get_put: "inv m \<Longrightarrow> put m k v = Some (Inr m') \<Longrightarrow> get m' = (get m)(k \<mapsto> v)"
begin

lemma put_all_spec:
  "inv m \<Longrightarrow> put_all put kvs m \<noteq> None \<and>
    (put_all put kvs m = Some (Inr m') \<longrightarrow> inv m' \<and> get m' = get m ++ map_of (rev kvs))"
proof (induction kvs arbitrary: m)
  case (Cons kv kvs)
  obtain k v where kv: "kv = (k, v)"
    by (cases kv)
  show ?case
  proof (cases "put m k v")
    case (Some r)
    then show ?thesis
      using Cons kv put_inv [OF Cons.prems, of k v] get_put [OF Cons.prems, of k v]
      by (cases r) (auto simp: map_add_def fun_eq_iff split: option.splits)
  qed (use put_ends [OF Cons.prems] in simp)
qed auto

end

interpretation wi: offset_index wal_index_inv sdb_wal_index_get "sdb_wal_index_put malloc_ok" for malloc_ok
proof unfold_locales
  fix ix k v ix'
  assume inv: "wal_index_inv ix"
  have zero: "sdb_wal_index_put malloc_ok ix 0 v = Some (Inl SDB_E_INVALID_ARGUMENT)"
    by (simp add: sdb_wal_index_put_def)
  show "sdb_wal_index_put malloc_ok ix k v \<noteq> None"
    using put_spec [OF inv, of k malloc_ok v] zero by (cases "k = 0") auto
  assume "sdb_wal_index_put malloc_ok ix k v = Some (Inr ix')"
  then show "wal_index_inv ix'" "sdb_wal_index_get ix' = (sdb_wal_index_get ix)(k \<mapsto> v)"
    using put_spec [OF inv, of k malloc_ok v] zero by (cases "k = 0"; auto)+
qed

text \<open>The states an index goes through, each with the map it should be.\<close>

inductive wal_index_run :: "(nat \<Rightarrow> bool) \<Rightarrow> sdb_wal_index \<Rightarrow> (u64 \<Rightarrow> u64 option) \<Rightarrow> bool" for malloc_ok where
  run_init: "sdb_wal_index_init malloc_ok = Inr ix \<Longrightarrow> wal_index_run malloc_ok ix Map.empty"
| run_put: "wal_index_run malloc_ok ix m \<Longrightarrow> sdb_wal_index_put malloc_ok ix k v = Some (Inr ix') \<Longrightarrow>
    wal_index_run malloc_ok ix' (m(k \<mapsto> v))"
| run_clear: "wal_index_run malloc_ok ix m \<Longrightarrow> wal_index_run malloc_ok (sdb_wal_index_clear ix) Map.empty"

lemma run_inv: "wal_index_run malloc_ok ix m \<Longrightarrow> wal_index_inv ix \<and> sdb_wal_index_get ix = m"
proof (induction rule: wal_index_run.induct)
  case (run_put ix m k v ix')
  then show ?case
    using wi.put_inv [of ix malloc_ok k v ix'] wi.get_put [of ix malloc_ok k v ix'] by simp
qed (simp_all add: init_inv clear_inv)

section \<open>Properties\<close>

text \<open>
  C23: The log index implements a finite map. After any sequence of successful
  insertions and clears from initialisation, looking a page id up returns exactly
  what was last recorded for it; and the next insertion always ends: it records
  the offset, or it needed a larger table and reports that it could not be
  allocated, or the id was the reserved 0.
\<close>

theorem wal_index_refines_map:
  assumes "wal_index_run malloc_ok ix m"
  shows "sdb_wal_index_get ix = m \<and> wal_index_inv ix \<and>
    (case sdb_wal_index_put malloc_ok ix k v of
       None \<Rightarrow> False
     | Some (Inr ix') \<Rightarrow> k \<noteq> 0 \<and> sdb_wal_index_get ix' = m(k \<mapsto> v)
     | Some (Inl e) \<Rightarrow> (k = 0 \<and> e = SDB_E_INVALID_ARGUMENT) \<or>
         (m k = None \<and> e = SDB_E_OUT_OF_MEMORY \<and> wi_size ix * 2 = wi_capacity ix \<and>
           (wi_capacity ix * 2 > SIZE_MAX div 16 \<or> \<not> malloc_ok (wi_capacity ix * 32))))"
proof -
  have inv: "wal_index_inv ix" "sdb_wal_index_get ix = m"
    using run_inv [OF assms] by simp_all
  then show ?thesis
    using put_spec [OF inv(1), of k malloc_ok v]
    by (cases "k = 0") (auto simp: sdb_wal_index_put_def [of _ _ 0])
qed

lemma example_index:
  obtains ix where "wal_index_run (\<lambda>_. True) ix [5 \<mapsto> 4096]"
proof -
  obtain ix where ix: "sdb_wal_index_init (\<lambda>_. True) = Inr ix" "wi_size ix = 0" "wi_capacity ix = 16"
    by (simp add: sdb_wal_index_init_def SDB_WAL_INDEX_INITIAL_CAPACITY_def)
  then obtain ix' where "sdb_wal_index_put (\<lambda>_. True) ix 5 4096 = Some (Inr ix')"
    using put_spec [of ix 5 "\<lambda>_. True" 4096] init_inv [OF ix(1)] by auto
  then show thesis
    using that [of ix'] run_put [OF run_init [OF ix(1)]] by blast
qed

theorem wal_index_refines_map_witness:
  "\<exists>ix. wal_index_run (\<lambda>_. True) ix [5 \<mapsto> 4096] \<and> sdb_wal_index_get ix 5 = Some 4096 \<and>
    sdb_wal_index_get ix 6 = None"
proof (rule example_index)
  fix ix assume run: "wal_index_run (\<lambda>_. True) ix [5 \<mapsto> 4096]"
  then show ?thesis
    using wal_index_refines_map [OF run, of 7 1] by auto
qed

end
