(* ===== verification/Page_Cache.thy ===== *)
theory Page_Cache
  imports Probing
begin

text \<open>
  The clean-page cache of \<open>src/page_cache.c\<close>: a fixed number of frames, a table
  with linear probing from page ids to frames, a stack of free frames, and CLOCK
  second-chance eviction when no frame is free. Slots are deleted by backward
  shift. A cache whose \<open>slots\<close> pointer is \<open>NULL\<close> is one with an empty slot list.

  Loops without a bound in the source are partial functions (\<open>None\<close> is a loop
  that never ends); under the cache invariant they are proved to end.
\<close>

section \<open>Model\<close>

record sdb_page_cache_entry =
  pce_page_id :: u64
  pce_bytes :: bytes
  pce_valid :: bool
  pce_ref :: bool

record sdb_page_cache_slot =
  pcs_page_id :: u64
  pcs_entry_index :: nat

record sdb_page_cache =
  pc_entries :: "sdb_page_cache_entry list"
  pc_slots :: "sdb_page_cache_slot list"
  pc_free_list :: "nat list"
  pc_capacity :: nat
  pc_slot_capacity :: nat
  pc_slot_mask :: nat
  pc_free_count :: nat
  pc_clock_hand :: nat
  pc_page_size :: nat

definition SDB_PAGE_CACHE_HASH_MUL :: u64 where
  "SDB_PAGE_CACHE_HASH_MUL = 11400714819323198485"

definition sdb_page_cache_home :: "nat \<Rightarrow> u64 \<Rightarrow> nat" where
  "sdb_page_cache_home slot_mask page_id = unat ((page_id * SDB_PAGE_CACHE_HASH_MUL) AND of_nat slot_mask)"

fun page_cache_find :: "sdb_page_cache_slot list \<Rightarrow> nat \<Rightarrow> u64 \<Rightarrow> nat \<Rightarrow> nat \<Rightarrow> nat option" where
  "page_cache_find slots slot_mask page_id index 0 = None"
| "page_cache_find slots slot_mask page_id index (Suc probes) =
    (let slot_id = pcs_page_id (slots ! index)
     in if slot_id = 0 then None
        else if slot_id = page_id then Some index
        else page_cache_find slots slot_mask page_id ((index + 1) AND slot_mask) probes)"

definition sdb_page_cache_find_slot :: "sdb_page_cache \<Rightarrow> u64 \<Rightarrow> nat option" where
  "sdb_page_cache_find_slot cache page_id =
    page_cache_find (pc_slots cache) (pc_slot_mask cache) page_id
      (sdb_page_cache_home (pc_slot_mask cache) page_id) (pc_slot_capacity cache)"

partial_function (option) page_cache_free_probe ::
  "sdb_page_cache_slot list \<Rightarrow> nat \<Rightarrow> nat \<Rightarrow> nat option" where
  "page_cache_free_probe slots slot_mask index =
    (if pcs_page_id (slots ! index) \<noteq> 0
     then page_cache_free_probe slots slot_mask ((index + 1) AND slot_mask)
     else Some index)"

definition sdb_page_cache_slot_insert :: "sdb_page_cache \<Rightarrow> u64 \<Rightarrow> nat \<Rightarrow> sdb_page_cache option" where
  "sdb_page_cache_slot_insert cache page_id frame =
    map_option (\<lambda>index. cache\<lparr>pc_slots := (pc_slots cache)
        [index := \<lparr>pcs_page_id = page_id, pcs_entry_index = frame\<rparr>]\<rparr>)
      (page_cache_free_probe (pc_slots cache) (pc_slot_mask cache)
        (sdb_page_cache_home (pc_slot_mask cache) page_id))"

text \<open>
  The two nested loops of the deletion as one: the inner loop steps \<open>j\<close>, and
  leaving it copies slot \<open>j\<close> to the hole \<open>i\<close> and makes \<open>j\<close> the new hole.
\<close>

partial_function (option) page_cache_shift ::
  "sdb_page_cache_slot list \<Rightarrow> nat \<Rightarrow> nat \<Rightarrow> nat \<Rightarrow> sdb_page_cache_slot list option" where
  "page_cache_shift slots slot_mask i j =
    (let j = (j + 1) AND slot_mask
     in if pcs_page_id (slots ! j) = 0 then Some slots
        else let home = sdb_page_cache_home slot_mask (pcs_page_id (slots ! j))
        in if (if i \<le> j then home > i \<and> home \<le> j else home > i \<or> home \<le> j)
           then page_cache_shift slots slot_mask i j
           else page_cache_shift
             (slots[i := slots ! j, j := (slots ! j)\<lparr>pcs_page_id := 0\<rparr>]) slot_mask j j)"

definition sdb_page_cache_slot_delete_at :: "sdb_page_cache \<Rightarrow> nat \<Rightarrow> sdb_page_cache option" where
  "sdb_page_cache_slot_delete_at cache i =
    map_option (\<lambda>slots. cache\<lparr>pc_slots := slots\<rparr>)
      (page_cache_shift ((pc_slots cache)[i := (pc_slots cache ! i)\<lparr>pcs_page_id := 0\<rparr>]) (pc_slot_mask cache) i i)"

definition sizeof_page_cache_entry :: nat where "sizeof_page_cache_entry = 24"
definition sizeof_page_cache_slot :: nat where "sizeof_page_cache_slot = 16"
definition sizeof_size_t :: nat where "sizeof_size_t = 8"

partial_function (option) slot_capacity_for :: "nat \<Rightarrow> nat \<Rightarrow> nat option" where
  "slot_capacity_for slot_capacity capacity =
    (if slot_capacity < capacity * 2 then slot_capacity_for (slot_capacity * 2) capacity
     else Some slot_capacity)"

definition sdb_page_cache_init :: "(nat \<Rightarrow> bool) \<Rightarrow> nat \<Rightarrow> nat \<Rightarrow> sdb_page_cache result option" where
  "sdb_page_cache_init malloc_ok capacity page_size =
    (if capacity = 0 \<or> page_size = 0 then Some (Inl SDB_E_INVALID_ARGUMENT)
     else if capacity > SIZE_MAX div page_size \<or> capacity > SIZE_MAX div sizeof_page_cache_entry
             \<or> capacity > SIZE_MAX div sizeof_size_t then Some (Inl SDB_E_OVERFLOW)
     else if capacity > SIZE_MAX div 4 then Some (Inl SDB_E_OVERFLOW)
     else case slot_capacity_for 1 capacity of
       None \<Rightarrow> None
     | Some slot_capacity \<Rightarrow>
         (if slot_capacity > SIZE_MAX div sizeof_page_cache_slot then Some (Inl SDB_E_OVERFLOW)
          else if \<not> malloc_ok (capacity * sizeof_page_cache_entry)
                  \<or> \<not> malloc_ok (slot_capacity * sizeof_page_cache_slot)
                  \<or> \<not> malloc_ok (capacity * sizeof_size_t) \<or> \<not> malloc_ok (capacity * page_size)
          then Some (Inl SDB_E_OUT_OF_MEMORY)
          else Some (Inr
            \<lparr>pc_entries = replicate capacity
               \<lparr>pce_page_id = 0, pce_bytes = zeros page_size, pce_valid = False, pce_ref = False\<rparr>,
             pc_slots = replicate slot_capacity \<lparr>pcs_page_id = 0, pcs_entry_index = 0\<rparr>,
             pc_free_list = map (\<lambda>index. capacity - 1 - index) [0..<capacity],
             pc_capacity = capacity, pc_slot_capacity = slot_capacity,
             pc_slot_mask = slot_capacity - 1, pc_free_count = capacity,
             pc_clock_hand = 0, pc_page_size = page_size\<rparr>)))"

definition sdb_page_cache_destroy :: "sdb_page_cache \<Rightarrow> sdb_page_cache" where
  "sdb_page_cache_destroy cache =
    \<lparr>pc_entries = [], pc_slots = [], pc_free_list = [], pc_capacity = 0, pc_slot_capacity = 0,
     pc_slot_mask = 0, pc_free_count = 0, pc_clock_hand = 0, pc_page_size = 0\<rparr>"

definition sdb_page_cache_get :: "sdb_page_cache \<Rightarrow> u64 \<Rightarrow> bytes option \<times> sdb_page_cache" where
  "sdb_page_cache_get cache page_id =
    (if page_id = 0 \<or> pc_slots cache = [] then (None, cache)
     else case sdb_page_cache_find_slot cache page_id of
       None \<Rightarrow> (None, cache)
     | Some slot \<Rightarrow>
         let frame = pcs_entry_index (pc_slots cache ! slot);
             entry = pc_entries cache ! frame
         in (Some (pce_bytes entry),
             cache\<lparr>pc_entries := (pc_entries cache)[frame := entry\<lparr>pce_ref := True\<rparr>]\<rparr>))"

partial_function (option) sdb_page_cache_clock_evict ::
  "sdb_page_cache \<Rightarrow> (nat \<times> sdb_page_cache) option" where
  "sdb_page_cache_clock_evict cache =
    (let frame = pc_clock_hand cache;
         entry = pc_entries cache ! frame;
         cache = cache\<lparr>pc_clock_hand := (pc_clock_hand cache + 1) mod pc_capacity cache\<rparr>
     in if \<not> pce_valid entry then sdb_page_cache_clock_evict cache
        else if pce_ref entry
        then sdb_page_cache_clock_evict
          (cache\<lparr>pc_entries := (pc_entries cache)[frame := entry\<lparr>pce_ref := False\<rparr>]\<rparr>)
        else map_option (\<lambda>cache. (frame, cache\<lparr>pc_entries := (pc_entries cache)
               [frame := entry\<lparr>pce_valid := False, pce_page_id := 0\<rparr>]\<rparr>))
          (case sdb_page_cache_find_slot cache (pce_page_id entry) of
             None \<Rightarrow> Some cache
           | Some slot \<Rightarrow> sdb_page_cache_slot_delete_at cache slot))"

definition sdb_page_cache_put :: "sdb_page_cache \<Rightarrow> u64 \<Rightarrow> bytes \<Rightarrow> sdb_page_cache option" where
  "sdb_page_cache_put cache page_id page =
    (if page_id = 0 \<or> pc_capacity cache = 0 \<or> pc_slots cache = [] then Some cache
     else case sdb_page_cache_find_slot cache page_id of
       Some slot \<Rightarrow>
         let frame = pcs_entry_index (pc_slots cache ! slot)
         in Some (cache\<lparr>pc_entries := (pc_entries cache)
              [frame := (pc_entries cache ! frame)
                 \<lparr>pce_bytes := take (pc_page_size cache) page, pce_ref := True\<rparr>]\<rparr>)
     | None \<Rightarrow>
         Option.bind
           (if pc_free_count cache > 0
            then Some (pc_free_list cache ! (pc_free_count cache - 1),
                       cache\<lparr>pc_free_count := pc_free_count cache - 1\<rparr>)
            else sdb_page_cache_clock_evict cache)
           (\<lambda>(frame, cache).
             sdb_page_cache_slot_insert
               (cache\<lparr>pc_entries := (pc_entries cache)
                  [frame := \<lparr>pce_page_id = page_id, pce_bytes = take (pc_page_size cache) page,
                     pce_valid = True, pce_ref = False\<rparr>]\<rparr>)
               page_id frame))"

definition sdb_page_cache_remove :: "sdb_page_cache \<Rightarrow> u64 \<Rightarrow> sdb_page_cache option" where
  "sdb_page_cache_remove cache page_id =
    (if page_id = 0 \<or> pc_slots cache = [] then Some cache
     else case sdb_page_cache_find_slot cache page_id of
       None \<Rightarrow> Some cache
     | Some slot \<Rightarrow>
         let frame = pcs_entry_index (pc_slots cache ! slot)
         in map_option (\<lambda>cache.
              cache\<lparr>pc_entries := (pc_entries cache)
                 [frame := (pc_entries cache ! frame)\<lparr>pce_valid := False, pce_ref := False, pce_page_id := 0\<rparr>],
                 pc_free_list := (pc_free_list cache)[pc_free_count cache := frame],
                 pc_free_count := pc_free_count cache + 1\<rparr>)
            (sdb_page_cache_slot_delete_at cache slot))"

section \<open>The probing contracts\<close>

interpretation pc_find: bounded_lookup pcs_page_id
  "\<lambda>slots k i m. page_cache_find slots (length slots - 1) k i m"
  by unfold_locales (simp_all add: Let_def nxt_and_mask_Suc)

interpretation pc_scan: forward_scan "\<lambda>s k. pcs_page_id s = 0"
  "\<lambda>slots k i. page_cache_free_probe slots (length slots - 1) i"
proof unfold_locales
  fix slots :: "sdb_page_cache_slot list" and i
  assume "pow2 (length slots)" "i < length slots"
  then show "page_cache_free_probe slots (length slots - 1) i =
      (if pcs_page_id (slots ! i) = 0 then Some i
       else page_cache_free_probe slots (length slots - 1) (nxt (length slots) i))"
    by (subst page_cache_free_probe.simps) (simp only: nxt_and_mask, simp)
qed

lemma between_cdist:
  "home < n \<Longrightarrow> i < n \<Longrightarrow> j < n \<Longrightarrow> i \<noteq> j \<Longrightarrow>
    (if i \<le> j then home > i \<and> home \<le> j else home > i \<or> home \<le> j) \<longleftrightarrow> cdist n home j < cdist n i j"
  by (auto simp: cdist_def)

interpretation pc_shift: backward_shift pcs_page_id "pcs_page_id_update (\<lambda>_. 0)"
  "\<lambda>n. sdb_page_cache_home (n - 1)" "\<lambda>slots i j. page_cache_shift slots (length slots - 1) i j"
proof unfold_locales
  fix slots :: "sdb_page_cache_slot list" and i j
  let ?n = "length slots" and ?j = "nxt (length slots) j"
  assume p: "pow2 ?n" and i: "i < ?n" "j < ?n" and h: "\<And>k. sdb_page_cache_home (?n - 1) k < ?n"
    and z: "pcs_page_id (slots ! i) = 0"
  have "i \<noteq> ?j" if "pcs_page_id (slots ! ?j) \<noteq> 0"
    using that z by auto
  then have b: "(if i \<le> ?j then sdb_page_cache_home (?n - 1) (pcs_page_id (slots ! ?j)) > i
        \<and> sdb_page_cache_home (?n - 1) (pcs_page_id (slots ! ?j)) \<le> ?j
      else sdb_page_cache_home (?n - 1) (pcs_page_id (slots ! ?j)) > i
        \<or> sdb_page_cache_home (?n - 1) (pcs_page_id (slots ! ?j)) \<le> ?j)
      \<longleftrightarrow> cdist ?n (sdb_page_cache_home (?n - 1) (pcs_page_id (slots ! ?j))) ?j < cdist ?n i ?j"
    if "pcs_page_id (slots ! ?j) \<noteq> 0"
    using that by (intro between_cdist) (simp_all add: h [unfolded One_nat_def] i nxt_less)
  show "page_cache_shift slots (?n - 1) i j =
      (let j = ?j
       in if pcs_page_id (slots ! j) = 0 then Some slots
          else if cdist ?n (sdb_page_cache_home (?n - 1) (pcs_page_id (slots ! j))) j < cdist ?n i j
          then page_cache_shift slots (?n - 1) i j
          else page_cache_shift (slots[i := slots ! j, j := (slots ! j)\<lparr>pcs_page_id := 0\<rparr>])
            (length (slots[i := slots ! j, j := (slots ! j)\<lparr>pcs_page_id := 0\<rparr>]) - 1) j j)"
  proof (cases "pcs_page_id (slots ! ?j) = 0")
    case False
    then show ?thesis
      unfolding Let_def length_list_update b [OF False, symmetric]
      by (subst page_cache_shift.simps) (simp only: Let_def nxt_and_mask [OF p i(2)] if_False)
  qed (subst page_cache_shift.simps, simp only: Let_def nxt_and_mask [OF p i(2)] if_True simp_thms)
qed simp

section \<open>The table and the frames\<close>

definition slot_entry :: "sdb_page_cache_slot list \<Rightarrow> u64 \<Rightarrow> nat \<Rightarrow> bool" where
  "slot_entry slots k f \<longleftrightarrow> k \<noteq> 0 \<and> \<lparr>pcs_page_id = k, pcs_entry_index = f\<rparr> \<in> set slots"

definition holds :: "sdb_page_cache_entry list \<Rightarrow> u64 \<Rightarrow> nat \<Rightarrow> bool" where
  "holds es k f \<longleftrightarrow> f < length es \<and> pce_valid (es ! f) \<and> pce_page_id (es ! f) = k"

definition table_inv :: "sdb_page_cache_slot list \<Rightarrow> bool" where
  "table_inv slots \<longleftrightarrow>
    pow2 (length slots) \<and> length slots \<le> 2 ^ 64 \<and>
    chained_except (sdb_page_cache_home (length slots - 1)) (map pcs_page_id slots) {} \<and>
    unique_ids (map pcs_page_id slots)"

definition frames_ok :: "sdb_page_cache_slot list \<Rightarrow> sdb_page_cache_entry list \<Rightarrow> bool" where
  "frames_ok slots es \<longleftrightarrow>
    table_inv slots \<and> es \<noteq> [] \<and> length es * 2 \<le> length slots \<and>
    (\<forall>k f. slot_entry slots k f \<longleftrightarrow> holds es k f)"

lemma home_less: "table_inv slots \<Longrightarrow> sdb_page_cache_home (length slots - 1) k < length slots"
  unfolding sdb_page_cache_home_def table_inv_def by (intro u64_and_mask_less) (auto dest: pow2_pos)

lemma slot_entry_nth:
  "slot_entry slots k f \<longleftrightarrow>
    k \<noteq> 0 \<and> (\<exists>i < length slots. pcs_page_id (slots ! i) = k \<and> pcs_entry_index (slots ! i) = f)"
proof -
  have "s = \<lparr>pcs_page_id = k, pcs_entry_index = f\<rparr> \<longleftrightarrow> pcs_page_id s = k \<and> pcs_entry_index s = f" for s
    by (cases s) auto
  then show ?thesis
    unfolding slot_entry_def in_set_conv_nth by metis
qed

lemma slot_entry_clear:
  assumes "i < length slots"
  shows "slot_entry (slots[i := (slots ! i)\<lparr>pcs_page_id := 0\<rparr>]) k f \<longleftrightarrow>
    k \<noteq> 0 \<and> (\<exists>j < length slots. j \<noteq> i \<and> pcs_page_id (slots ! j) = k \<and> pcs_entry_index (slots ! j) = f)"
    (is "?L \<longleftrightarrow> ?R")
proof
  let ?slots = "slots[i := (slots ! i)\<lparr>pcs_page_id := 0\<rparr>]"
  show ?R if L: ?L
  proof -
    obtain j where j: "k \<noteq> 0" "j < length slots" "pcs_page_id (?slots ! j) = k" "pcs_entry_index (?slots ! j) = f"
      using L by (auto simp: slot_entry_nth)
    then have "j \<noteq> i"
      using assms by auto
    then show ?R
      using j by auto
  qed
  show ?L if R: ?R
  proof -
    obtain j where j: "k \<noteq> 0" "j < length slots" "j \<noteq> i" "pcs_page_id (slots ! j) = k" "pcs_entry_index (slots ! j) = f"
      using R by blast
    then show ?L
      unfolding slot_entry_nth by (intro conjI exI [of _ j]) simp_all
  qed
qed

lemma slot_entry_unique:
  assumes "table_inv slots" "slot_entry slots k f" "slot_entry slots k g"
  shows "f = g"
  using assms unique_idsD [of "map pcs_page_id slots"] unfolding slot_entry_nth table_inv_def by auto

lemma occupied_card:
  assumes "table_inv slots"
  shows "occupied (map pcs_page_id slots) = card {k. \<exists>f. slot_entry slots k f}"
proof -
  let ?ks = "filter (\<lambda>k. k \<noteq> 0) (map pcs_page_id slots)"
  have "{k. \<exists>f. slot_entry slots k f} = set ?ks"
    by (auto simp: slot_entry_nth) (auto simp: in_set_conv_nth)
  moreover have "distinct ?ks"
    using assms distinct_table_ids by (simp only: table_inv_def)
  ultimately show ?thesis
    using distinct_card [of ?ks] by (simp only: occupied_def)
qed

lemma frames_ok_occupied:
  assumes "frames_ok slots es"
  shows "occupied (map pcs_page_id slots) \<le> length es"
proof -
  have "{k. \<exists>f. slot_entry slots k f} \<subseteq> (\<lambda>f. pce_page_id (es ! f)) ` {..<length es}"
    using assms by (auto simp: frames_ok_def holds_def)
  then have "card {k. \<exists>f. slot_entry slots k f} \<le> card {..<length es}"
    by (meson card_image_le card_mono finite_imageI finite_lessThan le_trans)
  then show ?thesis
    using assms by (simp add: occupied_card frames_ok_def)
qed

lemma frames_ok_probing:
  assumes "frames_ok slots es"
  shows "probing_inv (sdb_page_cache_home (length slots - 1)) (map pcs_page_id slots)"
proof -
  have "length es < length slots"
    using assms by (cases es) (auto simp: frames_ok_def)
  then have "0 \<in> set (map pcs_page_id slots)"
    using frames_ok_occupied [OF assms] by (intro occupied_free) simp
  then show ?thesis
    using assms home_less [of slots] by (auto simp: frames_ok_def table_inv_def probing_inv_def)
qed

lemma find_spec:
  assumes "frames_ok slots es" "k \<noteq> 0"
  shows "page_cache_find slots (length slots - 1) k (sdb_page_cache_home (length slots - 1) k) (length slots)
      = Some i \<longleftrightarrow> i < length slots \<and> pcs_page_id (slots ! i) = k"
  using pc_find.find_iff [OF frames_ok_probing [OF assms(1)] assms(2)] by simp

lemma holds_unique: "frames_ok slots es \<Longrightarrow> holds es k f \<Longrightarrow> holds es k g \<Longrightarrow> f = g"
  using slot_entry_unique [of slots k f g] by (simp add: frames_ok_def)

lemma holds_nonzero: "frames_ok slots es \<Longrightarrow> holds es k f \<Longrightarrow> k \<noteq> 0"
  unfolding frames_ok_def slot_entry_def by blast

lemma frames_ok_same:
  assumes "frames_ok slots es" "length es' = length es"
    and "\<And>f. f < length es \<Longrightarrow> pce_valid (es' ! f) = pce_valid (es ! f) \<and> pce_page_id (es' ! f) = pce_page_id (es ! f)"
  shows "frames_ok slots es'"
proof -
  have "holds es' k f = holds es k f" for k f
    using assms(2,3) by (auto simp: holds_def)
  then show ?thesis
    using assms(1,2) by (auto simp: frames_ok_def)
qed

lemma frames_ok_insert:
  assumes ok: "frames_ok slots es" and f: "f < length es" "\<not> pce_valid (es ! f)"
    and k: "k \<noteq> 0" "\<And>g. \<not> holds es k g" and e: "pce_valid e" "pce_page_id e = k"
  shows "\<exists>r. page_cache_free_probe slots (length slots - 1) (sdb_page_cache_home (length slots - 1) k) = Some r \<and>
    frames_ok (slots[r := \<lparr>pcs_page_id = k, pcs_entry_index = f\<rparr>]) (es[f := e])"
proof -
  let ?n = "length slots" and ?h = "sdb_page_cache_home (length slots - 1)"
  let ?s = "\<lparr>pcs_page_id = k, pcs_entry_index = f\<rparr>" and ?ids = "map pcs_page_id slots"
  have inv: "probing_inv ?h ?ids" and t: "table_inv slots"
    using ok frames_ok_probing by (auto simp: frames_ok_def)
  obtain z where "z < ?n" "pcs_page_id (slots ! z) = 0"
    using probing_free_slot [OF inv] by auto
  then obtain r where r: "r < ?n" "page_cache_free_probe slots (?n - 1) (?h k) = Some r" "pcs_page_id (slots ! r) = 0"
    and path: "\<And>q. q < ?n \<Longrightarrow> cdist ?n (?h k) q < cdist ?n (?h k) r \<Longrightarrow> pcs_page_id (slots ! q) \<noteq> 0"
    using pc_scan.scan_returns [of slots z "?h k"] home_less [OF t] t
    by (auto simp: table_inv_def simp del: One_nat_def)
  have fresh: "k \<notin> set ?ids"
  proof
    assume "k \<in> set ?ids"
    then obtain i where "i < ?n" "pcs_page_id (slots ! i) = k"
      by (auto simp: in_set_conv_nth)
    then have "slot_entry slots k (pcs_entry_index (slots ! i))"
      using k(1) by (auto simp: slot_entry_nth)
    then show False
      using ok k(2) by (simp add: frames_ok_def)
  qed
  have ins: "chained_except ?h (?ids[r := k]) {} \<and> unique_ids (?ids[r := k])"
    using r path fresh k(1) by (intro probing_insert [OF inv]) simp_all
  let ?slots = "slots[r := ?s]"
  have "table_inv ?slots"
    using t ins by (simp add: table_inv_def map_update)
  moreover have "slot_entry ?slots k' g \<longleftrightarrow> holds (es[f := e]) k' g" for k' g
  proof -
    have "slot_entry ?slots k' g \<longleftrightarrow> slot_entry slots k' g \<or> k' = k \<and> g = f"
      using r(1,3) k(1) by (auto simp: slot_entry_nth nth_list_update split: if_splits)
    also have "\<dots> \<longleftrightarrow> holds es k' g \<or> k' = k \<and> g = f"
      using ok by (simp add: frames_ok_def)
    also have "\<dots> \<longleftrightarrow> holds (es[f := e]) k' g"
      using f e k(2) by (auto simp: holds_def nth_list_update)
    finally show ?thesis .
  qed
  ultimately have "frames_ok ?slots (es[f := e])"
    using ok by (simp add: frames_ok_def)
  with r show ?thesis
    by blast
qed

lemma frames_ok_delete:
  assumes ok: "frames_ok slots es" and i: "i < length slots" "pcs_page_id (slots ! i) = k" "k \<noteq> 0"
    and f: "f = pcs_entry_index (slots ! i)" and e: "\<not> pce_valid e"
  shows "\<exists>slots'. page_cache_shift (slots[i := (slots ! i)\<lparr>pcs_page_id := 0\<rparr>]) (length slots - 1) i i = Some slots' \<and>
    length slots' = length slots \<and> frames_ok slots' (es[f := e])"
proof -
  let ?n = "length slots" and ?h = "sdb_page_cache_home (length slots - 1)"
  let ?slots = "slots[i := (slots ! i)\<lparr>pcs_page_id := 0\<rparr>]"
  have inv: "probing_inv ?h (map pcs_page_id slots)" and t: "table_inv slots"
    using ok frames_ok_probing by (auto simp: frames_ok_def)
  have ids: "map pcs_page_id ?slots = (map pcs_page_id slots)[i := 0]"
    by (simp add: map_update)
  have start: "shift_inv ?h (map pcs_page_id ?slots) i i"
    unfolding ids using i by (intro shift_start [OF inv]) simp
  obtain z where z: "z < ?n" "pcs_page_id (slots ! z) = 0"
    using probing_free_slot [OF inv] by auto
  then have zi: "z \<noteq> i"
    using i by auto
  then have "cdist ?n i i < cdist ?n i z"
    using cdist_eq_0 [of i ?n z] i z by simp
  then obtain slots' where sh: "page_cache_shift ?slots (?n - 1) i i = Some slots'" "length slots' = ?n"
      "chained_except ?h (map pcs_page_id slots') {}" "unique_ids (map pcs_page_id slots')"
    and same: "{s \<in> set slots'. pcs_page_id s \<noteq> 0} = {s \<in> set ?slots. pcs_page_id s \<noteq> 0}"
    using pc_shift.shift_returns [of ?slots i i z] start z zi by (auto simp del: One_nat_def)
  have t': "table_inv slots'"
    using t sh(2-4) by (simp add: table_inv_def)
  have kf: "slot_entry slots k f"
    using i f by (auto simp: slot_entry_nth)
  have "slot_entry slots' k' g \<longleftrightarrow> holds (es[f := e]) k' g" for k' g
  proof -
    have "slot_entry slots' k' g \<longleftrightarrow> slot_entry ?slots k' g"
      using eqset_imp_iff [OF same, of "\<lparr>pcs_page_id = k', pcs_entry_index = g\<rparr>"] by (auto simp: slot_entry_def)
    also have "\<dots> \<longleftrightarrow> slot_entry slots k' g \<and> k' \<noteq> k"
    proof -
      have "pcs_page_id (slots ! j) = k \<longleftrightarrow> j = i" if "j < ?n" for j
        using unique_idsD [of "map pcs_page_id slots" j i] t i that by (auto simp: table_inv_def)
      then show ?thesis
        unfolding slot_entry_clear [OF i(1)] unfolding slot_entry_nth by blast
    qed
    also have "\<dots> \<longleftrightarrow> holds es k' g \<and> k' \<noteq> k"
      using ok by (simp add: frames_ok_def)
    also have "\<dots> \<longleftrightarrow> holds (es[f := e]) k' g"
    proof -
      have "holds es k f"
        using kf ok by (simp add: frames_ok_def)
      moreover have "g = f" if "holds es k g"
        using holds_unique [OF ok that calculation] .
      ultimately show ?thesis
        using e by (auto simp: holds_def nth_list_update)
    qed
    finally show ?thesis .
  qed
  then have "frames_ok slots' (es[f := e])"
    using ok t' sh(2) by (simp add: frames_ok_def)
  with sh show ?thesis
    by blast
qed

section \<open>The invariant of the cache\<close>

definition free_frames :: "sdb_page_cache \<Rightarrow> nat list" where
  "free_frames c = take (pc_free_count c) (pc_free_list c)"

definition cache_inv :: "sdb_page_cache \<Rightarrow> bool" where
  "cache_inv c \<longleftrightarrow>
    frames_ok (pc_slots c) (pc_entries c) \<and>
    pc_capacity c = length (pc_entries c) \<and> pc_slot_capacity c = length (pc_slots c) \<and>
    pc_slot_mask c = length (pc_slots c) - 1 \<and> pc_clock_hand c < length (pc_entries c) \<and>
    length (pc_free_list c) = length (pc_entries c) \<and> pc_free_count c \<le> length (pc_entries c) \<and>
    distinct (free_frames c) \<and>
    set (free_frames c) = {f. f < length (pc_entries c) \<and> \<not> pce_valid (pc_entries c ! f)}"

text \<open>What the cache holds: the page a lookup of an id would return.\<close>

definition cache_view :: "sdb_page_cache \<Rightarrow> u64 \<Rightarrow> bytes option" where
  "cache_view c k = map_option pce_bytes (find (\<lambda>e. pce_valid e \<and> pce_page_id e = k) (pc_entries c))"

lemma view_iff:
  assumes "frames_ok (pc_slots c) (pc_entries c)"
  shows "cache_view c k = Some b \<longleftrightarrow> (\<exists>f. holds (pc_entries c) k f \<and> pce_bytes (pc_entries c ! f) = b)"
proof
  assume "cache_view c k = Some b"
  then show "\<exists>f. holds (pc_entries c) k f \<and> pce_bytes (pc_entries c ! f) = b"
    by (auto simp: cache_view_def holds_def find_Some_iff)
next
  assume "\<exists>f. holds (pc_entries c) k f \<and> pce_bytes (pc_entries c ! f) = b"
  then obtain f where f: "holds (pc_entries c) k f" "pce_bytes (pc_entries c ! f) = b"
    by blast
  have "\<not> (pce_valid (pc_entries c ! g) \<and> pce_page_id (pc_entries c ! g) = k)" if "g < f" for g
    using holds_unique [OF assms, of k f g] f(1) that by (auto simp: holds_def)
  then have "find (\<lambda>e. pce_valid e \<and> pce_page_id e = k) (pc_entries c) = Some (pc_entries c ! f)"
    using f by (auto simp: find_Some_iff holds_def)
  with f show "cache_view c k = Some b"
    by (simp add: cache_view_def)
qed

lemma view_None_iff:
  "frames_ok (pc_slots c) (pc_entries c) \<Longrightarrow> cache_view c k = None \<longleftrightarrow> (\<forall>f. \<not> holds (pc_entries c) k f)"
  using view_iff [of c k] by (metis option.exhaust option.simps(3))

lemma view_eqI:
  assumes "frames_ok (pc_slots c) (pc_entries c)"
    and "\<And>b. m k = Some b \<longleftrightarrow> (\<exists>f. holds (pc_entries c) k f \<and> pce_bytes (pc_entries c ! f) = b)"
  shows "cache_view c k = m k"
  using view_iff [OF assms(1), of k] assms(2) by (metis option.exhaust)

lemma find_slot_spec:
  assumes "cache_inv c" "k \<noteq> 0"
  shows "(case sdb_page_cache_find_slot c k of
      None \<Rightarrow> \<forall>f. \<not> holds (pc_entries c) k f
    | Some i \<Rightarrow> i < length (pc_slots c) \<and> pcs_page_id (pc_slots c ! i) = k \<and>
        holds (pc_entries c) k (pcs_entry_index (pc_slots c ! i)))"
proof -
  have ok: "frames_ok (pc_slots c) (pc_entries c)"
    using assms(1) by (simp add: cache_inv_def)
  have find: "sdb_page_cache_find_slot c k = Some i \<longleftrightarrow> i < length (pc_slots c) \<and> pcs_page_id (pc_slots c ! i) = k" for i
    using find_spec [OF ok assms(2)] assms(1) by (simp add: sdb_page_cache_find_slot_def cache_inv_def)
  show ?thesis
  proof (cases "sdb_page_cache_find_slot c k")
    case None
    then show ?thesis
      using find ok assms(2) by (auto simp: frames_ok_def slot_entry_nth)
  next
    case (Some i)
    then have "slot_entry (pc_slots c) k (pcs_entry_index (pc_slots c ! i))"
      using find assms(2) by (auto simp: slot_entry_nth)
    then have "holds (pc_entries c) k (pcs_entry_index (pc_slots c ! i))"
      using ok by (simp add: frames_ok_def)
    then show ?thesis
      using Some find [of i] by simp
  qed
qed

section \<open>Eviction ends and removes one page\<close>

definition core_inv :: "sdb_page_cache \<Rightarrow> bool" where
  "core_inv c \<longleftrightarrow>
    frames_ok (pc_slots c) (pc_entries c) \<and> pc_capacity c = length (pc_entries c) \<and>
    pc_slot_capacity c = length (pc_slots c) \<and> pc_slot_mask c = length (pc_slots c) - 1 \<and>
    pc_clock_hand c < length (pc_entries c)"

text \<open>What eviction leaves alone: everything but the slots, the hand and the entries.\<close>

definition same_shape :: "sdb_page_cache \<Rightarrow> sdb_page_cache \<Rightarrow> bool" where
  "same_shape c c' \<longleftrightarrow>
    length (pc_entries c') = length (pc_entries c) \<and> pc_free_list c' = pc_free_list c \<and>
    pc_free_count c' = pc_free_count c \<and> pc_page_size c' = pc_page_size c"

lemma find_slot_core:
  assumes "core_inv c" "holds (pc_entries c) k f"
  obtains i where "sdb_page_cache_find_slot c k = Some i" "i < length (pc_slots c)"
    "pcs_page_id (pc_slots c ! i) = k" "pcs_entry_index (pc_slots c ! i) = f" "k \<noteq> 0"
proof -
  have ok: "frames_ok (pc_slots c) (pc_entries c)"
    using assms(1) by (simp add: core_inv_def)
  then have "slot_entry (pc_slots c) k f"
    using assms(2) by (simp add: frames_ok_def)
  then obtain i where i: "k \<noteq> 0" "i < length (pc_slots c)" "pcs_page_id (pc_slots c ! i) = k"
      "pcs_entry_index (pc_slots c ! i) = f"
    by (auto simp: slot_entry_nth)
  then have "sdb_page_cache_find_slot c k = Some i"
    using find_spec [OF ok i(1), of i] assms(1) by (simp add: sdb_page_cache_find_slot_def core_inv_def)
  with i that show thesis
    by blast
qed

lemma delete_core:
  assumes inv: "core_inv c" and h: "holds (pc_entries c) k f"
    and i: "i < length (pc_slots c)" "pcs_page_id (pc_slots c ! i) = k" "pcs_entry_index (pc_slots c ! i) = f"
    and e: "\<not> pce_valid e"
  obtains c' where "sdb_page_cache_slot_delete_at c i = Some c'"
    "core_inv (c'\<lparr>pc_entries := (pc_entries c')[f := e]\<rparr>)" "pc_entries c' = pc_entries c" "same_shape c c'"
    "cache_view (c'\<lparr>pc_entries := (pc_entries c')[f := e]\<rparr>) = (cache_view c)(k := None)"
proof -
  have ok: "frames_ok (pc_slots c) (pc_entries c)" and m: "pc_slot_mask c = length (pc_slots c) - 1"
    using inv by (simp_all add: core_inv_def)
  have k0: "k \<noteq> 0"
    using holds_nonzero [OF ok h] .
  obtain slots' where sh: "page_cache_shift ((pc_slots c)[i := (pc_slots c ! i)\<lparr>pcs_page_id := 0\<rparr>])
        (length (pc_slots c) - 1) i i = Some slots'"
      "length slots' = length (pc_slots c)" "frames_ok slots' ((pc_entries c)[f := e])"
    using frames_ok_delete [OF ok i(1,2) k0 i(3) [symmetric] e] by blast
  let ?c = "c\<lparr>pc_slots := slots'\<rparr>"
  let ?c' = "?c\<lparr>pc_entries := (pc_entries ?c)[f := e]\<rparr>"
  have "sdb_page_cache_slot_delete_at c i = Some ?c"
    using sh(1) m by (simp add: sdb_page_cache_slot_delete_at_def)
  moreover have "core_inv ?c'"
    using inv sh by (simp add: core_inv_def)
  moreover have "cache_view ?c' k' = ((cache_view c)(k := None)) k'" for k'
  proof (rule view_eqI)
    fix b
    have "holds ((pc_entries c)[f := e]) k' g \<longleftrightarrow> holds (pc_entries c) k' g \<and> k' \<noteq> k" for g
      using h e holds_unique [OF ok h, of g] by (auto simp: holds_def nth_list_update)
    moreover have "pce_bytes ((pc_entries c)[f := e] ! g) = pce_bytes (pc_entries c ! g)"
      if "holds (pc_entries c) k' g" "k' \<noteq> k" for g
      using that h by (auto simp: holds_def nth_list_update)
    ultimately show "((cache_view c)(k := None)) k' = Some b \<longleftrightarrow>
        (\<exists>g. holds (pc_entries ?c') k' g \<and> pce_bytes (pc_entries ?c' ! g) = b)"
      using view_iff [OF ok, of k' b] by auto
  qed (use sh in simp)
  ultimately show thesis
    using that [of ?c] by (simp add: same_shape_def fun_eq_iff)
qed

lemma set_ref_core:
  fixes r :: bool
  assumes "core_inv c" "f < length (pc_entries c)"
  defines "c' \<equiv> c\<lparr>pc_entries := (pc_entries c)[f := (pc_entries c ! f)\<lparr>pce_ref := r\<rparr>]\<rparr>"
  shows "core_inv c' \<and> cache_view c' = cache_view c"
proof -
  let ?es = "(pc_entries c)[f := (pc_entries c ! f)\<lparr>pce_ref := r\<rparr>]"
  have ok: "frames_ok (pc_slots c) (pc_entries c)"
    using assms(1) by (simp add: core_inv_def)
  have ok': "frames_ok (pc_slots c) ?es"
    using assms(2) by (intro frames_ok_same [OF ok]) (auto simp: nth_list_update)
  have "cache_view c' k = cache_view c k" for k
  proof (rule view_eqI)
    fix b
    have "holds ?es k g \<longleftrightarrow> holds (pc_entries c) k g" "pce_bytes (?es ! g) = pce_bytes (pc_entries c ! g)" for g
      using assms(2) by (auto simp: holds_def nth_list_update)
    then show "cache_view c k = Some b \<longleftrightarrow> (\<exists>g. holds (pc_entries c') k g \<and> pce_bytes (pc_entries c' ! g) = b)"
      using view_iff [OF ok, of k b] by (simp add: c'_def)
  qed (use ok' in \<open>simp add: c'_def\<close>)
  then show ?thesis
    using assms(1) ok' by (auto simp: core_inv_def c'_def)
qed

definition refs :: "sdb_page_cache_entry list \<Rightarrow> nat" where
  "refs es = length (filter pce_ref es)"

lemma refs_clear:
  assumes "f < length es" "pce_ref (es ! f)"
  shows "refs es = Suc (refs (es[f := (es ! f)\<lparr>pce_ref := False\<rparr>]))"
  using assms arg_cong [OF id_take_nth_drop [OF assms(1)], of "\<lambda>xs. length (filter pce_ref xs)"]
  by (simp add: refs_def upd_conv_take_nth_drop)

lemma evict_spec:
  assumes "core_inv c" "f < length (pc_entries c)" "pce_valid (pc_entries c ! f)"
  shows "\<exists>frame c' k. sdb_page_cache_clock_evict c = Some (frame, c') \<and> core_inv c' \<and> same_shape c c' \<and>
    frame < length (pc_entries c) \<and> pce_valid (pc_entries c ! frame) \<and>
    (\<forall>g < length (pc_entries c). pce_valid (pc_entries c' ! g) \<longleftrightarrow> pce_valid (pc_entries c ! g) \<and> g \<noteq> frame) \<and>
    cache_view c' = (cache_view c)(k := None)"
  using assms
proof (induction "refs (pc_entries c) * length (pc_entries c) + cdist (length (pc_entries c)) (pc_clock_hand c) f"
    arbitrary: c rule: less_induct)
  case less
  let ?n = "length (pc_entries c)" and ?h = "pc_clock_hand c"
  let ?e = "pc_entries c ! ?h" and ?c = "c\<lparr>pc_clock_hand := nxt ?n ?h\<rparr>"
  have h: "?h < ?n" and cap: "pc_capacity c = ?n" and ok: "frames_ok (pc_slots c) (pc_entries c)"
    using less.prems(1) by (simp_all add: core_inv_def)
  have nx: "(?h + 1) mod pc_capacity c = nxt ?n ?h"
    using h cap by (simp add: nxt_def mod_Suc)
  have inv: "core_inv ?c" and view: "cache_view ?c = cache_view c"
    using less.prems(1) h by (auto simp: core_inv_def nxt_less cache_view_def fun_eq_iff)
  have unfold: "sdb_page_cache_clock_evict c =
      (if \<not> pce_valid ?e then sdb_page_cache_clock_evict ?c
       else if pce_ref ?e
       then sdb_page_cache_clock_evict (?c\<lparr>pc_entries := (pc_entries ?c)[?h := ?e\<lparr>pce_ref := False\<rparr>]\<rparr>)
       else map_option (\<lambda>cache. (?h, cache\<lparr>pc_entries := (pc_entries cache)
              [?h := ?e\<lparr>pce_valid := False, pce_page_id := 0\<rparr>]\<rparr>))
         (case sdb_page_cache_find_slot ?c (pce_page_id ?e) of
            None \<Rightarrow> Some ?c
          | Some slot \<Rightarrow> sdb_page_cache_slot_delete_at ?c slot))"
    by (subst sdb_page_cache_clock_evict.simps) (simp only: Let_def nx)
  show ?case
  proof (cases "pce_valid ?e")
    case False
    then have "f \<noteq> ?h"
      using less.prems(3) by auto
    then have "cdist ?n ?h f = Suc (cdist ?n (nxt ?n ?h) f)"
      using h less.prems(2) by (simp add: cdist_nxt)
    then have "refs (pc_entries ?c) * length (pc_entries ?c) + cdist (length (pc_entries ?c)) (pc_clock_hand ?c) f
        < refs (pc_entries c) * ?n + cdist ?n ?h f"
      by simp
    from less.hyps [OF this inv] less.prems(2,3) obtain frame c' k where
      "sdb_page_cache_clock_evict ?c = Some (frame, c')" "core_inv c'" "same_shape ?c c'" "frame < ?n"
      "pce_valid (pc_entries c ! frame)"
      "\<forall>g < ?n. pce_valid (pc_entries c' ! g) \<longleftrightarrow> pce_valid (pc_entries c ! g) \<and> g \<noteq> frame"
      "cache_view c' = (cache_view ?c)(k := None)"
      by auto
    then show ?thesis
      using unfold False view by (auto simp: same_shape_def)
  next
    case valid: True
    show ?thesis
    proof (cases "pce_ref ?e")
      case True
      let ?d = "?c\<lparr>pc_entries := (pc_entries ?c)[?h := ?e\<lparr>pce_ref := False\<rparr>]\<rparr>"
      have d: "core_inv ?d" "cache_view ?d = cache_view ?c"
        using set_ref_core [OF inv, of ?h False] h by simp_all
      have "refs (pc_entries c) = Suc (refs (pc_entries ?d))"
        using refs_clear [of ?h "pc_entries c"] h True by simp
      moreover have "cdist ?n (nxt ?n ?h) f < ?n"
        using h less.prems(2) by (intro cdist_less) (simp_all add: nxt_less)
      ultimately have "refs (pc_entries ?d) * length (pc_entries ?d) + cdist (length (pc_entries ?d)) (pc_clock_hand ?d) f
          < refs (pc_entries c) * ?n + cdist ?n ?h f"
        by simp
      moreover have val: "pce_valid (pc_entries ?d ! g) = pce_valid (pc_entries c ! g)" for g
        using h by (cases "g = ?h") simp_all
      ultimately obtain frame c' k where
        "sdb_page_cache_clock_evict ?d = Some (frame, c')" "core_inv c'" "same_shape ?d c'" "frame < ?n"
        "pce_valid (pc_entries ?d ! frame)"
        "\<forall>g < ?n. pce_valid (pc_entries c' ! g) \<longleftrightarrow> pce_valid (pc_entries ?d ! g) \<and> g \<noteq> frame"
        "cache_view c' = (cache_view ?d)(k := None)"
        using less.hyps [of ?d] d(1) less.prems(2,3) by auto
      then show ?thesis
        using unfold True valid view d(2) val by (auto simp: same_shape_def)
    next
      case False
      let ?k = "pce_page_id ?e" and ?x = "?e\<lparr>pce_valid := False, pce_page_id := 0\<rparr>"
      have hold: "holds (pc_entries ?c) ?k ?h"
        using h valid by (simp add: holds_def)
      obtain i where i: "sdb_page_cache_find_slot ?c ?k = Some i" "i < length (pc_slots ?c)"
          "pcs_page_id (pc_slots ?c ! i) = ?k" "pcs_entry_index (pc_slots ?c ! i) = ?h"
        using find_slot_core [OF inv hold] by blast
      obtain c' where "sdb_page_cache_slot_delete_at ?c i = Some c'"
          "core_inv (c'\<lparr>pc_entries := (pc_entries c')[?h := ?x]\<rparr>)" "pc_entries c' = pc_entries ?c" "same_shape ?c c'"
          "cache_view (c'\<lparr>pc_entries := (pc_entries c')[?h := ?x]\<rparr>) = (cache_view ?c)(?k := None)"
        using delete_core [OF inv hold i(2-4), of ?x] by auto
      then show ?thesis
        using unfold False valid view i(1) h
        by (intro exI [of _ ?h] exI [of _ "c'\<lparr>pc_entries := (pc_entries c')[?h := ?x]\<rparr>"] exI [of _ ?k])
          (auto simp: same_shape_def nth_list_update)
    qed
  qed
qed

section \<open>The operations\<close>

lemma cache_inv_core:
  "cache_inv c \<longleftrightarrow> core_inv c \<and> length (pc_free_list c) = length (pc_entries c) \<and>
    pc_free_count c \<le> length (pc_entries c) \<and> distinct (free_frames c) \<and>
    set (free_frames c) = {f. f < length (pc_entries c) \<and> \<not> pce_valid (pc_entries c ! f)}"
  by (auto simp: cache_inv_def core_inv_def)

lemma core_slots_nonempty: "core_inv c \<Longrightarrow> pc_slots c \<noteq> [] \<and> pc_capacity c \<noteq> 0"
  by (auto simp: core_inv_def frames_ok_def table_inv_def dest: pow2_pos)

lemma view_entries: "pc_entries c = pc_entries c' \<Longrightarrow> cache_view c = cache_view c'"
  by (simp add: cache_view_def fun_eq_iff)

lemma view_0: "core_inv c \<Longrightarrow> cache_view c 0 = None"
  using view_None_iff [of c 0] holds_nonzero [of "pc_slots c" "pc_entries c" 0] by (auto simp: core_inv_def)

lemma cache_get_spec:
  assumes inv: "cache_inv c" and get: "sdb_page_cache_get c k = (r, c')"
  shows "r = cache_view c k \<and> cache_inv c' \<and> cache_view c' = cache_view c \<and> pc_page_size c' = pc_page_size c"
proof (cases "k = 0")
  case True
  then show ?thesis
    using assms view_0 [of c] by (auto simp: sdb_page_cache_get_def cache_inv_core)
next
  case False
  have core: "core_inv c" and ok: "frames_ok (pc_slots c) (pc_entries c)"
    using inv by (simp_all add: cache_inv_core core_inv_def)
  show ?thesis
  proof (cases "sdb_page_cache_find_slot c k")
    case None
    then show ?thesis
      using find_slot_spec [OF inv False] view_None_iff [OF ok, of k] get inv False core_slots_nonempty [OF core]
      by (auto simp: sdb_page_cache_get_def)
  next
    case (Some i)
    let ?f = "pcs_entry_index (pc_slots c ! i)"
    let ?c = "c\<lparr>pc_entries := (pc_entries c)[?f := (pc_entries c ! ?f)\<lparr>pce_ref := True\<rparr>]\<rparr>"
    have h: "holds (pc_entries c) k ?f"
      using find_slot_spec [OF inv False] Some by simp
    then have f: "?f < length (pc_entries c)" and v: "cache_view c k = Some (pce_bytes (pc_entries c ! ?f))"
      using view_iff [OF ok, of k] by (auto simp: holds_def)
    have val: "pce_valid (pc_entries ?c ! g) = pce_valid (pc_entries c ! g)" for g
      using f by (cases "g = ?f") simp_all
    have "r = cache_view c k" "c' = ?c"
      using get Some False core_slots_nonempty [OF core] v by (auto simp: sdb_page_cache_get_def Let_def)
    moreover have "core_inv ?c \<and> cache_view ?c = cache_view c"
      using set_ref_core [OF core f, of True] by simp
    moreover have "free_frames ?c = free_frames c"
      by (simp add: free_frames_def)
    ultimately show ?thesis
      using inv val by (simp add: cache_inv_core)
  qed
qed

lemma insert_core:
  assumes inv: "core_inv c" and f: "f < length (pc_entries c)" "\<not> pce_valid (pc_entries c ! f)"
    and k: "k \<noteq> 0" "cache_view c k = None" and e: "pce_valid e" "pce_page_id e = k"
  obtains c' where "sdb_page_cache_slot_insert (c\<lparr>pc_entries := (pc_entries c)[f := e]\<rparr>) k f = Some c'"
    "core_inv c'" "pc_entries c' = (pc_entries c)[f := e]" "same_shape c c'"
    "cache_view c' = (cache_view c)(k \<mapsto> pce_bytes e)"
proof -
  let ?n = "length (pc_slots c)" and ?es = "(pc_entries c)[f := e]"
  have ok: "frames_ok (pc_slots c) (pc_entries c)" and m: "pc_slot_mask c = ?n - 1"
    using inv by (simp_all add: core_inv_def)
  have absent: "\<not> holds (pc_entries c) k g" for g
    using view_None_iff [OF ok, of k] k(2) by simp
  obtain r where r: "page_cache_free_probe (pc_slots c) (?n - 1) (sdb_page_cache_home (?n - 1) k) = Some r"
      "frames_ok ((pc_slots c)[r := \<lparr>pcs_page_id = k, pcs_entry_index = f\<rparr>]) ?es"
    using frames_ok_insert [OF ok f k(1) absent e] by blast
  let ?c = "c\<lparr>pc_entries := ?es, pc_slots := (pc_slots c)[r := \<lparr>pcs_page_id = k, pcs_entry_index = f\<rparr>]\<rparr>"
  have "sdb_page_cache_slot_insert (c\<lparr>pc_entries := ?es\<rparr>) k f = Some ?c"
    using r(1) m by (simp add: sdb_page_cache_slot_insert_def)
  moreover have "core_inv ?c"
    using inv r(2) by (simp add: core_inv_def)
  moreover have "cache_view ?c k' = ((cache_view c)(k \<mapsto> pce_bytes e)) k'" for k'
  proof (rule view_eqI)
    fix b
    have "holds ?es k' g \<longleftrightarrow> (if k' = k then g = f else holds (pc_entries c) k' g)" for g
      using f e absent [of g] by (auto simp: holds_def nth_list_update)
    moreover have "?es ! g = pc_entries c ! g" if "holds (pc_entries c) k' g" for g
      using that f(2) by (cases "g = f") (auto simp: holds_def)
    ultimately show "((cache_view c)(k \<mapsto> pce_bytes e)) k' = Some b \<longleftrightarrow>
        (\<exists>g. holds (pc_entries ?c) k' g \<and> pce_bytes (pc_entries ?c ! g) = b)"
      using view_iff [OF ok, of k' b] f(1) by auto
  qed (use r in simp)
  ultimately show thesis
    using that [of ?c] by (simp add: same_shape_def fun_eq_iff)
qed

lemma cache_put_spec:
  assumes inv: "cache_inv c" and k: "k \<noteq> 0" and page: "length page = pc_page_size c"
  shows "\<exists>c' v. sdb_page_cache_put c k page = Some c' \<and> cache_inv c' \<and> pc_page_size c' = pc_page_size c \<and>
    cache_view c' = ((cache_view c)(v := None))(k \<mapsto> page) \<and>
    (cache_view c k \<noteq> None \<or> pc_free_count c > 0 \<longrightarrow> v = k)"
proof -
  have core: "core_inv c" and ok: "frames_ok (pc_slots c) (pc_entries c)"
    using inv by (simp_all add: cache_inv_core core_inv_def)
  note ne = core_slots_nonempty [OF core]
  show ?thesis
  proof (cases "sdb_page_cache_find_slot c k")
    case (Some i)
    let ?f = "pcs_entry_index (pc_slots c ! i)"
    let ?e = "(pc_entries c ! ?f)\<lparr>pce_bytes := page, pce_ref := True\<rparr>"
    let ?c = "c\<lparr>pc_entries := (pc_entries c)[?f := ?e]\<rparr>"
    have h: "holds (pc_entries c) k ?f"
      using find_slot_spec [OF inv k] Some by simp
    then have f: "?f < length (pc_entries c)"
      by (simp add: holds_def)
    have same: "pce_valid (pc_entries ?c ! g) = pce_valid (pc_entries c ! g)"
        "pce_page_id (pc_entries ?c ! g) = pce_page_id (pc_entries c ! g)" for g
      using f by (cases "g = ?f"; simp)+
    have ok': "frames_ok (pc_slots ?c) (pc_entries ?c)"
      using same ok by (simp, intro frames_ok_same [OF ok]) auto
    have "cache_view ?c k' = ((cache_view c)(k \<mapsto> page)) k'" for k'
    proof (rule view_eqI [OF ok'])
      fix b
      have "holds (pc_entries ?c) k' g \<longleftrightarrow> holds (pc_entries c) k' g" for g
        using same [of g] by (simp add: holds_def)
      moreover have "pce_bytes (pc_entries ?c ! g) = (if k' = k then page else pce_bytes (pc_entries c ! g))"
        if "holds (pc_entries c) k' g" for g
        using that f h holds_unique [OF ok h, of g] by (cases "g = ?f") (auto simp: holds_def)
      ultimately show "((cache_view c)(k \<mapsto> page)) k' = Some b \<longleftrightarrow>
          (\<exists>g. holds (pc_entries ?c) k' g \<and> pce_bytes (pc_entries ?c ! g) = b)"
        using view_iff [OF ok, of k' b] h by auto
    qed
    moreover have "free_frames ?c = free_frames c"
      by (simp add: free_frames_def)
    then have "cache_inv ?c"
      using inv ok' same by (simp add: cache_inv_def)
    moreover have "sdb_page_cache_put c k page = Some ?c"
      using Some k ne page by (simp add: sdb_page_cache_put_def Let_def)
    ultimately show ?thesis
      by (intro exI [of _ ?c] exI [of _ k]) (auto simp: fun_eq_iff)
  next
    case None
    then have kn: "cache_view c k = None"
      using find_slot_spec [OF inv k] view_None_iff [OF ok, of k] by simp
    let ?e = "\<lparr>pce_page_id = k, pce_bytes = page, pce_valid = True, pce_ref = False\<rparr>"
    have take: "take (pc_page_size c) page = page"
      using page by simp
    show ?thesis
    proof (cases "pc_free_count c > 0")
      case True
      let ?c = "c\<lparr>pc_free_count := pc_free_count c - 1\<rparr>"
      let ?f = "pc_free_list c ! (pc_free_count c - 1)"
      have fc: "pc_free_count c \<le> length (pc_free_list c)"
        using inv by (simp add: cache_inv_core)
      have split: "free_frames c = free_frames ?c @ [?f]"
        using True fc take_Suc_conv_app_nth [of "pc_free_count c - 1" "pc_free_list c"]
        by (simp add: free_frames_def)
      then have f: "?f < length (pc_entries c)" "\<not> pce_valid (pc_entries c ! ?f)"
        using inv by (auto simp: cache_inv_core set_eq_iff)
      have "core_inv ?c" "cache_view ?c = cache_view c"
        using core by (auto simp: core_inv_def cache_view_def fun_eq_iff)
      then obtain c' where c': "sdb_page_cache_slot_insert (?c\<lparr>pc_entries := (pc_entries ?c)[?f := ?e]\<rparr>) k ?f = Some c'"
          "core_inv c'" "pc_entries c' = (pc_entries ?c)[?f := ?e]" "same_shape ?c c'"
          "cache_view c' = (cache_view c)(k \<mapsto> page)"
        using insert_core [of ?c ?f k ?e] f k kn by auto
      have "free_frames c' = free_frames ?c"
        using c'(4) by (simp add: free_frames_def same_shape_def)
      moreover have "distinct (free_frames c)" "set (free_frames c) = {g. g < length (pc_entries c) \<and> \<not> pce_valid (pc_entries c ! g)}"
        using inv by (simp_all add: cache_inv_core)
      then have "distinct (free_frames ?c)"
          "set (free_frames ?c) = {g. g < length (pc_entries c) \<and> \<not> pce_valid (pc_entries c ! g)} - {?f}"
        unfolding split by auto
      moreover have "{g. g < length (pc_entries c) \<and> \<not> pce_valid (pc_entries c' ! g)} =
          {g. g < length (pc_entries c) \<and> \<not> pce_valid (pc_entries c ! g)} - {?f}"
        using c'(3) f by (auto simp: nth_list_update)
      moreover have "pc_free_count c \<le> length (pc_entries c)"
        using inv by (simp add: cache_inv_core)
      then have "length (pc_entries c') = length (pc_entries c)" "pc_free_list c' = pc_free_list c"
          "pc_free_count c' \<le> length (pc_entries c)"
        using c'(4) by (simp_all add: same_shape_def)
      ultimately have "cache_inv c'"
        using c'(2) inv by (simp add: cache_inv_core)
      moreover have "sdb_page_cache_put c k page = Some c'"
        using None k ne take True c'(1) by (simp add: sdb_page_cache_put_def)
      ultimately show ?thesis
        using c'(4,5) by (intro exI [of _ c'] exI [of _ k]) (auto simp: same_shape_def fun_eq_iff)
    next
      case False
      then have all: "pce_valid (pc_entries c ! g)" if "g < length (pc_entries c)" for g
        using inv that by (auto simp: cache_inv_core free_frames_def)
      have "pc_clock_hand c < length (pc_entries c)"
        using core by (simp add: core_inv_def)
      from evict_spec [OF core this all [OF this]] obtain f d v where
        ev: "sdb_page_cache_clock_evict c = Some (f, d)" "core_inv d" "same_shape c d" "f < length (pc_entries c)"
          "\<forall>g < length (pc_entries c). pce_valid (pc_entries d ! g) \<longleftrightarrow> pce_valid (pc_entries c ! g) \<and> g \<noteq> f"
          "cache_view d = (cache_view c)(v := None)"
        by blast
      have f: "f < length (pc_entries d)" "\<not> pce_valid (pc_entries d ! f)" "cache_view d k = None"
        using ev kn by (auto simp: same_shape_def)
      obtain c' where c': "sdb_page_cache_slot_insert (d\<lparr>pc_entries := (pc_entries d)[f := ?e]\<rparr>) k f = Some c'"
          "core_inv c'" "pc_entries c' = (pc_entries d)[f := ?e]" "same_shape d c'"
          "cache_view c' = (cache_view d)(k \<mapsto> page)"
        using insert_core [OF ev(2) f(1,2) k f(3), of ?e] by auto
      have "pce_valid (pc_entries c' ! g)" if "g < length (pc_entries c)" for g
        using that c'(3) ev(3,5) all by (cases "g = f") (auto simp: same_shape_def)
      then have "cache_inv c'"
        using c'(2,4) ev(3) inv False by (auto simp: cache_inv_core same_shape_def free_frames_def)
      moreover have "sdb_page_cache_put c k page = Some c'"
        using None k ne take False ev(1,3) c'(1) by (simp add: sdb_page_cache_put_def same_shape_def)
      ultimately show ?thesis
        using c'(4,5) ev(3,6) kn False by (intro exI [of _ c'] exI [of _ v]) (auto simp: same_shape_def)
    qed
  qed
qed

lemma cache_remove_spec:
  assumes inv: "cache_inv c"
  shows "\<exists>c'. sdb_page_cache_remove c k = Some c' \<and> cache_inv c' \<and> pc_page_size c' = pc_page_size c \<and>
    cache_view c' = (cache_view c)(k := None)"
proof (cases "k = 0")
  case True
  then show ?thesis
    using inv view_0 [of c] by (auto simp: sdb_page_cache_remove_def cache_inv_core fun_eq_iff)
next
  case k: False
  have core: "core_inv c" and ok: "frames_ok (pc_slots c) (pc_entries c)"
    using inv by (simp_all add: cache_inv_core core_inv_def)
  note ne = core_slots_nonempty [OF core]
  show ?thesis
  proof (cases "sdb_page_cache_find_slot c k")
    case None
    then have "cache_view c k = None"
      using find_slot_spec [OF inv k] view_None_iff [OF ok, of k] by simp
    then show ?thesis
      using None k ne inv by (auto simp: sdb_page_cache_remove_def fun_eq_iff)
  next
    case (Some i)
    let ?f = "pcs_entry_index (pc_slots c ! i)"
    let ?e = "(pc_entries c ! ?f)\<lparr>pce_valid := False, pce_ref := False, pce_page_id := 0\<rparr>"
    have i: "i < length (pc_slots c)" "pcs_page_id (pc_slots c ! i) = k" "holds (pc_entries c) k ?f"
      using find_slot_spec [OF inv k] Some by simp_all
    obtain d where d: "sdb_page_cache_slot_delete_at c i = Some d"
        "core_inv (d\<lparr>pc_entries := (pc_entries d)[?f := ?e]\<rparr>)" "pc_entries d = pc_entries c" "same_shape c d"
        "cache_view (d\<lparr>pc_entries := (pc_entries d)[?f := ?e]\<rparr>) = (cache_view c)(k := None)"
      using delete_core [OF core i(3,1,2) refl, of ?e] by auto
    let ?c = "d\<lparr>pc_entries := (pc_entries d)[?f := ?e], pc_free_list := (pc_free_list d)[pc_free_count d := ?f],
        pc_free_count := pc_free_count d + 1\<rparr>"
    have f: "?f < length (pc_entries c)" "pce_valid (pc_entries c ! ?f)"
      using i(3) by (simp_all add: holds_def)
    have "length (free_frames c) = pc_free_count c"
      using inv by (simp add: cache_inv_core free_frames_def)
    then have "pc_free_count c = card {g. g < length (pc_entries c) \<and> \<not> pce_valid (pc_entries c ! g)}"
      using inv distinct_card [of "free_frames c"] by (simp add: cache_inv_core)
    also have "\<dots> < card {g. g < length (pc_entries c)}"
      using f by (intro psubset_card_mono) auto
    finally have room: "pc_free_count c < length (pc_entries c)"
      by simp
    have ff: "free_frames ?c = free_frames c @ [?f]"
      using d(4) room inv by (simp add: free_frames_def same_shape_def take_Suc_conv_app_nth cache_inv_core)
    have "core_inv ?c" "cache_view ?c = (cache_view c)(k := None)"
      using d(2,5) view_entries [of ?c "d\<lparr>pc_entries := (pc_entries d)[?f := ?e]\<rparr>"]
      by (simp_all add: core_inv_def)
    moreover have "distinct (free_frames ?c)"
      unfolding ff using inv f by (auto simp: cache_inv_core)
    moreover have "set (free_frames ?c) = {g. g < length (pc_entries ?c) \<and> \<not> pce_valid (pc_entries ?c ! g)}"
      unfolding ff using inv f d(3) by (auto simp: cache_inv_core nth_list_update)
    ultimately have "cache_inv ?c"
      using inv d(3,4) room by (simp add: cache_inv_core same_shape_def)
    moreover have "sdb_page_cache_remove c k = Some ?c"
      using Some k ne d(1,3) by (simp add: sdb_page_cache_remove_def Let_def)
    ultimately show ?thesis
      using \<open>cache_view ?c = (cache_view c)(k := None)\<close> d(4) by (auto simp: same_shape_def)
  qed
qed

lemma slot_capacity_spec:
  "0 < n \<Longrightarrow> pow2 n \<Longrightarrow> n < capacity * 4 \<Longrightarrow>
    \<exists>m. slot_capacity_for n capacity = Some m \<and> pow2 m \<and> capacity * 2 \<le> m \<and> m < capacity * 4"
proof (induction "capacity * 4 - n" arbitrary: n rule: less_induct)
  case less
  show ?case
  proof (cases "n < capacity * 2")
    case True
    have "pow2 (n * 2)"
      using less.prems(2) unfolding pow2_def by (metis power_Suc2)
    then have "\<exists>m. slot_capacity_for (n * 2) capacity = Some m \<and> pow2 m \<and> capacity * 2 \<le> m \<and> m < capacity * 4"
      using less.hyps [of "n * 2"] less.prems True by simp
    then show ?thesis
      using True by (subst slot_capacity_for.simps) simp
  next
    case False
    then show ?thesis
      using less.prems by (subst slot_capacity_for.simps) simp
  qed
qed

lemma cache_init_spec:
  "sdb_page_cache_init malloc_ok capacity page_size \<noteq> None \<and>
    (sdb_page_cache_init malloc_ok capacity page_size = Some (Inr c) \<longrightarrow>
      cache_inv c \<and> cache_view c = Map.empty \<and> pc_page_size c = page_size \<and> pc_capacity c = capacity)"
proof (cases "capacity = 0 \<or> page_size = 0 \<or> capacity > SIZE_MAX div 4")
  case True
  then show ?thesis
    by (auto simp: sdb_page_cache_init_def)
next
  case False
  have "pow2 1"
    unfolding pow2_def by (rule exI [of _ 0]) simp
  then obtain m where m: "slot_capacity_for 1 capacity = Some m" "pow2 m" "capacity * 2 \<le> m" "m < capacity * 4"
    using slot_capacity_spec [of 1 capacity] False by auto
  have m64: "m \<le> 2 ^ 64"
    using m(4) False by (simp add: SIZE_MAX_def)
  let ?slots = "replicate m \<lparr>pcs_page_id = 0, pcs_entry_index = 0\<rparr>"
  let ?es = "replicate capacity \<lparr>pce_page_id = 0, pce_bytes = zeros page_size, pce_valid = False, pce_ref = False\<rparr>"
  have "table_inv ?slots"
    using m(2) m64 by (simp add: table_inv_def chained_except_def unique_ids_def)
  then have ok: "frames_ok ?slots ?es"
    using False m(3) by (auto simp: frames_ok_def slot_entry_def holds_def)
  have free: "set (map (\<lambda>index. capacity - 1 - index) [0..<capacity]) = {..<capacity}"
    "distinct (map (\<lambda>index. capacity - 1 - index) [0..<capacity])"
  proof -
    have "map (\<lambda>index. capacity - 1 - index) [0..<capacity] = rev [0..<capacity]"
      by (rule nth_equalityI) (simp_all add: rev_nth)
    then show "set (map (\<lambda>index. capacity - 1 - index) [0..<capacity]) = {..<capacity}"
        "distinct (map (\<lambda>index. capacity - 1 - index) [0..<capacity])"
      by auto
  qed
  show ?thesis
  proof (intro conjI impI)
    show "sdb_page_cache_init malloc_ok capacity page_size \<noteq> None"
      using m(1) by (simp add: sdb_page_cache_init_def)
    assume "sdb_page_cache_init malloc_ok capacity page_size = Some (Inr c)"
    then have c: "c = \<lparr>pc_entries = ?es, pc_slots = ?slots,
        pc_free_list = map (\<lambda>index. capacity - 1 - index) [0..<capacity], pc_capacity = capacity,
        pc_slot_capacity = m, pc_slot_mask = m - 1, pc_free_count = capacity, pc_clock_hand = 0,
        pc_page_size = page_size\<rparr>"
      using m(1) by (auto simp: sdb_page_cache_init_def split: if_splits)
    show "cache_inv c"
      using ok False free by (auto simp: c cache_inv_def free_frames_def)
    show "cache_view c = Map.empty"
      by (auto simp: c cache_view_def fun_eq_iff find_None_iff)
    show "pc_page_size c = page_size" "pc_capacity c = capacity"
      by (simp_all add: c)
  qed
qed

section \<open>The contract the pager relies on\<close>

text \<open>
  A cache may forget pages, but it never invents one: what a lookup returns is
  what the cache holds, and an insertion changes the inserted id and drops at
  most one other. A client that inserts every page it reads or writes and removes
  every page it invalidates therefore only ever sees current pages.
\<close>

locale lossy_cache =
  fixes inv :: "'c \<Rightarrow> bool"
    and view :: "'c \<Rightarrow> u64 \<Rightarrow> 'p option"
    and get :: "'c \<Rightarrow> u64 \<Rightarrow> 'p option \<times> 'c"
    and put :: "'c \<Rightarrow> u64 \<Rightarrow> 'p \<Rightarrow> 'c option"
    and remove :: "'c \<Rightarrow> u64 \<Rightarrow> 'c option"
    and page_ok :: "'c \<Rightarrow> 'p \<Rightarrow> bool"
  assumes get_view: "inv c \<Longrightarrow> get c k = (r, c') \<Longrightarrow> r = view c k \<and> inv c' \<and> view c' = view c"
    and put_view: "inv c \<Longrightarrow> k \<noteq> 0 \<Longrightarrow> page_ok c p \<Longrightarrow>
      \<exists>c' v. put c k p = Some c' \<and> inv c' \<and> view c' = ((view c)(v := None))(k \<mapsto> p)"
    and remove_view: "inv c \<Longrightarrow> \<exists>c'. remove c k = Some c' \<and> inv c' \<and> view c' = (view c)(k := None)"
begin

lemma coherent_get: "inv c \<Longrightarrow> view c \<subseteq>\<^sub>m t \<Longrightarrow> get c k = (r, c') \<Longrightarrow> (r = None \<or> r = t k) \<and> inv c' \<and> view c' \<subseteq>\<^sub>m t"
proof -
  assume c: "inv c" "view c \<subseteq>\<^sub>m t" "get c k = (r, c')"
  have "view c k = None \<or> view c k = t k"
  proof (cases "view c k")
    case (Some p)
    then have "k \<in> dom (view c)"
      by blast
    then show ?thesis
      using c(2) by (simp add: map_le_def)
  qed simp
  then show ?thesis
    using get_view [OF c(1,3)] c(2) by simp
qed

lemma coherent_put:
  "inv c \<Longrightarrow> view c \<subseteq>\<^sub>m t \<Longrightarrow> k \<noteq> 0 \<Longrightarrow> page_ok c p \<Longrightarrow> put c k p = Some c' \<Longrightarrow>
    inv c' \<and> view c' \<subseteq>\<^sub>m t(k \<mapsto> p) \<and> view c' k = Some p"
proof -
  assume c: "inv c" "view c \<subseteq>\<^sub>m t" "k \<noteq> 0" "page_ok c p" "put c k p = Some c'"
  then obtain v where v: "inv c'" "view c' = ((view c)(v := None))(k \<mapsto> p)"
    using put_view [of c k p] by auto
  have "(view c)(v := None) \<subseteq>\<^sub>m t"
    using upd_None_map_le c(2) by (rule map_le_trans)
  then show ?thesis
    using v map_le_upd [of "(view c)(v := None)" t k "Some p"] by simp
qed

lemma coherent_remove: "inv c \<Longrightarrow> view c \<subseteq>\<^sub>m t \<Longrightarrow> remove c k = Some c' \<Longrightarrow> inv c' \<and> view c' \<subseteq>\<^sub>m t(k := None)"
proof -
  assume "inv c" "view c \<subseteq>\<^sub>m t" "remove c k = Some c'"
  then show ?thesis
    using remove_view [of c k] map_le_upd [of "view c" t k None] by simp
qed

end

interpretation pc: lossy_cache cache_inv cache_view sdb_page_cache_get sdb_page_cache_put sdb_page_cache_remove
  "\<lambda>c p. length p = pc_page_size c"
proof unfold_locales
  fix c k and p :: bytes
  assume inv: "cache_inv c"
  show "\<exists>c'. sdb_page_cache_remove c k = Some c' \<and> cache_inv c' \<and> cache_view c' = (cache_view c)(k := None)"
    using cache_remove_spec [OF inv] by metis
  show "r = cache_view c k \<and> cache_inv c' \<and> cache_view c' = cache_view c" if "sdb_page_cache_get c k = (r, c')" for r c'
    using cache_get_spec [OF inv that] by simp
  show "\<exists>c' v. sdb_page_cache_put c k p = Some c' \<and> cache_inv c' \<and>
      cache_view c' = ((cache_view c)(v := None))(k \<mapsto> p)" if "k \<noteq> 0" "length p = pc_page_size c"
    using cache_put_spec [OF inv that] by metis
qed

text \<open>
  A run of a cache against the true contents of the pages: \<open>t\<close> is what was last
  inserted for each id and not removed since.
\<close>

inductive cache_run :: "(nat \<Rightarrow> bool) \<Rightarrow> nat \<Rightarrow> sdb_page_cache \<Rightarrow> (u64 \<Rightarrow> bytes option) \<Rightarrow> bool" for malloc_ok page_size where
  cache_run_init: "sdb_page_cache_init malloc_ok capacity page_size = Some (Inr c) \<Longrightarrow>
    cache_run malloc_ok page_size c Map.empty"
| cache_run_get: "cache_run malloc_ok page_size c t \<Longrightarrow> sdb_page_cache_get c k = (r, c') \<Longrightarrow>
    cache_run malloc_ok page_size c' t"
| cache_run_put: "cache_run malloc_ok page_size c t \<Longrightarrow> k \<noteq> 0 \<Longrightarrow> length page = page_size \<Longrightarrow>
    sdb_page_cache_put c k page = Some c' \<Longrightarrow> cache_run malloc_ok page_size c' (t(k \<mapsto> page))"
| cache_run_remove: "cache_run malloc_ok page_size c t \<Longrightarrow> sdb_page_cache_remove c k = Some c' \<Longrightarrow>
    cache_run malloc_ok page_size c' (t(k := None))"

lemma cache_run_inv:
  "cache_run malloc_ok page_size c t \<Longrightarrow> cache_inv c \<and> cache_view c \<subseteq>\<^sub>m t \<and> pc_page_size c = page_size"
proof (induction rule: cache_run.induct)
  case (cache_run_init capacity c)
  then show ?case
    using cache_init_spec [of malloc_ok capacity page_size c] by simp
next
  case (cache_run_get c t k r c')
  then show ?case
    using pc.coherent_get [of c t k r c'] cache_get_spec [of c k r c'] by simp
next
  case (cache_run_put c t k page c')
  then show ?case
    using pc.coherent_put [of c t k page c'] cache_put_spec [of c k page] by (auto simp del: fun_upd_apply)
next
  case (cache_run_remove c t k c')
  then show ?case
    using pc.coherent_remove [of c t k c'] cache_remove_spec [of c k] by (auto simp del: fun_upd_apply)
qed

section \<open>Properties\<close>

text \<open>
  C24: The page cache is coherent. In every state reached from initialisation by
  lookups, insertions and removals, a hit returns the page last inserted for the
  id and not removed since; a page just inserted is a hit; and insertion and
  removal always end, whatever eviction and slot shifting they need.
\<close>

theorem page_cache_coherent:
  assumes "cache_run malloc_ok page_size c t"
  shows "(fst (sdb_page_cache_get c k) = None \<or> fst (sdb_page_cache_get c k) = t k) \<and>
    (k \<noteq> 0 \<and> length page = page_size \<longrightarrow>
      (\<exists>c'. sdb_page_cache_put c k page = Some c' \<and> fst (sdb_page_cache_get c' k) = Some page)) \<and>
    (\<exists>c'. sdb_page_cache_remove c k = Some c' \<and> fst (sdb_page_cache_get c' k) = None)"
proof -
  have inv: "cache_inv c" and le: "cache_view c \<subseteq>\<^sub>m t" and size: "pc_page_size c = page_size"
    using cache_run_inv [OF assms] by simp_all
  have hit: "fst (sdb_page_cache_get d j) = cache_view d j" if "cache_inv d" for d j
    using cache_get_spec [OF that] by (metis prod.collapse)
  have "cache_view c k = None \<or> cache_view c k = t k"
    using le by (auto simp: map_le_def dom_def)
  then show ?thesis
    using inv hit cache_put_spec [OF inv, of k page] cache_remove_spec [OF inv, of k] size by auto
qed

text \<open>
  Inserting into the cache evicts at most one page, and none while a frame is
  free or the page is already cached.
\<close>

theorem page_cache_evicts_one:
  assumes "cache_inv c" "k \<noteq> 0" "length page = pc_page_size c"
  shows "\<exists>c' victim. sdb_page_cache_put c k page = Some c' \<and> cache_inv c' \<and>
    cache_view c' = ((cache_view c)(victim := None))(k \<mapsto> page) \<and>
    (cache_view c k \<noteq> None \<or> pc_free_count c > 0 \<longrightarrow> victim = k)"
proof -
  obtain c' v where "sdb_page_cache_put c k page = Some c'" "cache_inv c'"
    "cache_view c' = ((cache_view c)(v := None))(k \<mapsto> page)"
    "cache_view c k \<noteq> None \<or> pc_free_count c > 0 \<longrightarrow> v = k"
    using cache_put_spec [OF assms] by metis
  then show ?thesis
    by (intro exI [of _ c'] exI [of _ v] conjI)
qed

lemma example_cache:
  obtains c where "sdb_page_cache_init (\<lambda>_. True) 2 3 = Some (Inr c)" "cache_inv c" "pc_page_size c = 3"
proof -
  have "slot_capacity_for 1 2 = Some 4"
    by (subst slot_capacity_for.simps, simp, subst slot_capacity_for.simps, simp, subst slot_capacity_for.simps, simp)
  then obtain c where c: "sdb_page_cache_init (\<lambda>_. True) 2 3 = Some (Inr c)"
    by (simp add: sdb_page_cache_init_def SIZE_MAX_def sizeof_page_cache_entry_def sizeof_page_cache_slot_def
        sizeof_size_t_def)
  then show thesis
    using that cache_init_spec [of "\<lambda>_. True" 2 3 c] by blast
qed

theorem page_cache_coherent_witness:
  "\<exists>c. cache_run (\<lambda>_. True) 3 c Map.empty \<and>
    (\<exists>c'. sdb_page_cache_put c 7 [1, 2, 3] = Some c' \<and> fst (sdb_page_cache_get c' 7) = Some [1, 2, 3])"
proof (rule example_cache)
  fix c assume "sdb_page_cache_init (\<lambda>_. True) 2 3 = Some (Inr c)"
  then have run: "cache_run (\<lambda>_. True) 3 c Map.empty"
    by (rule cache_run_init)
  then show ?thesis
    using page_cache_coherent [OF run, of 7 "[1, 2, 3]"] by auto
qed

theorem page_cache_evicts_one_witness:
  "\<exists>c c' victim. cache_inv c \<and> sdb_page_cache_put c 7 [1, 2, 3] = Some c' \<and>
    cache_view c' = ((cache_view c)(victim := None))(7 \<mapsto> [1, 2, 3])"
proof (rule example_cache)
  fix c assume "cache_inv c" "pc_page_size c = 3"
  then show ?thesis
    using page_cache_evicts_one [of c 7 "[1, 2, 3]"] by auto
qed

end
