(* ===== verification/Key_Manager.thy ===== *)
theory Key_Manager
  imports Superblock Chacha
begin

text \<open>
  The key manager of \<open>src/key_manager.c\<close>: the data key of an encrypted database is
  sealed in the superblock under a key derived from the password, bound to the
  file id, the salt and the parameters of the superblock.
\<close>

section \<open>Model\<close>

definition sdb_key_wrap_nonce :: "sdb_superblock_v1 \<Rightarrow> bytes" where
  "sdb_key_wrap_nonce sb =
    (let nonce = blit 0 (file_id sb) (zeros 24)
     in sdb_write_u64_le nonce 16 (ucast (key_wrap_id sb)))"

definition sdb_key_wrap_aad :: "sdb_superblock_v1 \<Rightarrow> bytes" where
  "sdb_key_wrap_aad sb =
    (let aad = zeros 48;
         aad = blit 0 (file_id sb) aad;
         aad = blit 16 (salt sb) aad;
         aad = sdb_write_u32_le aad 32 (page_size sb);
         aad = sdb_write_u32_le aad 36 (flags sb);
         aad = sdb_write_u32_le aad 40 (key_wrap_id sb)
     in sdb_write_u32_le aad 44 (kdf_iterations sb))"

definition key_args_bad :: "sdb_superblock_v1 \<Rightarrow> bytes \<Rightarrow> bool" where
  "key_args_bad sb password \<longleftrightarrow>
    length password = 0 \<or> flags sb AND SDB_FLAG_ENCRYPTED = 0 \<or> key_wrap_id sb = 0
    \<or> kdf_iterations sb < SDB_MIN_KDF_ITERATIONS \<or> kdf_iterations sb > SDB_MAX_KDF_ITERATIONS"

definition sdb_key_wrap :: "(nat \<Rightarrow> bool) \<Rightarrow> bool \<Rightarrow> sdb_superblock_v1 \<Rightarrow> bytes \<Rightarrow> bytes \<Rightarrow> sdb_superblock_v1 result" where
  "sdb_key_wrap malloc_ok avx2 sb password data_key =
    (if key_args_bad sb password then Inl SDB_E_INVALID_ARGUMENT
     else rbind (sdb_pbkdf2_hmac_sha256 malloc_ok password (salt sb) (kdf_iterations sb) 32) (\<lambda>wrapping_key.
          rbind (sdb_xchacha20poly1305_encrypt avx2 wrapping_key (sdb_key_wrap_nonce sb) (sdb_key_wrap_aad sb) data_key)
            (\<lambda>(sealed, tag). Inr (sb\<lparr>wrapped_key := sealed, key_wrap_tag := tag\<rparr>))))"

definition sdb_key_unwrap :: "(nat \<Rightarrow> bool) \<Rightarrow> bool \<Rightarrow> sdb_superblock_v1 \<Rightarrow> bytes \<Rightarrow> bytes result" where
  "sdb_key_unwrap malloc_ok avx2 sb password =
    (if key_args_bad sb password then Inl SDB_E_INVALID_ARGUMENT
     else rbind (sdb_pbkdf2_hmac_sha256 malloc_ok password (salt sb) (kdf_iterations sb) 32) (\<lambda>wrapping_key.
          case sdb_xchacha20poly1305_decrypt avx2 wrapping_key (sdb_key_wrap_nonce sb) (sdb_key_wrap_aad sb)
                 (wrapped_key sb) (key_wrap_tag sb) of
            Inl e \<Rightarrow> Inl (if e = SDB_E_CORRUPT then SDB_E_AUTHENTICATION else e)
          | Inr data_key \<Rightarrow> Inr data_key))"

section \<open>Lemmas\<close>

text \<open>Sealing does not depend on the fields it fills in.\<close>

lemma key_wrap_bindings [simp]:
  "sdb_key_wrap_nonce (sb\<lparr>wrapped_key := w, key_wrap_tag := t\<rparr>) = sdb_key_wrap_nonce sb"
  "sdb_key_wrap_aad (sb\<lparr>wrapped_key := w, key_wrap_tag := t\<rparr>) = sdb_key_wrap_aad sb"
  "key_args_bad (sb\<lparr>wrapped_key := w, key_wrap_tag := t\<rparr>) password = key_args_bad sb password"
  by (simp_all add: sdb_key_wrap_nonce_def sdb_key_wrap_aad_def key_args_bad_def)

lemma update_self_iff: "sb\<lparr>wrapped_key := w, key_wrap_tag := t\<rparr> = sb \<longleftrightarrow> w = wrapped_key sb \<and> t = key_wrap_tag sb"
  by (cases sb) auto

lemma unwrap_iff_wrap:
  assumes "superblock_arrays sb"
  shows "sdb_key_unwrap malloc_ok avx2 sb password = Inr data_key \<longleftrightarrow> sdb_key_wrap malloc_ok avx2' sb password data_key = Inr sb"
proof -
  have t: "length (key_wrap_tag sb) = 16"
    using assms by (simp add: superblock_arrays_def)
  show ?thesis
  proof (cases "key_args_bad sb password")
    case ok: False
    show ?thesis
    proof (cases "sdb_pbkdf2_hmac_sha256 malloc_ok password (salt sb) (kdf_iterations sb) 32")
      case (Inr k)
      let ?enc = "sdb_xchacha20poly1305_encrypt avx2' k (sdb_key_wrap_nonce sb) (sdb_key_wrap_aad sb) data_key"
      have "sdb_key_unwrap malloc_ok avx2 sb password = Inr data_key \<longleftrightarrow> ?enc = Inr (wrapped_key sb, key_wrap_tag sb)"
        unfolding decrypt_iff_encrypt [OF t, of avx2 k "sdb_key_wrap_nonce sb" "sdb_key_wrap_aad sb" "wrapped_key sb" data_key avx2', symmetric]
        using ok Inr by (simp add: sdb_key_unwrap_def split: sum.split)
      also have "\<dots> \<longleftrightarrow> sdb_key_wrap malloc_ok avx2' sb password data_key = Inr sb"
        using ok Inr by (cases ?enc) (auto simp: sdb_key_wrap_def update_self_iff)
      finally show ?thesis .
    qed (simp add: sdb_key_unwrap_def sdb_key_wrap_def)
  qed (simp add: sdb_key_unwrap_def sdb_key_wrap_def)
qed

lemma wrap_cases:
  assumes "sdb_key_wrap malloc_ok avx2 sb0 password data_key = Inr sb"
  obtains k c t where "\<not> key_args_bad sb0 password"
    and "sdb_pbkdf2_hmac_sha256 malloc_ok password (salt sb0) (kdf_iterations sb0) 32 = Inr k"
    and "sdb_xchacha20poly1305_encrypt avx2 k (sdb_key_wrap_nonce sb0) (sdb_key_wrap_aad sb0) data_key = Inr (c, t)"
    and "sb = sb0\<lparr>wrapped_key := c, key_wrap_tag := t\<rparr>"
  using assms by (auto simp: sdb_key_wrap_def rbind_eq_Inr split: if_splits)

lemma wrap_again:
  assumes "sdb_key_wrap malloc_ok avx2 sb0 password data_key = Inr sb"
  shows "sdb_key_wrap malloc_ok avx2 sb password data_key = Inr sb"
  by (rule wrap_cases [OF assms]) (simp add: sdb_key_wrap_def)

lemma wrap_arrays:
  assumes "sdb_key_wrap malloc_ok avx2 sb0 password data_key = Inr sb" "superblock_arrays sb0" "length data_key = 32"
  shows "superblock_arrays sb"
  using assms(2,3) by (rule_tac wrap_cases [OF assms(1)]) (auto simp: superblock_arrays_def dest: xc.seal_lengths)

lemma pbkdf2_not_corrupt: "sdb_pbkdf2_hmac_sha256 malloc_ok password slt iterations 32 \<noteq> Inl SDB_E_CORRUPT"
  using pbkdf2_loop_result [of 1 32 password slt iterations "[]"] by (simp add: sdb_pbkdf2_hmac_sha256_def)

text \<open>Where a failure to unwrap comes from.\<close>

lemma unwrap_error:
  assumes "superblock_arrays sb" "sdb_key_unwrap malloc_ok avx2 sb password = Inl e"
  shows "e = (if key_args_bad sb password then SDB_E_INVALID_ARGUMENT
    else case sdb_pbkdf2_hmac_sha256 malloc_ok password (salt sb) (kdf_iterations sb) 32 of
      Inl e' \<Rightarrow> e' | Inr _ \<Rightarrow> SDB_E_AUTHENTICATION)"
proof -
  have "length (wrapped_key sb) = 32"
    using assms(1) by (simp add: superblock_arrays_def)
  then have "sdb_xchacha20poly1305_decrypt avx2 k n a (wrapped_key sb) t = Inl e' \<Longrightarrow> e' = SDB_E_CORRUPT" for k n a t e'
    by (auto simp: sdb_xchacha20poly1305_decrypt_def UINT32_MAX_def Let_def split: prod.splits if_splits)
  then show ?thesis
    using assms(2) by (auto simp: sdb_key_unwrap_def split: if_splits sum.splits)
qed

section \<open>Properties\<close>

text \<open>
  C29: Unwrapping a superblock's key returns a data key exactly when wrapping that
  data key under the same password reproduces the superblock's wrapped key and
  tag, so a key that was wrapped is recovered and no other password or altered
  superblock field yields a key that was not wrapped under it. Once the arguments are
  valid and the wrapping key is derived, the only failure is the authentication error,
  and corruption is never reported.
\<close>

theorem key_unwrap_iff_wrap:
  assumes "superblock_arrays sb"
  shows "(sdb_key_unwrap malloc_ok avx2 sb password = Inr data_key \<longleftrightarrow>
      sdb_key_wrap malloc_ok avx2' sb password data_key = Inr sb)
    \<and> (\<forall>e. sdb_key_unwrap malloc_ok avx2 sb password = Inl e \<longrightarrow>
        e = (if key_args_bad sb password then SDB_E_INVALID_ARGUMENT
             else case sdb_pbkdf2_hmac_sha256 malloc_ok password (salt sb) (kdf_iterations sb) 32 of
               Inl e' \<Rightarrow> e' | Inr _ \<Rightarrow> SDB_E_AUTHENTICATION))
    \<and> sdb_key_unwrap malloc_ok avx2 sb password \<noteq> Inl SDB_E_CORRUPT"
proof (intro conjI allI impI)
  show "sdb_key_unwrap malloc_ok avx2 sb password = Inr data_key \<longleftrightarrow> sdb_key_wrap malloc_ok avx2' sb password data_key = Inr sb"
    by (rule unwrap_iff_wrap [OF assms])
  show "sdb_key_unwrap malloc_ok avx2 sb password \<noteq> Inl SDB_E_CORRUPT"
    using pbkdf2_not_corrupt [of malloc_ok password "salt sb" "kdf_iterations sb"]
    by (cases "sdb_pbkdf2_hmac_sha256 malloc_ok password (salt sb) (kdf_iterations sb) 32")
      (auto simp: sdb_key_unwrap_def split: sum.splits)
qed (rule unwrap_error [OF assms])

definition example_encrypted_superblock :: sdb_superblock_v1 where
  "example_encrypted_superblock = \<lparr>page_size = 4096, flags = 1, generation = 1, checkpoint_lsn = 0, root_page = 0,
     freelist_page = 0, next_page_id = 1, key_wrap_id = 1, kdf_iterations = 600000, salt = replicate 16 1,
     file_id = replicate 16 2, wrapped_key = zeros 32, key_wrap_tag = zeros 16\<rparr>"

theorem key_unwrap_iff_wrap_witness:
  "\<exists>sb. sdb_key_wrap (\<lambda>_. True) False example_encrypted_superblock [9] (zeros 32) = Inr sb \<and> superblock_arrays sb \<and>
     sdb_key_unwrap (\<lambda>_. True) True sb [9] = Inr (zeros 32)"
proof -
  let ?sb = example_encrypted_superblock
  have "\<exists>out. sdb_pbkdf2_hmac_sha256 (\<lambda>_. True) [9] (salt ?sb) (kdf_iterations ?sb) 32 = Inr out"
    using pbkdf2_loop_result [of 1 32 "[9]" "salt ?sb" "kdf_iterations ?sb" "[]"]
    by (simp add: sdb_pbkdf2_hmac_sha256_def example_encrypted_superblock_def SIZE_MAX_def)
  moreover have "\<not> key_args_bad ?sb [9]"
    by (simp add: key_args_bad_def example_encrypted_superblock_def SDB_FLAG_ENCRYPTED_def SDB_MIN_KDF_ITERATIONS_def SDB_MAX_KDF_ITERATIONS_def)
  moreover have "\<exists>c t. sdb_xchacha20poly1305_encrypt False k n a (zeros 32) = Inr (c, t)" for k n a
    using xc.seal_total [of "zeros 32"] by (fastforce simp: UINT32_MAX_def)
  ultimately have "\<exists>sb. sdb_key_wrap (\<lambda>_. True) False ?sb [9] (zeros 32) = Inr sb"
    by (fastforce simp: sdb_key_wrap_def rbind_eq_Inr)
  then obtain sb where sb: "sdb_key_wrap (\<lambda>_. True) False ?sb [9] (zeros 32) = Inr sb" ..
  have arrays: "superblock_arrays sb"
    by (rule wrap_arrays [OF sb]) (simp_all add: superblock_arrays_def example_encrypted_superblock_def)
  show ?thesis
    using key_unwrap_iff_wrap [OF arrays] wrap_again [OF sb] sb arrays by blast
qed

end
