(* ===== verification/Pager.thy ===== *)
theory Pager
  imports Store_Path Wal_Legacy Replace Wal_Index Page_Cache Key_Manager
begin

text \<open>
  The pager of \<open>src/pager.c\<close>: the open database file, the log beside it, the index
  of the pages that live in the log, the page cache, and the in-memory superblock.
  This theory holds its state and the operations outside transactions. The state is
  the structure \<open>sdb_pager\<close> with the directory that holds the log; the open database
  file is part of the structure, as in the code, with the file number it was opened
  under, and its system calls have a script of their own. Operations that go through the hash tables have \<open>option\<close> results,
  \<open>None\<close> meaning that a probe did not end.
\<close>

section \<open>Model\<close>

text \<open>
  What the operations draw from their surroundings: whether the \<open>n\<close>-th memory
  request of an operation succeeds, the vector unit, random bytes, the outcomes of
  the system calls on a database file that is opened, and whether the two locks of the
  commit coordinator can be made.
\<close>

record sdb_env =
  env_malloc :: "nat \<Rightarrow> nat \<Rightarrow> bool"
  env_avx2 :: bool
  env_random :: "nat \<Rightarrow> bytes result"
  env_script :: "os_outcome list"
  env_mutex :: "unit result"
  env_cond :: "unit result"

definition SDB_PAGER_CACHE_CAPACITY :: nat where "SDB_PAGER_CACHE_CAPACITY = 64"
definition SDB_PAGER_CACHE_CAPACITY_MIN :: nat where "SDB_PAGER_CACHE_CAPACITY_MIN = 8"
definition SDB_PAGER_CACHE_CAPACITY_MAX :: nat where "SDB_PAGER_CACHE_CAPACITY_MAX = 2 ^ 20"
definition SDB_PAGER_CHECKPOINT_THRESHOLD_PAGES :: u64 where "SDB_PAGER_CHECKPOINT_THRESHOLD_PAGES = 1000"

record sdb_pager =
  pg_file :: sdb_file
  pg_inode :: nat
  pg_superblock :: sdb_superblock_v1
  pg_cache :: sdb_page_cache
  pg_wal_index :: sdb_wal_index
  pg_wal_path :: "string option"
  pg_wal_file :: nat
  pg_wal_file_open :: bool
  pg_data_key :: bytes
  pg_wal_tail :: u64
  pg_current_lsn :: u64
  pg_checkpoint_threshold :: u64
  pg_next_object_generation :: u64
  pg_written_lsn :: u64
  pg_durable_lsn :: u64
  pg_commit_error :: sdb_status
  pg_leader_active :: bool
  pg_commit_failed :: bool
  pg_commit_coord_ready :: bool
  pg_defer_commit :: bool
  pg_sync_relaxed :: bool
  pg_pending_valid :: bool
  pg_pending_txn_id :: u64
  pg_open :: bool
  pg_needs_recovery :: bool
  pg_transaction_active :: bool
  pg_encryption_enabled :: bool

type_synonym pstate = "sdb_pager \<times> directory"

type_synonym 'a pager_io = "pstate \<Rightarrow> ('a result \<times> pstate) option"

abbreviation pg_page_size :: "sdb_pager \<Rightarrow> nat" where
  "pg_page_size p \<equiv> unat (page_size (pg_superblock p))"

text \<open>The data key where pages are encrypted.\<close>

definition pg_key :: "sdb_pager \<Rightarrow> bytes option" where
  "pg_key p = (if pg_encryption_enabled p then Some (pg_data_key p) else None)"

definition on_database :: "'a file_io \<Rightarrow> sdb_pager \<Rightarrow> 'a result \<times> sdb_pager" where
  "on_database m p = (case m (pg_file p) of (r, f) \<Rightarrow> (r, p\<lparr>pg_file := f\<rparr>))"

text \<open>The log's path and descriptor.\<close>

definition sdb_pager_make_wal_path :: "(nat \<Rightarrow> bool) \<Rightarrow> string \<Rightarrow> string result" where
  "sdb_pager_make_wal_path malloc_ok path =
    (case sdb_checked_add_size (length path) 5 of
       None \<Rightarrow> Inl SDB_E_OVERFLOW
     | Some total_size \<Rightarrow>
         if \<not> malloc_ok total_size then Inl SDB_E_OUT_OF_MEMORY else Inr (path @ ''.wal''))"

definition sdb_pager_ensure_wal_open :: "(nat \<Rightarrow> bool) \<Rightarrow> pstate \<Rightarrow> unit result \<times> pstate" where
  "sdb_pager_ensure_wal_open malloc_ok = (\<lambda>(p, d).
    case pg_wal_path p of
      None \<Rightarrow> (Inl SDB_E_INVALID_ARGUMENT, p, d)
    | Some wal_path \<Rightarrow>
        if pg_wal_file_open p then (Inr (), p, d)
        else case sdb_file_open_existing wal_path True d of
          (Inr h, d) \<Rightarrow> (Inr (), p\<lparr>pg_wal_file := h, pg_wal_file_open := True\<rparr>, d)
        | (Inl e, d) \<Rightarrow>
            if e \<noteq> SDB_E_NOT_FOUND then (Inl e, p, d)
            else case sdb_file_create_new wal_path d of
              (Inl e, d) \<Rightarrow> (Inl e, p, d)
            | (Inr h, d) \<Rightarrow>
                (case sdb_file_sync_parent_directory malloc_ok wal_path d of
                   (Inl e, d) \<Rightarrow> (Inl e, p\<lparr>pg_wal_file := h\<rparr>, close_ignored h d)
                 | (Inr _, d) \<Rightarrow> (Inr (), p\<lparr>pg_wal_file := h, pg_wal_file_open := True\<rparr>, d)))"

definition sdb_pager_close_wal :: "pstate \<Rightarrow> unit result \<times> pstate" where
  "sdb_pager_close_wal = (\<lambda>(p, d).
    if pg_wal_file_open p
    then case on_file (pg_wal_file p) sdb_file_close d of (status, d) \<Rightarrow> (status, p\<lparr>pg_wal_file_open := False\<rparr>, d)
    else (Inr (), p, d))"

definition sdb_pager_wal_reset :: "(nat \<Rightarrow> bool) \<Rightarrow> sdb_pager \<Rightarrow> unit dir_io" where
  "sdb_pager_wal_reset malloc_ok p =
    (case pg_wal_path p of
       None \<Rightarrow> dthrow SDB_E_INVALID_ARGUMENT
     | Some wal_path \<Rightarrow>
         if \<not> pg_wal_file_open p then sdb_wal_clear malloc_ok wal_path
         else dbind (on_file (pg_wal_file p) (sdb_file_resize 0)) (\<lambda>_.
              dbind (on_file (pg_wal_file p) sdb_file_sync) (\<lambda>_.
              sdb_file_sync_parent_directory malloc_ok wal_path)))"

definition sdb_pager_offset :: "sdb_pager \<Rightarrow> u64 \<Rightarrow> u64 result" where
  "sdb_pager_offset p page_id =
    (let data_offset = of_nat (SDB_SUPERBLOCK_SLOT_SIZE * SDB_SUPERBLOCK_SLOT_COUNT) :: u64;
         psize = ucast (page_size (pg_superblock p)) :: u64 in
     if page_id = 0 then Inl SDB_E_INVALID_ARGUMENT
     else if page_id - 1 > (- 1) div psize then Inl SDB_E_OVERFLOW
     else
       let relative = (page_id - 1) * psize in
       if relative > - 1 - data_offset then Inl SDB_E_OVERFLOW
       else Inr (data_offset + relative))"

definition sdb_pager_store_superblock :: "sdb_superblock_v1 \<Rightarrow> sdb_pager \<Rightarrow> unit result \<times> sdb_pager" where
  "sdb_pager_store_superblock next p =
    (case on_database (if flags next AND SDB_FLAG_HEADER_AUTH \<noteq> 0
            then sdb_superblock_store_update_file_authenticated next (Some (pg_data_key p))
            else sdb_superblock_store_update_file next) p of
       (status, p) \<Rightarrow> (status, if is_ok status then p\<lparr>pg_superblock := next\<rparr> else p))"

definition sdb_generation_bump :: "u64 \<Rightarrow> u64 result" where
  "sdb_generation_bump gen = (if gen = - 1 then Inl SDB_E_OVERFLOW else Inr (gen + 1))"

text \<open>
  Trimming the file to its page count. The tail of a database whose header is not
  yet authenticated is dropped only if all of it is zero.
\<close>

partial_function (option) tail_is_zero :: "nat \<Rightarrow> nat \<Rightarrow> nat \<Rightarrow> sdb_file \<Rightarrow> (unit result \<times> sdb_file) option" where
  "tail_is_zero psize offset actual_size f =
    (if offset < actual_size then
       let remaining = actual_size - offset;
           chunk = (if remaining < psize then remaining else psize)
       in case sdb_file_read_full offset chunk f of
            (Inl e, f) \<Rightarrow> Some (Inl e, f)
          | (Inr scratch, f) \<Rightarrow>
              if list_ex (\<lambda>b. b \<noteq> 0) scratch then Some (Inl SDB_E_CORRUPT, f)
              else tail_is_zero psize (offset + chunk) actual_size f
     else Some (Inr (), f))"

definition sdb_pager_canonicalize_file_size ::
  "(nat \<Rightarrow> bool) \<Rightarrow> bool \<Rightarrow> sdb_pager \<Rightarrow> (unit result \<times> sdb_pager) option" where
  "sdb_pager_canonicalize_file_size malloc_ok geometry_unauthenticated p =
    (let data_offset = SDB_SUPERBLOCK_SLOT_SIZE * SDB_SUPERBLOCK_SLOT_COUNT;
         psize = pg_page_size p in
     if next_page_id (pg_superblock p) = 0 then Some (Inl SDB_E_INVALID_ARGUMENT, p)
     else
       let page_count = unat (next_page_id (pg_superblock p) - 1) in
       if page_count > (UINT64_MAX - data_offset) div psize then Some (Inl SDB_E_CORRUPT, p)
       else
         let expected_size = data_offset + page_count * psize in
         case on_database sdb_file_size p of
           (Inl e, p) \<Rightarrow> Some (Inl e, p)
         | (Inr actual_size, p) \<Rightarrow>
             if actual_size < expected_size then Some (Inl SDB_E_TRUNCATED, p)
             else if actual_size = expected_size then Some (Inr (), p)
             else if geometry_unauthenticated \<and> \<not> malloc_ok psize then Some (Inl SDB_E_OUT_OF_MEMORY, p)
             else case (if geometry_unauthenticated then tail_is_zero psize expected_size actual_size (pg_file p)
                        else Some (Inr (), pg_file p)) of
               None \<Rightarrow> None
             | Some (Inl e, f) \<Rightarrow> Some (Inl e, p\<lparr>pg_file := f\<rparr>)
             | Some (Inr _, f) \<Rightarrow>
                 Some (on_database (fbind (sdb_file_resize expected_size) (\<lambda>_. sdb_file_sync)) (p\<lparr>pg_file := f\<rparr>)))"

definition sdb_pager_cache_capacity :: "nat \<Rightarrow> nat \<Rightarrow> nat" where
  "sdb_pager_cache_capacity cache_bytes psize =
    (if psize = 0 \<or> cache_bytes = 0 then SDB_PAGER_CACHE_CAPACITY
     else
       let pages = cache_bytes div psize in
       if pages < SDB_PAGER_CACHE_CAPACITY_MIN then SDB_PAGER_CACHE_CAPACITY_MIN
       else if pages > SDB_PAGER_CACHE_CAPACITY_MAX then SDB_PAGER_CACHE_CAPACITY_MAX
       else pages)"

definition sdb_pager_payload_capacity :: "sdb_pager \<Rightarrow> nat" where
  "sdb_pager_payload_capacity p =
    (if pg_page_size p < SDB_PAGE_HEADER_SIZE then 0
     else
       let capacity = pg_page_size p - SDB_PAGE_HEADER_SIZE in
       if pg_encryption_enabled p
       then if capacity < SDB_ENCRYPTED_PAYLOAD_HEADER_SIZE then 0 else capacity - SDB_ENCRYPTED_PAYLOAD_HEADER_SIZE
       else capacity)"

text \<open>Writing a page in place, bypassing the log.\<close>

definition pager_encode_page ::
  "sdb_env \<Rightarrow> nat \<Rightarrow> nat \<Rightarrow> sdb_superblock_v1 \<Rightarrow> bytes option \<Rightarrow> u16 \<Rightarrow> u64 \<Rightarrow> u64 \<Rightarrow> bytes \<Rightarrow> bytes result" where
  "pager_encode_page env n psize sb key type page_id page_lsn payload =
    (case key of
       Some data_key \<Rightarrow> sdb_encrypted_page_encode (env_malloc env n) (env_random env n) (env_avx2 env) sb data_key
         psize type page_id page_lsn payload
     | None \<Rightarrow> sdb_page_encode psize type page_id page_lsn payload)"

definition sdb_pager_write ::
  "sdb_env \<Rightarrow> u64 \<Rightarrow> u16 \<Rightarrow> u64 \<Rightarrow> bytes \<Rightarrow> sdb_pager \<Rightarrow> (unit result \<times> sdb_pager) option" where
  "sdb_pager_write env page_id type page_lsn payload p =
    (if \<not> pg_open p \<or> pg_needs_recovery p \<or> pg_transaction_active p
        \<or> page_id = 0 \<or> page_id \<ge> next_page_id (pg_superblock p)
     then Some (Inl SDB_E_INVALID_ARGUMENT, p)
     else case sdb_pager_offset p page_id of
       Inl e \<Rightarrow> Some (Inl e, p)
     | Inr offset \<Rightarrow>
         if \<not> env_malloc env 0 (pg_page_size p) then Some (Inl SDB_E_OUT_OF_MEMORY, p)
         else case pager_encode_page env 1 (pg_page_size p) (pg_superblock p) (pg_key p) type page_id page_lsn payload of
           Inl e \<Rightarrow> Some (Inl e, p)
         | Inr page \<Rightarrow>
             (case on_database (fbind (sdb_file_write_full (unat offset) page) (\<lambda>_. sdb_file_sync)) p of
                (Inl e, p) \<Rightarrow> Some (Inl e, p)
              | (Inr _, p) \<Rightarrow>
                  let cached = (if pg_encryption_enabled p
                        then if env_malloc env 2 (pg_page_size p)
                             then (case sdb_page_encode (pg_page_size p) type page_id page_lsn payload of
                                     Inl _ \<Rightarrow> None | Inr plain \<Rightarrow> Some plain)
                             else None
                        else Some page)
                  in map_option (\<lambda>cache. (Inr (), p\<lparr>pg_cache := cache\<rparr>))
                       (case cached of
                          Some img \<Rightarrow> sdb_page_cache_put (pg_cache p) page_id img
                        | None \<Rightarrow> sdb_page_cache_remove (pg_cache p) page_id)))"

text \<open>
  Reading a page: from the cache, else from its frame in the log, else from its
  place in the database file.
\<close>

definition frame_outside_log :: "sdb_pager \<Rightarrow> u64 \<Rightarrow> bool" where
  "frame_outside_log p wal_offset \<longleftrightarrow>
    wal_offset > pg_wal_tail p
    \<or> of_nat SDB_WAL_RECORD_HEADER_SIZE_V5 > pg_wal_tail p - wal_offset
    \<or> ucast (page_size (pg_superblock p)) > pg_wal_tail p - wal_offset - of_nat SDB_WAL_RECORD_HEADER_SIZE_V5"

text \<open>The descriptor the log is read through, and whether it was opened for this.\<close>

definition pager_wal_handle :: "sdb_pager \<Rightarrow> string \<Rightarrow> (nat \<times> bool) dir_io" where
  "pager_wal_handle p wal_path d =
    (if pg_wal_file_open p then (Inr (pg_wal_file p, False), d)
     else case sdb_file_open_existing wal_path False d of
       (Inl e, d) \<Rightarrow> (Inl e, d)
     | (Inr h, d) \<Rightarrow> (Inr (h, True), d))"

definition pager_read_frame :: "sdb_pager \<Rightarrow> u64 \<Rightarrow> bytes dir_io" where
  "pager_read_frame p wal_offset d =
    (case pg_wal_path p of
       None \<Rightarrow> (Inl SDB_E_CORRUPT, d)
     | Some wal_path \<Rightarrow>
         if frame_outside_log p wal_offset then (Inl SDB_E_CORRUPT, d)
         else case pager_wal_handle p wal_path d of
           (Inl e, d) \<Rightarrow> (Inl e, d)
         | (Inr (h, opened), d) \<Rightarrow>
             (case on_file h (sdb_file_read_full (unat (wal_offset + of_nat SDB_WAL_RECORD_HEADER_SIZE_V5)) (pg_page_size p)) d of
                (status, d) \<Rightarrow>
                  if opened
                  then (case on_file h sdb_file_close d of
                          (close_status, d) \<Rightarrow> (rbind status (\<lambda>page. rbind close_status (\<lambda>_. Inr page)), d))
                  else (status, d)))"

definition pager_fetch :: "sdb_pager \<Rightarrow> u64 \<Rightarrow> directory \<Rightarrow> bytes result \<times> pstate" where
  "pager_fetch p page_id d =
    (case sdb_wal_index_get (pg_wal_index p) page_id of
       Some wal_offset \<Rightarrow> (case pager_read_frame p wal_offset d of (r, d) \<Rightarrow> (r, p, d))
     | None \<Rightarrow>
         (case sdb_pager_offset p page_id of
            Inl e \<Rightarrow> (Inl e, p, d)
          | Inr offset \<Rightarrow>
              (case on_database (sdb_file_read_full (unat offset) (pg_page_size p)) p of (r, p) \<Rightarrow> (r, p, d))))"

text \<open>
  What the page holds: its plaintext image and a view of it. A failure comes with
  whether the code still drops the page from the cache.
\<close>

definition pager_open_page :: "sdb_env \<Rightarrow> sdb_pager \<Rightarrow> u64 \<Rightarrow> bytes \<Rightarrow> (sdb_status \<times> bool) + (bytes \<times> sdb_page_view)" where
  "pager_open_page env p page_id page =
    (case sdb_page_decode page page_id of
       Inl e \<Rightarrow> Inl (e, True)
     | Inr view \<Rightarrow>
         if \<not> pg_encryption_enabled p
         then if pv_type view = SDB_PAGE_TYPE_ENCRYPTED then Inl (SDB_E_CORRUPT, True) else Inr (page, view)
         else if pv_type view \<noteq> SDB_PAGE_TYPE_ENCRYPTED then Inl (SDB_E_CORRUPT, False)
         else if sdb_pager_payload_capacity p = 0 then Inl (SDB_E_CORRUPT, False)
         else if \<not> env_malloc env 0 (sdb_pager_payload_capacity p) then Inl (SDB_E_OUT_OF_MEMORY, False)
         else case sdb_encrypted_page_decrypt (env_avx2 env) (pg_superblock p) (pg_data_key p) view
                     (sdb_pager_payload_capacity p) of
           Inl (e, _) \<Rightarrow> Inl (e, True)
         | Inr (plaintext_type, plaintext) \<Rightarrow>
             (case sdb_page_encode (pg_page_size p) plaintext_type page_id (pv_page_lsn view) plaintext of
                Inl e \<Rightarrow> Inl (e, True)
              | Inr plain \<Rightarrow>
                  (case sdb_page_decode plain page_id of
                     Inl e \<Rightarrow> Inl (e, True)
                   | Inr view \<Rightarrow> Inr (plain, view))))"

definition sdb_pager_read :: "sdb_env \<Rightarrow> u64 \<Rightarrow> nat \<Rightarrow> sdb_page_view pager_io" where
  "sdb_pager_read env page_id page_buffer_size = (\<lambda>(p, d).
    if \<not> pg_open p \<or> pg_needs_recovery p \<or> page_id = 0 \<or> page_id \<ge> next_page_id (pg_superblock p)
    then Some (Inl SDB_E_INVALID_ARGUMENT, p, d)
    else if page_buffer_size < pg_page_size p then Some (Inl SDB_E_BUFFER_TOO_SMALL, p, d)
    else case sdb_page_cache_get (pg_cache p) page_id of
      (Some page, cache) \<Rightarrow>
        (case sdb_page_decode page page_id of
           Inr view \<Rightarrow> Some (Inr view, p\<lparr>pg_cache := cache\<rparr>, d)
         | Inl e \<Rightarrow> map_option (\<lambda>cache. (Inl e, p\<lparr>pg_cache := cache\<rparr>, d)) (sdb_page_cache_remove cache page_id))
    | (None, cache) \<Rightarrow>
        (case pager_fetch (p\<lparr>pg_cache := cache\<rparr>) page_id d of
           (Inl e, p, d) \<Rightarrow> Some (Inl e, p, d)
         | (Inr page, p, d) \<Rightarrow>
             (case pager_open_page env p page_id page of
                Inr (plain, view) \<Rightarrow>
                  map_option (\<lambda>cache. (Inr view, p\<lparr>pg_cache := cache\<rparr>, d)) (sdb_page_cache_put (pg_cache p) page_id plain)
              | Inl (e, False) \<Rightarrow> Some (Inl e, p, d)
              | Inl (e, True) \<Rightarrow>
                  map_option (\<lambda>cache. (Inl e, p\<lparr>pg_cache := cache\<rparr>, d)) (sdb_page_cache_remove (pg_cache p) page_id))))"

text \<open>The next page of the free list, from the page that heads it.\<close>

definition freelist_next :: "u64 \<Rightarrow> u64 \<Rightarrow> sdb_page_view \<Rightarrow> u64 result" where
  "freelist_next page_id next_id view =
    (if pv_type view \<noteq> SDB_PAGE_TYPE_FREE \<or> unat (pv_payload_size view) \<noteq> 8 then Inl SDB_E_CORRUPT
     else
       let next_free = sdb_read_u64_le (pv_payload view) 0 in
       if next_free \<ge> next_id \<or> next_free = page_id then Inl SDB_E_CORRUPT else Inr next_free)"

definition pager_extend :: "sdb_pager \<Rightarrow> unit result \<times> sdb_pager" where
  "pager_extend p =
    (let page_id = next_page_id (pg_superblock p);
         psize = ucast (page_size (pg_superblock p)) :: u64 in
     if page_id = - 1 then (Inl SDB_E_OVERFLOW, p)
     else case sdb_pager_offset p page_id of
       Inl e \<Rightarrow> (Inl e, p)
     | Inr offset \<Rightarrow>
         if offset > - 1 - psize then (Inl SDB_E_OVERFLOW, p)
         else on_database (fbind (sdb_file_resize (unat (offset + psize))) (\<lambda>_. sdb_file_sync)) p)"

text \<open>The page to hand out and the superblock that says so.\<close>

definition pager_take_page :: "sdb_env \<Rightarrow> (u64 \<times> sdb_superblock_v1) pager_io" where
  "pager_take_page env = (\<lambda>(p, d).
    let next = pg_superblock p in
    if freelist_page next \<noteq> 0 then
      if \<not> env_malloc env 0 (unat (page_size next)) then Some (Inl SDB_E_OUT_OF_MEMORY, p, d)
      else map_option (\<lambda>(status, p, d).
             (rbind status (\<lambda>view. rbind (freelist_next (freelist_page next) (next_page_id next) view) (\<lambda>next_free.
                Inr (freelist_page next, next\<lparr>freelist_page := next_free\<rparr>))), p, d))
             (sdb_pager_read env (freelist_page next) (unat (page_size next)) (p, d))
    else case pager_extend p of
      (status, p) \<Rightarrow>
        Some (rbind status (\<lambda>_. Inr (next_page_id next, next\<lparr>next_page_id := next_page_id next + 1\<rparr>)), p, d))"

definition sdb_pager_allocate :: "sdb_env \<Rightarrow> u64 pager_io" where
  "sdb_pager_allocate env = (\<lambda>(p, d).
    if \<not> pg_open p \<or> pg_needs_recovery p \<or> pg_transaction_active p then Some (Inl SDB_E_INVALID_ARGUMENT, p, d)
    else case pager_take_page env (p, d) of
      None \<Rightarrow> None
    | Some (Inl e, p, d) \<Rightarrow> Some (Inl e, p, d)
    | Some (Inr (page_id, next), p, d) \<Rightarrow>
        (case sdb_generation_bump (generation next) of
           Inl e \<Rightarrow> Some (Inl e, p, d)
         | Inr gen \<Rightarrow>
             (case sdb_pager_store_superblock (next\<lparr>generation := gen\<rparr>) p of
                (Inl e, p) \<Rightarrow> Some (Inl e, p, d)
              | (Inr _, p) \<Rightarrow>
                  map_option (\<lambda>(status, p). (rbind status (\<lambda>_. Inr page_id), p, d))
                    (sdb_pager_write env page_id SDB_PAGE_TYPE_DATA gen [] p))))"

definition sdb_pager_free :: "sdb_env \<Rightarrow> u64 \<Rightarrow> unit pager_io" where
  "sdb_pager_free env page_id = (\<lambda>(p, d).
    if \<not> pg_open p \<or> pg_needs_recovery p \<or> pg_transaction_active p
       \<or> page_id = 0 \<or> page_id \<ge> next_page_id (pg_superblock p)
    then Some (Inl SDB_E_INVALID_ARGUMENT, p, d)
    else if \<not> env_malloc env 3 (pg_page_size p) then Some (Inl SDB_E_OUT_OF_MEMORY, p, d)
    else case sdb_pager_read env page_id (pg_page_size p) (p, d) of
      None \<Rightarrow> None
    | Some (Inl e, p, d) \<Rightarrow> Some (Inl e, p, d)
    | Some (Inr view, p, d) \<Rightarrow>
        if pv_type view = SDB_PAGE_TYPE_FREE then Some (Inl SDB_E_INVALID_ARGUMENT, p, d)
        else
          let next = pg_superblock p in
          case sdb_generation_bump (generation next) of
            Inl e \<Rightarrow> Some (Inl e, p, d)
          | Inr gen \<Rightarrow>
              (case sdb_pager_write env page_id SDB_PAGE_TYPE_FREE gen (sdb_write_u64_le (zeros 8) 0 (freelist_page next)) p of
                 None \<Rightarrow> None
               | Some (Inl e, p) \<Rightarrow> Some (Inl e, p, d)
               | Some (Inr _, p) \<Rightarrow>
                   (case sdb_pager_store_superblock (next\<lparr>generation := gen, freelist_page := page_id\<rparr>) p of
                      (status, p) \<Rightarrow> Some (status, p, d))))"

end
