(* ===== verification/Pager_Txn.thy ===== *)
theory Pager_Txn
  imports Pager
begin

text \<open>
  Transactions of \<open>src/pager.c\<close>: staging, allocating and freeing pages, the commit
  that appends them to the log, the checkpoint that copies the log into the database
  file, and the switches of the deferred commit.
\<close>

section \<open>Model\<close>

record sdb_txn_page =
  tp_page_id :: u64
  tp_type :: u16
  tp_payload :: bytes

record sdb_txn =
  tx_target_superblock :: sdb_superblock_v1
  tx_pages :: "sdb_txn_page list"
  tx_page_capacity :: nat
  tx_allocated_pages :: "u64 list"
  tx_allocated_page_capacity :: nat
  tx_active :: bool

definition sizeof_txn_page :: nat where "sizeof_txn_page = 32"
definition sizeof_wal_page :: nat where "sizeof_wal_page = 16"
definition sizeof_u64 :: nat where "sizeof_u64 = 8"

definition zero_superblock :: sdb_superblock_v1 where
  "zero_superblock = \<lparr>page_size = 0, flags = 0, generation = 0, checkpoint_lsn = 0, root_page = 0, freelist_page = 0,
    next_page_id = 0, key_wrap_id = 0, kdf_iterations = 0, salt = zeros 16, file_id = zeros 16,
    wrapped_key = zeros 32, key_wrap_tag = zeros 16\<rparr>"

definition zero_txn :: sdb_txn where
  "zero_txn = \<lparr>tx_target_superblock = zero_superblock, tx_pages = [], tx_page_capacity = 0, tx_allocated_pages = [],
    tx_allocated_page_capacity = 0, tx_active = False\<rparr>"

definition sdb_txn_release :: "sdb_pager \<Rightarrow> sdb_txn \<times> sdb_pager" where
  "sdb_txn_release p = (zero_txn, p\<lparr>pg_transaction_active := False\<rparr>)"

definition sdb_txn_abort :: "sdb_pager \<Rightarrow> sdb_txn \<times> sdb_pager" where
  "sdb_txn_abort p = sdb_txn_release p"

definition sdb_txn_begin :: "sdb_pager \<Rightarrow> sdb_txn result \<times> sdb_pager" where
  "sdb_txn_begin p =
    (if \<not> pg_open p \<or> pg_needs_recovery p \<or> pg_transaction_active p then (Inl SDB_E_INVALID_ARGUMENT, p)
     else (Inr (zero_txn\<lparr>tx_target_superblock := pg_superblock p, tx_active := True\<rparr>),
           p\<lparr>pg_transaction_active := True\<rparr>))"

text \<open>The capacity after which a growing array asks for memory again.\<close>

definition grown_pages :: "(nat \<Rightarrow> bool) \<Rightarrow> sdb_txn \<Rightarrow> nat result" where
  "grown_pages malloc_ok txn =
    (if length (tx_pages txn) \<noteq> tx_page_capacity txn then Inr (tx_page_capacity txn)
     else if tx_page_capacity txn \<noteq> 0 \<and> tx_page_capacity txn > SIZE_MAX div 2 then Inl SDB_E_OVERFLOW
     else
       let next_capacity = (if tx_page_capacity txn = 0 then 4 else tx_page_capacity txn * 2) in
       if next_capacity > SIZE_MAX div sizeof_txn_page then Inl SDB_E_OVERFLOW
       else if \<not> malloc_ok (next_capacity * sizeof_txn_page) then Inl SDB_E_OUT_OF_MEMORY
       else Inr next_capacity)"

definition sdb_txn_put ::
  "sdb_env \<Rightarrow> sdb_pager \<Rightarrow> u64 \<Rightarrow> u16 \<Rightarrow> bytes \<Rightarrow> sdb_txn \<Rightarrow> unit result \<times> sdb_txn" where
  "sdb_txn_put env p page_id type payload txn =
    (if \<not> tx_active txn \<or> page_id = 0 \<or> page_id \<ge> next_page_id (tx_target_superblock txn)
        \<or> (type \<noteq> SDB_PAGE_TYPE_DATA \<and> type \<noteq> SDB_PAGE_TYPE_FREE)
        \<or> (type = SDB_PAGE_TYPE_FREE \<and> length payload \<noteq> 8)
        \<or> length payload > sdb_pager_payload_capacity p
     then (Inl SDB_E_INVALID_ARGUMENT, txn)
     else if type = SDB_PAGE_TYPE_FREE
          \<and> (sdb_read_u64_le payload 0 \<ge> next_page_id (tx_target_superblock txn) \<or> sdb_read_u64_le payload 0 = page_id)
     then (Inl SDB_E_INVALID_ARGUMENT, txn)
     else if list_ex (\<lambda>q. tp_page_id q = page_id) (tx_pages txn) then (Inl SDB_E_INVALID_ARGUMENT, txn)
     else if length payload \<noteq> 0 \<and> \<not> env_malloc env 0 (length payload) then (Inl SDB_E_OUT_OF_MEMORY, txn)
     else case grown_pages (env_malloc env 1) txn of
       Inl e \<Rightarrow> (Inl e, txn)
     | Inr capacity \<Rightarrow>
         (Inr (), txn\<lparr>tx_page_capacity := capacity,
                     tx_pages := tx_pages txn @ [\<lparr>tp_page_id = page_id, tp_type = type, tp_payload = payload\<rparr>]\<rparr>))"

fun find_index :: "('a \<Rightarrow> bool) \<Rightarrow> 'a list \<Rightarrow> nat option" where
  "find_index P [] = None"
| "find_index P (x # xs) = (if P x then Some 0 else map_option Suc (find_index P xs))"

definition remove_index :: "nat \<Rightarrow> 'a list \<Rightarrow> 'a list" where
  "remove_index i xs = take i xs @ drop (Suc i) xs"

definition txn_staged :: "sdb_txn \<Rightarrow> u64 \<Rightarrow> nat option" where
  "txn_staged txn page_id = find_index (\<lambda>q. tp_page_id q = page_id) (tx_pages txn)"

text \<open>The end of an allocation: the page is listed and the target superblock advanced.\<close>

definition txn_record_allocation ::
  "(nat \<Rightarrow> bool) \<Rightarrow> u64 \<Rightarrow> u64 \<Rightarrow> u64 \<Rightarrow> sdb_txn \<Rightarrow> u64 result \<times> sdb_txn" where
  "txn_record_allocation malloc_ok page_id next_freelist next_id txn =
    (let capacity = tx_allocated_page_capacity txn;
         full = (length (tx_allocated_pages txn) = capacity);
         next_capacity = (if \<not> full then capacity else if capacity = 0 then 8 else capacity * 2 mod 2 ^ 64) in
     if full \<and> (next_capacity < capacity \<or> next_capacity > SIZE_MAX div sizeof_u64) then (Inl SDB_E_OVERFLOW, txn)
     else if full \<and> \<not> malloc_ok (next_capacity * sizeof_u64) then (Inl SDB_E_OUT_OF_MEMORY, txn)
     else (Inr page_id, txn\<lparr>tx_allocated_pages := tx_allocated_pages txn @ [page_id],
             tx_allocated_page_capacity := next_capacity,
             tx_target_superblock := (tx_target_superblock txn)
               \<lparr>freelist_page := next_freelist, next_page_id := next_id\<rparr>\<rparr>))"

definition sdb_txn_allocate :: "sdb_env \<Rightarrow> sdb_txn \<Rightarrow> pstate \<Rightarrow> (u64 result \<times> sdb_txn \<times> pstate) option" where
  "sdb_txn_allocate env txn = (\<lambda>(p, d).
    let target = tx_target_superblock txn;
        next_freelist = freelist_page target;
        next_id = next_page_id target;
        record_it = txn_record_allocation (env_malloc env 1) in
    if \<not> tx_active txn then Some (Inl SDB_E_INVALID_ARGUMENT, txn, p, d)
    else if next_freelist \<noteq> 0 then
      (case txn_staged txn next_freelist of
         Some i \<Rightarrow>
           let q = tx_pages txn ! i in
           if tp_type q \<noteq> SDB_PAGE_TYPE_FREE \<or> length (tp_payload q) \<noteq> 8 then Some (Inl SDB_E_INTERNAL, txn, p, d)
           else (case record_it next_freelist (sdb_read_u64_le (tp_payload q) 0) next_id
                        (txn\<lparr>tx_pages := remove_index i (tx_pages txn)\<rparr>) of
                   (r, txn) \<Rightarrow> Some (r, txn, p, d))
       | None \<Rightarrow>
           if \<not> env_malloc env 2 (unat (page_size target)) then Some (Inl SDB_E_OUT_OF_MEMORY, txn, p, d)
           else (case sdb_pager_read env next_freelist (unat (page_size target)) (p, d) of
                   None \<Rightarrow> None
                 | Some (Inl e, s) \<Rightarrow> Some (Inl e, txn, s)
                 | Some (Inr view, s) \<Rightarrow>
                     (case freelist_next next_freelist next_id view of
                        Inl e \<Rightarrow> Some (Inl e, txn, s)
                      | Inr next_free \<Rightarrow>
                          (case record_it next_freelist next_free next_id txn of (r, txn) \<Rightarrow> Some (r, txn, s)))))
    else if next_id = - 1 \<or> \<not> sdb_page_geometry_valid (next_id + 1) (page_size target)
    then Some (Inl SDB_E_OVERFLOW, txn, p, d)
    else (case record_it next_id next_freelist (next_id + 1) txn of (r, txn) \<Rightarrow> Some (r, txn, p, d)))"

text \<open>Linking a page in front of the free list of the transaction.\<close>

definition txn_push_free :: "sdb_env \<Rightarrow> sdb_pager \<Rightarrow> u64 \<Rightarrow> sdb_txn \<Rightarrow> unit result \<times> sdb_txn" where
  "txn_push_free env p page_id txn =
    (case sdb_txn_put env p page_id SDB_PAGE_TYPE_FREE
            (sdb_write_u64_le (zeros 8) 0 (freelist_page (tx_target_superblock txn))) txn of
       (Inl e, txn) \<Rightarrow> (Inl e, txn)
     | (Inr _, txn) \<Rightarrow>
         (Inr (), txn\<lparr>tx_target_superblock := (tx_target_superblock txn)\<lparr>freelist_page := page_id\<rparr>\<rparr>))"

definition sdb_txn_free :: "sdb_env \<Rightarrow> u64 \<Rightarrow> sdb_txn \<Rightarrow> pstate \<Rightarrow> (unit result \<times> sdb_txn \<times> pstate) option" where
  "sdb_txn_free env page_id txn = (\<lambda>(p, d).
    if \<not> tx_active txn \<or> page_id = 0 \<or> page_id \<ge> next_page_id (tx_target_superblock txn)
    then Some (Inl SDB_E_INVALID_ARGUMENT, txn, p, d)
    else case find_index (\<lambda>q. q = page_id) (tx_allocated_pages txn) of
      Some i \<Rightarrow>
        let txn = txn\<lparr>tx_allocated_pages := remove_index i (tx_allocated_pages txn)\<rparr>;
            txn = (case txn_staged txn page_id of
                     None \<Rightarrow> txn
                   | Some j \<Rightarrow> txn\<lparr>tx_pages := remove_index j (tx_pages txn)\<rparr>)
        in (case txn_push_free env p page_id txn of (r, txn) \<Rightarrow> Some (r, txn, p, d))
    | None \<Rightarrow>
        if \<not> env_malloc env 2 (pg_page_size p) then Some (Inl SDB_E_OUT_OF_MEMORY, txn, p, d)
        else (case sdb_pager_read env page_id (pg_page_size p) (p, d) of
                None \<Rightarrow> None
              | Some (Inl e, s) \<Rightarrow> Some (Inl e, txn, s)
              | Some (Inr view, p, d) \<Rightarrow>
                  if pv_type view = SDB_PAGE_TYPE_FREE then Some (Inl SDB_E_INVALID_ARGUMENT, txn, p, d)
                  else (case txn_push_free env p page_id txn of (r, txn) \<Rightarrow> Some (r, txn, p, d))))"

text \<open>
  The checkpoint. Its loop visits the slots of the log index and copies each page
  from its frame to its place.
\<close>

fun checkpoint_loop :: "sdb_env \<Rightarrow> nat \<Rightarrow> sdb_wal_index_slot list \<Rightarrow> bool \<Rightarrow> pstate \<Rightarrow> unit result \<times> bool \<times> pstate" where
  "checkpoint_loop env h [] anything_applied s = (Inr (), anything_applied, s)"
| "checkpoint_loop env h (slot # slots) anything_applied (p, d) =
    (let page_id = wi_page_id slot;
         wal_offset = wi_wal_offset slot;
         psize = pg_page_size p;
         data_offset = of_nat (SDB_SUPERBLOCK_SLOT_SIZE * SDB_SUPERBLOCK_SLOT_COUNT) :: u64 in
     if page_id = 0 then checkpoint_loop env h slots anything_applied (p, d)
     else if page_id \<ge> next_page_id (pg_superblock p) \<or> frame_outside_log p wal_offset
     then (Inl SDB_E_CORRUPT, anything_applied, p, d)
     else case on_file h (sdb_file_read_full (unat (wal_offset + of_nat SDB_WAL_RECORD_HEADER_SIZE_V5)) psize) d of
       (Inl e, d) \<Rightarrow> (Inl e, anything_applied, p, d)
     | (Inr frame_page, d) \<Rightarrow>
         (case sdb_page_decode frame_page page_id of
            Inl _ \<Rightarrow> (Inl SDB_E_CORRUPT, anything_applied, p, d)
          | Inr view \<Rightarrow>
              if pg_encryption_enabled p
                 \<and> (case sdb_encrypted_page_decrypt (env_avx2 env) (pg_superblock p) (pg_data_key p) view psize of
                      Inl _ \<Rightarrow> True | Inr _ \<Rightarrow> False)
              then (Inl SDB_E_CORRUPT, anything_applied, p, d)
              else
                let offset = data_offset + (page_id - 1) * ucast (page_size (pg_superblock p)) in
                (case on_database (sdb_file_write_full (unat offset) frame_page) p of
                   (Inl e, p) \<Rightarrow> (Inl e, anything_applied, p, d)
                 | (Inr _, p) \<Rightarrow> checkpoint_loop env h slots True (p, d))))"

text \<open>
  The superblock that a checkpoint stores, with whether it got there; and the whole
  of it. Once the superblock is stored the log counts as empty, whether or not it
  can be emptied.
\<close>

definition checkpoint_superblock :: "sdb_pager \<Rightarrow> unit result \<times> sdb_pager" where
  "checkpoint_superblock p =
    (case sdb_generation_bump (generation (pg_superblock p)) of
       Inl e \<Rightarrow> (Inl e, p)
     | Inr gen \<Rightarrow>
         sdb_pager_store_superblock ((pg_superblock p)\<lparr>checkpoint_lsn := pg_current_lsn p, generation := gen\<rparr>) p)"

definition checkpoint_copy :: "sdb_env \<Rightarrow> nat \<Rightarrow> bool \<Rightarrow> pstate \<Rightarrow> unit result \<times> bool \<times> pstate" where
  "checkpoint_copy env h opened = (\<lambda>(p, d).
    let (status, d) = (if pg_wal_file_open p then on_file (pg_wal_file p) sdb_file_sync d else (Inr (), d));
        (status, applied, p, d) = (case status of
            Inl e \<Rightarrow> (Inl e, False, p, d)
          | Inr _ \<Rightarrow> checkpoint_loop env h (case wi_slots (pg_wal_index p) of None \<Rightarrow> [] | Some slots \<Rightarrow> slots) False (p, d))
    in if opened
       then (case on_file h sdb_file_close d of
               (close_status, d) \<Rightarrow> (if is_ok status then close_status else status, applied, p, d))
       else (status, applied, p, d))"

definition sdb_pager_checkpoint :: "sdb_env \<Rightarrow> pstate \<Rightarrow> unit result \<times> pstate" where
  "sdb_pager_checkpoint env = (\<lambda>(p, d).
    if \<not> pg_open p \<or> pg_needs_recovery p \<or> pg_transaction_active p then (Inl SDB_E_INVALID_ARGUMENT, p, d)
    else case pg_wal_path p of
      None \<Rightarrow> (Inl SDB_E_INVALID_ARGUMENT, p, d)
    | Some wal_path \<Rightarrow>
        if wi_size (pg_wal_index p) = 0 then (Inr (), p, d)
        else if \<not> env_malloc env 0 (pg_page_size p) then (Inl SDB_E_OUT_OF_MEMORY, p, d)
        else if pg_encryption_enabled p \<and> \<not> env_malloc env 1 (pg_page_size p) then (Inl SDB_E_OUT_OF_MEMORY, p, d)
        else case pager_wal_handle p wal_path d of
          (Inl e, d) \<Rightarrow> (Inl e, p, d)
        | (Inr (h, opened), d) \<Rightarrow>
            (case checkpoint_copy env h opened (p, d) of
               (status, applied, p, d) \<Rightarrow>
                 let (status, p) = (if is_ok status \<and> applied then on_database sdb_file_sync p else (status, p));
                     (status, p) = (if is_ok status \<and> applied then checkpoint_superblock p else (status, p));
                     superblock_advanced = (is_ok status \<and> applied)
                 in if superblock_advanced then
                      let p = p\<lparr>pg_wal_index := sdb_wal_index_clear (pg_wal_index p),
                               pg_wal_tail := of_nat SDB_WAL_HEADER_SIZE\<rparr>
                      in (case sdb_pager_wal_reset (env_malloc env 2) p d of (status, d) \<Rightarrow> (status, p, d))
                    else (status, if is_ok status then p else p\<lparr>pg_needs_recovery := True\<rparr>, d)))"

text \<open>The commit, step by step.\<close>

definition pbind :: "'a pager_io \<Rightarrow> ('a \<Rightarrow> 'b pager_io) \<Rightarrow> 'b pager_io" where
  "pbind m k s = (case m s of None \<Rightarrow> None | Some (Inl e, s) \<Rightarrow> Some (Inl e, s) | Some (Inr v, s) \<Rightarrow> k v s)"

fun commit_encode ::
  "sdb_env \<Rightarrow> nat \<Rightarrow> nat \<Rightarrow> sdb_superblock_v1 \<Rightarrow> bytes option \<Rightarrow> u64 \<Rightarrow> sdb_txn_page list \<Rightarrow> sdb_wal_page list result" where
  "commit_encode env index psize target key txn_id [] = Inr []"
| "commit_encode env index psize target key txn_id (q # qs) =
    rbind (pager_encode_page env (8 + index) psize target key (tp_type q) (tp_page_id q) txn_id (tp_payload q)) (\<lambda>page.
    rbind (commit_encode env (index + 1) psize target key txn_id qs) (\<lambda>pages.
    Inr (\<lparr>wp_page_id = tp_page_id q, wp_bytes = page\<rparr> # pages)))"

definition on_file_option :: "nat \<Rightarrow> (sdb_file \<Rightarrow> ('a result \<times> sdb_file) option) \<Rightarrow> directory \<Rightarrow> ('a result \<times> directory) option" where
  "on_file_option h m d =
    map_option (\<lambda>(r, f'). (r, d\<lparr>d_inodes := (d_inodes d)[h := f'\<lparr>fscript := []\<rparr>], d_script := fscript f'\<rparr>))
      (m ((d_inodes d ! h)\<lparr>fscript := d_script d\<rparr>))"

text \<open>Appending to the log; the result is its new end. A deferred commit does not sync.\<close>

definition wal_append_deferred ::
  "(nat \<Rightarrow> bool) \<Rightarrow> nat \<Rightarrow> sdb_superblock_v1 \<Rightarrow> u64 \<Rightarrow> sdb_wal_page list \<Rightarrow> sdb_file \<Rightarrow> (nat result \<times> sdb_file) option" where
  "wal_append_deferred malloc_ok append_offset sb txn_id pages wal =
    (case sdb_wal_encode_txn malloc_ok sb append_offset txn_id pages of
       None \<Rightarrow> None
     | Some (Inl e) \<Rightarrow> Some (Inl e, wal)
     | Some (Inr staged) \<Rightarrow>
         Some (fbind (sdb_file_write_full (ws_write_offset staged) (ws_buffer staged)) (\<lambda>_.
               freturn (ws_new_offset staged)) wal))"

definition commit_log :: "sdb_env \<Rightarrow> sdb_superblock_v1 \<Rightarrow> u64 \<Rightarrow> sdb_wal_page list \<Rightarrow> nat pager_io" where
  "commit_log env target txn_id pages = (\<lambda>(p, d).
    map_option (\<lambda>(r, d). (r, p, d))
      (on_file_option (pg_wal_file p)
        (if pg_defer_commit p then wal_append_deferred (env_malloc env 2) (unat (pg_wal_tail p)) target txn_id pages
         else sdb_wal_append_txn (env_malloc env 2) (unat (pg_wal_tail p)) target txn_id pages) d))"

fun commit_index_loop ::
  "(nat \<Rightarrow> bool) \<Rightarrow> u64 \<Rightarrow> nat \<Rightarrow> nat \<Rightarrow> sdb_wal_page list \<Rightarrow> sdb_wal_index \<Rightarrow> (unit result \<times> sdb_wal_index) option" where
  "commit_index_loop malloc_ok tail frame_size index [] ix = Some (Inr (), ix)"
| "commit_index_loop malloc_ok tail frame_size index (w # ws) ix =
    (case sdb_wal_index_put malloc_ok ix (wp_page_id w) (tail + of_nat index * of_nat frame_size) of
       None \<Rightarrow> None
     | Some (Inl e) \<Rightarrow> Some (Inl e, ix)
     | Some (Inr ix) \<Rightarrow> commit_index_loop malloc_ok tail frame_size (index + 1) ws ix)"

definition commit_index :: "sdb_env \<Rightarrow> sdb_wal_page list \<Rightarrow> unit pager_io" where
  "commit_index env pages = (\<lambda>(p, d).
    map_option (\<lambda>(r, ix). (r, p\<lparr>pg_wal_index := ix\<rparr>, d))
      (commit_index_loop (env_malloc env 3) (pg_wal_tail p) (sdb_wal_frame_size_v5 (pg_page_size p)) 0 pages
        (pg_wal_index p)))"

definition commit_grow :: "sdb_superblock_v1 \<Rightarrow> unit pager_io" where
  "commit_grow target = (\<lambda>(p, d).
    let data_offset = SDB_SUPERBLOCK_SLOT_SIZE * SDB_SUPERBLOCK_SLOT_COUNT;
        next_id = next_page_id target in
    if next_id = 0 \<or> unat (next_id - 1) > (UINT64_MAX - data_offset) div pg_page_size p
    then Some (Inl SDB_E_OVERFLOW, p, d)
    else
      let expected_size = data_offset + unat (next_id - 1) * pg_page_size p in
      case on_database (fbind sdb_file_size (\<lambda>current_size.
             if current_size < expected_size then sdb_file_resize expected_size else freturn ())) p of
        (r, p) \<Rightarrow> Some (r, p, d))"

definition commit_publish :: "sdb_superblock_v1 \<Rightarrow> u64 \<Rightarrow> nat \<Rightarrow> unit pager_io" where
  "commit_publish target txn_id new_wal_tail = (\<lambda>(p, d).
    case sdb_generation_bump (generation (pg_superblock p)) of
      Inl e \<Rightarrow> Some (Inl e, p, d)
    | Inr gen \<Rightarrow>
        Some (Inr (), p\<lparr>pg_superblock := target\<lparr>checkpoint_lsn := txn_id, generation := gen\<rparr>,
                       pg_wal_tail := of_nat new_wal_tail, pg_current_lsn := txn_id\<rparr>, d))"

text \<open>The image a committed page has in the cache, if it gets one.\<close>

definition commit_cached :: "sdb_env \<Rightarrow> sdb_pager \<Rightarrow> u64 \<Rightarrow> sdb_txn_page \<Rightarrow> sdb_wal_page \<Rightarrow> bytes option" where
  "commit_cached env p txn_id q w =
    (if pg_encryption_enabled p
     then if env_malloc env 4 (pg_page_size p)
          then (case sdb_page_encode (pg_page_size p) (tp_type q) (tp_page_id q) txn_id (tp_payload q) of
                  Inl _ \<Rightarrow> None | Inr plain \<Rightarrow> Some plain)
          else None
     else Some (wp_bytes w))"

fun commit_cache_loop ::
  "sdb_env \<Rightarrow> sdb_pager \<Rightarrow> u64 \<Rightarrow> (sdb_txn_page \<times> sdb_wal_page) list \<Rightarrow> sdb_page_cache \<Rightarrow> sdb_page_cache option" where
  "commit_cache_loop env p txn_id [] cache = Some cache"
| "commit_cache_loop env p txn_id ((q, w) # rest) cache =
    Option.bind (case commit_cached env p txn_id q w of
                   Some img \<Rightarrow> sdb_page_cache_put cache (wp_page_id w) img
                 | None \<Rightarrow> sdb_page_cache_remove cache (wp_page_id w))
      (commit_cache_loop env p txn_id rest)"

definition commit_cache :: "sdb_env \<Rightarrow> u64 \<Rightarrow> sdb_txn_page list \<Rightarrow> sdb_wal_page list \<Rightarrow> unit pager_io" where
  "commit_cache env txn_id pages wal_pages = (\<lambda>(p, d).
    map_option (\<lambda>cache. (Inr (), p\<lparr>pg_cache := cache\<rparr>, d))
      (commit_cache_loop env p txn_id (zip pages wal_pages) (pg_cache p)))"

definition commit_ticket :: "u64 \<Rightarrow> unit pager_io" where
  "commit_ticket txn_id = (\<lambda>(p, d).
    if \<not> pg_defer_commit p then Some (Inr (), p, d)
    else if pg_commit_failed p then Some (Inl (pg_commit_error p), p, d)
    else Some (Inr (), p\<lparr>pg_written_lsn := (if txn_id > pg_written_lsn p then txn_id else pg_written_lsn p),
                        pg_pending_valid := True, pg_pending_txn_id := txn_id\<rparr>, d))"

definition commit_body :: "sdb_env \<Rightarrow> sdb_txn \<Rightarrow> unit pager_io" where
  "commit_body env txn = (\<lambda>(p, d).
    let target = tx_target_superblock txn;
        txn_id = pg_current_lsn p + 1 in
    case commit_encode env 0 (pg_page_size p) target (pg_key p) txn_id (tx_pages txn) of
      Inl e \<Rightarrow> Some (Inl e, p, d)
    | Inr wal_pages \<Rightarrow>
        pbind (Some \<circ> sdb_pager_ensure_wal_open (env_malloc env 5)) (\<lambda>_.
        pbind (commit_log env target txn_id wal_pages) (\<lambda>new_wal_tail.
        pbind (commit_index env wal_pages) (\<lambda>_.
        pbind (commit_grow target) (\<lambda>_.
        pbind (commit_publish target txn_id new_wal_tail) (\<lambda>_.
        pbind (commit_cache env txn_id (tx_pages txn) wal_pages) (\<lambda>_.
        commit_ticket txn_id)))))) (p, d))"

text \<open>After the body: a failure asks for recovery, and a long log is checkpointed.\<close>

definition commit_finish :: "sdb_env \<Rightarrow> bool \<Rightarrow> unit result \<Rightarrow> pstate \<Rightarrow> unit result \<times> sdb_txn \<times> pstate" where
  "commit_finish env defer status = (\<lambda>(p, d).
    let p = (if is_ok status then p else p\<lparr>pg_needs_recovery := True\<rparr>);
        (txn, p) = sdb_txn_release p
    in if \<not> defer \<and> is_ok status \<and> pg_wal_tail p \<ge> pg_checkpoint_threshold p
       then (case sdb_pager_checkpoint env (p, d) of
               (checkpointed, p, d) \<Rightarrow>
                 (status, txn, if is_ok checkpointed then p else p\<lparr>pg_needs_recovery := True\<rparr>, d))
       else (status, txn, p, d))"

definition sdb_txn_commit :: "sdb_env \<Rightarrow> sdb_txn \<Rightarrow> pstate \<Rightarrow> (unit result \<times> sdb_txn \<times> pstate) option" where
  "sdb_txn_commit env txn = (\<lambda>(p, d).
    let page_count = length (tx_pages txn);
        refuse = (\<lambda>e. case sdb_txn_release p of (txn, p) \<Rightarrow> Some (Inl e, txn, p, d)) in
    if \<not> tx_active txn then Some (Inl SDB_E_INVALID_ARGUMENT, txn, p, d)
    else if page_count = 0
    then if tx_allocated_pages txn \<noteq> [] then refuse SDB_E_INVALID_ARGUMENT
         else Some (Inl SDB_E_INVALID_ARGUMENT, txn, p, d)
    else if pg_current_lsn p = - 1 \<or> page_count > SIZE_MAX div sizeof_wal_page
            \<or> page_count > SIZE_MAX div pg_page_size p
    then refuse SDB_E_OVERFLOW
    else if list_ex (\<lambda>a. \<not> list_ex (\<lambda>q. tp_page_id q = a) (tx_pages txn)) (tx_allocated_pages txn)
    then refuse SDB_E_INVALID_ARGUMENT
    else if \<not> env_malloc env 0 (page_count * sizeof_wal_page) \<or> \<not> env_malloc env 1 (page_count * pg_page_size p)
    then refuse SDB_E_OUT_OF_MEMORY
    else map_option (\<lambda>(status, s). commit_finish env (pg_defer_commit p) status s) (commit_body env txn (p, d)))"

text \<open>The switches of the deferred commit.\<close>

definition sdb_pager_set_defer_commit :: "bool \<Rightarrow> sdb_pager \<Rightarrow> sdb_pager" where
  "sdb_pager_set_defer_commit defer p =
    p\<lparr>pg_defer_commit := defer, pg_pending_valid := (if defer then False else pg_pending_valid p)\<rparr>"

definition sdb_pager_set_sync_relaxed :: "bool \<Rightarrow> sdb_pager \<Rightarrow> sdb_pager" where
  "sdb_pager_set_sync_relaxed relaxed p = p\<lparr>pg_sync_relaxed := relaxed\<rparr>"

definition sdb_pager_take_pending :: "sdb_pager \<Rightarrow> u64 option \<times> sdb_pager" where
  "sdb_pager_take_pending p =
    (if \<not> pg_pending_valid p then (None, p)
     else (Some (pg_pending_txn_id p), p\<lparr>pg_pending_valid := False\<rparr>))"

end
