(* ===== verification/Pager_Open.thy ===== *)
theory Pager_Open
  imports Pager_Txn
begin

text \<open>
  Opening, creating and closing a pager, and changing its password (\<open>src/pager.c\<close>).
  Opening picks the superblock, unlocks the data key, finishes an interrupted
  replacement, repairs the other superblock mirror, replays the log, stores the
  recovered superblock, trims the file and empties the log.
\<close>

section \<open>Model\<close>

definition zero_pager :: sdb_pager where
  "zero_pager = \<lparr>pg_file = \<lparr>fcontent = [], fdurable = [], fpending = [], fscript = []\<rparr>, pg_inode = 0,
    pg_superblock = zero_superblock,
    pg_cache = \<lparr>pc_entries = [], pc_slots = [], pc_free_list = [], pc_capacity = 0, pc_slot_capacity = 0,
      pc_slot_mask = 0, pc_free_count = 0, pc_clock_hand = 0, pc_page_size = 0\<rparr>,
    pg_wal_index = \<lparr>wi_slots = None, wi_capacity = 0, wi_size = 0\<rparr>,
    pg_wal_path = None, pg_wal_file = 0, pg_wal_file_open = False, pg_data_key = zeros 32,
    pg_wal_tail = 0, pg_current_lsn = 0, pg_checkpoint_threshold = 0, pg_next_object_generation = 0,
    pg_written_lsn = 0, pg_durable_lsn = 0, pg_commit_error = SDB_OK, pg_leader_active = False,
    pg_commit_failed = False, pg_commit_coord_ready = False, pg_defer_commit = False, pg_sync_relaxed = False,
    pg_pending_valid = False, pg_pending_txn_id = 0, pg_open = False, pg_needs_recovery = False,
    pg_transaction_active = False, pg_encryption_enabled = False\<rparr>"

text \<open>
  Unlocking. The result is the superblock to go on with and whether its header is
  still to be sealed. A password is absent, or a string that may be empty.
\<close>

definition pager_unlock ::
  "sdb_env \<Rightarrow> bytes option \<Rightarrow> sdb_superblock_read_result \<Rightarrow> (sdb_superblock_read_result \<times> bool) pager_io" where
  "pager_unlock env password result = (\<lambda>(p, d).
    let sb = superblock result;
        p = p\<lparr>pg_superblock := sb\<rparr> in
    if flags sb AND SDB_FLAG_ENCRYPTED \<noteq> 0 then
      (case password of
         None \<Rightarrow> Some (Inl SDB_E_AUTHENTICATION, p, d)
       | Some pw \<Rightarrow>
           if pw = [] then Some (Inl SDB_E_AUTHENTICATION, p, d)
           else case sdb_key_unwrap (env_malloc env 0) (env_avx2 env) sb pw of
             Inl e \<Rightarrow> Some (Inl e, p, d)
           | Inr data_key \<Rightarrow>
               let p = p\<lparr>pg_data_key := data_key, pg_encryption_enabled := True\<rparr> in
               if flags sb AND SDB_FLAG_HEADER_AUTH \<noteq> 0 then
                 (case on_database (sdb_superblock_store_read_authenticated_file data_key) p of
                    (Inl e, p) \<Rightarrow> Some (Inl e, p, d)
                  | (Inr result, p) \<Rightarrow> Some (Inr (result, False), p\<lparr>pg_superblock := superblock result\<rparr>, d))
               else Some (Inr (result, True), p, d))
    else if password \<noteq> None then Some (Inl SDB_E_INVALID_ARGUMENT, p, d)
    else Some (Inr (result, False), p, d))"

definition in_directory :: "'a dir_io \<Rightarrow> 'a pager_io" where
  "in_directory m = (\<lambda>(p, d). case m d of (r, d) \<Rightarrow> Some (r, p, d))"

definition in_database :: "'a file_io \<Rightarrow> 'a pager_io" where
  "in_database m = (\<lambda>(p, d). case on_database m p of (r, p) \<Rightarrow> Some (r, p, d))"

definition pager_heal :: "sdb_superblock_read_result \<Rightarrow> unit pager_io" where
  "pager_heal result = (\<lambda>(p, d).
    in_database (sdb_superblock_store_heal_file result
      (if flags (pg_superblock p) AND SDB_FLAG_HEADER_AUTH \<noteq> 0 then Some (pg_data_key p) else None)) (p, d))"

definition pager_name_log :: "sdb_env \<Rightarrow> string \<Rightarrow> unit pager_io" where
  "pager_name_log env path = (\<lambda>(p, d).
    case sdb_pager_make_wal_path (env_malloc env 2) path of
      Inl e \<Rightarrow> Some (Inl e, p, d)
    | Inr wal_path \<Rightarrow> Some (Inr (), p\<lparr>pg_wal_path := Some wal_path\<rparr>, d))"

text \<open>
  Replaying the log, in the current format and, if that found nothing, in the one of
  older versions. The result is the last transaction, the page count and the free list.
\<close>

definition pager_replay :: "sdb_env \<Rightarrow> string \<Rightarrow> (u64 \<times> u64 \<times> u64) pager_io" where
  "pager_replay env wal_path = (\<lambda>(p, d).
    let sb = pg_superblock p in
    case sdb_wal_recover_all (env_malloc env 3) (env_avx2 env) wal_path sb (pg_key p) d (pg_file p) of
      None \<Rightarrow> None
    | Some (Inl e, d, f) \<Rightarrow> Some (Inl e, p\<lparr>pg_file := f\<rparr>, d)
    | Some (Inr out, d, f) \<Rightarrow>
        let p = p\<lparr>pg_file := f\<rparr> in
        if wr_replayed out then Some (Inr (wr_last_lsn out, wr_next_page_id out, wr_freelist_page out), p, d)
        else case sdb_wal_recover (env_malloc env 4) (env_avx2 env) wal_path sb (pg_key p) d f of
          None \<Rightarrow> None
        | Some (Inl e, d, f) \<Rightarrow> Some (Inl e, p\<lparr>pg_file := f\<rparr>, d)
        | Some (Inr legacy, d, f) \<Rightarrow>
            Some (Inr (if lr_replayed legacy then (lr_txn_id legacy, lr_next_page_id legacy, lr_freelist_page legacy)
                       else (wr_last_lsn out, wr_next_page_id out, wr_freelist_page out)), p\<lparr>pg_file := f\<rparr>, d))"

definition pager_store_recovered :: "u64 \<times> u64 \<times> u64 \<Rightarrow> unit pager_io" where
  "pager_store_recovered = (\<lambda>(recovered_lsn, recovered_next_page_id, recovered_freelist_page) (p, d).
    let sb = pg_superblock p in
    if \<not> recovered_lsn > checkpoint_lsn sb then Some (Inr (), p, d)
    else if \<not> sdb_page_geometry_valid recovered_next_page_id (page_size sb) then Some (Inl SDB_E_CORRUPT, p, d)
    else case sdb_generation_bump (generation sb) of
      Inl e \<Rightarrow> Some (Inl e, p, d)
    | Inr gen \<Rightarrow>
        (case sdb_pager_store_superblock (sb\<lparr>checkpoint_lsn := recovered_lsn, next_page_id := recovered_next_page_id,
                freelist_page := recovered_freelist_page, generation := gen\<rparr>) p of
           (r, p) \<Rightarrow> Some (r, p, d)))"

definition pager_trim :: "sdb_env \<Rightarrow> bool \<Rightarrow> unit pager_io" where
  "pager_trim env legacy_upgrade_pending = (\<lambda>(p, d).
    map_option (\<lambda>(r, p). (r, p, d)) (sdb_pager_canonicalize_file_size (env_malloc env 5) legacy_upgrade_pending p))"

definition pager_seal_header :: "sdb_env \<Rightarrow> bytes option \<Rightarrow> bool \<Rightarrow> unit pager_io" where
  "pager_seal_header env password legacy_upgrade_pending = (\<lambda>(p, d).
    let upgraded = pg_superblock p in
    if \<not> legacy_upgrade_pending then Some (Inr (), p, d)
    else if key_wrap_id upgraded = - 1 \<or> generation upgraded = - 1 then Some (Inl SDB_E_OVERFLOW, p, d)
    else
      case sdb_key_wrap (env_malloc env 6) (env_avx2 env)
             (upgraded\<lparr>flags := flags upgraded OR SDB_FLAG_HEADER_AUTH, key_wrap_id := key_wrap_id upgraded + 1,
                generation := generation upgraded + 1\<rparr>)
             (case password of None \<Rightarrow> [] | Some pw \<Rightarrow> pw) (pg_data_key p) of
        Inl e \<Rightarrow> Some (Inl e, p, d)
      | Inr upgraded \<Rightarrow>
          (case on_database (sdb_superblock_store_update_file_authenticated upgraded (Some (pg_data_key p))) p of
             (Inl e, p) \<Rightarrow> Some (Inl e, p, d)
           | (Inr _, p) \<Rightarrow> Some (Inr (), p\<lparr>pg_superblock := upgraded\<rparr>, d)))"

text \<open>The structures in memory, once the file is in order.\<close>

definition pager_start :: "sdb_env \<Rightarrow> nat \<Rightarrow> unit pager_io" where
  "pager_start env cache_bytes = (\<lambda>(p, d).
    case sdb_page_cache_init (env_malloc env 8) (sdb_pager_cache_capacity cache_bytes (pg_page_size p)) (pg_page_size p) of
      None \<Rightarrow> None
    | Some (Inl e) \<Rightarrow> Some (Inl e, p, d)
    | Some (Inr cache) \<Rightarrow>
        (case rbind (sdb_wal_index_init (env_malloc env 9)) (\<lambda>ix.
              rbind (env_mutex env) (\<lambda>_. rbind (env_cond env) (\<lambda>_. Inr ix))) of
           Inl e \<Rightarrow> Some (Inl e, p, d)
         | Inr ix \<Rightarrow>
             let lsn = checkpoint_lsn (pg_superblock p) in
             Some (Inr (), p\<lparr>pg_cache := cache, pg_wal_index := ix, pg_wal_tail := of_nat SDB_WAL_HEADER_SIZE,
               pg_current_lsn := lsn,
               pg_checkpoint_threshold := SDB_PAGER_CHECKPOINT_THRESHOLD_PAGES * ucast (page_size (pg_superblock p)),
               pg_durable_lsn := lsn, pg_written_lsn := lsn, pg_commit_coord_ready := True, pg_open := True\<rparr>, d)))"

definition pager_open_steps :: "sdb_env \<Rightarrow> string \<Rightarrow> bytes option \<Rightarrow> nat \<Rightarrow> unit pager_io" where
  "pager_open_steps env path password cache_bytes =
    pbind (in_database sdb_superblock_store_read_file) (\<lambda>result.
    pbind (pager_unlock env password result) (\<lambda>(result, legacy_upgrade_pending).
    pbind (\<lambda>(p, d). in_directory (sdb_replace_recover (env_malloc env 1) path (file_id (pg_superblock p))) (p, d)) (\<lambda>_.
    pbind (pager_heal result) (\<lambda>_.
    pbind (pager_name_log env path) (\<lambda>_.
    pbind (pager_replay env (path @ ''.wal'')) (\<lambda>recovered.
    pbind (pager_store_recovered recovered) (\<lambda>_.
    pbind (pager_trim env legacy_upgrade_pending) (\<lambda>_.
    pbind (pager_seal_header env password legacy_upgrade_pending) (\<lambda>_.
    pbind (in_directory (sdb_wal_clear (env_malloc env 7) (path @ ''.wal''))) (\<lambda>_.
    pager_start env cache_bytes))))))))))"

text \<open>An open descriptor goes back into the directory when it is closed.\<close>

definition close_database :: "pstate \<Rightarrow> unit result \<times> pstate" where
  "close_database = (\<lambda>(p, d).
    case on_database sdb_file_close p of
      (status, p) \<Rightarrow> (status, p, d\<lparr>d_inodes := (d_inodes d)[pg_inode p := (pg_file p)\<lparr>fscript := []\<rparr>]\<rparr>))"

definition sdb_pager_open_internal ::
  "sdb_env \<Rightarrow> string \<Rightarrow> bytes option \<Rightarrow> nat \<Rightarrow> directory \<Rightarrow> (sdb_pager result \<times> directory) option" where
  "sdb_pager_open_internal env path password cache_bytes d =
    (case sdb_file_open_existing path True d of
       (Inl e, d) \<Rightarrow> Some (Inl e, d)
     | (Inr h, d) \<Rightarrow>
         (case pager_open_steps env path password cache_bytes
                 (zero_pager\<lparr>pg_file := (d_inodes d ! h)\<lparr>fscript := env_script env\<rparr>, pg_inode := h\<rparr>, d) of
            None \<Rightarrow> None
          | Some (Inl e, s) \<Rightarrow> (case close_database s of (_, p, d) \<Rightarrow> Some (Inl e, d))
          | Some (Inr _, p, d) \<Rightarrow> Some (Inr p, d)))"

definition sdb_pager_open_ex ::
  "sdb_env \<Rightarrow> string \<Rightarrow> nat \<Rightarrow> directory \<Rightarrow> (sdb_pager result \<times> directory) option" where
  "sdb_pager_open_ex env path cache_bytes = sdb_pager_open_internal env path None cache_bytes"

definition sdb_pager_open :: "sdb_env \<Rightarrow> string \<Rightarrow> directory \<Rightarrow> (sdb_pager result \<times> directory) option" where
  "sdb_pager_open env path = sdb_pager_open_internal env path None 0"

definition sdb_pager_open_encrypted_ex ::
  "sdb_env \<Rightarrow> string \<Rightarrow> bytes option \<Rightarrow> nat \<Rightarrow> directory \<Rightarrow> (sdb_pager result \<times> directory) option" where
  "sdb_pager_open_encrypted_ex env path password cache_bytes d =
    (if password = None \<or> password = Some [] then Some (Inl SDB_E_INVALID_ARGUMENT, d)
     else sdb_pager_open_internal env path password cache_bytes d)"

definition sdb_pager_open_encrypted ::
  "sdb_env \<Rightarrow> string \<Rightarrow> bytes option \<Rightarrow> directory \<Rightarrow> (sdb_pager result \<times> directory) option" where
  "sdb_pager_open_encrypted env path password d =
    (if password = None \<or> password = Some [] then Some (Inl SDB_E_INVALID_ARGUMENT, d)
     else sdb_pager_open_internal env path password 0 d)"

text \<open>Creating; \<open>env'\<close> is what the opening at the end draws from.\<close>

definition pager_reset_log :: "sdb_env \<Rightarrow> string \<Rightarrow> unit dir_io" where
  "pager_reset_log env path =
    (case sdb_pager_make_wal_path (env_malloc env 1) path of
       Inl e \<Rightarrow> dthrow e
     | Inr wal_path \<Rightarrow> sdb_wal_clear (env_malloc env 2) wal_path)"

definition sdb_pager_create_ex ::
  "sdb_env \<Rightarrow> sdb_env \<Rightarrow> string \<Rightarrow> u32 \<Rightarrow> bytes \<Rightarrow> bytes \<Rightarrow> nat \<Rightarrow> directory \<Rightarrow> (sdb_pager result \<times> directory) option" where
  "sdb_pager_create_ex env env' path psize new_salt new_file_id cache_bytes d =
    (let sb = zero_superblock\<lparr>page_size := psize, generation := 1, next_page_id := 1,
                salt := new_salt, file_id := new_file_id\<rparr> in
     case dbind (sdb_superblock_store_create (env_malloc env 0) path sb) (\<lambda>_. pager_reset_log env path) d of
       (Inl e, d) \<Rightarrow> Some (Inl e, d)
     | (Inr _, d) \<Rightarrow> sdb_pager_open_ex env' path cache_bytes d)"

definition sdb_pager_create ::
  "sdb_env \<Rightarrow> sdb_env \<Rightarrow> string \<Rightarrow> u32 \<Rightarrow> bytes \<Rightarrow> bytes \<Rightarrow> directory \<Rightarrow> (sdb_pager result \<times> directory) option" where
  "sdb_pager_create env env' path psize new_salt new_file_id =
    sdb_pager_create_ex env env' path psize new_salt new_file_id 0"

definition sdb_pager_create_encrypted_ex ::
  "sdb_env \<Rightarrow> sdb_env \<Rightarrow> string \<Rightarrow> u32 \<Rightarrow> bytes \<Rightarrow> bytes \<Rightarrow> bytes option \<Rightarrow> u32 \<Rightarrow> nat \<Rightarrow> directory
    \<Rightarrow> (sdb_pager result \<times> directory) option" where
  "sdb_pager_create_encrypted_ex env env' path psize new_salt new_file_id password iterations cache_bytes d =
    (if password = None \<or> password = Some [] \<or> iterations < SDB_MIN_KDF_ITERATIONS \<or> iterations > SDB_MAX_KDF_ITERATIONS
     then Some (Inl SDB_E_INVALID_ARGUMENT, d)
     else
       let sb = zero_superblock\<lparr>page_size := psize, flags := SDB_FLAG_ENCRYPTED OR SDB_FLAG_HEADER_AUTH,
                  generation := 1, next_page_id := 1, key_wrap_id := 1, kdf_iterations := iterations,
                  salt := new_salt, file_id := new_file_id\<rparr> in
       case rbind (env_random env 0) (\<lambda>data_key.
            rbind (sdb_key_wrap (env_malloc env 3) (env_avx2 env) sb (the password) data_key) (\<lambda>sb. Inr (data_key, sb))) of
         Inl e \<Rightarrow> Some (Inl e, d)
       | Inr (data_key, sb) \<Rightarrow>
           (case dbind (sdb_superblock_store_create_authenticated (env_malloc env 0) path sb (Some data_key))
                   (\<lambda>_. pager_reset_log env path) d of
              (Inl e, d) \<Rightarrow> Some (Inl e, d)
            | (Inr _, d) \<Rightarrow> sdb_pager_open_encrypted_ex env' path password cache_bytes d))"

definition sdb_pager_create_encrypted ::
  "sdb_env \<Rightarrow> sdb_env \<Rightarrow> string \<Rightarrow> u32 \<Rightarrow> bytes \<Rightarrow> bytes \<Rightarrow> bytes option \<Rightarrow> u32 \<Rightarrow> directory
    \<Rightarrow> (sdb_pager result \<times> directory) option" where
  "sdb_pager_create_encrypted env env' path psize new_salt new_file_id password iterations =
    sdb_pager_create_encrypted_ex env env' path psize new_salt new_file_id password iterations 0"

definition sdb_pager_close :: "pstate \<Rightarrow> unit result \<times> pstate" where
  "sdb_pager_close = (\<lambda>(p, d).
    if \<not> pg_open p \<or> pg_transaction_active p then (Inl SDB_E_INVALID_ARGUMENT, p, d)
    else case sdb_pager_close_wal (p, d) of
      (wal_close_status, s) \<Rightarrow>
        (case close_database s of
           (status, p, d) \<Rightarrow>
             (if is_ok status then wal_close_status else status,
              p\<lparr>pg_cache := sdb_page_cache_destroy (pg_cache p), pg_wal_index := sdb_wal_index_free (pg_wal_index p),
                pg_commit_coord_ready := False, pg_wal_path := None, pg_data_key := zeros 32,
                pg_encryption_enabled := False, pg_wal_tail := 0, pg_current_lsn := 0,
                pg_checkpoint_threshold := 0, pg_open := False\<rparr>, d)))"

definition sdb_pager_rotate_password ::
  "sdb_env \<Rightarrow> bytes option \<Rightarrow> u32 \<Rightarrow> sdb_pager \<Rightarrow> unit result \<times> sdb_pager" where
  "sdb_pager_rotate_password env new_password new_kdf_iterations p =
    (if \<not> pg_open p \<or> \<not> pg_encryption_enabled p \<or> pg_transaction_active p \<or> pg_needs_recovery p
        \<or> wi_size (pg_wal_index p) \<noteq> 0 \<or> new_password = None \<or> new_password = Some []
        \<or> new_kdf_iterations < SDB_MIN_KDF_ITERATIONS \<or> new_kdf_iterations > SDB_MAX_KDF_ITERATIONS
        \<or> key_wrap_id (pg_superblock p) = - 1
     then (Inl SDB_E_INVALID_ARGUMENT, p)
     else
       let next = (pg_superblock p)\<lparr>key_wrap_id := key_wrap_id (pg_superblock p) + 1,
                    kdf_iterations := new_kdf_iterations\<rparr> in
       case rbind (sdb_generation_bump (generation next)) (\<lambda>gen.
            sdb_key_wrap (env_malloc env 0) (env_avx2 env) (next\<lparr>generation := gen\<rparr>) (the new_password) (pg_data_key p)) of
         Inl e \<Rightarrow> (Inl e, p)
       | Inr next \<Rightarrow> sdb_pager_store_superblock next p)"

end
