(* ===== verification/Pager_View.thy ===== *)
theory Pager_View
  imports Pager_Open
begin

text \<open>
  What a pager shows: the page behind an id is the one in the log if the log index
  lists it and the one in the database file otherwise. The cache never shows
  anything else, and reading a page delivers it.
\<close>

section \<open>Pages\<close>

text \<open>Decryption does not depend on the vector unit, nor on room it does not need.\<close>

lemma decrypt_avx2: "sdb_encrypted_page_decrypt avx2 sb key view capacity = sdb_encrypted_page_decrypt False sb key view capacity"
  unfolding sdb_encrypted_page_decrypt_def sdb_xchacha20poly1305_decrypt_def chacha_xor_loop ..

lemma decrypt_cong:
  assumes "file_id sb = file_id sb'"
  shows "sdb_encrypted_page_decrypt avx2 sb key view capacity = sdb_encrypted_page_decrypt avx2 sb' key view capacity"
proof -
  have aad: "sdb_encrypted_aad sb = sdb_encrypted_aad sb'"
    using assms by (simp add: fun_eq_iff sdb_encrypted_aad_def)
  show ?thesis
    unfolding sdb_encrypted_page_decrypt_def aad ..
qed

text \<open>The plaintext image of a stored page, and the view of it.\<close>

definition plain_page :: "bytes \<Rightarrow> nat \<Rightarrow> bytes option \<Rightarrow> u64 \<Rightarrow> bytes \<Rightarrow> (bytes \<times> sdb_page_view) result" where
  "plain_page fid psize key page_id page =
    rbind (sdb_page_decode page page_id) (\<lambda>view.
      case key of
        None \<Rightarrow> if pv_type view = SDB_PAGE_TYPE_ENCRYPTED then Inl SDB_E_CORRUPT else Inr (page, view)
      | Some data_key \<Rightarrow>
          if pv_type view \<noteq> SDB_PAGE_TYPE_ENCRYPTED then Inl SDB_E_CORRUPT
          else case sdb_encrypted_page_decrypt False (zero_superblock\<lparr>file_id := fid\<rparr>) data_key view (psize - 84) of
            Inl (e, _) \<Rightarrow> Inl e
          | Inr (type, plaintext) \<Rightarrow>
              rbind (sdb_page_encode psize type page_id (pv_page_lsn view) plaintext) (\<lambda>plain.
              rbind (sdb_page_decode plain page_id) (\<lambda>view. Inr (plain, view))))"

lemma plain_page_decodes:
  assumes "plain_page fid psize key page_id page = Inr (plain, view)" "length page = psize"
  shows "sdb_page_decode plain page_id = Inr view" "length plain = psize" "pv_type view \<noteq> SDB_PAGE_TYPE_ENCRYPTED"
proof -
  obtain v where v: "sdb_page_decode page page_id = Inr v"
    using assms(1) by (auto simp: plain_page_def rbind_eq_Inr)
  have "sdb_page_decode plain page_id = Inr view \<and> length plain = psize \<and> pv_type view \<noteq> SDB_PAGE_TYPE_ENCRYPTED"
  proof (cases key)
    case None
    then show ?thesis
      using assms v by (auto simp: plain_page_def split: if_splits)
  next
    case (Some k)
    obtain type plaintext where d: "sdb_encrypted_page_decrypt False (zero_superblock\<lparr>file_id := fid\<rparr>) k v (psize - 84) = Inr (type, plaintext)"
      and e: "sdb_page_encode psize type page_id (pv_page_lsn v) plaintext = Inr plain" "sdb_page_decode plain page_id = Inr view"
      using assms(1) v Some by (auto simp: plain_page_def rbind_eq_Inr split: if_splits sum.splits)
    have "type = SDB_PAGE_TYPE_DATA \<or> type = SDB_PAGE_TYPE_FREE"
      using d by (auto simp: sdb_encrypted_page_decrypt_def Let_def split: if_splits sum.splits)
    then have "type \<noteq> SDB_PAGE_TYPE_ENCRYPTED"
      by (auto simp: page_consts)
    then show ?thesis
      using e page_decode_image [of psize type page_id plaintext "pv_page_lsn v"]
      by (auto simp: page_encode_image length_page_image split: if_splits)
  qed
  then show "sdb_page_decode plain page_id = Inr view" "length plain = psize" "pv_type view \<noteq> SDB_PAGE_TYPE_ENCRYPTED"
    by simp_all
qed

lemma open_page_plain:
  assumes "page_size_ok (pg_page_size p)"
  shows "(case plain_page (file_id (pg_superblock p)) (pg_page_size p) (pg_key p) page_id page of
      Inr (plain, view) \<Rightarrow> pager_open_page env p page_id page = Inr (plain, view)
    | Inl e \<Rightarrow> \<exists>drop. pager_open_page env p page_id page = Inl (e, drop))
    \<or> (\<exists>n. \<not> env_malloc env 0 n) \<and> pager_open_page env p page_id page = Inl (SDB_E_OUT_OF_MEMORY, False)"
proof (cases "sdb_page_decode page page_id")
  case (Inr view)
  have cap: "pg_encryption_enabled p \<Longrightarrow> sdb_pager_payload_capacity p = pg_page_size p - 84" "0 < pg_page_size p - 84"
    using page_size_ok_bounds [OF assms]
    by (auto simp: sdb_pager_payload_capacity_def SDB_PAGE_HEADER_SIZE_def SDB_ENCRYPTED_PAYLOAD_HEADER_SIZE_def Let_def)
  have dec: "sdb_encrypted_page_decrypt (env_avx2 env) (pg_superblock p) k view c =
      sdb_encrypted_page_decrypt False (zero_superblock\<lparr>file_id := file_id (pg_superblock p)\<rparr>) k view c" for k c
    using decrypt_avx2 decrypt_cong [of "pg_superblock p" "zero_superblock\<lparr>file_id := file_id (pg_superblock p)\<rparr>"] by simp
  show ?thesis
  proof (cases "pg_encryption_enabled p \<and> pv_type view = SDB_PAGE_TYPE_ENCRYPTED")
    case True
    let ?d = "sdb_encrypted_page_decrypt False (zero_superblock\<lparr>file_id := file_id (pg_superblock p)\<rparr>) (pg_data_key p) view (pg_page_size p - 84)"
    have o: "pager_open_page env p page_id page = (if \<not> env_malloc env 0 (pg_page_size p - 84) then Inl (SDB_E_OUT_OF_MEMORY, False)
        else case ?d of Inl (e, _) \<Rightarrow> Inl (e, True)
        | Inr (plaintext_type, plaintext) \<Rightarrow>
             (case sdb_page_encode (pg_page_size p) plaintext_type page_id (pv_page_lsn view) plaintext of
                Inl e \<Rightarrow> Inl (e, True)
              | Inr plain \<Rightarrow>
                  (case sdb_page_decode plain page_id of Inl e \<Rightarrow> Inl (e, True) | Inr view \<Rightarrow> Inr (plain, view))))"
      using True cap by (simp add: pager_open_page_def Inr dec)
    have l: "plain_page (file_id (pg_superblock p)) (pg_page_size p) (pg_key p) page_id page = (case ?d of Inl (e, _) \<Rightarrow> Inl e
        | Inr (type, plaintext) \<Rightarrow>
            rbind (sdb_page_encode (pg_page_size p) type page_id (pv_page_lsn view) plaintext) (\<lambda>plain.
            rbind (sdb_page_decode plain page_id) (\<lambda>view. Inr (plain, view))))"
      unfolding plain_page_def Inr pg_key_def using True by simp
    show ?thesis
    proof (cases "env_malloc env 0 (pg_page_size p - 84)")
      case m: True
      show ?thesis
      proof (cases ?d)
        case d: (Inr q)
        obtain type plaintext where q: "q = (type, plaintext)"
          by (cases q)
        show ?thesis
          by (cases "sdb_page_encode (pg_page_size p) type page_id (pv_page_lsn view) plaintext";
              cases "sdb_page_decode (projr (sdb_page_encode (pg_page_size p) type page_id (pv_page_lsn view) plaintext)) page_id")
            (auto simp: o l m d q)
      qed (auto simp: o l m)
    qed (auto simp: o)
  next
    case False
    then show ?thesis
      by (auto simp: pager_open_page_def plain_page_def Inr pg_key_def)
  qed
qed (auto simp: pager_open_page_def plain_page_def)

section \<open>What a pager shows\<close>

definition wal_bytes :: "sdb_pager \<Rightarrow> directory \<Rightarrow> bytes" where
  "wal_bytes p d = fcontent (d_inodes d ! pg_wal_file p)"

definition stored_image :: "sdb_pager \<Rightarrow> directory \<Rightarrow> u64 \<Rightarrow> bytes" where
  "stored_image p d page_id =
    (case sdb_wal_index_get (pg_wal_index p) page_id of
       Some wal_offset \<Rightarrow> slice (unat wal_offset + 40) (pg_page_size p) (wal_bytes p d)
     | None \<Rightarrow> slice (page_offset (pg_page_size p) page_id) (pg_page_size p) (fcontent (pg_file p)))"

definition shown_page :: "sdb_pager \<Rightarrow> directory \<Rightarrow> u64 \<Rightarrow> (bytes \<times> sdb_page_view) result" where
  "shown_page p d page_id =
    plain_page (file_id (pg_superblock p)) (pg_page_size p) (pg_key p) page_id (stored_image p d page_id)"

definition page_in_use :: "sdb_pager \<Rightarrow> u64 \<Rightarrow> bool" where
  "page_in_use p page_id \<longleftrightarrow> page_id \<noteq> 0 \<and> page_id < next_page_id (pg_superblock p)"

text \<open>The frames the index lists lie in the part of the log that was written.\<close>

definition log_ok :: "sdb_pager \<Rightarrow> directory \<Rightarrow> bool" where
  "log_ok p d \<longleftrightarrow> wal_index_inv (pg_wal_index p) \<and> pg_wal_path p \<noteq> None
    \<and> 64 \<le> unat (pg_wal_tail p) \<and> unat (pg_wal_tail p) \<le> SDB_WAL_MAX_BYTES
    \<and> (pg_wal_file_open p \<longrightarrow> pg_wal_file p < length (d_inodes d) \<and> length (wal_bytes p d) \<le> SDB_WAL_MAX_BYTES
        \<and> (unat (pg_wal_tail p) = 64 \<or> unat (pg_wal_tail p) \<le> length (wal_bytes p d)))
    \<and> (\<not> pg_wal_file_open p \<longrightarrow> unat (pg_wal_tail p) = 64 \<and> (\<forall>h. d_names d (the (pg_wal_path p)) = Some h \<longrightarrow>
        h < length (d_inodes d) \<and> length (fcontent (d_inodes d ! h)) \<le> SDB_WAL_MAX_BYTES))
    \<and> (\<forall>page_id wal_offset. sdb_wal_index_get (pg_wal_index p) page_id = Some wal_offset \<longrightarrow>
        pg_wal_file_open p \<and> page_in_use p page_id \<and> 64 \<le> unat wal_offset
        \<and> unat wal_offset + 40 + pg_page_size p \<le> unat (pg_wal_tail p))"

definition file_in_order :: "sdb_pager \<Rightarrow> bool" where
  "file_in_order p \<longleftrightarrow> superblock_arrays (pg_superblock p) \<and> page_size_ok (pg_page_size p) \<and> next_page_id (pg_superblock p) \<noteq> 0
    \<and> file_ok (pg_file p) \<and> 8192 + (unat (next_page_id (pg_superblock p)) - 1) * pg_page_size p \<le> length (fcontent (pg_file p))"

definition cache_ok :: "sdb_pager \<Rightarrow> directory \<Rightarrow> bool" where
  "cache_ok p d \<longleftrightarrow> cache_inv (pg_cache p) \<and> pc_page_size (pg_cache p) = pg_page_size p
    \<and> (\<forall>page_id img. cache_view (pg_cache p) page_id = Some img \<longrightarrow>
        page_in_use p page_id \<and> (\<exists>view. shown_page p d page_id = Inr (img, view)))"

definition pager_ok :: "sdb_pager \<Rightarrow> directory \<Rightarrow> bool" where
  "pager_ok p d \<longleftrightarrow> file_in_order p \<and> log_ok p d \<and> cache_ok p d"

text \<open>A step that leaves what is stored alone, and the pager's structure but for the cache.\<close>

definition same_store :: "sdb_pager \<Rightarrow> directory \<Rightarrow> sdb_pager \<Rightarrow> directory \<Rightarrow> bool" where
  "same_store p d p' d' \<longleftrightarrow> (\<exists>f c. p' = p\<lparr>pg_file := f, pg_cache := c\<rparr> \<and> same_file (pg_file p) f) \<and> dir_unchanged d d'"

lemma same_storeI: "same_file (pg_file p) f \<Longrightarrow> dir_unchanged d d' \<Longrightarrow> same_store p d (p\<lparr>pg_file := f, pg_cache := c\<rparr>) d'"
  unfolding same_store_def by (intro conjI exI [of _ f] exI [of _ c]) simp_all

lemma same_storeE:
  assumes "same_store p d p' d'"
  obtains f c where "p' = p\<lparr>pg_file := f, pg_cache := c\<rparr>" "same_file (pg_file p) f" "dir_unchanged d d'"
  using assms unfolding same_store_def by blast

lemma same_store_refl [simp]: "same_store p d p d"
  using same_storeI [of p "pg_file p" d d "pg_cache p"] by simp

lemma same_store_trans:
  assumes "same_store p d p' d'" "same_store p' d' q e"
  shows "same_store p d q e"
proof -
  obtain f c where 1: "p' = p\<lparr>pg_file := f, pg_cache := c\<rparr>" "same_file (pg_file p) f" "dir_unchanged d d'"
    using assms(1) by (rule same_storeE)
  obtain g c' where 2: "q = p'\<lparr>pg_file := g, pg_cache := c'\<rparr>" "same_file (pg_file p') g" "dir_unchanged d' e"
    using assms(2) by (rule same_storeE)
  have "same_store p d (p\<lparr>pg_file := g, pg_cache := c'\<rparr>) e"
    using 1 2 same_file_trans [of "pg_file p" f g] dir_unchanged_trans by (intro same_storeI) auto
  then show ?thesis
    using 1(1) 2(1) by simp
qed

lemma same_store_cache:
  assumes "same_store p d p' d'"
  shows "same_store p d (p'\<lparr>pg_cache := c\<rparr>) d'"
proof -
  obtain f c' where 1: "p' = p\<lparr>pg_file := f, pg_cache := c'\<rparr>" "same_file (pg_file p) f" "dir_unchanged d d'"
    using assms by (rule same_storeE)
  then show ?thesis
    using same_storeI [OF 1(2,3), of c] by simp
qed

lemma dir_unchanged_nth:
  assumes "dir_unchanged d d'" "h < length (d_inodes d)"
  shows "fcontent (d_inodes d' ! h) = fcontent (d_inodes d ! h)" "h < length (d_inodes d')"
  using assms dir_unchanged_inode by blast+

lemma same_store_keeps:
  assumes "same_store p d p' d'" "log_ok p d"
  shows "stored_image p' d' = stored_image p d" "shown_page p' d' = shown_page p d" "log_ok p' d'"
    "file_in_order p' = file_in_order p" "page_in_use p' = page_in_use p"
proof -
  obtain f c where p': "p' = p\<lparr>pg_file := f, pg_cache := c\<rparr>" and f: "same_file (pg_file p) f" and d: "dir_unchanged d d'"
    using assms(1) by (rule same_storeE)
  have wal: "wal_bytes p' d' = wal_bytes p d" if "pg_wal_file_open p"
    using that assms(2) dir_unchanged_nth [OF d] p' by (simp add: wal_bytes_def log_ok_def)
  have "stored_image p' d' page_id = stored_image p d page_id" for page_id
  proof (cases "sdb_wal_index_get (pg_wal_index p) page_id")
    case (Some off)
    then have "wal_bytes p' d' = wal_bytes p d"
      using wal assms(2) by (auto simp: log_ok_def)
    then show ?thesis
      using Some p' by (simp add: stored_image_def)
  qed (use p' f in \<open>simp add: stored_image_def same_file_def\<close>)
  then show "stored_image p' d' = stored_image p d"
    by auto
  then show "shown_page p' d' = shown_page p d"
    using p' by (auto simp: shown_page_def pg_key_def)
  show "file_in_order p' = file_in_order p"
    using p' f by (simp add: file_in_order_def same_file_def file_ok_def)
  show "page_in_use p' = page_in_use p"
    using p' by (auto simp: page_in_use_def)
  have "d_names d' = d_names d"
    using d by (simp add: dir_unchanged_def)
  then show "log_ok p' d'"
    using assms(2) p' wal dir_unchanged_nth [OF d] by (auto simp: log_ok_def page_in_use_def)
qed

section \<open>Reading\<close>

lemma page_place:
  assumes "file_in_order p" "page_in_use p page_id"
  shows "page_offset (pg_page_size p) page_id + pg_page_size p \<le> length (fcontent (pg_file p))"
proof -
  have "unat page_id < unat (next_page_id (pg_superblock p))" "0 < unat page_id"
    using assms(2) by (simp_all add: page_in_use_def word_less_nat_alt unat_gt_0)
  then have "unat page_id * pg_page_size p \<le> (unat (next_page_id (pg_superblock p)) - 1) * pg_page_size p"
    "(unat page_id - 1) * pg_page_size p + pg_page_size p = unat page_id * pg_page_size p"
    by (intro mult_le_mono1, linarith) (cases "unat page_id", use \<open>0 < unat page_id\<close> in simp_all)
  then show ?thesis
    using assms(1) unfolding file_in_order_def page_offset_def by linarith
qed

lemma pager_offset_place:
  assumes "file_in_order p" "page_in_use p page_id"
  shows "\<exists>off. sdb_pager_offset p page_id = Inr off \<and> unat off = page_offset (pg_page_size p) page_id"
proof -
  let ?s = "ucast (page_size (pg_superblock p)) :: u64"
  let ?rel = "(unat page_id - 1) * pg_page_size p"
  have pos: "0 < pg_page_size p" "0 < unat page_id"
    using assms page_size_ok_bounds [of "pg_page_size p"]
    by (auto simp: file_in_order_def page_in_use_def unat_gt_0)
  have bound: "8192 + ?rel + pg_page_size p \<le> INT64_MAX"
    using page_place [OF assms] assms(1) by (simp add: file_in_order_def file_ok_def page_offset_def)
  have one: "unat (page_id - 1) = unat page_id - 1"
    using pos(2) by (simp add: unat_minus_one unat_gt_0)
  have u: "unat ?s = pg_page_size p"
    by (rule unat_ucast_u32)
  define rel where "rel = ?rel"
  have b: "8192 + rel < 2 ^ 63"
    using bound pos(1) unfolding rel_def INT64_MAX_def by linarith
  have "unat (- 1 :: u64) = 2 ^ 64 - 1"
    by (simp add: unsigned_minus_1_eq_mask mask_eq_exp_minus_1)
  moreover have "unat page_id - 1 \<le> (2 ^ 64 - 1) div pg_page_size p"
    using b pos(1) unfolding rel_def by (simp add: less_eq_div_iff_mult_less_eq)
  ultimately have c1: "page_id - 1 \<le> (- 1) div ?s"
    unfolding word_le_nat_alt unat_div one u by (simp only:)
  have "unat (page_id - 1) * unat ?s < 2 ^ LENGTH(64)"
    using b unfolding one u rel_def by simp
  then have rel: "unat ((page_id - 1) * ?s) = rel"
    using unat_mult_lem [of "page_id - 1" ?s] one u unfolding rel_def by simp
  have c2: "(page_id - 1) * ?s \<le> - 1 - 8192"
    unfolding word_le_nat_alt rel using b by simp
  have "unat (8192 :: u64) + unat ((page_id - 1) * ?s) < 2 ^ LENGTH(64)"
    unfolding rel using b by simp
  then have "unat (8192 + (page_id - 1) * ?s) = 8192 + rel"
    using unat_add_lem [of 8192 "(page_id - 1) * ?s"] rel by simp
  then show ?thesis
    using c1 c2 assms(2) unfolding rel_def
    by (simp add: sdb_pager_offset_def superblock_consts page_in_use_def page_offset_def Let_def not_less)
qed

text \<open>Fetching delivers what is stored, from the log or from the file.\<close>

definition pager_may_fail :: "sdb_pager \<Rightarrow> directory \<Rightarrow> bool" where
  "pager_may_fail p d \<longleftrightarrow> may_fail (pg_file p) \<or> dir_may_fail d"

lemma frame_inside:
  assumes "unat off + 40 + pg_page_size p \<le> unat (pg_wal_tail p)"
  shows "\<not> frame_outside_log p off" "unat (off + 40) = unat off + 40"
proof -
  have t: "unat (pg_wal_tail p) < 2 ^ 64"
    using unsigned_less [of "pg_wal_tail p"] by simp
  have le: "off \<le> pg_wal_tail p"
    using assms by (simp add: word_le_nat_alt)
  have sub: "unat (pg_wal_tail p - off) = unat (pg_wal_tail p) - unat off"
    using le by (rule unat_sub)
  have le2: "40 \<le> pg_wal_tail p - off"
    unfolding word_le_nat_alt sub using assms by simp
  have sub2: "unat (pg_wal_tail p - off - 40) = unat (pg_wal_tail p) - unat off - 40"
    using unat_sub [OF le2] sub by simp
  have "ucast (page_size (pg_superblock p)) \<le> pg_wal_tail p - off - 40"
    unfolding word_le_nat_alt sub2 unat_ucast_u32 using assms by simp
  then show "\<not> frame_outside_log p off"
    using le le2 by (simp add: frame_outside_log_def SDB_WAL_RECORD_HEADER_SIZE_V5_def not_less)
  have "unat off + unat (40 :: u64) < 2 ^ LENGTH(64)"
    using assms t by simp
  then show "unat (off + 40) = unat off + 40"
    using unat_add_lem [of off 40] by simp
qed

lemma log_frame:
  assumes "log_ok p d" "sdb_wal_index_get (pg_wal_index p) page_id = Some off"
  shows "pg_wal_file_open p" "pg_wal_file p < length (d_inodes d)" "page_in_use p page_id" "64 \<le> unat off"
    "unat off + 40 + pg_page_size p \<le> unat (pg_wal_tail p)" "unat (pg_wal_tail p) \<le> length (wal_bytes p d)"
    "length (wal_bytes p d) \<le> SDB_WAL_MAX_BYTES"
proof -
  note ok = assms(1) [unfolded log_ok_def]
  have f: "pg_wal_file_open p \<and> page_in_use p page_id \<and> 64 \<le> unat off
      \<and> unat off + 40 + pg_page_size p \<le> unat (pg_wal_tail p)"
    using ok assms(2) by blast
  then show "pg_wal_file_open p" "page_in_use p page_id" "64 \<le> unat off"
    "unat off + 40 + pg_page_size p \<le> unat (pg_wal_tail p)"
    by simp_all
  show "pg_wal_file p < length (d_inodes d)" "length (wal_bytes p d) \<le> SDB_WAL_MAX_BYTES"
    using ok f by simp_all
  show "unat (pg_wal_tail p) \<le> length (wal_bytes p d)"
    using ok f by auto
qed

lemma read_frame_spec:
  assumes ok: "log_ok p d" "page_size_ok (pg_page_size p)" and off: "sdb_wal_index_get (pg_wal_index p) page_id = Some off"
    and run: "pager_read_frame p off d = (r, d')"
  shows "dir_unchanged d d'" "r = Inr (stored_image p d page_id) \<or> r = Inl SDB_E_IO \<and> dir_may_fail d"
proof -
  note f = log_frame [OF ok(1) off]
  note inside = frame_inside [OF f(5)]
  obtain path where path: "pg_wal_path p = Some path"
    using ok(1) by (auto simp: log_ok_def)
  have rd: "on_file (pg_wal_file p) (sdb_file_read_full (unat off + 40) (pg_page_size p)) d = (r, d')"
    using run path inside f(1)
    by (simp add: pager_read_frame_def pager_wal_handle_def SDB_WAL_RECORD_HEADER_SIZE_V5_def split: prod.splits)
  have small: "length (fcontent (d_inodes d ! pg_wal_file p)) \<le> INT64_MAX"
    using f(7) by (simp add: wal_bytes_def SDB_WAL_MAX_BYTES_def INT64_MAX_def)
  have "unat off + 40 + pg_page_size p \<le> length (fcontent (d_inodes d ! pg_wal_file p))"
    using f(5,6) by (simp add: wal_bytes_def)
  moreover have "unat off + 40 \<le> INT64_MAX"
    using calculation small by linarith
  ultimately show "dir_unchanged d d'" "r = Inr (stored_image p d page_id) \<or> r = Inl SDB_E_IO \<and> dir_may_fail d"
    using on_file_read [OF rd f(2) small] by (auto simp: file_read_def stored_image_def off wal_bytes_def)
qed

lemma fetch_spec:
  assumes ok: "log_ok p d" "file_in_order p" and use_it: "page_in_use p page_id"
    and run: "pager_fetch p page_id d = (r, p', d')"
  shows "same_store p d p' d'" "pg_cache p' = pg_cache p"
    "r = Inr (stored_image p d page_id) \<or> r = Inl SDB_E_IO \<and> pager_may_fail p d"
proof -
  have psize: "page_size_ok (pg_page_size p)"
    using ok(2) by (simp add: file_in_order_def)
  have "same_store p d p' d' \<and> pg_cache p' = pg_cache p
    \<and> (r = Inr (stored_image p d page_id) \<or> r = Inl SDB_E_IO \<and> pager_may_fail p d)"
  proof (cases "sdb_wal_index_get (pg_wal_index p) page_id")
    case (Some off)
    then have rd: "pager_read_frame p off d = (r, d')" and p': "p' = p"
      using run by (auto simp: pager_fetch_def split: prod.splits)
    show ?thesis
      using read_frame_spec [OF ok(1) psize Some rd] same_storeI [of p "pg_file p" d d' "pg_cache p"] p'
      by (auto simp: pager_may_fail_def)
  next
    case None
    obtain off where off: "sdb_pager_offset p page_id = Inr off" "unat off = page_offset (pg_page_size p) page_id"
      using pager_offset_place [OF ok(2) use_it] by blast
    obtain f where rd: "sdb_file_read_full (unat off) (pg_page_size p) (pg_file p) = (r, f)"
      and p': "p' = p\<lparr>pg_file := f\<rparr>" "d' = d"
      using run None off by (auto simp: pager_fetch_def on_database_def split: prod.splits)
    have place: "page_offset (pg_page_size p) page_id + pg_page_size p \<le> length (fcontent (pg_file p))"
      using page_place [OF ok(2) use_it] .
    have fine: "file_ok (pg_file p)"
      using ok(2) by (simp add: file_in_order_def)
    then have "unat off \<le> INT64_MAX"
      using place off(2) by (simp add: file_ok_def)
    note spec = sdb_file_read_full_spec [OF rd fine this]
    then show ?thesis
      using same_storeI [OF spec(1), of d d "pg_cache p"] p' place off
      by (auto simp: pager_may_fail_def file_read_def stored_image_def None)
  qed
  then show "same_store p d p' d'" "pg_cache p' = pg_cache p"
    "r = Inr (stored_image p d page_id) \<or> r = Inl SDB_E_IO \<and> pager_may_fail p d"
    by simp_all
qed

lemma length_stored_image:
  assumes "log_ok p d" "file_in_order p" "page_in_use p page_id"
  shows "length (stored_image p d page_id) = pg_page_size p"
proof (cases "sdb_wal_index_get (pg_wal_index p) page_id")
  case (Some off)
  then show ?thesis
    using log_frame [OF assms(1) Some] by (simp add: stored_image_def)
next
  case None
  then show ?thesis
    using page_place [OF assms(2,3)] by (simp add: stored_image_def)
qed

text \<open>What a read may end with.\<close>

definition read_outcome :: "sdb_env \<Rightarrow> sdb_pager \<Rightarrow> directory \<Rightarrow> u64 \<Rightarrow> sdb_page_view result \<Rightarrow> bool" where
  "read_outcome env p d page_id r \<longleftrightarrow>
    r = rbind (shown_page p d page_id) (\<lambda>(plain, view). Inr view)
    \<or> r = Inl SDB_E_IO \<and> pager_may_fail p d
    \<or> r = Inl SDB_E_OUT_OF_MEMORY \<and> (\<exists>n. \<not> env_malloc env 0 n)"

lemma cache_ok_store:
  assumes "cache_ok p d" "same_store p d p' d'" "log_ok p d" "cache_inv c" "pc_page_size c = pg_page_size p"
    and "\<And>page_id img. cache_view c page_id = Some img \<Longrightarrow>
      cache_view (pg_cache p) page_id = Some img \<or> page_in_use p page_id \<and> (\<exists>view. shown_page p d page_id = Inr (img, view))"
  shows "cache_ok (p'\<lparr>pg_cache := c\<rparr>) d'"
proof -
  note keeps = same_store_keeps [OF same_store_cache [OF assms(2), of c] assms(3)]
  obtain f c' where p': "p' = p\<lparr>pg_file := f, pg_cache := c'\<rparr>"
    using assms(2) by (rule same_storeE)
  have "page_in_use p page_id \<and> (\<exists>view. shown_page p d page_id = Inr (img, view))" if "cache_view c page_id = Some img" for page_id img
    using assms(1) assms(6) [OF that] by (auto simp: cache_ok_def)
  then show ?thesis
    unfolding cache_ok_def keeps(2,5) using assms(4,5) p' by simp
qed

lemma read_spec:
  assumes ok: "pager_ok p d" and ready: "pg_open p" "\<not> pg_needs_recovery p" "page_in_use p page_id" "pg_page_size p \<le> n"
  shows "\<exists>r p' d'. sdb_pager_read env page_id n (p, d) = Some (r, p', d') \<and> same_store p d p' d' \<and> pager_ok p' d'
    \<and> read_outcome env p d page_id r"
proof -
  have parts: "file_in_order p" "log_ok p d" "cache_ok p d" and psize: "page_size_ok (pg_page_size p)"
    using ok by (simp_all add: pager_ok_def file_in_order_def)
  have inv: "cache_inv (pg_cache p)" "pc_page_size (pg_cache p) = pg_page_size p"
    using parts(3) by (simp_all add: cache_ok_def)
  have id: "page_id \<noteq> 0" "page_id < next_page_id (pg_superblock p)"
    using ready(3) by (simp_all add: page_in_use_def)
  obtain hit c where get: "sdb_page_cache_get (pg_cache p) page_id = (hit, c)"
    by fastforce
  note g = cache_get_spec [OF inv(1) get]
  have done_: "pager_ok q e" if "same_store p d q' e" "q = q'\<lparr>pg_cache := c2\<rparr>" "cache_inv c2" "pc_page_size c2 = pg_page_size p"
    "\<And>k img. cache_view c2 k = Some img \<Longrightarrow> cache_view (pg_cache p) k = Some img \<or> page_in_use p k \<and> (\<exists>view. shown_page p d k = Inr (img, view))"
    for q q' e c2
    using same_store_keeps [OF same_store_cache [OF that(1), of c2] parts(2)] cache_ok_store [OF parts(3) that(1) parts(2) that(3,4,5)]
      parts that(2) by (simp add: pager_ok_def)
  have start: "same_store p d (p\<lparr>pg_cache := c\<rparr>) d"
    using same_store_cache [OF same_store_refl] .
  have read: "sdb_pager_read env page_id n (p, d) =
      (case hit of
         Some page \<Rightarrow>
           (case sdb_page_decode page page_id of
              Inr view \<Rightarrow> Some (Inr view, p\<lparr>pg_cache := c\<rparr>, d)
            | Inl e \<Rightarrow> map_option (\<lambda>cache. (Inl e, p\<lparr>pg_cache := cache\<rparr>, d)) (sdb_page_cache_remove c page_id))
       | None \<Rightarrow>
           (case pager_fetch (p\<lparr>pg_cache := c\<rparr>) page_id d of
              (Inl e, p, d) \<Rightarrow> Some (Inl e, p, d)
            | (Inr page, p, d) \<Rightarrow>
                (case pager_open_page env p page_id page of
                   Inr (plain, view) \<Rightarrow>
                     map_option (\<lambda>cache. (Inr view, p\<lparr>pg_cache := cache\<rparr>, d)) (sdb_page_cache_put (pg_cache p) page_id plain)
                 | Inl (e, False) \<Rightarrow> Some (Inl e, p, d)
                 | Inl (e, True) \<Rightarrow>
                     map_option (\<lambda>cache. (Inl e, p\<lparr>pg_cache := cache\<rparr>, d)) (sdb_page_cache_remove (pg_cache p) page_id))))"
    unfolding sdb_pager_read_def using ready id get leD [OF ready(4)] leD [of "next_page_id (pg_superblock p)" page_id]
    by (auto split: option.splits)
  show ?thesis
  proof (cases hit)
    case (Some page)
    then obtain view where view: "shown_page p d page_id = Inr (page, view)"
      using g parts(3) by (auto simp: cache_ok_def)
    have "length (stored_image p d page_id) = pg_page_size p"
      using length_stored_image [OF parts(2,1) ready(3)] .
    then have dec: "sdb_page_decode page page_id = Inr view"
      using plain_page_decodes(1) view unfolding shown_page_def by blast
    have "pager_ok (p\<lparr>pg_cache := c\<rparr>) d"
      by (rule done_ [OF same_store_refl refl]) (use g inv in simp_all)
    then show ?thesis
      using start view dec Some by (auto simp: read read_outcome_def)
  next
    case None
    let ?p = "p\<lparr>pg_cache := c\<rparr>"
    have k: "log_ok ?p d" "file_in_order ?p" "page_in_use ?p page_id" "stored_image ?p d = stored_image p d"
      "shown_page ?p d = shown_page p d"
      using same_store_keeps [OF start parts(2)] parts ready(3) by simp_all
    obtain r p1 d1 where fetch: "pager_fetch ?p page_id d = (r, p1, d1)"
      by (metis prod_cases3)
    note f = fetch_spec [OF k(1-3) fetch]
    have s1: "same_store p d p1 d1"
      using start f(1) by (rule same_store_trans)
    have c1: "cache_inv (pg_cache p1)" "pc_page_size (pg_cache p1) = pg_page_size p" "cache_view (pg_cache p1) = cache_view (pg_cache p)"
      using f(2) g inv by simp_all
    have ok1: "pager_ok p1 d1"
      by (rule done_ [OF s1, of _ "pg_cache p1"]) (use c1 in simp_all)
    obtain g' c' where p1: "p1 = p\<lparr>pg_file := g', pg_cache := c'\<rparr>"
      using s1 by (rule same_storeE)
    have fields: "file_id (pg_superblock p1) = file_id (pg_superblock p)" "pg_page_size p1 = pg_page_size p" "pg_key p1 = pg_key p"
      using p1 by (simp_all add: pg_key_def)
    have mf: "pager_may_fail ?p d = pager_may_fail p d"
      by (simp add: pager_may_fail_def)
    show ?thesis
    proof (cases r)
      case (Inl e)
      then show ?thesis
        using f(3) ok1 s1 None mf by (auto simp: read fetch read_outcome_def)
    next
      case (Inr page)
      then have page: "page = stored_image p d page_id"
        using f(3) k(4) by simp
      have size: "length page = pg_page_size p"
        using length_stored_image [OF parts(2,1) ready(3)] page by simp
      have removed: "\<exists>c2. sdb_page_cache_remove (pg_cache p1) page_id = Some c2 \<and> pager_ok (p1\<lparr>pg_cache := c2\<rparr>) d1"
      proof -
        obtain c2 where c2: "sdb_page_cache_remove (pg_cache p1) page_id = Some c2" "cache_inv c2"
          "pc_page_size c2 = pg_page_size p" "cache_view c2 = (cache_view (pg_cache p))(page_id := None)"
          using cache_remove_spec [OF c1(1), of page_id] c1 by auto
        have "pager_ok (p1\<lparr>pg_cache := c2\<rparr>) d1"
          by (rule done_ [OF s1 refl]) (use c2 in \<open>auto split: if_splits\<close>)
        with c2(1) show ?thesis
          by blast
      qed
      have pp: "plain_page (file_id (pg_superblock p1)) (pg_page_size p1) (pg_key p1) page_id page = shown_page p d page_id"
        unfolding shown_page_def fields page ..
      have "page_size_ok (pg_page_size p1)"
        using psize fields by simp
      note o = open_page_plain [OF this, where env = env and page_id = page_id and page = page, unfolded pp]
      consider (good) plain view where "shown_page p d page_id = Inr (plain, view)" "pager_open_page env p1 page_id page = Inr (plain, view)"
        | (bad) e b where "pager_open_page env p1 page_id page = Inl (e, b)" "read_outcome env p d page_id (Inl e)"
        using o by (cases "shown_page p d page_id") (auto simp: read_outcome_def, blast)
      then show ?thesis
      proof cases
        case good
        then have "length plain = pc_page_size (pg_cache p1)"
          using plain_page_decodes(2) size c1(2) unfolding shown_page_def page by simp
        then obtain c2 v where c2: "sdb_page_cache_put (pg_cache p1) page_id plain = Some c2" "cache_inv c2"
          "pc_page_size c2 = pg_page_size p" "cache_view c2 = ((cache_view (pg_cache p))(v := None))(page_id \<mapsto> plain)"
          using cache_put_spec [OF c1(1) id(1)] c1 by fastforce
        have "pager_ok (p1\<lparr>pg_cache := c2\<rparr>) d1"
          by (rule done_ [OF s1 refl]) (use c2 good ready(3) in \<open>auto split: if_splits\<close>)
        then show ?thesis
          using good None Inr c2(1) same_store_cache [OF s1] by (auto simp: read fetch read_outcome_def)
      next
        case bad
        then show ?thesis
          using None Inr removed ok1 s1 same_store_cache [OF s1] by (cases b) (auto simp: read fetch)
      qed
    qed
  qed
qed


text \<open>
  C6: reading a page. From a pager in order (every page the log index lists lies in
  the written part of the log, the file is long enough, the cache holds only what is
  shown) the read always ends. It delivers the page that is stored: the newest
  committed version in the log if there is one, else the one in the database file,
  decrypted and checked; a page that does not decode or decrypt is reported with that
  error. The only other outcomes are a failed system call and memory running out. The
  stored data stays as it was and the pager stays in order, so the next read agrees.
\<close>

theorem pager_reads_stored_page:
  assumes "pager_ok p d" "pg_open p" "\<not> pg_needs_recovery p" "page_in_use p page_id" "pg_page_size p \<le> n"
  shows "\<exists>r p' d'. sdb_pager_read env page_id n (p, d) = Some (r, p', d') \<and> same_store p d p' d' \<and> pager_ok p' d'
    \<and> read_outcome env p d page_id r"
  using assms by (rule read_spec)

text \<open>A small database in order: one page in the file, an empty log.\<close>

definition example_pager :: "sdb_page_cache \<Rightarrow> sdb_wal_index \<Rightarrow> sdb_pager" where
  "example_pager c ix = zero_pager\<lparr>
    pg_file := \<lparr>fcontent = zeros 8192 @ wp_bytes example_wal_page, fdurable = zeros 8192 @ wp_bytes example_wal_page, fpending = [], fscript = []\<rparr>,
    pg_superblock := example_superblock\<lparr>next_page_id := 2\<rparr>, pg_cache := c, pg_wal_index := ix,
    pg_wal_path := Some ''db.wal'', pg_wal_tail := 64, pg_current_lsn := 4, pg_checkpoint_threshold := 4096000, pg_open := True\<rparr>"

lemma example_pager_ok:
  obtains c ix where "pager_ok (example_pager c ix) empty_directory" "cache_view c = Map.empty" "sdb_wal_index_get ix = Map.empty"
proof -
  have "slot_capacity_for 1 8 = Some 16"
    by (simp add: slot_capacity_for.simps)
  then obtain c where "sdb_page_cache_init (\<lambda>_. True) 8 4096 = Some (Inr c)"
    by (simp add: sdb_page_cache_init_def SIZE_MAX_def sizeof_page_cache_entry_def sizeof_page_cache_slot_def sizeof_size_t_def)
  then have c: "cache_inv c" "cache_view c = Map.empty" "pc_page_size c = 4096"
    using cache_init_spec [of "\<lambda>_. True" 8 4096 c] by auto
  obtain ix where "sdb_wal_index_init (\<lambda>_. True) = Inr ix"
    by (simp add: sdb_wal_index_init_def)
  then have ix: "wal_index_inv ix" "sdb_wal_index_get ix = Map.empty"
    using init_inv by auto
  have "page_size_ok 4096"
    by (simp add: page_size_ok_def page_consts)
  moreover have "length (wp_bytes example_wal_page) = 4096"
    using example_wal_page_ok(2) .
  ultimately have "file_in_order (example_pager c ix)"
    by (simp add: file_in_order_def example_pager_def zero_pager_def example_superblock_def superblock_arrays_def file_ok_def INT64_MAX_def)
  moreover have "log_ok (example_pager c ix) empty_directory"
    using ix by (simp add: log_ok_def example_pager_def zero_pager_def SDB_WAL_MAX_BYTES_def empty_directory_def)
  moreover have "cache_ok (example_pager c ix) empty_directory"
    using c by (simp add: cache_ok_def example_pager_def zero_pager_def example_superblock_def)
  ultimately show thesis
    using that c(2) ix(2) by (simp add: pager_ok_def)
qed

definition example_env :: sdb_env where
  "example_env = \<lparr>env_malloc = \<lambda>_ _. True, env_avx2 = False, env_random = \<lambda>_. Inl SDB_E_IO, env_script = [],
    env_mutex = Inr (), env_cond = Inr ()\<rparr>"

theorem pager_reads_stored_page_witness:
  "\<exists>c ix. pager_ok (example_pager c ix) empty_directory \<and> (\<exists>p' d'. sdb_pager_read example_env 1 4096 (example_pager c ix, empty_directory)
    = Some (Inr \<lparr>pv_type = 1, pv_flags = 0, pv_page_id = 1, pv_page_lsn = 4, pv_payload = [1, 2, 3], pv_payload_size = 3\<rparr>, p', d'))"
proof (rule example_pager_ok)
  fix c ix
  let ?p = "example_pager c ix"
  assume ok: "pager_ok ?p empty_directory" and "cache_view c = Map.empty" and ix: "sdb_wal_index_get ix = Map.empty"
  have ready: "pg_open ?p" "\<not> pg_needs_recovery ?p" "page_in_use ?p 1" "pg_page_size ?p \<le> 4096"
    by (simp_all add: example_pager_def zero_pager_def page_in_use_def example_superblock_def)
  have args: "page_args_ok 4096 1 1 [1, 2, 3]"
    by (simp add: page_args_ok_def page_size_ok_def page_consts sdb_page_type_valid_def)
  have "length (wp_bytes example_wal_page) = 4096"
    using example_wal_page_ok(2) .
  then have "stored_image ?p empty_directory 1 = page_image 4096 1 1 4 [1, 2, 3]"
    using ix by (simp add: stored_image_def example_pager_def zero_pager_def page_offset_def example_superblock_def slice_append_right)
      (simp add: slice_def example_wal_page_def)
  then have "shown_page ?p empty_directory 1 = Inr (page_image 4096 1 1 4 [1, 2, 3],
      \<lparr>pv_type = 1, pv_flags = 0, pv_page_id = 1, pv_page_lsn = 4, pv_payload = [1, 2, 3], pv_payload_size = 3\<rparr>)"
    using page_decode_image [OF args, of 4]
    by (simp add: shown_page_def plain_page_def example_pager_def zero_pager_def pg_key_def SDB_PAGE_TYPE_ENCRYPTED_def)
  moreover have "\<not> pager_may_fail ?p empty_directory"
    by (simp add: pager_may_fail_def may_fail_def dir_may_fail_def example_pager_def zero_pager_def empty_directory_def)
  ultimately show ?thesis
    using pager_reads_stored_page [OF ok ready, of example_env] ok by (fastforce simp: read_outcome_def example_env_def)
qed

end
