(* ===== verification/Pager_Commit.thy ===== *)
theory Pager_Commit
  imports Pager_View
begin

text \<open>
  What a commit does to the pages a pager shows: the staged pages take their new
  contents, all others keep theirs.
\<close>

section \<open>The staged pages\<close>

definition page_view :: "u16 \<Rightarrow> u64 \<Rightarrow> u64 \<Rightarrow> bytes \<Rightarrow> sdb_page_view" where
  "page_view type page_id lsn payload = \<lparr>pv_type = type, pv_flags = 0, pv_page_id = page_id, pv_page_lsn = lsn,
    pv_payload = payload, pv_payload_size = word_of_nat (length payload)\<rparr>"

definition plain_result :: "nat \<Rightarrow> u16 \<Rightarrow> u64 \<Rightarrow> u64 \<Rightarrow> bytes \<Rightarrow> (bytes \<times> sdb_page_view) result" where
  "plain_result psize type page_id lsn payload = Inr (page_image psize type page_id lsn payload, page_view type page_id lsn payload)"

text \<open>The operating system's generator delivers the 24 bytes it is asked for.\<close>

definition nonces_ok :: "sdb_env \<Rightarrow> bool" where
  "nonces_ok env \<longleftrightarrow> (\<forall>n nonce. env_random env n = Inr nonce \<longrightarrow> length nonce = 24)"

lemma encode_page_plain:
  assumes run: "pager_encode_page env n psize sb key type page_id lsn payload = Inr page"
    and psize: "page_size_ok psize" and fid: "length (file_id sb) = 16" and nonce: "nonces_ok env"
    and type: "type = SDB_PAGE_TYPE_DATA \<or> type = SDB_PAGE_TYPE_FREE"
  shows "plain_page (file_id sb) psize key page_id page = plain_result psize type page_id lsn payload"
    "length page = psize" "\<exists>v. sdb_page_decode page page_id = Inr v \<and> pv_page_lsn v = lsn"
proof -
  have valid: "sdb_page_type_valid type" "type \<noteq> SDB_PAGE_TYPE_ENCRYPTED"
    using type by (auto simp: sdb_page_type_valid_def page_consts)
  have "plain_page (file_id sb) psize key page_id page = plain_result psize type page_id lsn payload
    \<and> length page = psize \<and> (\<exists>v. sdb_page_decode page page_id = Inr v \<and> pv_page_lsn v = lsn)"
  proof (cases key)
    case None
    then have ok: "page_args_ok psize type page_id payload" "page = page_image psize type page_id lsn payload"
      using run by (auto simp: pager_encode_page_def page_encode_image split: if_splits)
    then show ?thesis
      using page_decode_image [OF ok(1), of lsn] valid length_page_image [OF ok(1)] None
      by (simp add: plain_page_def plain_result_def page_view_def)
  next
    case (Some k)
    have enc: "sdb_encrypted_page_encode (env_malloc env n) (env_random env n) (env_avx2 env) sb k psize type page_id lsn payload = Inr page"
      using run Some by (simp add: pager_encode_page_def)
    then obtain nonce where nonce': "env_random env n = Inr nonce"
      by (auto simp: sdb_encrypted_page_encode_def Let_def rbind_eq_Inr split: if_splits)
    have len: "length nonce = 24"
      using nonce nonce' by (simp add: nonces_ok_def)
    note enc = enc [unfolded nonce']
    have room: "length payload \<le> psize - 84"
      using enc by (auto simp: sdb_encrypted_page_encode_def SDB_PAGE_HEADER_SIZE_def SDB_ENCRYPTED_PAYLOAD_HEADER_SIZE_def split: if_splits)
    let ?aad = "sdb_encrypted_aad sb page_id lsn type (of_nat (length payload))"
    obtain c t where pg: "sdb_page_encode psize SDB_PAGE_TYPE_ENCRYPTED page_id lsn (sealed_payload nonce type t c) = Inr page"
      using encode_sealed [OF fid refl len enc] by blast
    have ok: "page_args_ok psize SDB_PAGE_TYPE_ENCRYPTED page_id (sealed_payload nonce type t c)"
      "page = page_image psize SDB_PAGE_TYPE_ENCRYPTED page_id lsn (sealed_payload nonce type t c)"
      using pg by (auto simp: page_encode_image split: if_splits)
    note dec = page_decode_image [OF ok(1), of lsn, folded ok(2)]
    obtain v where v: "sdb_page_decode page page_id = Inr v"
      "sdb_encrypted_page_decrypt False sb k v (psize - 84) = Inr (type, payload)"
      using decrypt_encoded [OF fid len room enc] by blast
    have open_: "sdb_encrypted_page_decrypt False (zero_superblock\<lparr>file_id := file_id sb\<rparr>) k v (psize - 84) = Inr (type, payload)"
      using v(2) decrypt_cong [of sb "zero_superblock\<lparr>file_id := file_id sb\<rparr>"] by simp
    have args: "page_args_ok psize type page_id payload"
      using ok(1) valid room by (simp add: page_args_ok_def)
    have vt: "pv_type v = SDB_PAGE_TYPE_ENCRYPTED" "pv_page_lsn v = lsn"
      using v(1) dec by auto
    show ?thesis
      unfolding plain_page_def v(1) plain_result_def page_view_def Some
      using open_ vt args page_decode_image [OF args, of lsn] length_page_image [OF ok(1)] ok(2)
      by (simp add: page_encode_image)
  qed
  then show "plain_page (file_id sb) psize key page_id page = plain_result psize type page_id lsn payload"
    "length page = psize" "\<exists>v. sdb_page_decode page page_id = Inr v \<and> pv_page_lsn v = lsn"
    by simp_all
qed

text \<open>How a page in the log goes with the staged page it was made from.\<close>

definition staged_as :: "bytes \<Rightarrow> nat \<Rightarrow> bytes option \<Rightarrow> u64 \<Rightarrow> sdb_txn_page \<Rightarrow> sdb_wal_page \<Rightarrow> bool" where
  "staged_as fid psize key lsn q w \<longleftrightarrow> wp_page_id w = tp_page_id q \<and> length (wp_bytes w) = psize
    \<and> plain_page fid psize key (tp_page_id q) (wp_bytes w) = plain_result psize (tp_type q) (tp_page_id q) lsn (tp_payload q)
    \<and> (\<exists>v. sdb_page_decode (wp_bytes w) (wp_page_id w) = Inr v \<and> pv_page_lsn v = lsn)"

definition staged_types :: "sdb_txn_page list \<Rightarrow> bool" where
  "staged_types qs \<longleftrightarrow> (\<forall>q \<in> set qs. tp_type q = SDB_PAGE_TYPE_DATA \<or> tp_type q = SDB_PAGE_TYPE_FREE)"

lemma commit_encode_spec:
  assumes "commit_encode env index psize target key lsn qs = Inr ws"
    and "page_size_ok psize" "length (file_id target) = 16" "nonces_ok env" "staged_types qs"
  shows "list_all2 (staged_as (file_id target) psize key lsn) qs ws"
  using assms(1,5)
proof (induction qs arbitrary: index ws)
  case (Cons q qs)
  obtain page ps where page: "pager_encode_page env (8 + index) psize target key (tp_type q) (tp_page_id q) lsn (tp_payload q) = Inr page"
    and ps: "commit_encode env (index + 1) psize target key lsn qs = Inr ps"
    and ws: "ws = \<lparr>wp_page_id = tp_page_id q, wp_bytes = page\<rparr> # ps"
    using Cons.prems(1) by (auto simp: rbind_eq_Inr)
  have t: "tp_type q = SDB_PAGE_TYPE_DATA \<or> tp_type q = SDB_PAGE_TYPE_FREE" "staged_types qs"
    using Cons.prems(2) by (auto simp: staged_types_def)
  show ?case
    using encode_page_plain [OF page assms(2-4) t(1)] Cons.IH [OF ps t(2)] by (simp add: ws staged_as_def)
qed simp

lemma staged_pages:
  assumes "list_all2 (staged_as fid psize key lsn) qs ws"
  shows "map wp_page_id ws = map tp_page_id qs" "pages_sized psize ws" "length ws = length qs"
  using assms by (induction rule: list_all2_induct) (auto simp: staged_as_def)

section \<open>The log\<close>

lemma slice_file_write_before:
  assumes "a + n \<le> off" "a + n \<le> length c"
  shows "slice a n (file_write off bs c) = slice a n c"
proof (cases "bs = []")
  case False
  have "slice a n (blit off bs (file_grow (off + length bs) c)) = slice a n (file_grow (off + length bs) c)"
    using assms(1) by (intro slice_blit_before) (simp_all add: file_grow_def)
  also have "\<dots> = slice a n c"
    using assms(2) by (simp add: file_grow_def slice_def)
  finally show ?thesis
    using False by (simp add: file_write_def)
qed (simp add: file_write_def)

lemma slice_file_write_inside:
  assumes "off \<le> a" "a + n \<le> off + length bs"
  shows "slice a n (file_write off bs c) = slice (a - off) n bs"
proof (cases "bs = []")
  case False
  then show ?thesis
    using assms slice_blit_inside [of off bs "file_grow (off + length bs) c" a n]
    by (simp add: file_write_def file_grow_def)
qed (use assms in \<open>simp add: file_write_def slice_def\<close>)

lemma slice_frames_image:
  assumes "length fid = 16" "pages_sized psize ps" "i < length ps"
  shows "slice (40 + i * (40 + psize)) psize (frames_image fid txn_id n index ps @ rest) = wp_bytes (ps ! i)"
  using assms
proof (induction ps arbitrary: i index)
  case (Cons p ps)
  show ?case
  proof (cases i)
    case 0
    then show ?thesis
      using Cons.prems by (simp add: frame_image_def layout_simps)
  next
    case (Suc j)
    have "length (frame_image fid txn_id n index p) = 40 + psize"
      using Cons.prems by simp
    then show ?thesis
      using Suc Cons.IH [of j "index + 1"] Cons.prems by (simp add: slice_append_right)
  qed
qed simp

text \<open>The outcome of an append for the contents of the log, synced or not.\<close>

lemma append_writes:
  assumes fid: "length (file_id sb) = 16" and sized: "pages_sized (unat (page_size sb)) pages"
    and run: "m = wal_append_deferred malloc_ok off sb txn_id pages \<or> m = sdb_wal_append_txn malloc_ok off sb txn_id pages"
  shows "m wal \<noteq> None" "m wal = Some (Inr new, wal') \<Longrightarrow> txn_accepted sb txn_id pages \<and> wal_fits sb off pages
    \<and> new = off + txn_size sb pages \<and> fcontent wal' = file_write (if off = 64 then 0 else off) (ws_buffer (staged_txn sb off txn_id pages)) (fcontent wal)"
proof -
  obtain r where r: "sdb_wal_encode_txn malloc_ok sb off txn_id pages = Some r" "encode_outcome malloc_ok sb off txn_id pages r"
    using encode_txn_spec [OF fid sized] by blast
  show "m wal \<noteq> None"
    using run r(1) by (auto simp: wal_append_deferred_def sdb_wal_append_txn_def split: sum.splits)
  assume ok: "m wal = Some (Inr new, wal')"
  then obtain staged where staged: "r = Inr staged"
    using run r(1) by (cases r) (auto simp: wal_append_deferred_def sdb_wal_append_txn_def)
  then have s: "staged = staged_txn sb off txn_id pages" "txn_accepted sb txn_id pages" "wal_fits sb off pages"
    using r(2) by (simp_all add: encode_outcome_def)
  obtain f where w: "sdb_file_write_full (ws_write_offset staged) (ws_buffer staged) wal = (Inr (), f)"
    and new: "new = ws_new_offset staged" and f: "wal' = f \<or> sdb_file_sync f = (Inr (), wal')"
    using run r(1) ok staged
    by (auto simp: wal_append_deferred_def sdb_wal_append_txn_def fbind_eq_Inr freturn_def)
  have "ws_write_offset staged + length (ws_buffer staged) \<le> INT64_MAX"
    using s length_staged_txn [OF fid sized, of off txn_id]
    by (auto simp: staged_txn_def wal_fits_def SDB_WAL_MAX_BYTES_def INT64_MAX_def)
  then obtain k where "wrote_prefix (ws_write_offset staged) (ws_buffer staged) wal k f" "k = length (ws_buffer staged)"
    using sdb_file_write_full_spec [OF w] by blast
  then have "fcontent f = file_write (ws_write_offset staged) (ws_buffer staged) (fcontent wal)"
    by (simp add: wrote_prefix_def)
  moreover have "fcontent wal' = fcontent f"
    using f sdb_file_sync_spec(1) by metis
  ultimately show "txn_accepted sb txn_id pages \<and> wal_fits sb off pages \<and> new = off + txn_size sb pages
    \<and> fcontent wal' = file_write (if off = 64 then 0 else off) (ws_buffer (staged_txn sb off txn_id pages)) (fcontent wal)"
    using s new by (simp add: staged_txn_def)
qed

lemma append_durable:
  assumes "sdb_wal_append_txn malloc_ok off sb txn_id pages wal = Some (Inr new, wal')"
  shows "fdurable wal' = fcontent wal'"
proof -
  obtain f where "sdb_file_sync f = (Inr (), wal')"
    using assms by (auto simp: sdb_wal_append_txn_def fbind_eq_Inr freturn_def split: option.splits sum.splits)
  then show ?thesis
    using sdb_file_sync_spec [of f "Inr ()" wal'] by simp
qed

lemma on_file_option_runs:
  assumes "on_file_option h m d = Some (r, d')" "h < length (d_inodes d)"
  obtains f f' where "m f = Some (r, f')" "fcontent f = fcontent (d_inodes d ! h)" "fcontent (d_inodes d' ! h) = fcontent f'"
    "fdurable (d_inodes d' ! h) = fdurable f'" "d_names d' = d_names d" "length (d_inodes d') = length (d_inodes d)"
proof -
  obtain f' where "m ((d_inodes d ! h)\<lparr>fscript := d_script d\<rparr>) = Some (r, f')"
    "d' = d\<lparr>d_inodes := (d_inodes d)[h := f'\<lparr>fscript := []\<rparr>], d_script := fscript f'\<rparr>"
    using assms(1) by (auto simp: on_file_option_def)
  then show thesis
    using assms(2) by (intro that [of "(d_inodes d ! h)\<lparr>fscript := d_script d\<rparr>" f']) simp_all
qed

section \<open>The steps\<close>

lemma open_existing_cases:
  assumes "sdb_file_open_existing path writable d = (r, d')"
  shows "dir_unchanged d d'" "r = Inr h \<Longrightarrow> d_names d path = Some h"
proof -
  obtain a d1 where a: "dir_call d = (a, d1)"
    by fastforce
  note same = dir_call_spec(1) [OF a]
  have "d' = d1" "r = Inr h \<Longrightarrow> d_names d1 path = Some h"
    using assms a by (auto simp: sdb_file_open_existing_def sdb_file_open_posix_def split: bool.splits option.splits)
  then show "dir_unchanged d d'" "r = Inr h \<Longrightarrow> d_names d path = Some h"
    using same same_dir_unchanged by (auto simp: same_dir_def)
qed

lemma create_new_fresh:
  assumes "sdb_file_create_new path d = (Inr h, d')"
  shows "d_names d path = None"
proof -
  obtain a d1 where a: "dir_call d = (a, d1)"
    by fastforce
  then show ?thesis
    using assms dir_call_spec(1) [OF a]
    by (auto simp: sdb_file_create_new_def sdb_file_open_posix_def same_dir_def split: bool.splits option.splits)
qed

text \<open>What is in the log file, open or not.\<close>

definition log_bytes :: "sdb_pager \<Rightarrow> directory \<Rightarrow> bytes" where
  "log_bytes p d =
    (if pg_wal_file_open p then wal_bytes p d
     else case d_names d (the (pg_wal_path p)) of None \<Rightarrow> [] | Some h \<Rightarrow> fcontent (d_inodes d ! h))"

lemma ensure_wal_open_spec:
  assumes ok: "log_ok p d" and run: "sdb_pager_ensure_wal_open malloc_ok (p, d) = (Inr (), p', d')"
  shows "\<exists>h. p' = p\<lparr>pg_wal_file := h, pg_wal_file_open := True\<rparr>" "log_ok p' d'" "stored_image p' d' = stored_image p d"
    "wal_bytes p' d' = log_bytes p d"
proof -
  obtain path where path: "pg_wal_path p = Some path"
    using ok by (auto simp: log_ok_def)
  have "(\<exists>h. p' = p\<lparr>pg_wal_file := h, pg_wal_file_open := True\<rparr>) \<and> log_ok p' d' \<and> stored_image p' d' = stored_image p d
    \<and> wal_bytes p' d' = log_bytes p d"
  proof (cases "pg_wal_file_open p")
    case True
    then have "p' = p" "d' = d"
      using run path by (auto simp: sdb_pager_ensure_wal_open_def)
    then show ?thesis
      using ok True by (intro conjI exI [of _ "pg_wal_file p"]) (simp_all add: log_bytes_def)
  next
    case False
    have empty: "sdb_wal_index_get (pg_wal_index p) k = None" for k
      using ok False by (cases "sdb_wal_index_get (pg_wal_index p) k") (auto simp: log_ok_def)
    have closed: "unat (pg_wal_tail p) = 64" "\<And>h. d_names d path = Some h \<Longrightarrow>
        h < length (d_inodes d) \<and> length (fcontent (d_inodes d ! h)) \<le> SDB_WAL_MAX_BYTES"
      using ok False path by (auto simp: log_ok_def)
    have opened: "log_ok (p\<lparr>pg_wal_file := h, pg_wal_file_open := True\<rparr>) e
        \<and> stored_image (p\<lparr>pg_wal_file := h, pg_wal_file_open := True\<rparr>) e = stored_image p d"
      if "h < length (d_inodes e)" "length (fcontent (d_inodes e ! h)) \<le> SDB_WAL_MAX_BYTES" for h e
      using ok that empty closed(1) by (auto simp: log_ok_def wal_bytes_def stored_image_def)
    obtain r d1 where op: "sdb_file_open_existing path True d = (r, d1)"
      by fastforce
    note o = open_existing_cases [OF op]
    show ?thesis
    proof (cases r)
      case (Inr h)
      then have "p' = p\<lparr>pg_wal_file := h, pg_wal_file_open := True\<rparr>" "d' = d1"
        using run path False op by (auto simp: sdb_pager_ensure_wal_open_def)
      moreover have "h < length (d_inodes d1)" "length (fcontent (d_inodes d1 ! h)) \<le> SDB_WAL_MAX_BYTES"
        using closed(2) [OF o(2) [OF Inr]] dir_unchanged_nth [OF o(1)] by auto
      moreover have "fcontent (d_inodes d1 ! h) = log_bytes p d"
        using closed(2) [OF o(2) [OF Inr]] dir_unchanged_nth [OF o(1)] o(2) [OF Inr] False path by (simp add: log_bytes_def)
      ultimately show ?thesis
        using opened by (auto simp: wal_bytes_def)
    next
      case (Inl e)
      obtain rc d2 where cr: "sdb_file_create_new path d1 = (rc, d2)"
        by fastforce
      then obtain h where h: "rc = Inr h"
        using run path False op Inl by (cases rc) (auto simp: sdb_pager_ensure_wal_open_def split: if_splits)
      obtain rs d3 where sy: "sdb_file_sync_parent_directory malloc_ok path d2 = (rs, d3)"
        by fastforce
      have p': "p' = p\<lparr>pg_wal_file := h, pg_wal_file_open := True\<rparr>" "d' = d3"
        using run path False op Inl cr h sy by (auto simp: sdb_pager_ensure_wal_open_def split: if_splits sum.splits)
      note new = create_new_spec [OF cr [unfolded h]]
      have "h < length (d_inodes d3)" "length (fcontent (d_inodes d3 ! h)) \<le> SDB_WAL_MAX_BYTES" "fcontent (d_inodes d3 ! h) = []"
        using sync_parent_names [OF sy] new by simp_all
      moreover have "log_bytes p d = []"
        using create_new_fresh [OF cr [unfolded h]] o(1) False path by (simp add: log_bytes_def dir_unchanged_def)
      ultimately show ?thesis
        using opened p' by (auto simp: wal_bytes_def)
    qed
  qed
  then show "\<exists>h. p' = p\<lparr>pg_wal_file := h, pg_wal_file_open := True\<rparr>" "log_ok p' d'" "stored_image p' d' = stored_image p d"
    "wal_bytes p' d' = log_bytes p d"
    by simp_all
qed

lemma commit_index_spec:
  assumes "wal_index_inv ix"
  shows "\<exists>r ix'. commit_index_loop malloc_ok tail fs index ws ix = Some (r, ix') \<and> wal_index_inv ix' \<and>
    (r = Inr () \<longrightarrow> sdb_wal_index_get ix' = sdb_wal_index_get ix ++
      map_of (rev (map (\<lambda>(i, w). (wp_page_id w, tail + of_nat i * of_nat fs)) (enumerate index ws))))"
  using assms
proof (induction ws arbitrary: index ix)
  case (Cons w ws)
  let ?off = "tail + of_nat index * of_nat fs"
  obtain r where r: "sdb_wal_index_put malloc_ok ix (wp_page_id w) ?off = Some r"
    using wi.put_ends [OF Cons.prems] by fast
  show ?case
  proof (cases r)
    case (Inr ix1)
    note put = wi.put_inv [OF Cons.prems r [unfolded Inr]] wi.get_put [OF Cons.prems r [unfolded Inr]]
    obtain r' ix' where rest: "commit_index_loop malloc_ok tail fs (Suc index) ws ix1 = Some (r', ix')" "wal_index_inv ix'"
      "r' = Inr () \<longrightarrow> sdb_wal_index_get ix' = sdb_wal_index_get ix1 ++
        map_of (rev (map (\<lambda>(i, w). (wp_page_id w, tail + of_nat i * of_nat fs)) (enumerate (Suc index) ws)))"
      using Cons.IH [OF put(1), of "Suc index"] by auto
    then show ?thesis
      using r Inr put by (auto simp: map_add_def fun_eq_iff split: option.splits)
  qed (use r Cons.prems in auto)
qed simp


text \<open>A step of a pager ends and establishes \<open>Q\<close>.\<close>

definition ends_with :: "'a pager_io \<Rightarrow> pstate \<Rightarrow> ('a result \<Rightarrow> sdb_pager \<Rightarrow> directory \<Rightarrow> bool) \<Rightarrow> bool" where
  "ends_with m s Q \<longleftrightarrow> (\<exists>r p d. m s = Some (r, p, d) \<and> Q r p d)"

lemma ends_withI: "m s = Some (r, p, d) \<Longrightarrow> Q r p d \<Longrightarrow> ends_with m s Q"
  by (auto simp: ends_with_def)

lemma ends_with_bind:
  assumes "ends_with m s (\<lambda>r p d. case r of Inl e \<Rightarrow> Q (Inl e) p d | Inr v \<Rightarrow> ends_with (k v) (p, d) Q)"
  shows "ends_with (pbind m k) s Q"
proof -
  obtain r p d where "m s = Some (r, p, d)" "case r of Inl e \<Rightarrow> Q (Inl e) p d | Inr v \<Rightarrow> ends_with (k v) (p, d) Q"
    using assms by (auto simp: ends_with_def)
  then show ?thesis
    by (cases r) (simp_all add: ends_with_def pbind_def)
qed

lemma ends_with_mono:
  assumes "ends_with m s Q" "\<And>r p d. Q r p d \<Longrightarrow> R r p d"
  shows "ends_with m s R"
  using assms by (auto simp: ends_with_def)

lemma commit_log_spec:
  assumes ok: "log_ok p d" "pg_wal_file_open p" and fid: "length (file_id target) = 16"
    and psize: "unat (page_size target) = pg_page_size p" and sized: "pages_sized (pg_page_size p) ws"
  shows "ends_with (commit_log env target txn_id ws) (p, d) (\<lambda>r p' d'. p' = p \<and> (\<forall>new. r = Inr new \<longrightarrow>
    txn_accepted target txn_id ws \<and> new = unat (pg_wal_tail p) + txn_size target ws \<and> new \<le> SDB_WAL_MAX_BYTES
    \<and> d_names d' = d_names d \<and> length (d_inodes d') = length (d_inodes d)
    \<and> new \<le> length (wal_bytes p d') \<and> length (wal_bytes p d') \<le> SDB_WAL_MAX_BYTES
    \<and> wal_bytes p d' = file_write (if unat (pg_wal_tail p) = 64 then 0 else unat (pg_wal_tail p))
        (ws_buffer (staged_txn target (unat (pg_wal_tail p)) txn_id ws)) (wal_bytes p d)
    \<and> (\<not> pg_defer_commit p \<longrightarrow> fdurable (d_inodes d' ! pg_wal_file p) = wal_bytes p d')
    \<and> (\<forall>i < length ws. slice (unat (pg_wal_tail p) + i * (40 + pg_page_size p) + 40) (pg_page_size p) (wal_bytes p d') = wp_bytes (ws ! i))
    \<and> (\<forall>a n. 64 \<le> a \<and> a + n \<le> unat (pg_wal_tail p) \<longrightarrow> slice a n (wal_bytes p d') = slice a n (wal_bytes p d))))"
proof -
  define tail where "tail = unat (pg_wal_tail p)"
  define m where "m = (if pg_defer_commit p then wal_append_deferred (env_malloc env 2) tail target txn_id ws
         else sdb_wal_append_txn (env_malloc env 2) tail target txn_id ws)"
  note ok' = ok(1) [unfolded log_ok_def]
  have h: "pg_wal_file p < length (d_inodes d)" and len: "length (wal_bytes p d) \<le> SDB_WAL_MAX_BYTES"
    and t64: "64 \<le> tail" and tail: "tail = 64 \<or> tail \<le> length (wal_bytes p d)"
    using ok' ok(2) by (auto simp: tail_def)
  have sized': "pages_sized (unat (page_size target)) ws"
    using sized psize by simp
  have m: "m = wal_append_deferred (env_malloc env 2) tail target txn_id ws \<or> m = sdb_wal_append_txn (env_malloc env 2) tail target txn_id ws"
    by (simp add: m_def)
  obtain r d' where run: "on_file_option (pg_wal_file p) m d = Some (r, d')"
    using append_writes(1) [OF fid sized' m] by (fastforce simp: on_file_option_def)
  have log: "commit_log env target txn_id ws (p, d) = Some (r, p, d')"
    using run unfolding commit_log_def m_def tail_def by simp
  show ?thesis
  proof (rule ends_withI, rule log, intro conjI allI impI refl)
    fix new
    assume r: "r = Inr new"
    obtain f f' where f: "m f = Some (Inr new, f')" "fcontent f = wal_bytes p d" "wal_bytes p d' = fcontent f'"
      "d_names d' = d_names d" "length (d_inodes d') = length (d_inodes d)" "fdurable (d_inodes d' ! pg_wal_file p) = fdurable f'"
      using on_file_option_runs [OF run h] r unfolding wal_bytes_def by metis
    define w where "w = (if tail = 64 then 0 else tail)"
    define buf where "buf = ws_buffer (staged_txn target tail txn_id ws)"
    have a: "txn_accepted target txn_id ws" "wal_fits target tail ws" "new = tail + txn_size target ws"
      "wal_bytes p d' = file_write w buf (wal_bytes p d)"
      using append_writes(2) [OF fid sized' m f(1)] f(2,3) by (simp_all add: w_def buf_def)
    have lb: "length buf = (if tail = 64 then 64 else 0) + txn_size target ws"
      using length_staged_txn [OF fid sized', of tail txn_id] by (simp add: buf_def)
    have ne: "buf \<noteq> []"
      using lb by (auto simp: txn_size_def)
    have wb: "w + length buf = new"
      using lb a(3) by (simp add: w_def)
    have lw: "length (wal_bytes p d') = max (length (wal_bytes p d)) new"
      using length_write_page [OF ne] a(4) wb by simp
    have nb: "new \<le> SDB_WAL_MAX_BYTES"
      using a(2,3) by (simp add: wal_fits_def)
    show "txn_accepted target txn_id ws" "d_names d' = d_names d" "length (d_inodes d') = length (d_inodes d)"
      "new = unat (pg_wal_tail p) + txn_size target ws" "new \<le> SDB_WAL_MAX_BYTES" "new \<le> length (wal_bytes p d')"
      "length (wal_bytes p d') \<le> SDB_WAL_MAX_BYTES"
      using a f nb lw len by (simp_all add: tail_def)
    show "wal_bytes p d' = file_write (if unat (pg_wal_tail p) = 64 then 0 else unat (pg_wal_tail p))
        (ws_buffer (staged_txn target (unat (pg_wal_tail p)) txn_id ws)) (wal_bytes p d)"
      using a(4) by (simp add: w_def buf_def tail_def)
    show "fdurable (d_inodes d' ! pg_wal_file p) = wal_bytes p d'" if "\<not> pg_defer_commit p"
      using append_durable f(1,3,6) that unfolding m_def by (simp add: append_durable)
    show "slice (unat (pg_wal_tail p) + i * (40 + pg_page_size p) + 40) (pg_page_size p) (wal_bytes p d') = wp_bytes (ws ! i)"
      if i: "i < length ws" for i
    proof -
      let ?a = "tail + i * (40 + pg_page_size p) + 40"
      have "Suc i * (40 + pg_page_size p) \<le> length ws * (40 + pg_page_size p)"
        using i by (intro mult_le_mono1) simp
      then have "?a + pg_page_size p \<le> new"
        using a(3) psize by (simp add: txn_size_count)
      then have "slice ?a (pg_page_size p) (wal_bytes p d') = slice (?a - w) (pg_page_size p) buf"
        unfolding a(4) using wb by (intro slice_file_write_inside) (auto simp: w_def)
      also have "\<dots> = slice (40 + i * (40 + pg_page_size p)) (pg_page_size p) (txn_image target txn_id ws)"
      proof (cases "tail = 64")
        case True
        then have "?a - w = 64 + (40 + i * (40 + pg_page_size p))"
          "buf = wal_header_image target 5 txn_id (length ws) @ txn_image target txn_id ws"
          by (simp_all add: w_def buf_def staged_txn_def)
        then show ?thesis
          using fid by (simp only:) (simp add: slice_append_right)
      qed (simp add: w_def buf_def staged_txn_def add.commute)
      also have "\<dots> = wp_bytes (ws ! i)"
        unfolding txn_image_def Let_def psize by (rule slice_frames_image [OF fid sized i])
      finally show ?thesis
        by (simp add: tail_def)
    qed
    show "slice a n (wal_bytes p d') = slice a n (wal_bytes p d)" if "64 \<le> a \<and> a + n \<le> unat (pg_wal_tail p)" for a n
    proof (cases "tail = 64")
      case True
      then have "n = 0"
        using that by (simp add: tail_def)
      then show ?thesis
        by (simp add: slice_def)
    next
      case False
      then show ?thesis
        unfolding a(4) using that tail by (intro slice_file_write_before) (simp_all add: w_def tail_def)
    qed
  qed
qed


lemma slice_file_resize:
  assumes "a + m \<le> length c" "length c \<le> n"
  shows "slice a m (file_resize n c) = slice a m c"
  using assms by (simp add: file_resize_def file_grow_def slice_def)

lemma commit_grow_spec:
  assumes "file_ok (pg_file p)"
  shows "ends_with (commit_grow target) (p, d) (\<lambda>r p' d'. d' = d \<and> (r = Inr () \<longrightarrow> (\<exists>f. p' = p\<lparr>pg_file := f\<rparr>
    \<and> file_ok f \<and> next_page_id target \<noteq> 0 \<and> 8192 + (unat (next_page_id target) - 1) * pg_page_size p \<le> length (fcontent f)
    \<and> (\<forall>a m. a + m \<le> length (fcontent (pg_file p)) \<longrightarrow> slice a m (fcontent f) = slice a m (fcontent (pg_file p))))))"
proof -
  define size where "size = 8192 + unat (next_page_id target - 1) * pg_page_size p"
  define m where "m = fbind sdb_file_size (\<lambda>current. if current < size then sdb_file_resize size else freturn ())"
  obtain r f where m: "m (pg_file p) = (r, f)"
    by fastforce
  have run: "commit_grow target (p, d) =
      (if next_page_id target = 0 \<or> unat (next_page_id target - 1) > (UINT64_MAX - 8192) div pg_page_size p
       then Some (Inl SDB_E_OVERFLOW, p, d) else Some (r, p\<lparr>pg_file := f\<rparr>, d))"
    using m unfolding commit_grow_def on_database_def m_def size_def by (simp add: superblock_consts Let_def)
  show ?thesis
  proof (cases "next_page_id target = 0 \<or> unat (next_page_id target - 1) > (UINT64_MAX - 8192) div pg_page_size p")
    case False
    have one: "unat (next_page_id target - 1) = unat (next_page_id target) - 1"
      using False by (simp add: unat_minus_one)
    have "file_ok f \<and> size \<le> length (fcontent f)
      \<and> (\<forall>a k. a + k \<le> length (fcontent (pg_file p)) \<longrightarrow> slice a k (fcontent f) = slice a k (fcontent (pg_file p)))" if r: "r = Inr ()"
    proof -
      obtain current g where g: "sdb_file_size (pg_file p) = (Inr current, g)"
        and k: "(if current < size then sdb_file_resize size else freturn ()) g = (Inr (), f)"
        using m r by (auto simp: m_def fbind_eq_Inr)
      have c: "current = length (fcontent g)" "fcontent g = fcontent (pg_file p)"
        using sdb_file_size_spec [OF g] by (simp_all add: same_file_def)
      show ?thesis
      proof (cases "current < size")
        case True
        then have rz: "sdb_file_resize size g = (Inr (), f)"
          using k by simp
        then have "size \<le> INT64_MAX"
          by (auto simp: sdb_file_resize_def split: if_splits)
        moreover from this have "fcontent f = file_resize size (fcontent g)"
          using sdb_file_resize_spec(3) [OF rz] by simp
        ultimately show ?thesis
          using c True by (simp add: file_ok_def slice_file_resize) (simp add: file_resize_def file_grow_def)
      qed (use k c assms in \<open>simp add: freturn_def file_ok_def\<close>)
    qed
    then show ?thesis
      using False run one unfolding size_def by (intro ends_withI, simp) auto
  qed (use run in \<open>auto simp: ends_with_def\<close>)
qed

lemma commit_cached_image:
  assumes "staged_as (file_id sb) (pg_page_size p) (pg_key p) lsn q w" "commit_cached env p lsn q w = Some img"
  shows "img = page_image (pg_page_size p) (tp_type q) (tp_page_id q) lsn (tp_payload q)" "length img = pg_page_size p"
proof -
  have "img = page_image (pg_page_size p) (tp_type q) (tp_page_id q) lsn (tp_payload q) \<and> length img = pg_page_size p"
  proof (cases "pg_encryption_enabled p")
    case True
    then have "sdb_page_encode (pg_page_size p) (tp_type q) (tp_page_id q) lsn (tp_payload q) = Inr img"
      using assms(2) by (auto simp: commit_cached_def split: if_splits sum.splits)
    then show ?thesis
      by (auto simp: page_encode_image length_page_image split: if_splits)
  next
    case False
    then show ?thesis
      using assms by (auto simp: commit_cached_def staged_as_def pg_key_def plain_page_def plain_result_def rbind_eq_Inr split: if_splits)
  qed
  then show "img = page_image (pg_page_size p) (tp_type q) (tp_page_id q) lsn (tp_payload q)" "length img = pg_page_size p"
    by blast+
qed

lemma commit_cache_spec:
  assumes "list_all2 (staged_as (file_id sb) (pg_page_size p) (pg_key p) lsn) qs ws"
    and "cache_inv c" "pc_page_size c = pg_page_size p" "\<forall>q \<in> set qs. tp_page_id q \<noteq> 0"
  shows "\<exists>c'. commit_cache_loop env p lsn (zip qs ws) c = Some c' \<and> cache_inv c' \<and> pc_page_size c' = pg_page_size p
    \<and> (\<forall>k img. cache_view c' k = Some img \<longrightarrow>
        (\<exists>q \<in> set qs. tp_page_id q = k \<and> img = page_image (pg_page_size p) (tp_type q) k lsn (tp_payload q))
        \<or> k \<notin> tp_page_id ` set qs \<and> cache_view c k = Some img)"
  using assms
proof (induction qs ws arbitrary: c rule: list_all2_induct)
  case (Cons q qs w ws)
  have id: "wp_page_id w = tp_page_id q" "tp_page_id q \<noteq> 0"
    using Cons by (simp_all add: staged_as_def)
  have "\<exists>c1. (case commit_cached env p lsn q w of
                   Some img \<Rightarrow> sdb_page_cache_put c (wp_page_id w) img
                 | None \<Rightarrow> sdb_page_cache_remove c (wp_page_id w)) = Some c1
    \<and> cache_inv c1 \<and> pc_page_size c1 = pg_page_size p
    \<and> (\<forall>k img. cache_view c1 k = Some img \<longrightarrow>
        k = tp_page_id q \<and> img = page_image (pg_page_size p) (tp_type q) k lsn (tp_payload q)
        \<or> k \<noteq> tp_page_id q \<and> cache_view c k = Some img)"
  proof (cases "commit_cached env p lsn q w")
    case None
    then show ?thesis
      using cache_remove_spec [OF Cons.prems(1), of "wp_page_id w"] id Cons.prems(2) by (auto split: if_splits)
  next
    case (Some img)
    note i = commit_cached_image [OF Cons.hyps(1) Some]
    obtain c1 v where "sdb_page_cache_put c (tp_page_id q) img = Some c1" "cache_inv c1" "pc_page_size c1 = pc_page_size c"
      "cache_view c1 = ((cache_view c)(v := None))(tp_page_id q \<mapsto> img)"
      using cache_put_spec [OF Cons.prems(1) id(2), of img] i(2) Cons.prems(2) by auto
    then show ?thesis
      using Some id i(1) Cons.prems(2) by (auto split: if_splits)
  qed
  then obtain c1 where c1: "(case commit_cached env p lsn q w of
                   Some img \<Rightarrow> sdb_page_cache_put c (wp_page_id w) img
                 | None \<Rightarrow> sdb_page_cache_remove c (wp_page_id w)) = Some c1"
    "cache_inv c1" "pc_page_size c1 = pg_page_size p"
    "\<forall>k img. cache_view c1 k = Some img \<longrightarrow>
        k = tp_page_id q \<and> img = page_image (pg_page_size p) (tp_type q) k lsn (tp_payload q)
        \<or> k \<noteq> tp_page_id q \<and> cache_view c k = Some img"
    by blast
  obtain c' where c': "commit_cache_loop env p lsn (zip qs ws) c1 = Some c'" "cache_inv c'" "pc_page_size c' = pg_page_size p"
    "\<forall>k img. cache_view c' k = Some img \<longrightarrow>
        (\<exists>q \<in> set qs. tp_page_id q = k \<and> img = page_image (pg_page_size p) (tp_type q) k lsn (tp_payload q))
        \<or> k \<notin> tp_page_id ` set qs \<and> cache_view c1 k = Some img"
    using Cons.IH [OF c1(2,3)] Cons.prems(3) by auto
  have "(\<exists>q' \<in> set (q # qs). tp_page_id q' = k \<and> img = page_image (pg_page_size p) (tp_type q') k lsn (tp_payload q'))
        \<or> k \<notin> tp_page_id ` set (q # qs) \<and> cache_view c k = Some img" if "cache_view c' k = Some img" for k img
    using c'(4) c1(4) that by (simp) blast
  then show ?case
    using c1(1) c'(1-3) by (intro exI [of _ c']) simp
qed simp


lemma index_entries:
  fixes off :: "nat \<Rightarrow> u64" and ws :: "sdb_wal_page list"
  defines "entries \<equiv> map_of (rev (map (\<lambda>(i, w). (wp_page_id w, off i)) (enumerate 0 ws)))"
  assumes "distinct (map wp_page_id ws)"
  shows "i < length ws \<Longrightarrow> entries (wp_page_id (ws ! i)) = Some (off i)" "k \<notin> wp_page_id ` set ws \<Longrightarrow> entries k = None"
proof -
  have keys: "map fst (map (\<lambda>(i, w). (wp_page_id w, off i)) (enumerate 0 ws)) = map wp_page_id ws"
    by (rule nth_equalityI) (simp_all add: nth_enumerate_eq)
  then show "entries k = None" if "k \<notin> wp_page_id ` set ws"
    using that unfolding entries_def map_of_eq_None_iff set_map [symmetric] by (metis set_map set_rev rev_map)
  show "entries (wp_page_id (ws ! i)) = Some (off i)" if "i < length ws"
  proof -
    have "(i, ws ! i) \<in> set (enumerate 0 ws)"
      using that by (simp add: in_set_enumerate_eq)
    then have "(wp_page_id (ws ! i), off i) \<in> set (rev (map (\<lambda>(i, w). (wp_page_id w, off i)) (enumerate 0 ws)))"
      by force
    moreover have "distinct (map fst (rev (map (\<lambda>(i, w). (wp_page_id w, off i)) (enumerate 0 ws))))"
      using assms(2) keys by (simp only: rev_map [symmetric] distinct_rev)
    ultimately show ?thesis
      unfolding entries_def by (intro map_of_is_SomeI)
  qed
qed

section \<open>The commit\<close>

text \<open>
  What a transaction keeps to: its superblock differs from the pager's in the page
  count and the free list, the staged pages fit, and every page it added is listed as
  allocated or staged.
\<close>

definition txn_ok :: "sdb_pager \<Rightarrow> sdb_txn \<Rightarrow> bool" where
  "txn_ok p txn \<longleftrightarrow> (let sb = pg_superblock p; target = tx_target_superblock txn; ids = map tp_page_id (tx_pages txn) in
    target = sb\<lparr>freelist_page := freelist_page target, next_page_id := next_page_id target\<rparr>
    \<and> next_page_id sb \<le> next_page_id target \<and> staged_types (tx_pages txn) \<and> distinct ids
    \<and> (\<forall>q \<in> set (tx_pages txn). length (tp_payload q) \<le> sdb_pager_payload_capacity p)
    \<and> (\<forall>k. next_page_id sb \<le> k \<and> k < next_page_id target \<longrightarrow> k \<in> set ids \<or> k \<in> set (tx_allocated_pages txn)))"

definition shown_after :: "sdb_pager \<Rightarrow> directory \<Rightarrow> sdb_txn \<Rightarrow> u64 \<Rightarrow> (bytes \<times> sdb_page_view) result" where
  "shown_after p d txn k =
    (case find (\<lambda>q. tp_page_id q = k) (tx_pages txn) of
       Some q \<Rightarrow> plain_result (pg_page_size p) (tp_type q) k (pg_current_lsn p + 1) (tp_payload q)
     | None \<Rightarrow> shown_page p d k)"

definition same_setup :: "sdb_pager \<Rightarrow> sdb_pager \<Rightarrow> bool" where
  "same_setup p p' \<longleftrightarrow> pg_open p' = pg_open p \<and> pg_needs_recovery p' = pg_needs_recovery p
    \<and> pg_transaction_active p' = pg_transaction_active p \<and> pg_key p' = pg_key p \<and> pg_wal_path p' = pg_wal_path p
    \<and> pg_checkpoint_threshold p' = pg_checkpoint_threshold p \<and> pg_inode p' = pg_inode p
    \<and> pg_data_key p' = pg_data_key p \<and> pg_encryption_enabled p' = pg_encryption_enabled p
    \<and> pg_defer_commit p' = pg_defer_commit p"

definition commit_superblock :: "sdb_pager \<Rightarrow> sdb_txn \<Rightarrow> sdb_superblock_v1" where
  "commit_superblock p txn = (tx_target_superblock txn)
    \<lparr>checkpoint_lsn := pg_current_lsn p + 1, generation := generation (pg_superblock p) + 1\<rparr>"

text \<open>The log behind a commit holds the pages of the transaction; a commit that is not deferred is durable.\<close>

definition commit_logged :: "sdb_pager \<Rightarrow> directory \<Rightarrow> sdb_txn \<Rightarrow> sdb_pager \<Rightarrow> directory \<Rightarrow> bool" where
  "commit_logged p d txn p' d' \<longleftrightarrow> (\<exists>ws. let target = tx_target_superblock txn; lsn = pg_current_lsn p + 1; tail = unat (pg_wal_tail p) in
    list_all2 (staged_as (file_id target) (pg_page_size p) (pg_key p) lsn) (tx_pages txn) ws
    \<and> txn_accepted target lsn ws \<and> unat (pg_wal_tail p') = tail + txn_size target ws \<and> pg_wal_file_open p'
    \<and> wal_bytes p' d' = file_write (if tail = 64 then 0 else tail) (ws_buffer (staged_txn target tail lsn ws)) (log_bytes p d)
    \<and> (\<not> pg_defer_commit p \<longrightarrow> fdurable (d_inodes d' ! pg_wal_file p') = wal_bytes p' d'))"

definition committed :: "sdb_pager \<Rightarrow> directory \<Rightarrow> sdb_txn \<Rightarrow> sdb_pager \<Rightarrow> directory \<Rightarrow> bool" where
  "committed p d txn p' d' \<longleftrightarrow> pager_ok p' d' \<and> same_setup p p' \<and> pg_superblock p' = commit_superblock p txn
    \<and> pg_current_lsn p' = pg_current_lsn p + 1 \<and> (\<forall>k. page_in_use p' k \<longrightarrow> shown_page p' d' k = shown_after p d txn k)
    \<and> commit_logged p d txn p' d'"

lemma staged_find:
  assumes "list_all2 (staged_as fid psize key lsn) qs ws" "distinct (map tp_page_id qs)" "i < length qs"
  shows "find (\<lambda>q. tp_page_id q = wp_page_id (ws ! i)) qs = Some (qs ! i)"
proof -
  have "wp_page_id (ws ! i) = tp_page_id (qs ! i)"
    using assms(1,3) by (auto simp: list_all2_conv_all_nth staged_as_def)
  then have "tp_page_id (qs ! j) \<noteq> wp_page_id (ws ! i)" if "j < i" for j
    using that assms(2,3) nth_eq_iff_index_eq [OF assms(2), of j i] by auto
  then show ?thesis
    using \<open>wp_page_id (ws ! i) = tp_page_id (qs ! i)\<close> assms(3) by (auto simp: find_Some_iff)
qed



lemma frame_offset:
  fixes tail :: u64
  assumes "unat tail + i * fs < 2 ^ 64"
  shows "unat (tail + of_nat i * of_nat fs) = unat tail + i * fs"
proof -
  have "tail + of_nat i * of_nat fs = of_nat (unat tail + i * fs)"
    by simp
  then have "unat (tail + of_nat i * of_nat fs) = take_bit 64 (unat tail + i * fs)"
    by (simp only: unsigned_of_nat) simp
  then show ?thesis
    using assms by (simp add: take_bit_nat_eq_self)
qed

lemma txn_target:
  assumes "txn_ok p txn"
  shows "file_id (tx_target_superblock txn) = file_id (pg_superblock p)"
    "page_size (tx_target_superblock txn) = page_size (pg_superblock p)"
    "next_page_id (pg_superblock p) \<le> next_page_id (tx_target_superblock txn)"
    "superblock_arrays (tx_target_superblock txn) = superblock_arrays (pg_superblock p)"
proof -
  obtain fl n where eq: "tx_target_superblock txn = (pg_superblock p)\<lparr>freelist_page := fl, next_page_id := n\<rparr>"
    and le: "next_page_id (pg_superblock p) \<le> next_page_id (tx_target_superblock txn)"
    using assms unfolding txn_ok_def Let_def by blast
  show "file_id (tx_target_superblock txn) = file_id (pg_superblock p)"
    "page_size (tx_target_superblock txn) = page_size (pg_superblock p)"
    "superblock_arrays (tx_target_superblock txn) = superblock_arrays (pg_superblock p)"
    by (simp_all add: eq superblock_arrays_def)
  show "next_page_id (pg_superblock p) \<le> next_page_id (tx_target_superblock txn)"
    by (rule le)
qed

text \<open>What is shown once log, index, file and superblock are those of the commit.\<close>

lemma commit_shows:
  assumes ok: "file_in_order p" "log_ok p d" "pg_wal_file_open p"
    and qs: "qs = tx_pages txn" "list_all2 (staged_as (file_id (pg_superblock p)) (pg_page_size p) (pg_key p) lsn) qs ws"
    and txn: "txn_ok p txn" "set (tx_allocated_pages txn) \<subseteq> tp_page_id ` set qs" and acc: "txn_accepted (tx_target_superblock txn) lsn ws"
    and lsn: "lsn = pg_current_lsn p + 1"
    and d': "\<forall>i < length ws. slice (unat (pg_wal_tail p) + i * (40 + pg_page_size p) + 40) (pg_page_size p) (wal_bytes p d') = wp_bytes (ws ! i)"
      "\<forall>a n. 64 \<le> a \<and> a + n \<le> unat (pg_wal_tail p) \<longrightarrow> slice a n (wal_bytes p d') = slice a n (wal_bytes p d)"
    and tail: "new = unat (pg_wal_tail p) + txn_size (tx_target_superblock txn) ws" "new \<le> SDB_WAL_MAX_BYTES"
      "new \<le> length (wal_bytes p d')" "length (wal_bytes p d') \<le> SDB_WAL_MAX_BYTES" "length (d_inodes d') = length (d_inodes d)"
    and ix: "wal_index_inv ix" "sdb_wal_index_get ix = sdb_wal_index_get (pg_wal_index p) ++
      map_of (rev (map (\<lambda>(i, w). (wp_page_id w, pg_wal_tail p + of_nat i * of_nat (sdb_wal_frame_size_v5 (pg_page_size p)))) (enumerate 0 ws)))"
    and f: "file_ok f" "next_page_id (tx_target_superblock txn) \<noteq> 0"
      "8192 + (unat (next_page_id (tx_target_superblock txn)) - 1) * pg_page_size p \<le> length (fcontent f)"
      "\<forall>a m. a + m \<le> length (fcontent (pg_file p)) \<longrightarrow> slice a m (fcontent f) = slice a m (fcontent (pg_file p))"
    and p': "p' = p\<lparr>pg_wal_index := ix, pg_file := f, pg_superblock := commit_superblock p txn, pg_wal_tail := of_nat new, pg_current_lsn := lsn\<rparr>"
  shows "file_in_order p'" "log_ok p' d'" "\<And>k. page_in_use p' k \<Longrightarrow> shown_page p' d' k = shown_after p d txn k"
proof -
  define target where "target = tx_target_superblock txn"
  define psize where "psize = pg_page_size p"
  note t = txn_target [OF txn(1), folded target_def]
  note l = staged_pages [OF qs(2)]
  have dist: "distinct (map wp_page_id ws)"
    using acc by (simp add: txn_accepted_def txn_pages_ok_def)
  have dist': "distinct (map tp_page_id qs)"
    using dist l(1) by simp
  have ids: "wp_page_id ` set ws = tp_page_id ` set qs"
    using l(1) by (metis set_map)
  have psz: "pg_page_size p' = psize" "pg_key p' = pg_key p" "file_id (pg_superblock p') = file_id (pg_superblock p)"
    using t by (simp_all add: p' commit_superblock_def target_def psize_def pg_key_def)
  have new64: "new < 2 ^ 64"
    using tail(2) by (simp add: SDB_WAL_MAX_BYTES_def)
  have tl: "unat (pg_wal_tail p') = new"
    using new64 by (simp add: p' unsigned_of_nat take_bit_nat_eq_self)
  show fo: "file_in_order p'"
    using ok(1) f t by (simp add: file_in_order_def p' commit_superblock_def target_def superblock_arrays_def)
  define off where "off i = pg_wal_tail p + of_nat i * of_nat (sdb_wal_frame_size_v5 psize)" for i
  have room: "unat (pg_wal_tail p) + i * (40 + psize) + 40 + psize \<le> new" if "i < length ws" for i
  proof -
    have "Suc i * (40 + psize) \<le> length ws * (40 + psize)"
      using that by (intro mult_le_mono1) simp
    then show ?thesis
      using tail(1) t(2) by (simp add: txn_size_count target_def psize_def)
  qed
  have off: "unat (off i) = unat (pg_wal_tail p) + i * (40 + psize)" if "i < length ws" for i
    using room [OF that] new64 frame_offset [of "pg_wal_tail p" i "40 + psize"]
    by (simp add: off_def sdb_wal_frame_size_v5_def SDB_WAL_RECORD_HEADER_SIZE_V5_def)
  have get1: "sdb_wal_index_get ix (wp_page_id (ws ! i)) = Some (off i)" if "i < length ws" for i
    using index_entries(1) [OF dist that, of off] ix(2) by (simp add: off_def psize_def)
  have get2: "sdb_wal_index_get ix k = sdb_wal_index_get (pg_wal_index p) k" if "k \<notin> tp_page_id ` set qs" for k
    using index_entries(2) [OF dist, of k off] that ids ix(2) by (simp add: off_def psize_def map_add_def)
  have in_use: "page_in_use p' k" if "page_in_use p k" for k
    using that t(3) by (auto simp: page_in_use_def p' commit_superblock_def target_def)
  have staged_in_use: "page_in_use p' (wp_page_id (ws ! i))" if "i < length ws" for i
  proof -
    have "txn_page_ok (next_page_id target) lsn (ws ! i)"
      using acc that by (simp add: txn_accepted_def txn_pages_ok_def list_all_length target_def)
    then show ?thesis
      by (simp add: txn_page_ok_def page_in_use_def p' commit_superblock_def target_def)
  qed
  have wal': "wal_bytes p' d' = wal_bytes p d'"
    by (simp add: wal_bytes_def p')
  note lok = ok(2) [unfolded log_ok_def]
  have entries: "page_in_use p' k \<and> 64 \<le> unat wo \<and> unat wo + 40 + psize \<le> new" if get: "sdb_wal_index_get ix k = Some wo" for k wo
  proof (cases "k \<in> tp_page_id ` set qs")
    case True
    then obtain i where i: "i < length ws" "k = wp_page_id (ws ! i)"
      using ids by (metis imageE in_set_conv_nth)
    then show ?thesis
      using get get1 [OF i(1)] off [OF i(1)] room [OF i(1)] staged_in_use [OF i(1)] lok by auto
  next
    case False
    then have "sdb_wal_index_get (pg_wal_index p) k = Some wo"
      using get get2 by simp
    then show ?thesis
      using log_frame [OF ok(2)] in_use tail(1) by (fastforce simp: psize_def)
  qed
  show lo: "log_ok p' d'"
    unfolding log_ok_def tl psz wal'
    using ix(1) lok ok(3) tail(2-) entries tail(1) by (auto simp: p')
  fix k
  assume use_it: "page_in_use p' k"
  show "shown_page p' d' k = shown_after p d txn k"
  proof (cases "k \<in> tp_page_id ` set qs")
    case True
    then obtain i where i: "i < length ws" "k = wp_page_id (ws ! i)"
      using ids by (metis imageE in_set_conv_nth)
    have "stored_image p' d' k = wp_bytes (ws ! i)"
      using get1 [OF i(1)] off [OF i(1)] d'(1) i wal' psz by (simp add: stored_image_def p' psize_def)
    moreover have "staged_as (file_id (pg_superblock p)) psize (pg_key p) lsn (qs ! i) (ws ! i)"
      using qs(2) i(1) by (simp add: list_all2_conv_all_nth psize_def)
    moreover have "find (\<lambda>q. tp_page_id q = k) (tx_pages txn) = Some (qs ! i)"
      using staged_find [OF qs(2) dist', of i] i l(3) qs(1) by simp
    ultimately show ?thesis
      using i(2) psz by (auto simp: shown_page_def shown_after_def staged_as_def lsn psize_def)
  next
    case False
    then have none: "find (\<lambda>q. tp_page_id q = k) (tx_pages txn) = None"
      using qs(1) by (auto simp: find_None_iff)
    have old: "page_in_use p k"
    proof (rule ccontr)
      assume "\<not> page_in_use p k"
      then have "next_page_id (pg_superblock p) \<le> k" "k < next_page_id target"
        using use_it by (auto simp: page_in_use_def p' commit_superblock_def target_def)
      then have "k \<in> tp_page_id ` set qs"
        using txn qs(1) by (auto simp: txn_ok_def Let_def target_def)
      then show False
        using False by simp
    qed
    have "stored_image p' d' k = stored_image p d k"
    proof (cases "sdb_wal_index_get (pg_wal_index p) k")
      case None
      then have "stored_image p' d' k = slice (page_offset psize k) psize (fcontent f)"
        using get2 [OF False] psz by (simp add: stored_image_def p')
      also have "\<dots> = slice (page_offset psize k) psize (fcontent (pg_file p))"
        using f(4) page_place [OF ok(1) old] by (simp add: psize_def)
      finally show ?thesis
        using None by (simp add: stored_image_def psize_def)
    next
      case (Some wo)
      have "stored_image p' d' k = slice (unat wo + 40) psize (wal_bytes p d')"
        using Some get2 [OF False] psz wal' by (simp add: stored_image_def p')
      also have "\<dots> = slice (unat wo + 40) psize (wal_bytes p d)"
        using d'(2) log_frame(4,5) [OF ok(2) Some] by (simp add: psize_def)
      finally show ?thesis
        using Some by (simp add: stored_image_def psize_def)
    qed
    then show ?thesis
      using none psz by (simp add: shown_page_def shown_after_def psize_def)
  qed
qed


lemma ticket_keeps:
  assumes "commit_ticket lsn (p, d) = Some (r, p', d')"
  shows "d' = d" "same_setup p p'" "pager_ok p' d = pager_ok p d" "shown_page p' d = shown_page p d" "pg_superblock p' = pg_superblock p"
    "pg_current_lsn p' = pg_current_lsn p" "pg_wal_tail p' = pg_wal_tail p" "pg_wal_file_open p' = pg_wal_file_open p"
    "pg_wal_file p' = pg_wal_file p" "pg_cache p' = pg_cache p"
proof -
  obtain w i v where p': "p' = p\<lparr>pg_written_lsn := w, pg_pending_valid := v, pg_pending_txn_id := i\<rparr>" and d': "d' = d"
  proof (cases "p' = p")
    case True
    then show thesis
      using that [where w = "pg_written_lsn p" and i = "pg_pending_txn_id p" and v = "pg_pending_valid p"] assms
      by (auto simp: commit_ticket_def split: if_splits)
  next
    case False
    then show thesis
      using that [where w = "if lsn > pg_written_lsn p then lsn else pg_written_lsn p" and i = lsn and v = True] assms
      by (auto simp: commit_ticket_def split: if_splits)
  qed
  have "stored_image p' d = stored_image p d"
    by (simp add: p' stored_image_def fun_eq_iff wal_bytes_def cong: option.case_cong)
  then have sh: "shown_page p' d = shown_page p d"
    by (simp add: p' shown_page_def fun_eq_iff pg_key_def)
  moreover have "file_in_order p' = file_in_order p" "log_ok p' d = log_ok p d" "page_in_use p' = page_in_use p"
    by (simp_all add: p' file_in_order_def log_ok_def page_in_use_def wal_bytes_def fun_eq_iff)
  ultimately show "pager_ok p' d = pager_ok p d"
    by (simp add: pager_ok_def cache_ok_def) (simp add: p')
  show "shown_page p' d = shown_page p d"
    by (rule sh)
  show "d' = d" "same_setup p p'" "pg_superblock p' = pg_superblock p"
    "pg_current_lsn p' = pg_current_lsn p" "pg_wal_tail p' = pg_wal_tail p" "pg_wal_file_open p' = pg_wal_file_open p"
    "pg_wal_file p' = pg_wal_file p" "pg_cache p' = pg_cache p"
    by (simp_all add: p' d' same_setup_def pg_key_def)
qed


lemma commit_tail_spec:
  assumes p: "file_in_order p" "log_ok p d" "\<And>k. page_in_use p k \<Longrightarrow> shown_page p d k = shown_after p0 d0 txn k"
    and cache: "cache_ok p0 d0" "pg_cache p = pg_cache p0" "pg_page_size p = pg_page_size p0" "pg_key p = pg_key p0"
      "pg_encryption_enabled p = pg_encryption_enabled p0" "\<And>k. page_in_use p0 k \<Longrightarrow> page_in_use p k"
    and staged: "list_all2 (staged_as (file_id sb) (pg_page_size p0) (pg_key p0) lsn) (tx_pages txn) ws"
      "distinct (map tp_page_id (tx_pages txn))" "\<And>q. q \<in> set (tx_pages txn) \<Longrightarrow> page_in_use p (tp_page_id q)"
    and lsn: "lsn = pg_current_lsn p0 + 1"
  shows "ends_with (pbind (commit_cache env lsn (tx_pages txn) ws) (\<lambda>_. commit_ticket lsn)) (p, d) (\<lambda>r p' d'. d' = d \<and> (r = Inr () \<longrightarrow>
    pager_ok p' d \<and> same_setup p p' \<and> shown_page p' d = shown_page p d \<and> pg_superblock p' = pg_superblock p
    \<and> pg_current_lsn p' = pg_current_lsn p \<and> pg_wal_tail p' = pg_wal_tail p \<and> pg_wal_file_open p' = pg_wal_file_open p
    \<and> pg_wal_file p' = pg_wal_file p))"
proof -
  have inv: "cache_inv (pg_cache p)" "pc_page_size (pg_cache p) = pg_page_size p"
    using cache by (simp_all add: cache_ok_def)
  have nz: "\<forall>q \<in> set (tx_pages txn). tp_page_id q \<noteq> 0"
    using staged(3) by (auto simp: page_in_use_def)
  have st: "list_all2 (staged_as (file_id sb) (pg_page_size p) (pg_key p) lsn) (tx_pages txn) ws"
    using staged(1) cache by simp
  obtain c where c: "commit_cache_loop env p lsn (zip (tx_pages txn) ws) (pg_cache p) = Some c" "cache_inv c"
    "pc_page_size c = pg_page_size p"
    "\<forall>k img. cache_view c k = Some img \<longrightarrow>
        (\<exists>q \<in> set (tx_pages txn). tp_page_id q = k \<and> img = page_image (pg_page_size p) (tp_type q) k lsn (tp_payload q))
        \<or> k \<notin> tp_page_id ` set (tx_pages txn) \<and> cache_view (pg_cache p) k = Some img"
    using commit_cache_spec [OF st inv nz, of env] by auto
  define q where "q = p\<lparr>pg_cache := c\<rparr>"
  have run: "commit_cache env lsn (tx_pages txn) ws (p, d) = Some (Inr (), q, d)"
    using c(1) by (simp add: commit_cache_def q_def)
  have keeps: "shown_page q d = shown_page p d" "file_in_order q" "log_ok q d" "page_in_use q = page_in_use p"
    using same_store_keeps [OF same_store_cache [OF same_store_refl, of p d c] p(2)] p(1) by (simp_all add: q_def)
  have "page_in_use p k \<and> (\<exists>view. shown_page p d k = Inr (img, view))" if "cache_view c k = Some img" for k img
  proof -
    from c(4) that consider (new) t where "t \<in> set (tx_pages txn)" "tp_page_id t = k"
        "img = page_image (pg_page_size p) (tp_type t) k lsn (tp_payload t)"
      | (old) "k \<notin> tp_page_id ` set (tx_pages txn)" "cache_view (pg_cache p0) k = Some img"
      using cache(2) by auto
    then show ?thesis
    proof cases
      case new
      then obtain i where i: "i < length (tx_pages txn)" "tx_pages txn ! i = t"
        by (auto simp: in_set_conv_nth)
      have "wp_page_id (ws ! i) = k"
        using staged(1) i new(2) by (auto simp: list_all2_conv_all_nth staged_as_def)
      then have "find (\<lambda>q. tp_page_id q = k) (tx_pages txn) = Some t"
        using staged_find [OF staged(1,2) i(1)] i(2) by simp
      then show ?thesis
        using p(3) [of k] staged(3) [OF new(1)] new cache(3) lsn by (auto simp: shown_after_def plain_result_def)
    next
      case old
      then have "find (\<lambda>q. tp_page_id q = k) (tx_pages txn) = None"
        by (auto simp: find_None_iff)
      moreover have "page_in_use p0 k" "\<exists>view. shown_page p0 d0 k = Inr (img, view)"
        using cache(1) old(2) by (auto simp: cache_ok_def)
      ultimately show ?thesis
        using p(3) [of k] cache(6) [of k] by (auto simp: shown_after_def)
    qed
  qed
  then have ok: "pager_ok q d"
    using keeps c(2,3) by (simp add: pager_ok_def cache_ok_def) (simp add: q_def)
  obtain r p' where t: "commit_ticket lsn (q, d) = Some (r, p', d)"
    using ticket_keeps(1) by (fastforce simp: commit_ticket_def split: if_splits)
  have su: "same_setup p q"
    by (simp add: same_setup_def q_def pg_key_def)
  show ?thesis
    using ticket_keeps [OF t] ok keeps su
    by (intro ends_withI [of _ _ r p' d]) (auto simp: pbind_def run t, auto simp: q_def same_setup_def)
qed


lemma commit_steps_spec:
  assumes ok: "file_in_order p" "log_ok p d" "pg_wal_file_open p" "cache_ok p d"
    and txn: "txn_ok p txn" "set (tx_allocated_pages txn) \<subseteq> tp_page_id ` set (tx_pages txn)"
    and lsn: "lsn = pg_current_lsn p + 1" and target: "target = tx_target_superblock txn"
    and staged: "list_all2 (staged_as (file_id (pg_superblock p)) (pg_page_size p) (pg_key p) lsn) (tx_pages txn) ws"
  shows "ends_with
       (pbind (commit_log env target lsn ws) (\<lambda>new_wal_tail.
        pbind (commit_index env ws) (\<lambda>_.
        pbind (commit_grow target) (\<lambda>_.
        pbind (commit_publish target lsn new_wal_tail) (\<lambda>_.
        pbind (commit_cache env lsn (tx_pages txn) ws) (\<lambda>_.
        commit_ticket lsn)))))) (p, d) (\<lambda>r p' d'. r = Inr () \<longrightarrow> committed p d txn p' d')"
    (is "ends_with (pbind _ ?rest) _ ?Q")
proof -
  note t = txn_target [OF txn(1), folded target]
  have fid': "length (file_id target) = 16" and psize': "unat (page_size target) = pg_page_size p"
    using ok(1) t by (simp_all add: file_in_order_def superblock_arrays_def)
  note l = staged_pages [OF staged]
  have dist: "distinct (map tp_page_id (tx_pages txn))"
    using txn(1) by (simp add: txn_ok_def Let_def)
  have fine: "file_ok (pg_file p)" and inv: "wal_index_inv (pg_wal_index p)"
    using ok by (simp_all add: file_in_order_def log_ok_def)
  obtain r1 d1 where log: "commit_log env target lsn ws (p, d) = Some (r1, p, d1)"
    and logged: "\<And>new. r1 = Inr new \<Longrightarrow>
    txn_accepted target lsn ws \<and> new = unat (pg_wal_tail p) + txn_size target ws \<and> new \<le> SDB_WAL_MAX_BYTES
    \<and> d_names d1 = d_names d \<and> length (d_inodes d1) = length (d_inodes d)
    \<and> new \<le> length (wal_bytes p d1) \<and> length (wal_bytes p d1) \<le> SDB_WAL_MAX_BYTES
    \<and> wal_bytes p d1 = file_write (if unat (pg_wal_tail p) = 64 then 0 else unat (pg_wal_tail p))
        (ws_buffer (staged_txn target (unat (pg_wal_tail p)) lsn ws)) (wal_bytes p d)
    \<and> (\<not> pg_defer_commit p \<longrightarrow> fdurable (d_inodes d1 ! pg_wal_file p) = wal_bytes p d1)
    \<and> (\<forall>i < length ws. slice (unat (pg_wal_tail p) + i * (40 + pg_page_size p) + 40) (pg_page_size p) (wal_bytes p d1) = wp_bytes (ws ! i))
    \<and> (\<forall>a n. 64 \<le> a \<and> a + n \<le> unat (pg_wal_tail p) \<longrightarrow> slice a n (wal_bytes p d1) = slice a n (wal_bytes p d))"
    using commit_log_spec [OF ok(2,3) fid' psize' l(2), of env lsn] unfolding ends_with_def by blast
  show ?thesis
  proof (cases r1)
    case (Inl e)
    then show ?thesis
      by (intro ends_withI) (auto simp: pbind_def log)
  next
    case (Inr new)
    note w = logged [OF Inr]
    obtain r2 ix where ixl: "commit_index_loop (env_malloc env 3) (pg_wal_tail p) (sdb_wal_frame_size_v5 (pg_page_size p)) 0 ws (pg_wal_index p) = Some (r2, ix)"
      "wal_index_inv ix" "r2 = Inr () \<longrightarrow> sdb_wal_index_get ix = sdb_wal_index_get (pg_wal_index p) ++
      map_of (rev (map (\<lambda>(i, w). (wp_page_id w, pg_wal_tail p + of_nat i * of_nat (sdb_wal_frame_size_v5 (pg_page_size p)))) (enumerate 0 ws)))"
      using commit_index_spec [OF inv, of "env_malloc env 3" "pg_wal_tail p" "sdb_wal_frame_size_v5 (pg_page_size p)" 0 ws] by auto
    define p2 where "p2 = p\<lparr>pg_wal_index := ix\<rparr>"
    have index: "commit_index env ws (p, d1) = Some (r2, p2, d1)"
      using ixl(1) by (simp add: commit_index_def p2_def)
    show ?thesis
    proof (cases r2)
      case (Inl e)
      then show ?thesis
        by (intro ends_withI) (auto simp: pbind_def log Inr index)
    next
      case r2: (Inr u)
      obtain r3 p3 where grow: "commit_grow target (p2, d1) = Some (r3, p3, d1)"
        and grown: "r3 = Inr () \<Longrightarrow> \<exists>f. p3 = p2\<lparr>pg_file := f\<rparr>
          \<and> file_ok f \<and> next_page_id target \<noteq> 0 \<and> 8192 + (unat (next_page_id target) - 1) * pg_page_size p \<le> length (fcontent f)
          \<and> (\<forall>a m. a + m \<le> length (fcontent (pg_file p)) \<longrightarrow> slice a m (fcontent f) = slice a m (fcontent (pg_file p)))"
        using commit_grow_spec [of p2 target d1] fine unfolding ends_with_def by (auto simp: p2_def)
      show ?thesis
      proof (cases "r3 = Inr () \<and> generation (pg_superblock p) \<noteq> - 1")
        case False
        then have "r3 = Inr () \<Longrightarrow> sdb_generation_bump (generation (pg_superblock p3)) = Inl SDB_E_OVERFLOW"
          using grown by (auto simp: sdb_generation_bump_def p2_def)
        then show ?thesis
          by (cases r3) (auto simp: ends_with_def pbind_def log Inr index r2 grow commit_publish_def)
      next
        case True
        obtain f where p3: "p3 = p2\<lparr>pg_file := f\<rparr>" and f: "file_ok f" "next_page_id target \<noteq> 0"
          "8192 + (unat (next_page_id target) - 1) * pg_page_size p \<le> length (fcontent f)"
          "\<forall>a m. a + m \<le> length (fcontent (pg_file p)) \<longrightarrow> slice a m (fcontent f) = slice a m (fcontent (pg_file p))"
          using grown True by blast
        define p4 where "p4 = p\<lparr>pg_wal_index := ix, pg_file := f, pg_superblock := commit_superblock p txn,
          pg_wal_tail := of_nat new, pg_current_lsn := lsn\<rparr>"
        have publish: "commit_publish target lsn new (p3, d1) = Some (Inr (), p4, d1)"
          using True by (simp add: commit_publish_def sdb_generation_bump_def p3 p2_def p4_def commit_superblock_def target lsn)
        have shows4: "file_in_order p4" "log_ok p4 d1" "\<And>k. page_in_use p4 k \<Longrightarrow> shown_page p4 d1 k = shown_after p d txn k"
          using commit_shows [OF ok(1-3) refl staged txn _ lsn _ _ _ _ _ _ _ ixl(2) _ f(1) f(2,3,4)[unfolded target] p4_def, of d1]
            w ixl(3) r2 unfolding target by auto
        have use4: "page_in_use p4 k" if "page_in_use p k" for k
          using that t(3) by (auto simp: page_in_use_def p4_def commit_superblock_def target)
        have staged4: "page_in_use p4 (tp_page_id q)" if q: "q \<in> set (tx_pages txn)" for q
        proof -
          obtain i where "i < length (tx_pages txn)" "tx_pages txn ! i = q"
            using q by (auto simp: in_set_conv_nth)
          then have "i < length ws" "wp_page_id (ws ! i) = tp_page_id q"
            using staged by (auto simp: list_all2_conv_all_nth staged_as_def)
          then have "txn_page_ok (next_page_id target) lsn (ws ! i)" "wp_page_id (ws ! i) = tp_page_id q"
            using w by (simp_all add: txn_accepted_def txn_pages_ok_def list_all_length)
          then show ?thesis
            by (auto simp: txn_page_ok_def page_in_use_def p4_def commit_superblock_def target)
        qed
        have f4: "pg_cache p4 = pg_cache p" "pg_page_size p4 = pg_page_size p" "pg_key p4 = pg_key p"
          "pg_encryption_enabled p4 = pg_encryption_enabled p" "same_setup p p4"
          using t(2) by (simp_all add: p4_def commit_superblock_def target pg_key_def same_setup_def)
        have "new < 2 ^ 64"
          using w by (auto simp: SDB_WAL_MAX_BYTES_def)
        then have tail4: "unat (pg_wal_tail p4) = new"
          by (simp add: p4_def unsigned_of_nat take_bit_nat_eq_self)
        obtain r5 p5 where tail: "pbind (commit_cache env lsn (tx_pages txn) ws) (\<lambda>_. commit_ticket lsn) (p4, d1) = Some (r5, p5, d1)"
          and p5: "r5 = Inr () \<Longrightarrow> pager_ok p5 d1 \<and> same_setup p4 p5 \<and> shown_page p5 d1 = shown_page p4 d1 \<and> pg_superblock p5 = pg_superblock p4
            \<and> pg_current_lsn p5 = pg_current_lsn p4 \<and> pg_wal_tail p5 = pg_wal_tail p4 \<and> pg_wal_file_open p5 = pg_wal_file_open p4
            \<and> pg_wal_file p5 = pg_wal_file p4"
          using commit_tail_spec [OF shows4 ok(4) f4(1-4) use4 staged dist staged4 lsn, of env] unfolding ends_with_def by blast
        have "committed p d txn p5 d1" if r5: "r5 = Inr ()"
        proof -
          have "page_in_use p5 = page_in_use p4" "wal_bytes p5 d1 = wal_bytes p d1" "pg_wal_file p5 = pg_wal_file p" "pg_wal_file_open p5"
            "log_bytes p d = wal_bytes p d"
            using p5 [OF r5] ok(3) by (simp_all add: fun_eq_iff page_in_use_def wal_bytes_def p4_def log_bytes_def)
          then show ?thesis
            using p5 [OF r5] f4(5) shows4(3) w staged tail4 t
            unfolding committed_def commit_logged_def Let_def
            by (auto simp: same_setup_def p4_def lsn target)
        qed
        then show ?thesis
          using tail by (intro ends_withI) (auto simp: pbind_def log Inr index r2 grow True publish)
      qed
    qed
  qed
qed


lemma commit_body_spec:
  assumes ok: "pager_ok p d" and txn: "txn_ok p txn" "set (tx_allocated_pages txn) \<subseteq> tp_page_id ` set (tx_pages txn)"
    and nonces: "nonces_ok env"
  shows "ends_with (commit_body env txn) (p, d) (\<lambda>r p' d'. r = Inr () \<longrightarrow> committed p d txn p' d')"
proof -
  define target where "target = tx_target_superblock txn"
  define lsn where "lsn = pg_current_lsn p + 1"
  note t = txn_target [OF txn(1), folded target_def]
  have parts: "file_in_order p" "log_ok p d" "cache_ok p d" and psize: "page_size_ok (pg_page_size p)"
    using ok by (simp_all add: pager_ok_def file_in_order_def)
  have types: "staged_types (tx_pages txn)" and fid': "length (file_id target) = 16"
    using txn(1) parts(1) t by (simp_all add: txn_ok_def Let_def file_in_order_def superblock_arrays_def)
  show ?thesis
  proof (cases "commit_encode env 0 (pg_page_size p) target (pg_key p) lsn (tx_pages txn)")
    case (Inl e)
    then show ?thesis
      by (intro ends_withI) (auto simp: commit_body_def target_def lsn_def Let_def)
  next
    case enc: (Inr ws)
    note staged = commit_encode_spec [OF enc psize fid' nonces types, unfolded t(1)]
    obtain r1 p1 d1 where op: "sdb_pager_ensure_wal_open (env_malloc env 5) (p, d) = (r1, p1, d1)"
      by (metis prod_cases3)
    show ?thesis
    proof (cases r1)
      case e: (Inl e)
      show ?thesis
        using enc by (intro ends_withI [of _ _ "Inl e" p1 d1]) (auto simp: commit_body_def target_def lsn_def Let_def pbind_def op e)
    next
      case (Inr v)
      then have u: "r1 = Inr ()"
        by simp
      note o = ensure_wal_open_spec [OF parts(2) op [unfolded u]]
      obtain h where p1: "p1 = p\<lparr>pg_wal_file := h, pg_wal_file_open := True\<rparr>"
        using o(1) by blast
      have shown: "shown_page p1 d1 = shown_page p d"
        using o(3) by (simp add: shown_page_def p1 fun_eq_iff pg_key_def)
      have cap1: "sdb_pager_payload_capacity p1 = sdb_pager_payload_capacity p"
        by (simp add: p1 sdb_pager_payload_capacity_def)
      have ok1: "file_in_order p1" "log_ok p1 d1" "pg_wal_file_open p1" "cache_ok p1 d1" "txn_ok p1 txn"
        using parts o(2) shown txn(1) unfolding txn_ok_def cap1 by (simp_all add: p1 file_in_order_def cache_ok_def page_in_use_def)
      have key1: "pg_key p1 = pg_key p"
        by (simp add: p1 pg_key_def)
      have lsn1: "lsn = pg_current_lsn p1 + 1"
        and staged1: "list_all2 (staged_as (file_id (pg_superblock p1)) (pg_page_size p1) (pg_key p1) lsn) (tx_pages txn) ws"
        using staged unfolding key1 by (simp_all add: p1 lsn_def)
      have after: "committed p d txn p' d'" if c: "committed p1 d1 txn p' d'" for p' d'
      proof -
        have "pg_page_size p1 = pg_page_size p" "pg_current_lsn p1 = pg_current_lsn p"
          by (simp_all add: p1)
        then have "shown_after p1 d1 txn = shown_after p d txn"
          by (intro ext) (simp only: shown_after_def shown)
        moreover have "log_bytes p1 d1 = log_bytes p d"
          using o(4) by (simp add: log_bytes_def p1)
        moreover have "commit_superblock p1 txn = commit_superblock p txn"
          by (simp add: p1 commit_superblock_def)
        ultimately show ?thesis
          using c key1 unfolding committed_def commit_logged_def same_setup_def by (simp add: p1)
      qed
      show ?thesis
        using commit_steps_spec [OF ok1(1-5) txn(2) lsn1 refl staged1, of env] after enc op u
        by (auto simp: ends_with_def commit_body_def pbind_def target_def lsn_def Let_def)
    qed
  qed
qed

end
