(* ===== verification/Pager_Checkpoint.thy ===== *)
theory Pager_Checkpoint
  imports Pager_Commit
begin

text \<open>
  The checkpoint: it copies the pages of the log to their places in the database
  file, and whether or not it gets through, every page in use shows what it showed.
  With this the commit is complete, since a commit may end in a checkpoint.
\<close>

section \<open>Writing in place\<close>

lemma slice_file_write_after:
  assumes "off + length bs \<le> a" "off + length bs \<le> length c"
  shows "slice a n (file_write off bs c) = slice a n c"
proof (cases "bs = []")
  case False
  then have "file_write off bs c = blit off bs c"
    using assms(2) by (simp add: file_write_def file_grow_def)
  then show ?thesis
    using assms by (simp add: slice_blit_after)
qed (simp add: file_write_def)

lemma update_internal_pages:
  assumes run: "sdb_superblock_store_update_file_internal sb key f = (r, f')"
    and f: "file_ok f" "8192 \<le> length (fcontent f)" and arr: "superblock_arrays sb"
  shows "length (fcontent f') = length (fcontent f)" "8192 \<le> a \<Longrightarrow> slice a n (fcontent f') = slice a n (fcontent f)"
proof -
  have "length (fcontent f') = length (fcontent f) \<and> (8192 \<le> a \<longrightarrow> slice a n (fcontent f') = slice a n (fcontent f))"
  proof (cases "read_with plain_accept (fcontent f)")
    case (Inl e)
    obtain rd g where rd: "sdb_superblock_store_read_file f = (rd, g)"
      by fastforce
    have "fcontent f' = fcontent f"
      using run rd read_file_spec [OF rd f(1)] Inl
      by (auto simp: sdb_superblock_store_update_file_internal_def fbind_def same_file_def split: sum.splits)
    then show ?thesis
      by simp
  next
    case (Inr cur)
    have i: "selected_slot cur < 2" "1 - selected_slot cur < 2"
      using plain.read_with_cases(1) [OF Inr] by auto
    have w: "length (file_write (4096 * i) (take k enc) c) = length c
        \<and> (8192 \<le> a \<longrightarrow> slice a n (file_write (4096 * i) (take k enc) c) = slice a n c)"
      if "i < 2" "8192 \<le> length c" "length enc = 4096" "k \<le> 4096" for i enc k c
      using slot_write_same(2) [OF that] slice_file_write_after [of "4096 * i" "take k enc" a c n] that by simp
    from update_internal_outcome [OF run f arr Inr] show ?thesis
    proof (elim disjE exE conjE)
      fix enc k e
      assume "sdb_encode_slot sb key = Inr enc" "torn_at f k"
        "fcontent f' = file_write (4096 * (1 - selected_slot cur)) (take k enc) (fcontent f)"
      then show ?thesis
        using w [OF i(2) f(2) encode_slot_image(2) [OF _ arr]] by (simp add: torn_at_def)
    next
      fix enc k
      assume a: "sdb_encode_slot sb key = Inr enc" "torn_at f k"
        "fcontent f' = file_write (4096 * selected_slot cur) (take k enc) (file_write (4096 * (1 - selected_slot cur)) enc (fcontent f))"
      have enc: "length enc = 4096"
        using encode_slot_image(2) [OF a(1) arr] .
      show ?thesis
        using w [OF i(2) f(2) enc, of 4096] w [OF i(1) _ enc, of "file_write (4096 * (1 - selected_slot cur)) enc (fcontent f)" k]
          a f(2) enc by (simp add: torn_at_def)
    qed simp
  qed
  then show "length (fcontent f') = length (fcontent f)" "8192 \<le> a \<Longrightarrow> slice a n (fcontent f') = slice a n (fcontent f)"
    by simp_all
qed

lemma update_internal_durable:
  assumes "sdb_superblock_store_update_file_internal sb key f = (Inr (), f')"
  shows "fdurable f' = fcontent f'"
proof -
  obtain g where "sdb_file_sync g = (Inr (), f')"
    using assms unfolding sdb_superblock_store_update_file_internal_def
    by (auto simp: fbind_eq_Inr fthrow_def Let_def split: sum.splits if_splits)
  then show ?thesis
    using sdb_file_sync_spec [of g "Inr ()" f'] by simp
qed

lemma store_superblock_pages:
  assumes run: "sdb_pager_store_superblock next p = (r, p')"
    and f: "file_ok (pg_file p)" "8192 \<le> length (fcontent (pg_file p))" and arr: "superblock_arrays next"
  shows "\<exists>f'. p' = p\<lparr>pg_file := f', pg_superblock := (if r = Inr () then next else pg_superblock p)\<rparr>
    \<and> length (fcontent f') = length (fcontent (pg_file p))
    \<and> (\<forall>a n. 8192 \<le> a \<longrightarrow> slice a n (fcontent f') = slice a n (fcontent (pg_file p)))
    \<and> (r = Inr () \<longrightarrow> fdurable f' = fcontent f')"
proof -
  let ?m = "if flags next AND SDB_FLAG_HEADER_AUTH \<noteq> 0
            then sdb_superblock_store_update_file_authenticated next (Some (pg_data_key p))
            else sdb_superblock_store_update_file next"
  obtain key where m: "?m = sdb_superblock_store_update_file_internal next key"
    by (cases "flags next AND SDB_FLAG_HEADER_AUTH \<noteq> 0")
      (auto simp: sdb_superblock_store_update_file_authenticated_def sdb_superblock_store_update_file_def)
  obtain rr f' where u: "sdb_superblock_store_update_file_internal next key (pg_file p) = (rr, f')"
    by fastforce
  have "r = rr \<and> p' = p\<lparr>pg_file := f', pg_superblock := (if r = Inr () then next else pg_superblock p)\<rparr>"
    using run u unfolding sdb_pager_store_superblock_def m on_database_def by (cases rr) (auto simp: is_ok_def)
  then show ?thesis
    using update_internal_pages [OF u f arr] update_internal_durable [of _ key "pg_file p" f'] u by blast
qed


section \<open>The loop\<close>

text \<open>A directory in which every file holds what it held; it may have reached the disk.\<close>

definition same_contents :: "directory \<Rightarrow> directory \<Rightarrow> bool" where
  "same_contents d d' \<longleftrightarrow> d_names d' = d_names d \<and> map fcontent (d_inodes d') = map fcontent (d_inodes d)"

lemma same_contents_refl [simp]: "same_contents d d"
  by (simp add: same_contents_def)

lemma same_contents_trans: "same_contents d e \<Longrightarrow> same_contents e f \<Longrightarrow> same_contents d f"
  by (simp add: same_contents_def)

lemma dir_unchanged_contents: "dir_unchanged d d' \<Longrightarrow> same_contents d d'"
  by (simp add: dir_unchanged_def same_contents_def)

lemma same_contents_nth:
  assumes "same_contents d d'" "h < length (d_inodes d)"
  shows "fcontent (d_inodes d' ! h) = fcontent (d_inodes d ! h)" "h < length (d_inodes d')"
  using assms unfolding same_contents_def by (metis length_map nth_map)+

lemma on_file_sync:
  assumes "on_file h sdb_file_sync d = (r, d')" "h < length (d_inodes d)"
  shows "same_contents d d'"
proof -
  obtain f' where "sdb_file_sync ((d_inodes d ! h)\<lparr>fscript := d_script d\<rparr>) = (r, f')"
    and d': "d' = d\<lparr>d_inodes := (d_inodes d)[h := f'\<lparr>fscript := []\<rparr>], d_script := fscript f'\<rparr>"
    using assms(1) by (auto simp: on_file_def split: prod.splits)
  then have "fcontent f' = fcontent (d_inodes d ! h)"
    using sdb_file_sync_spec(1) by fastforce
  then show ?thesis
    using assms(2) by (auto simp: d' same_contents_def intro!: nth_equalityI simp: nth_list_update)
qed

lemma contents_keep:
  assumes "same_contents d d'" "log_ok p d"
  shows "log_ok p d'" "stored_image p d' = stored_image p d" "shown_page p d' = shown_page p d"
proof -
  have wal: "wal_bytes p d' = wal_bytes p d" if "pg_wal_file_open p"
    using that assms(2) same_contents_nth [OF assms(1)] by (simp add: wal_bytes_def log_ok_def)
  have "stored_image p d' k = stored_image p d k" for k
    using wal log_frame(1) [OF assms(2)] by (auto simp: stored_image_def split: option.splits)
  then show "stored_image p d' = stored_image p d"
    by auto
  then show "shown_page p d' = shown_page p d"
    by (auto simp: shown_page_def)
  have "d_names d' = d_names d"
    using assms(1) by (simp add: same_contents_def)
  then show "log_ok p d'"
    using assms(2) wal same_contents_nth [OF assms(1)] by (auto simp: log_ok_def)
qed

text \<open>A page's place in a file, and a file in which only pages of the log have been overwritten.\<close>

definition placed :: "sdb_pager \<Rightarrow> sdb_file \<Rightarrow> u64 \<Rightarrow> bytes" where
  "placed p f k = slice (page_offset (pg_page_size p) k) (pg_page_size p) (fcontent f)"

definition pages_kept :: "sdb_pager \<Rightarrow> sdb_file \<Rightarrow> bool" where
  "pages_kept p f \<longleftrightarrow> length (fcontent f) = length (fcontent (pg_file p))
    \<and> (\<forall>k. page_in_use p k \<and> sdb_wal_index_get (pg_wal_index p) k = None \<longrightarrow> placed p f k = placed p (pg_file p) k)"

definition copying :: "sdb_pager \<Rightarrow> sdb_file \<Rightarrow> bool" where
  "copying p f \<longleftrightarrow> pages_kept p f \<and> take 8192 (fcontent f) = take 8192 (fcontent (pg_file p))"

lemma pages_kept_keeps:
  assumes "pages_kept p f" "file_in_order p"
  shows "file_in_order (p\<lparr>pg_file := f\<rparr>)" "log_ok (p\<lparr>pg_file := f\<rparr>) d = log_ok p d"
    "page_in_use p k \<Longrightarrow> stored_image (p\<lparr>pg_file := f\<rparr>) d k = stored_image p d k"
    "page_in_use p k \<Longrightarrow> shown_page (p\<lparr>pg_file := f\<rparr>) d k = shown_page p d k"
proof -
  show "file_in_order (p\<lparr>pg_file := f\<rparr>)" "log_ok (p\<lparr>pg_file := f\<rparr>) d = log_ok p d"
    using assms by (simp_all add: pages_kept_def file_in_order_def file_ok_def log_ok_def page_in_use_def wal_bytes_def)
  show img: "stored_image (p\<lparr>pg_file := f\<rparr>) d k = stored_image p d k" if "page_in_use p k"
    using assms(1) that by (cases "sdb_wal_index_get (pg_wal_index p) k") (auto simp: stored_image_def pages_kept_def placed_def wal_bytes_def)
  show "shown_page (p\<lparr>pg_file := f\<rparr>) d k = shown_page p d k" if "page_in_use p k"
    using img [OF that] by (simp add: shown_page_def pg_key_def)
qed

lemma places_disjoint:
  assumes "page_in_use p k" "page_in_use p k'" "k \<noteq> k'"
  shows "page_offset (pg_page_size p) k + pg_page_size p \<le> page_offset (pg_page_size p) k'
    \<or> page_offset (pg_page_size p) k' + pg_page_size p \<le> page_offset (pg_page_size p) k"
proof -
  have place: "page_offset n i + n \<le> page_offset n j" if "unat i < unat j" "0 < unat i" for n and i j :: u64
  proof -
    have "Suc (unat i - 1) * n \<le> (unat j - 1) * n"
      using that by (intro mult_le_mono1) simp
    then show ?thesis
      by (simp add: page_offset_def)
  qed
  have pos: "0 < unat k" "0 < unat k'"
    using assms(1,2) by (simp_all add: page_in_use_def unat_gt_0)
  have "unat k \<noteq> unat k'"
    using assms(3) unfolding word_unat_eq_iff .
  then consider "unat k < unat k'" | "unat k' < unat k"
    by linarith
  then show ?thesis
    using place pos by cases simp_all
qed


lemma write_page_copying:
  assumes f: "copying p f" "file_in_order p" and k: "page_in_use p k" "sdb_wal_index_get (pg_wal_index p) k \<noteq> None"
    and img: "length img = pg_page_size p" and run: "sdb_file_write_full (page_offset (pg_page_size p) k) img f = (r, f')"
  shows "copying p f'" "r = Inr () \<Longrightarrow> placed p f' k = img"
    "page_in_use p i \<Longrightarrow> i \<noteq> k \<Longrightarrow> placed p f' i = placed p f i"
proof -
  define off where "off = page_offset (pg_page_size p) k"
  have place: "off + pg_page_size p \<le> length (fcontent f)"
    using page_place [OF f(2) k(1)] f(1) by (simp add: off_def copying_def pages_kept_def)
  have "length (fcontent f) \<le> INT64_MAX"
    using f by (simp add: copying_def pages_kept_def file_in_order_def file_ok_def)
  then have "off + length img \<le> INT64_MAX"
    using place img by simp
  then obtain j where j: "wrote_prefix off img f j f'" "r = Inr () \<Longrightarrow> j = length img"
    using sdb_file_write_full_spec [OF run [folded off_def]] by (metis Inl_Inr_False)
  have w: "fcontent f' = file_write off (take j img) (fcontent f)" "j \<le> length img"
    using j(1) by (simp_all add: wrote_prefix_def)
  have b: "fcontent f' = blit off (take j img) (fcontent f)"
    using w place img by (simp add: file_write_in_bounds)
  have len: "length (fcontent f') = length (fcontent f)"
    using b place img w(2) by simp
  have o8: "8192 \<le> off"
    by (simp add: off_def page_offset_def)
  show other: "placed p f' i = placed p f i" if "page_in_use p i" "i \<noteq> k" for i
    using places_disjoint [OF that(1) k(1) that(2)] place img w(2)
    unfolding placed_def b off_def [symmetric] by (auto simp: slice_blit_before slice_blit_after)
  have "take 8192 (fcontent f') = take 8192 (fcontent f)"
    using o8 place img w(2) unfolding b by (intro nth_equalityI) (simp_all add: nth_blit)
  then show "copying p f'"
    using f(1) len other k(2) unfolding copying_def pages_kept_def by metis
  show "placed p f' k = img" if "r = Inr ()"
    using j(2) [OF that] img place unfolding placed_def b off_def [symmetric] by (simp add: slice_blit_same)
qed

lemma place_word:
  assumes "file_in_order p" "page_in_use p k"
  shows "unat (8192 + (k - 1) * ucast (page_size (pg_superblock p)) :: u64) = page_offset (pg_page_size p) k"
proof -
  obtain off where off: "sdb_pager_offset p k = Inr off" "unat off = page_offset (pg_page_size p) k"
    using pager_offset_place [OF assms] by blast
  have "off = of_nat (SDB_SUPERBLOCK_SLOT_SIZE * SDB_SUPERBLOCK_SLOT_COUNT) + (k - 1) * ucast (page_size (pg_superblock p))"
    using off(1) unfolding sdb_pager_offset_def Let_def by (simp only: split: if_splits) (simp_all only: sum.inject sum.distinct)
  then show ?thesis
    using off(2) by (simp add: superblock_consts)
qed

text \<open>The loop over some slots of the index, from a file that is being copied into.\<close>

lemma checkpoint_loop_spec:
  assumes ok: "file_in_order p" "log_ok p d"
    and slots: "\<forall>s \<in> set slots. wi_page_id s \<noteq> 0 \<longrightarrow> sdb_wal_index_get (pg_wal_index p) (wi_page_id s) = Some (wi_wal_offset s)"
    and h: "pg_wal_file_open p \<longrightarrow> h = pg_wal_file p" and state: "copying p f" "same_contents d d1"
    and run: "checkpoint_loop env h slots applied (p\<lparr>pg_file := f\<rparr>, d1) = (r, applied', p', d')"
  shows "\<exists>f'. p' = p\<lparr>pg_file := f'\<rparr> \<and> copying p f' \<and> same_contents d d'
    \<and> (r = Inr () \<longrightarrow> (\<forall>s \<in> set slots. wi_page_id s \<noteq> 0 \<longrightarrow> placed p f' (wi_page_id s) = stored_image p d (wi_page_id s))
      \<and> (\<forall>k. page_in_use p k \<longrightarrow> placed p f' k = placed p f k \<or> placed p f' k = stored_image p d k)
      \<and> (applied' = (applied \<or> (\<exists>s \<in> set slots. wi_page_id s \<noteq> 0))))"
  using slots state run
proof (induction slots arbitrary: applied f d1)
  case Nil
  then show ?case
    by auto
next
  case (Cons s slots)
  define k where "k = wi_page_id s"
  define off where "off = wi_wal_offset s"
  show ?case
  proof (cases "k = 0")
    case True
    then show ?thesis
      using Cons.IH [OF _ Cons.prems(2,3), of applied] Cons.prems(1,4) by (auto simp: k_def)
  next
    case False
    then have get: "sdb_wal_index_get (pg_wal_index p) k = Some off"
      using Cons.prems(1) by (simp add: k_def off_def)
    note fr = log_frame [OF ok(2) get]
    let ?p = "p\<lparr>pg_file := f\<rparr>"
    have hh: "h = pg_wal_file p"
      using h fr(1) by simp
    have fo: "\<not> frame_outside_log ?p off" "unat (off + 40) = unat off + 40"
      using frame_inside [OF fr(5)] by (simp_all add: frame_outside_log_def)
    have use_k: "\<not> k \<ge> next_page_id (pg_superblock p)"
      using fr(3) by (simp add: page_in_use_def not_le)
    obtain rd d2 where rd: "on_file h (sdb_file_read_full (unat off + 40) (pg_page_size p)) d1 = (rd, d2)"
      by fastforce
    have content: "fcontent (d_inodes d1 ! h) = wal_bytes p d" "h < length (d_inodes d1)"
      using same_contents_nth [OF Cons.prems(3) fr(2)] by (simp_all add: hh wal_bytes_def)
    have small: "length (fcontent (d_inodes d1 ! h)) \<le> INT64_MAX"
      using fr(7) content(1) by (simp add: SDB_WAL_MAX_BYTES_def INT64_MAX_def)
    have inside: "unat off + 40 + pg_page_size p \<le> length (fcontent (d_inodes d1 ! h))"
      using fr(5,6) content(1) by simp
    then have "unat off + 40 \<le> INT64_MAX"
      using small by linarith
    note r = on_file_read [OF rd content(2) small this]
    have c2: "same_contents d d2"
      using same_contents_trans [OF Cons.prems(3) dir_unchanged_contents [OF r(1)]] .
    have rd': "rd = Inr (stored_image p d k) \<or> (\<exists>e. rd = Inl e)"
      using r(2) inside content(1) by (auto simp: file_read_def stored_image_def get)
    have step: "checkpoint_loop env h (s # slots) applied (?p, d1) =
        (case rd of
           Inl e \<Rightarrow> (Inl e, applied, ?p, d2)
         | Inr page \<Rightarrow>
             (case sdb_page_decode page k of
                Inl _ \<Rightarrow> (Inl SDB_E_CORRUPT, applied, ?p, d2)
              | Inr view \<Rightarrow>
                  if pg_encryption_enabled p
                     \<and> (case sdb_encrypted_page_decrypt (env_avx2 env) (pg_superblock p) (pg_data_key p) view (pg_page_size p) of
                          Inl _ \<Rightarrow> True | Inr _ \<Rightarrow> False)
                  then (Inl SDB_E_CORRUPT, applied, ?p, d2)
                  else (case on_database (sdb_file_write_full (page_offset (pg_page_size p) k) page) ?p of
                          (Inl e, p) \<Rightarrow> (Inl e, applied, p, d2)
                        | (Inr _, p) \<Rightarrow> checkpoint_loop env h slots True (p, d2))))"
    proof -
      have cs: "of_nat SDB_WAL_RECORD_HEADER_SIZE_V5 = (40 :: u64)"
        "of_nat (SDB_SUPERBLOCK_SLOT_SIZE * SDB_SUPERBLOCK_SLOT_COUNT) = (8192 :: u64)"
        by (simp_all add: SDB_WAL_RECORD_HEADER_SIZE_V5_def superblock_consts)
      have fields: "pg_superblock ?p = pg_superblock p" "pg_encryption_enabled ?p = pg_encryption_enabled p" "pg_data_key ?p = pg_data_key p"
        by simp_all
      have "\<not> (k \<ge> next_page_id (pg_superblock p) \<or> frame_outside_log ?p off)"
        using use_k fo(1) by simp
      then show ?thesis
        unfolding checkpoint_loop.simps Let_def k_def [symmetric] off_def [symmetric] cs fields fo(2) place_word [OF ok(1) fr(3)] if_not_P [OF False]
        by (simp only: if_False rd prod.case)
    qed
    show ?thesis
    proof (cases "\<exists>view. rd = Inr (stored_image p d k) \<and> sdb_page_decode (stored_image p d k) k = Inr view
        \<and> \<not> (pg_encryption_enabled p
             \<and> (case sdb_encrypted_page_decrypt (env_avx2 env) (pg_superblock p) (pg_data_key p) view (pg_page_size p) of
                  Inl _ \<Rightarrow> True | Inr _ \<Rightarrow> False))")
      case False
      then have "\<exists>e. r = Inl e" "p' = ?p" "d' = d2"
        using Cons.prems(4) rd' unfolding step by (auto split: sum.splits if_splits)
      then show ?thesis
        using c2 Cons.prems(2) by auto
    next
      case True
      obtain rw f1 where w: "sdb_file_write_full (page_offset (pg_page_size p) k) (stored_image p d k) f = (rw, f1)"
        by fastforce
      have "length (stored_image p d k) = pg_page_size p"
        using length_stored_image [OF ok(2,1) fr(3)] .
      note wp = write_page_copying [OF Cons.prems(2) ok(1) fr(3) _ this w]
      have run: "(case rw of Inl e \<Rightarrow> (Inl e, applied, p\<lparr>pg_file := f1\<rparr>, d2)
          | Inr _ \<Rightarrow> checkpoint_loop env h slots True (p\<lparr>pg_file := f1\<rparr>, d2)) = (r, applied', p', d')"
      proof -
        obtain view where rv: "rd = Inr (stored_image p d k)" "sdb_page_decode (stored_image p d k) k = Inr view"
          and np: "\<not> (pg_encryption_enabled p
             \<and> (case sdb_encrypted_page_decrypt (env_avx2 env) (pg_superblock p) (pg_data_key p) view (pg_page_size p) of
                  Inl _ \<Rightarrow> True | Inr _ \<Rightarrow> False))"
          using True by blast
        have db: "on_database (sdb_file_write_full (page_offset (pg_page_size p) k) (stored_image p d k)) ?p = (rw, p\<lparr>pg_file := f1\<rparr>)"
          by (simp add: on_database_def w)
        show ?thesis
          using Cons.prems(4) unfolding step rv sum.case if_not_P [OF np] db prod.case by (cases rw) auto
      qed
      show ?thesis
      proof (cases rw)
        case (Inl e)
        then show ?thesis
          using run wp(1) get c2 by auto
      next
        case (Inr u)
        have c1: "copying p f1" and k1: "placed p f1 k = stored_image p d k"
          using wp(1,2) get Inr by simp_all
        have others: "placed p f1 i = placed p f i \<or> placed p f1 i = stored_image p d i" if "page_in_use p i" for i
          using wp(3) [OF _ that] get k1 by (cases "i = k") auto
        obtain f' where f': "p' = p\<lparr>pg_file := f'\<rparr>" "copying p f'" "same_contents d d'"
          "r = Inr () \<longrightarrow> (\<forall>s \<in> set slots. wi_page_id s \<noteq> 0 \<longrightarrow> placed p f' (wi_page_id s) = stored_image p d (wi_page_id s))
            \<and> (\<forall>k. page_in_use p k \<longrightarrow> placed p f' k = placed p f1 k \<or> placed p f' k = stored_image p d k)
            \<and> applied' = (True \<or> (\<exists>s \<in> set slots. wi_page_id s \<noteq> 0))"
        proof -
          have rl: "checkpoint_loop env h slots True (p\<lparr>pg_file := f1\<rparr>, d2) = (r, applied', p', d')"
            using run Inr by simp
          have "\<forall>s \<in> set slots. wi_page_id s \<noteq> 0 \<longrightarrow> sdb_wal_index_get (pg_wal_index p) (wi_page_id s) = Some (wi_wal_offset s)"
            using Cons.prems(1) by simp
          from Cons.IH [OF this c1 c2 rl] show thesis
            by (elim exE conjE) (rule that)
        qed
        have all: "placed p f' i = placed p f1 i \<or> placed p f' i = stored_image p d i" if "r = Inr ()" "page_in_use p i" for i
          using f'(4) that by blast
        have "placed p f' k = stored_image p d k" if "r = Inr ()"
          using all [OF that fr(3)] unfolding k1 by simp
        moreover have "placed p f' i = placed p f i \<or> placed p f' i = stored_image p d i" if "r = Inr ()" "page_in_use p i" for i
          using all [OF that] others [OF that(2)] by metis
        moreover have "\<exists>s \<in> set (s # slots). wi_page_id s \<noteq> 0"
          using \<open>k \<noteq> 0\<close> by (simp add: k_def)
        ultimately show ?thesis
          using f' unfolding k_def by (intro exI [of _ f'] conjI impI) (blast, blast, blast, auto)
      qed
    qed
  qed
qed


section \<open>The checkpoint\<close>

lemma wal_handle_spec:
  assumes ok: "log_ok p d" and run: "pager_wal_handle p path d = (Inr (h, opened), d')" and path: "pg_wal_path p = Some path"
  shows "dir_unchanged d d'" "opened \<longrightarrow> h < length (d_inodes d')" "pg_wal_file_open p \<longrightarrow> h = pg_wal_file p \<and> \<not> opened"
proof -
  have "dir_unchanged d d' \<and> (opened \<longrightarrow> h < length (d_inodes d')) \<and> (pg_wal_file_open p \<longrightarrow> h = pg_wal_file p \<and> \<not> opened)"
  proof (cases "pg_wal_file_open p")
    case False
    then have op: "sdb_file_open_existing path False d = (Inr h, d')"
      using run by (auto simp: pager_wal_handle_def split: prod.splits sum.splits)
    note o = open_existing_cases [OF op]
    have "h < length (d_inodes d)"
      using ok False path o(2) [OF refl] by (auto simp: log_ok_def)
    then show ?thesis
      using o(1) dir_unchanged_nth(2) False by blast
  qed (use run in \<open>auto simp: pager_wal_handle_def\<close>)
  then show "dir_unchanged d d'" "opened \<longrightarrow> h < length (d_inodes d')" "pg_wal_file_open p \<longrightarrow> h = pg_wal_file p \<and> \<not> opened"
    by simp_all
qed

lemma checkpoint_copy_spec:
  assumes ok: "file_in_order p" "log_ok p d"
    and h: "opened \<longrightarrow> h < length (d_inodes d)" "pg_wal_file_open p \<longrightarrow> h = pg_wal_file p \<and> \<not> opened"
    and run: "checkpoint_copy env h opened (p, d) = (status, applied, p', d')"
  shows "\<exists>f. p' = p\<lparr>pg_file := f\<rparr> \<and> copying p f \<and> same_contents d d' \<and> (status = Inr () \<longrightarrow>
    applied = (sdb_wal_index_get (pg_wal_index p) \<noteq> Map.empty) \<and> (\<forall>k. page_in_use p k \<longrightarrow> placed p f k = stored_image p d k))"
proof -
  obtain slots where sl: "wi_slots (pg_wal_index p) = Some slots" and inv: "wal_index_inv (pg_wal_index p)"
    using ok(2) by (auto simp: log_ok_def wal_index_inv_def)
  have slots: "\<forall>s \<in> set slots. wi_page_id s \<noteq> 0 \<longrightarrow> sdb_wal_index_get (pg_wal_index p) (wi_page_id s) = Some (wi_wal_offset s)"
    using get_iff [OF inv] sl by (auto simp: table_slots_def)
  obtain s1 d1 where sync: "(if pg_wal_file_open p then on_file (pg_wal_file p) sdb_file_sync d else (Inr (), d)) = (s1, d1)"
    by fastforce
  have c1: "same_contents d d1"
    using sync on_file_sync [of "pg_wal_file p" d s1 d1] ok(2) by (auto simp: log_ok_def split: if_splits)
  have start: "copying p (pg_file p)" "p\<lparr>pg_file := pg_file p\<rparr> = p"
    by (simp_all add: copying_def pages_kept_def)
  obtain s2 a2 p2 d2 where loop: "(case s1 of Inl e \<Rightarrow> (Inl e, False, p, d1)
      | Inr _ \<Rightarrow> checkpoint_loop env h slots False (p, d1)) = (s2, a2, p2, d2)"
    by (metis prod_cases4)
  have "\<exists>f. p2 = p\<lparr>pg_file := f\<rparr> \<and> copying p f \<and> same_contents d d2 \<and> (s2 = Inr () \<longrightarrow>
    a2 = (sdb_wal_index_get (pg_wal_index p) \<noteq> Map.empty) \<and> (\<forall>k. page_in_use p k \<longrightarrow> placed p f k = stored_image p d k))"
  proof (cases s1)
    case (Inl e)
    then show ?thesis
      using loop c1 start by (intro exI [of _ "pg_file p"]) auto
  next
    case (Inr u)
    then have "checkpoint_loop env h slots False (p\<lparr>pg_file := pg_file p\<rparr>, d1) = (s2, a2, p2, d2)"
      using loop start(2) by simp
    from checkpoint_loop_spec [OF ok slots _ start(1) c1 this] h(2)
    obtain f where f: "p2 = p\<lparr>pg_file := f\<rparr>" "copying p f" "same_contents d d2"
      and fin: "s2 = Inr () \<longrightarrow> (\<forall>s \<in> set slots. wi_page_id s \<noteq> 0 \<longrightarrow> placed p f (wi_page_id s) = stored_image p d (wi_page_id s))
      \<and> (\<forall>k. page_in_use p k \<longrightarrow> placed p f k = placed p (pg_file p) k \<or> placed p f k = stored_image p d k)
      \<and> (a2 = (False \<or> (\<exists>s \<in> set slots. wi_page_id s \<noteq> 0)))"
      by blast
    have "placed p f k = stored_image p d k" if "s2 = Inr ()" "page_in_use p k" for k
    proof (cases "sdb_wal_index_get (pg_wal_index p) k")
      case None
      then have "placed p (pg_file p) k = stored_image p d k"
        by (simp add: placed_def stored_image_def)
      then show ?thesis
        using f(2) None that(2) by (simp add: copying_def pages_kept_def)
    next
      case (Some off)
      then obtain s where "s \<in> set slots" "wi_page_id s = k" "k \<noteq> 0"
        using get_iff [OF inv] sl by (auto simp: table_slots_def)
      then show ?thesis
        using fin that(1) by blast
    qed
    moreover have "a2 = (sdb_wal_index_get (pg_wal_index p) \<noteq> Map.empty)" if "s2 = Inr ()"
    proof -
      have "(\<exists>s \<in> set slots. wi_page_id s \<noteq> 0) \<longleftrightarrow> (\<exists>k v. sdb_wal_index_get (pg_wal_index p) k = Some v)"
        unfolding get_iff [OF inv] sl by (auto simp: table_slots_def)
      then show ?thesis
        using fin that by (auto simp: fun_eq_iff)
    qed
    ultimately show ?thesis
      using f by (intro exI [of _ f]) blast
  qed
  then obtain f where f: "p2 = p\<lparr>pg_file := f\<rparr>" "copying p f" "same_contents d d2" "s2 = Inr () \<longrightarrow>
    a2 = (sdb_wal_index_get (pg_wal_index p) \<noteq> Map.empty) \<and> (\<forall>k. page_in_use p k \<longrightarrow> placed p f k = stored_image p d k)"
    by blast
  obtain s3 d3 where cl: "on_file h sdb_file_close d2 = (s3, d3)"
    by fastforce
  have c3: "same_contents d d3" if opened
  proof -
    have "h < length (d_inodes d2)"
      using h(1) that same_contents_nth(2) [OF f(3)] by simp
    then have "dir_unchanged d2 d3"
      using on_file_reads(1) [OF cl] sdb_file_close_same by blast
    then show ?thesis
      using f(3) same_contents_trans dir_unchanged_contents by blast
  qed
  have "(status, applied, p', d') = (if opened then (if is_ok s2 then s3 else s2, a2, p2, d3) else (s2, a2, p2, d2))"
    using run sync loop cl sl by (auto simp: checkpoint_copy_def split: sum.splits)
  then show ?thesis
    using f c3 by (intro exI [of _ f]) (auto simp: is_ok_iff split: if_splits)
qed


lemma wal_reset_spec:
  assumes h: "pg_wal_file_open p" "pg_wal_file p < length (d_inodes d)" and run: "sdb_pager_wal_reset malloc_ok p d = (r, d')"
  shows "d_names d' = d_names d" "length (d_inodes d') = length (d_inodes d)" "wal_bytes p d' = wal_bytes p d \<or> wal_bytes p d' = []"
    "r = Inr () \<Longrightarrow> wal_bytes p d' = [] \<and> fdurable (d_inodes d' ! pg_wal_file p) = []"
proof -
  define w where "w = pg_wal_file p"
  have "d_names d' = d_names d \<and> length (d_inodes d') = length (d_inodes d) \<and> (wal_bytes p d' = wal_bytes p d \<or> wal_bytes p d' = [])
    \<and> (r = Inr () \<longrightarrow> wal_bytes p d' = [] \<and> fdurable (d_inodes d' ! w) = [])"
  proof (cases "pg_wal_path p")
    case None
    then show ?thesis
      using run by (auto simp: sdb_pager_wal_reset_def dthrow_def)
  next
    case (Some path)
    obtain r1 d1 where rz: "on_file w (sdb_file_resize 0) d = (r1, d1)"
      by fastforce
    obtain f f1 where f1: "sdb_file_resize 0 f = (r1, f1)" "fcontent f = wal_bytes p d" "wal_bytes p d1 = fcontent f1"
      "d_names d1 = d_names d" "length (d_inodes d1) = length (d_inodes d)"
      using on_file_runs [OF rz] h(2) by (auto simp: w_def wal_bytes_def)
    have c1: "wal_bytes p d1 = (if r1 = Inr () then [] else wal_bytes p d)"
      using sdb_file_resize_spec(3) [OF f1(1)] f1(2,3) by (auto simp: file_resize_def same_file_def)
    show ?thesis
    proof (cases r1)
      case (Inl e)
      then have "d' = d1" "r = Inl e"
        using run rz Some h(1) by (auto simp: sdb_pager_wal_reset_def dbind_def w_def)
      then show ?thesis
        using c1 f1 Inl by simp
    next
      case (Inr u)
      obtain r2 d2 where sy: "on_file w sdb_file_sync d1 = (r2, d2)"
        by fastforce
      have wl: "w < length (d_inodes d1)"
        using h(2) f1(5) by (simp add: w_def)
      obtain g g1 where g: "sdb_file_sync g = (r2, g1)" "fcontent g = fcontent (d_inodes d1 ! w)" "fcontent (d_inodes d2 ! w) = fcontent g1"
        "d_names d2 = d_names d1" "length (d_inodes d2) = length (d_inodes d1)" "fdurable (d_inodes d2 ! w) = fdurable g1"
        using on_file_runs [OF sy wl] by blast
      have c2: "wal_bytes p d2 = []" "r2 = Inr () \<longrightarrow> fdurable (d_inodes d2 ! w) = []"
        using c1 Inr g sdb_file_sync_spec [OF g(1)] by (auto simp: wal_bytes_def w_def)
      show ?thesis
      proof (cases r2)
        case e: (Inl e)
        then have "d' = d2" "r = Inl e"
          using run rz Some h(1) Inr sy by (auto simp: sdb_pager_wal_reset_def dbind_def w_def)
        then show ?thesis
          using c2 f1 g by simp
      next
        case u2: (Inr u2)
        then have "sdb_file_sync_parent_directory malloc_ok path d2 = (r, d')"
          using run rz Some h(1) Inr sy by (auto simp: sdb_pager_wal_reset_def dbind_def w_def)
        note n = sync_parent_names [OF this]
        then show ?thesis
          using c2 f1 g u2 by (simp add: wal_bytes_def)
      qed
    qed
  qed
  then show "d_names d' = d_names d" "length (d_inodes d') = length (d_inodes d)" "wal_bytes p d' = wal_bytes p d \<or> wal_bytes p d' = []"
    "r = Inr () \<Longrightarrow> wal_bytes p d' = [] \<and> fdurable (d_inodes d' ! pg_wal_file p) = []"
    by (simp_all add: w_def)
qed


text \<open>Another state of the pager that shows the same pages.\<close>

definition same_pages :: "sdb_pager \<Rightarrow> directory \<Rightarrow> sdb_pager \<Rightarrow> directory \<Rightarrow> bool" where
  "same_pages p d p' d' \<longleftrightarrow> page_in_use p' = page_in_use p \<and> (\<forall>k. page_in_use p k \<longrightarrow> shown_page p' d' k = shown_page p d k)"

lemma same_pagesI:
  assumes "pager_ok p d" "file_in_order p'" "log_ok p' d'" "pg_cache p' = pg_cache p" "same_pages p d p' d'" "pg_page_size p' = pg_page_size p"
  shows "pager_ok p' d'"
  using assms unfolding pager_ok_def cache_ok_def same_pages_def by auto

lemma same_pages_refl [simp]: "same_pages p d p d"
  by (simp add: same_pages_def)

lemma same_pages_trans: "same_pages p d p' d' \<Longrightarrow> same_pages p' d' q e \<Longrightarrow> same_pages p d q e"
  by (simp add: same_pages_def)

text \<open>A checkpoint that did not get to the superblock, and one that did.\<close>

lemma interrupted_checkpoint:
  assumes ok: "pager_ok p d" and f: "pages_kept p f" "same_contents d d'"
    and p': "p' = p\<lparr>pg_file := f, pg_needs_recovery := b\<rparr>"
  shows "pager_ok p' d'" "same_pages p d p' d'"
proof -
  let ?p = "p\<lparr>pg_file := f\<rparr>"
  have parts: "file_in_order p" "log_ok p d"
    using ok by (simp_all add: pager_ok_def)
  note k = pages_kept_keeps [OF f(1) parts(1)]
  have lg: "log_ok ?p d"
    using k(2) parts(2) by simp
  note c = contents_keep [OF f(2) lg]
  have img: "stored_image p' d' = stored_image ?p d'"
    by (simp add: p' stored_image_def fun_eq_iff wal_bytes_def cong: option.case_cong)
  then have shown: "shown_page p' d' = shown_page ?p d'"
    by (simp add: shown_page_def p' fun_eq_iff pg_key_def)
  show same: "same_pages p d p' d'"
    unfolding same_pages_def shown c(3) using k(4) by (simp add: p' page_in_use_def fun_eq_iff)
  have "log_ok p' d' = log_ok ?p d'" "file_in_order p' = file_in_order ?p"
    by (simp_all add: p' log_ok_def file_in_order_def page_in_use_def wal_bytes_def)
  then show "pager_ok p' d'"
    using same_pagesI [OF ok _ _ _ same] k(1) c(1) by (simp add: p')
qed

lemma finished_checkpoint:
  assumes ok: "pager_ok p d" and open_: "pg_wal_file_open p"
    and f: "length (fcontent f) = length (fcontent (pg_file p))" "\<And>k. page_in_use p k \<Longrightarrow> placed p f k = stored_image p d k"
    and sb: "superblock_arrays sb" "page_size sb = page_size (pg_superblock p)" "file_id sb = file_id (pg_superblock p)"
      "next_page_id sb = next_page_id (pg_superblock p)"
    and d': "length (d_inodes d') = length (d_inodes d)" "length (wal_bytes p d') \<le> SDB_WAL_MAX_BYTES"
    and p': "p' = p\<lparr>pg_file := f, pg_superblock := sb, pg_wal_index := sdb_wal_index_clear (pg_wal_index p), pg_wal_tail := 64\<rparr>"
  shows "pager_ok p' d'" "same_pages p d p' d'"
proof -
  have parts: "file_in_order p" "log_ok p d"
    using ok by (simp_all add: pager_ok_def)
  then have "wal_index_inv (pg_wal_index p)"
    by (simp add: log_ok_def)
  note cl = clear_inv [OF this]
  have use_eq: "page_in_use p' = page_in_use p"
    using sb(4) by (simp add: p' page_in_use_def fun_eq_iff)
  have img: "stored_image p' d' k = stored_image p d k" if "page_in_use p k" for k
    using f(2) [OF that] cl sb(2) by (simp add: stored_image_def p' placed_def)
  show same: "same_pages p d p' d'"
    unfolding same_pages_def use_eq using img sb(2,3) by (simp add: shown_page_def pg_key_def p')
  have "log_ok p' d'"
    using parts(2) cl open_ d' by (simp add: log_ok_def p' wal_bytes_def)
  moreover have "file_in_order p'"
    using parts(1) f(1) sb by (simp add: p' file_in_order_def file_ok_def)
  ultimately show "pager_ok p' d'"
    using same_pagesI [OF ok _ _ _ same] sb(2) by (simp add: p')
qed


lemma nonempty_index:
  assumes "wal_index_inv ix" "wi_size ix \<noteq> 0"
  shows "sdb_wal_index_get ix \<noteq> Map.empty"
proof -
  obtain slots where s: "wi_slots ix = Some slots" "occupied (map wi_page_id slots) = wi_size ix"
    using assms(1) by (auto simp: wal_index_inv_def)
  then have "filter (\<lambda>k. k \<noteq> 0) (map wi_page_id slots) \<noteq> []"
    using assms(2) unfolding occupied_def by force
  then have "\<exists>s \<in> set slots. wi_page_id s \<noteq> 0"
    by (auto simp: filter_empty_conv)
  then obtain s where "s \<in> table_slots slots"
    by (auto simp: table_slots_def)
  then have "sdb_wal_index_get ix (wi_page_id s) = Some (wi_wal_offset s)"
    using get_iff [OF assms(1)] s(1) by auto
  then show ?thesis
    by (auto simp: fun_eq_iff)
qed

definition checkpoint_done :: "sdb_pager \<Rightarrow> directory \<Rightarrow> bool" where
  "checkpoint_done p d \<longleftrightarrow> sdb_wal_index_get (pg_wal_index p) = Map.empty \<and> unat (pg_wal_tail p) = 64
    \<and> fdurable (pg_file p) = fcontent (pg_file p) \<and> wal_bytes p d = [] \<and> checkpoint_lsn (pg_superblock p) = pg_current_lsn p"

lemma checkpoint_spec:
  assumes ok: "pager_ok p d" and run: "sdb_pager_checkpoint env (p, d) = (r, p', d')"
  shows "pager_ok p' d'" "same_pages p d p' d'" "pg_current_lsn p' = pg_current_lsn p" "pg_open p' = pg_open p"
    "pg_transaction_active p' = pg_transaction_active p" "pg_needs_recovery p' \<Longrightarrow> pg_needs_recovery p \<or> r \<noteq> Inr ()"
    "freelist_page (pg_superblock p') = freelist_page (pg_superblock p)"
    "r = Inr () \<Longrightarrow> wi_size (pg_wal_index p) \<noteq> 0 \<Longrightarrow> checkpoint_done p' d'"
proof -
  have parts: "file_in_order p" "log_ok p d"
    using ok by (simp_all add: pager_ok_def)
  have fine: "file_ok (pg_file p)" "8192 \<le> length (fcontent (pg_file p))" "superblock_arrays (pg_superblock p)" and inv: "wal_index_inv (pg_wal_index p)"
    using parts by (simp_all add: file_in_order_def log_ok_def)
  let ?goal = "\<lambda>p' d'. pager_ok p' d' \<and> same_pages p d p' d' \<and> pg_current_lsn p' = pg_current_lsn p \<and> pg_open p' = pg_open p
    \<and> pg_transaction_active p' = pg_transaction_active p \<and> (pg_needs_recovery p' \<longrightarrow> pg_needs_recovery p \<or> r \<noteq> Inr ())
    \<and> freelist_page (pg_superblock p') = freelist_page (pg_superblock p)
    \<and> (r = Inr () \<and> wi_size (pg_wal_index p) \<noteq> 0 \<longrightarrow> checkpoint_done p' d')"
  have same: "?goal p e" if "same_contents d e" "r \<noteq> Inr () \<or> wi_size (pg_wal_index p) = 0" for e
    using that interrupted_checkpoint [OF ok _ that(1) refl, of "pg_file p" "pg_needs_recovery p"] by (auto simp: pages_kept_def)
  have "?goal p' d'"
  proof (cases "pg_wal_path p = None \<or> \<not> pg_open p \<or> pg_needs_recovery p \<or> pg_transaction_active p \<or> wi_size (pg_wal_index p) = 0
      \<or> \<not> env_malloc env 0 (pg_page_size p) \<or> pg_encryption_enabled p \<and> \<not> env_malloc env 1 (pg_page_size p)")
    case True
    then have "p' = p" "d' = d" "r \<noteq> Inr () \<or> wi_size (pg_wal_index p) = 0" "same_contents d d"
      using run by (auto simp: sdb_pager_checkpoint_def split: if_splits option.splits)
    then show ?thesis
      using same [of d] unfolding \<open>p' = p\<close> \<open>d' = d\<close> by blast
  next
    case False
    then obtain path where path: "pg_wal_path p = Some path"
      by auto
    obtain hr d1 where hd: "pager_wal_handle p path d = (hr, d1)"
      by fastforce
    show ?thesis
    proof (cases hr)
      case (Inl e)
      then have "p' = p" "d' = d1" "r = Inl e"
        using run False path hd by (auto simp: sdb_pager_checkpoint_def)
      moreover have "same_contents d d1"
        using hd Inl open_existing_cases(1) [of path False d] by (auto simp: pager_wal_handle_def dir_unchanged_contents split: if_splits prod.splits sum.splits)
      ultimately show ?thesis
        using same [of d1] by simp
    next
      case (Inr ho)
      obtain h opened where ho: "ho = (h, opened)"
        by fastforce
      note w = wal_handle_spec [OF parts(2) hd [unfolded Inr ho] path]
      have c1: "same_contents d d1" and l1: "log_ok p d1"
        using dir_unchanged_contents [OF w(1)] contents_keep(1) parts(2) by blast+
      obtain s2 applied p2 d2 where copy: "checkpoint_copy env h opened (p, d1) = (s2, applied, p2, d2)"
        by (metis prod_cases4)
      obtain f where f: "p2 = p\<lparr>pg_file := f\<rparr>" "copying p f" "same_contents d1 d2"
        and all: "s2 = Inr () \<longrightarrow> applied = (sdb_wal_index_get (pg_wal_index p) \<noteq> Map.empty) \<and> (\<forall>k. page_in_use p k \<longrightarrow> placed p f k = stored_image p d1 k)"
        using checkpoint_copy_spec [OF parts(1) l1 w(2,3) copy] by blast
      have c2: "same_contents d d2"
        using same_contents_trans [OF c1 f(3)] .
      have img1: "stored_image p d1 = stored_image p d"
        using contents_keep(2) [OF c1 parts(2)] .
      have place_eq: "placed p g k = placed p f k" if "\<forall>a n. 8192 \<le> a \<longrightarrow> slice a n (fcontent g) = slice a n (fcontent f)" for g k
        using that by (simp add: placed_def page_offset_def)
      have kept: "pages_kept p g" if "length (fcontent g) = length (fcontent f)" "\<forall>a n. 8192 \<le> a \<longrightarrow> slice a n (fcontent g) = slice a n (fcontent f)" for g
        using f(2) that place_eq [OF that(2)] by (simp add: copying_def pages_kept_def)
      have stopped: "?goal (p\<lparr>pg_file := g, pg_needs_recovery := True\<rparr>) d2" if "pages_kept p g" "r \<noteq> Inr ()" for g
        using interrupted_checkpoint [OF ok that(1) c2 refl, of True] that(2) by simp
      have whole: "(case (if is_ok s2 \<and> applied then on_database sdb_file_sync p2 else (s2, p2)) of (s3, p3) \<Rightarrow>
          case (if is_ok s3 \<and> applied then checkpoint_superblock p3 else (s3, p3)) of (s4, p4) \<Rightarrow>
          if is_ok s4 \<and> applied
          then (case sdb_pager_wal_reset (env_malloc env 2) (p4\<lparr>pg_wal_index := sdb_wal_index_clear (pg_wal_index p4), pg_wal_tail := 64\<rparr>) d2 of
                  (s5, d5) \<Rightarrow> (s5, p4\<lparr>pg_wal_index := sdb_wal_index_clear (pg_wal_index p4), pg_wal_tail := 64\<rparr>, d5))
          else (s4, if is_ok s4 then p4 else p4\<lparr>pg_needs_recovery := True\<rparr>, d2)) = (r, p', d')"
      proof -
        have g: "\<not> (\<not> pg_open p \<or> pg_needs_recovery p \<or> pg_transaction_active p)" "wi_size (pg_wal_index p) \<noteq> 0"
          "\<not> \<not> env_malloc env 0 (pg_page_size p)" "\<not> (pg_encryption_enabled p \<and> \<not> env_malloc env 1 (pg_page_size p))"
          and header: "of_nat SDB_WAL_HEADER_SIZE = (64 :: u64)"
          using False by (auto simp: SDB_WAL_HEADER_SIZE_def)
        show ?thesis
          using run unfolding sdb_pager_checkpoint_def prod.case path option.case if_not_P [OF g(1)] if_not_P [OF g(2)]
            if_not_P [OF g(3)] if_not_P [OF g(4)] hd Inr ho sum.case copy Let_def header .
      qed
      show ?thesis
      proof (cases "s2 = Inr ()")
        case e: False
        then have "p' = p\<lparr>pg_file := f, pg_needs_recovery := True\<rparr>" "d' = d2" "r \<noteq> Inr ()"
          using whole f(1) by (auto simp: is_ok_iff)
        then show ?thesis
          using stopped [of f] kept [of f] by simp
      next
        case s2: True
        have applied
          using all s2 nonempty_index [OF inv] False by simp
        have img: "placed p f k = stored_image p d k" if "page_in_use p k" for k
          using all s2 that img1 by simp
        obtain s3 f3 where sync: "sdb_file_sync f = (s3, f3)"
          by fastforce
        have c3: "fcontent f3 = fcontent f"
          using sdb_file_sync_spec(1) [OF sync] .
        define p3 where "p3 = p\<lparr>pg_file := f3\<rparr>"
        have db: "on_database sdb_file_sync p2 = (s3, p3)"
          by (simp add: on_database_def sync f(1) p3_def)
        obtain s4 p4 where sup: "checkpoint_superblock p3 = (s4, p4)"
          by fastforce
        show ?thesis
        proof (cases "s3 = Inr ()")
          case e: False
          then have "p' = p\<lparr>pg_file := f3, pg_needs_recovery := True\<rparr>" "d' = d2" "r \<noteq> Inr ()"
            using whole s2 \<open>applied\<close> db by (auto simp: is_ok_iff p3_def)
          then show ?thesis
            using stopped [of f3] kept [of f3] c3 by simp
        next
          case s3: True
          have fin: "(if s4 = Inr ()
              then (case sdb_pager_wal_reset (env_malloc env 2) (p4\<lparr>pg_wal_index := sdb_wal_index_clear (pg_wal_index p4), pg_wal_tail := 64\<rparr>) d2 of
                      (s5, d5) \<Rightarrow> (s5, p4\<lparr>pg_wal_index := sdb_wal_index_clear (pg_wal_index p4), pg_wal_tail := 64\<rparr>, d5))
              else (s4, p4\<lparr>pg_needs_recovery := True\<rparr>, d2)) = (r, p', d')"
            using whole s2 \<open>applied\<close> db s3 sup by (auto simp: is_ok_iff split: if_splits)
          show ?thesis
          proof (cases "generation (pg_superblock p) = - 1")
            case True
            then have "s4 = Inl SDB_E_OVERFLOW" "p4 = p3"
              using sup by (auto simp: checkpoint_superblock_def sdb_generation_bump_def p3_def)
            then have "p' = p\<lparr>pg_file := f3, pg_needs_recovery := True\<rparr>" "d' = d2" "r \<noteq> Inr ()"
              using fin by (auto simp: p3_def)
            then show ?thesis
              using stopped [of f3] kept [of f3] c3 by simp
          next
            case gen: False
            define nsb where "nsb = (pg_superblock p)\<lparr>checkpoint_lsn := pg_current_lsn p, generation := generation (pg_superblock p) + 1\<rparr>"
            have st: "sdb_pager_store_superblock nsb p3 = (s4, p4)"
              using sup gen by (simp add: checkpoint_superblock_def sdb_generation_bump_def p3_def nsb_def)
            have "file_ok (pg_file p3)" "8192 \<le> length (fcontent (pg_file p3))" and arr: "superblock_arrays nsb"
              using fine f(2) c3 by (simp_all add: p3_def file_ok_def copying_def pages_kept_def nsb_def superblock_arrays_def)
            from store_superblock_pages [OF st this]
            obtain f4 where p4: "p4 = p3\<lparr>pg_file := f4, pg_superblock := (if s4 = Inr () then nsb else pg_superblock p3)\<rparr>"
              and l4: "length (fcontent f4) = length (fcontent f)" and sl4: "\<forall>a n. 8192 \<le> a \<longrightarrow> slice a n (fcontent f4) = slice a n (fcontent f)"
              and du4: "s4 = Inr () \<longrightarrow> fdurable f4 = fcontent f4"
              using c3 by (auto simp: p3_def)
            show ?thesis
            proof (cases "s4 = Inr ()")
              case e: False
              then have "p' = p\<lparr>pg_file := f4, pg_needs_recovery := True\<rparr>" "d' = d2" "r \<noteq> Inr ()"
                using fin p4 by (auto simp: p3_def)
              then show ?thesis
                using stopped [of f4] kept [OF l4 sl4] by simp
            next
              case s4: True
              define p5 where "p5 = p\<lparr>pg_file := f4, pg_superblock := nsb, pg_wal_index := sdb_wal_index_clear (pg_wal_index p), pg_wal_tail := 64\<rparr>"
              have rs: "sdb_pager_wal_reset (env_malloc env 2) p5 d2 = (r, d')" and p': "p' = p5"
                using fin s4 p4 by (auto simp: p3_def p5_def split: prod.splits)
              obtain k off where "sdb_wal_index_get (pg_wal_index p) k = Some off"
                using nonempty_index [OF inv] False by (auto simp: fun_eq_iff)
              note fr = log_frame [OF parts(2) this]
              have h5: "pg_wal_file_open p5" "pg_wal_file p5 < length (d_inodes d2)"
                using fr same_contents_nth(2) [OF c2] by (simp_all add: p5_def)
              note ws = wal_reset_spec [OF h5 rs]
              have eq5: "wal_bytes p5 = wal_bytes p" "wal_bytes p d2 = wal_bytes p d"
                using same_contents_nth(1) [OF c2 fr(2)] by (simp_all add: wal_bytes_def p5_def fun_eq_iff)
              have "length (d_inodes d') = length (d_inodes d)" "length (wal_bytes p d') \<le> SDB_WAL_MAX_BYTES"
                using ws c2 fr(7) eq5 by (auto simp: same_contents_def dest: map_eq_imp_length_eq)
              moreover have "length (fcontent f4) = length (fcontent (pg_file p))"
                using l4 f(2) by (simp add: copying_def pages_kept_def)
              moreover have "placed p f4 k = stored_image p d k" if "page_in_use p k" for k
                using place_eq [OF sl4] img [OF that] by simp
              ultimately have "pager_ok p5 d'" "same_pages p d p5 d'"
                using finished_checkpoint [OF ok fr(1) _ _ arr, of f4 d' p5] by (simp_all add: nsb_def p5_def)
              then show ?thesis
                unfolding p' using du4 s4 ws(4) clear_inv [OF inv] by (auto simp: p5_def nsb_def checkpoint_done_def wal_bytes_def)
            qed
          qed
        qed
      qed
    qed
  qed
  then show "pager_ok p' d'" "same_pages p d p' d'" "pg_current_lsn p' = pg_current_lsn p" "pg_open p' = pg_open p"
    "pg_transaction_active p' = pg_transaction_active p" "pg_needs_recovery p' \<Longrightarrow> pg_needs_recovery p \<or> r \<noteq> Inr ()"
    "freelist_page (pg_superblock p') = freelist_page (pg_superblock p)"
    "r = Inr () \<Longrightarrow> wi_size (pg_wal_index p) \<noteq> 0 \<Longrightarrow> checkpoint_done p' d'"
    by simp_all
qed


section \<open>The whole commit\<close>

lemma flags_keep:
  assumes "p' = p\<lparr>pg_transaction_active := a, pg_needs_recovery := b\<rparr>"
  shows "pager_ok p' d = pager_ok p d" "shown_page p' d = shown_page p d" "page_in_use p' = page_in_use p"
proof -
  have "stored_image p' d = stored_image p d"
    by (simp add: assms stored_image_def fun_eq_iff wal_bytes_def cong: option.case_cong)
  then show sh: "shown_page p' d = shown_page p d"
    by (simp add: assms shown_page_def fun_eq_iff pg_key_def)
  show use_eq: "page_in_use p' = page_in_use p"
    by (simp add: assms page_in_use_def fun_eq_iff)
  show "pager_ok p' d = pager_ok p d"
    unfolding pager_ok_def cache_ok_def sh use_eq
    by (simp add: assms file_in_order_def log_ok_def use_eq [unfolded assms] wal_bytes_def)
qed

definition commit_outcome :: "sdb_pager \<Rightarrow> directory \<Rightarrow> sdb_txn \<Rightarrow> unit result \<Rightarrow> sdb_pager \<Rightarrow> directory \<Rightarrow> bool" where
  "commit_outcome p d txn r p' d' \<longleftrightarrow>
    (case r of
       Inr _ \<Rightarrow> pager_ok p' d' \<and> pg_current_lsn p' = pg_current_lsn p + 1
         \<and> next_page_id (pg_superblock p') = next_page_id (tx_target_superblock txn)
         \<and> freelist_page (pg_superblock p') = freelist_page (tx_target_superblock txn)
         \<and> (\<forall>k. page_in_use p' k \<longrightarrow> shown_page p' d' k = shown_after p d txn k)
     | Inl _ \<Rightarrow> pg_needs_recovery p' \<or> d' = d \<and> (\<exists>b. p' = p\<lparr>pg_transaction_active := b\<rparr>))"

lemma txn_commit_spec:
  assumes ok: "pager_ok p d" and txn: "txn_ok p txn" and nonces: "nonces_ok env"
  shows "\<exists>r txn' p' d'. sdb_txn_commit env txn (p, d) = Some (r, txn', p', d') \<and> commit_outcome p d txn r p' d'"
proof -
  define staged where "staged \<longleftrightarrow> (\<forall>a \<in> set (tx_allocated_pages txn). \<exists>q \<in> set (tx_pages txn). tp_page_id q = a)"
  define refused where "refused \<longleftrightarrow> (\<exists>e t b. sdb_txn_commit env txn (p, d) = Some (Inl e, t, p\<lparr>pg_transaction_active := b\<rparr>, d))"
  have refusedI: "refused" if "sdb_txn_commit env txn (p, d) = Some (Inl e, t, p\<lparr>pg_transaction_active := b\<rparr>, d)" for e t b
    using that unfolding refused_def by blast
  show ?thesis
  proof (cases "tx_active txn \<and> tx_pages txn \<noteq> [] \<and> pg_current_lsn p \<noteq> - 1 \<and> length (tx_pages txn) \<le> SIZE_MAX div sizeof_wal_page
      \<and> length (tx_pages txn) \<le> SIZE_MAX div pg_page_size p \<and> staged
      \<and> env_malloc env 0 (length (tx_pages txn) * sizeof_wal_page) \<and> env_malloc env 1 (length (tx_pages txn) * pg_page_size p)")
    case False
    have keep: "p\<lparr>pg_transaction_active := pg_transaction_active p\<rparr> = p"
      by simp
    have "refused"
    proof (cases "tx_active txn \<and> \<not> (tx_pages txn = [] \<and> tx_allocated_pages txn = [])")
      case True
      then have "\<exists>e. sdb_txn_commit env txn (p, d) = Some (Inl e, zero_txn, p\<lparr>pg_transaction_active := False\<rparr>, d)"
        using False unfolding sdb_txn_commit_def sdb_txn_release_def staged_def
        by (auto simp: Let_def list_ex_iff not_le)
      then show ?thesis
        using refusedI by blast
    next
      case False
      then have "sdb_txn_commit env txn (p, d) = Some (Inl SDB_E_INVALID_ARGUMENT, txn, p\<lparr>pg_transaction_active := pg_transaction_active p\<rparr>, d)"
        unfolding sdb_txn_commit_def by (auto simp: Let_def)
      then show ?thesis
        by (rule refusedI)
    qed
    then show ?thesis
      unfolding refused_def commit_outcome_def by fastforce
  next
    case True
    then have sub: "set (tx_allocated_pages txn) \<subseteq> tp_page_id ` set (tx_pages txn)"
      by (force simp: staged_def)
    obtain status p1 d1 where body: "commit_body env txn (p, d) = Some (status, p1, d1)"
      and done_: "status = Inr () \<longrightarrow> committed p d txn p1 d1"
      using commit_body_spec [OF ok txn sub nonces] unfolding ends_with_def by blast
    have run: "sdb_txn_commit env txn (p, d) = Some (commit_finish env (pg_defer_commit p) status (p1, d1))"
      using True body unfolding sdb_txn_commit_def staged_def by (auto simp: Let_def list_ex_iff not_le)
    show ?thesis
    proof (cases "status = Inr ()")
      case False
      then have "sdb_txn_commit env txn (p, d) = Some (status, zero_txn, p1\<lparr>pg_needs_recovery := True, pg_transaction_active := False\<rparr>, d1)"
        using run by (cases status) (auto simp: commit_finish_def sdb_txn_release_def)
      then show ?thesis
        using False by (cases status) (auto simp: commit_outcome_def)
    next
      case ok1: True
      define p2 where "p2 = p1\<lparr>pg_transaction_active := False\<rparr>"
      have c: "committed p d txn p1 d1"
        using done_ ok1 by simp
      have eq2: "p2 = p1\<lparr>pg_transaction_active := False, pg_needs_recovery := pg_needs_recovery p1\<rparr>"
        by (simp add: p2_def)
      note k = flags_keep [OF eq2]
      have out2: "commit_outcome p d txn (Inr ()) p2 d1"
        using c k unfolding committed_def commit_outcome_def by (simp add: p2_def commit_superblock_def)
      obtain rc p3 d3 where cp: "sdb_pager_checkpoint env (p2, d1) = (rc, p3, d3)"
        by (metis prod_cases3)
      have ok2: "pager_ok p2 d1"
        using c k(1) by (simp add: committed_def)
      note ck = checkpoint_spec [OF ok2 cp]
      define p4 where "p4 = (if is_ok rc then p3 else p3\<lparr>pg_needs_recovery := True\<rparr>)"
      have eq4: "p4 = p3\<lparr>pg_transaction_active := pg_transaction_active p3, pg_needs_recovery := pg_needs_recovery p4\<rparr>"
        by (simp add: p4_def)
      note k4 = flags_keep [OF eq4]
      have next3: "next_page_id (pg_superblock p3) = next_page_id (pg_superblock p2)"
      proof -
        have same: "k < next_page_id (pg_superblock p3) \<longleftrightarrow> k < next_page_id (pg_superblock p2)" if "k \<noteq> 0" for k
          using ck(2) that by (auto simp: same_pages_def page_in_use_def fun_eq_iff)
        have "next_page_id (pg_superblock p3) \<noteq> 0" "next_page_id (pg_superblock p2) \<noteq> 0"
          using ck(1) ok2 by (simp_all add: pager_ok_def file_in_order_def)
        from same [OF this(1)] same [OF this(2)] show ?thesis
          by (simp add: not_less order_antisym)
      qed
      have "commit_outcome p d txn (Inr ()) p4 d3"
        using out2 ck k4 next3 unfolding commit_outcome_def same_pages_def by (simp add: p4_def)
      moreover have "commit_finish env (pg_defer_commit p) status (p1, d1) =
          (if \<not> pg_defer_commit p \<and> pg_wal_tail p2 \<ge> pg_checkpoint_threshold p2 then (Inr (), zero_txn, p4, d3) else (Inr (), zero_txn, p2, d1))"
        using ok1 cp by (simp add: commit_finish_def sdb_txn_release_def p2_def p4_def)
      ultimately show ?thesis
        using run out2 by (cases "\<not> pg_defer_commit p \<and> pg_wal_tail p2 \<ge> pg_checkpoint_threshold p2") auto
    qed
  qed
qed


section \<open>Properties\<close>

text \<open>
  C3: a commit. From a pager in order and a transaction that keeps to its rules, the
  commit always ends. If it reports success, the pager is in order again, the page
  count and the free list are those of the transaction, every staged page shows its
  new type, number and payload, and every other page shows what it showed before;
  this holds through the checkpoint that a long log brings on. If it reports a
  failure, either nothing changed or the pager asks for recovery.
\<close>

theorem commit_applies_transaction:
  assumes "pager_ok p d" "txn_ok p txn" "nonces_ok env"
  shows "\<exists>r txn' p' d'. sdb_txn_commit env txn (p, d) = Some (r, txn', p', d') \<and> commit_outcome p d txn r p' d'"
  using assms by (rule txn_commit_spec)

text \<open>
  C7: a checkpoint. Wherever it stops, in whatever system call, the pager stays in
  order and every page in use shows what it showed; the numbering of transactions and
  the free list stay, and recovery is asked for only if it failed. If it reports
  success with pages in the log, the log is empty and the database file, with a
  superblock that says so, is on stable storage.
\<close>

theorem checkpoint_keeps_pages:
  assumes "pager_ok p d" "sdb_pager_checkpoint env (p, d) = (r, p', d')"
  shows "pager_ok p' d' \<and> same_pages p d p' d' \<and> pg_current_lsn p' = pg_current_lsn p
    \<and> freelist_page (pg_superblock p') = freelist_page (pg_superblock p)
    \<and> (pg_needs_recovery p' \<longrightarrow> pg_needs_recovery p \<or> r \<noteq> Inr ())
    \<and> (r = Inr () \<and> wi_size (pg_wal_index p) \<noteq> 0 \<longrightarrow> checkpoint_done p' d')"
  using checkpoint_spec [OF assms] by blast

definition example_txn_page :: sdb_txn_page where
  "example_txn_page = \<lparr>tp_page_id = 1, tp_type = SDB_PAGE_TYPE_DATA, tp_payload = [9, 8]\<rparr>"

definition example_put :: sdb_txn where
  "example_put = zero_txn\<lparr>tx_target_superblock := example_superblock\<lparr>next_page_id := 2\<rparr>, tx_pages := [example_txn_page],
    tx_page_capacity := 4, tx_active := True\<rparr>"

lemma example_put_ok: "txn_ok (example_pager c ix) example_put" "nonces_ok example_env"
  by (auto simp: txn_ok_def Let_def example_pager_def zero_pager_def example_put_def zero_txn_def example_txn_page_def staged_types_def
      sdb_pager_payload_capacity_def SDB_PAGE_HEADER_SIZE_def example_superblock_def nonces_ok_def example_env_def not_less)

theorem commit_applies_transaction_witness:
  "\<exists>c ix r txn' p' d'. pager_ok (example_pager c ix) empty_directory
    \<and> sdb_txn_commit example_env example_put (example_pager c ix, empty_directory) = Some (r, txn', p', d')
    \<and> commit_outcome (example_pager c ix) empty_directory example_put r p' d'"
proof (rule example_pager_ok)
  fix c ix
  assume ok: "pager_ok (example_pager c ix) empty_directory"
  then show ?thesis
    using commit_applies_transaction [OF ok example_put_ok] by blast
qed

theorem checkpoint_keeps_pages_witness:
  "\<exists>c ix r p' d'. sdb_pager_checkpoint example_env (example_pager c ix, empty_directory) = (r, p', d')
    \<and> pager_ok p' d' \<and> same_pages (example_pager c ix) empty_directory p' d'"
proof (rule example_pager_ok)
  fix c ix
  assume ok: "pager_ok (example_pager c ix) empty_directory"
  obtain r p' d' where "sdb_pager_checkpoint example_env (example_pager c ix, empty_directory) = (r, p', d')"
    by (metis prod_cases3)
  then show ?thesis
    using checkpoint_keeps_pages [OF ok] by blast
qed

end
