(* ===== verification/Pager_Healthy.thy ===== *)
theory Pager_Healthy
  imports Pager_Checkpoint
begin

text \<open>
  When a commit succeeds: on a system whose calls succeed, with room in the log and in
  the database file, every complete transaction is committed.
\<close>

section \<open>What a commit needs\<close>

text \<open>Every call of the operating system and every allocation succeeds.\<close>

definition calm :: "sdb_env \<Rightarrow> sdb_pager \<Rightarrow> directory \<Rightarrow> bool" where
  "calm env p d \<longleftrightarrow> fscript (pg_file p) = [] \<and> d_script d = [] \<and> (\<forall>n size. env_malloc env n size)
    \<and> (pg_encryption_enabled p \<longrightarrow> (\<forall>n. \<exists>nonce. env_random env n = Inr nonce))"

text \<open>The transaction has pages, all of them numbered within the file, and every page it allocated is staged.\<close>

definition txn_complete :: "sdb_txn \<Rightarrow> bool" where
  "txn_complete txn \<longleftrightarrow> tx_active txn \<and> tx_pages txn \<noteq> []
    \<and> (\<forall>q \<in> set (tx_pages txn). tp_page_id q \<noteq> 0 \<and> tp_page_id q < next_page_id (tx_target_superblock txn))
    \<and> set (tx_allocated_pages txn) \<subseteq> tp_page_id ` set (tx_pages txn)"

text \<open>
  There is room: for the transaction in the log, for its pages in the file, for one
  more transaction number and one more generation. The log has a path that can be
  created, and no earlier deferred commit failed.
\<close>

definition commit_room :: "sdb_pager \<Rightarrow> sdb_txn \<Rightarrow> bool" where
  "commit_room p txn \<longleftrightarrow> pg_current_lsn p \<noteq> - 1 \<and> generation (pg_superblock p) \<noteq> - 1
    \<and> length (tx_pages txn) \<le> SDB_WAL_MAX_RECORDS
    \<and> unat (pg_wal_tail p) + (40 + pg_page_size p) * length (tx_pages txn) + 44 \<le> SDB_WAL_MAX_BYTES
    \<and> 8192 + (unat (next_page_id (tx_target_superblock txn)) - 1) * pg_page_size p \<le> INT64_MAX
    \<and> (\<forall>path. pg_wal_path p = Some path \<longrightarrow> path \<noteq> [] \<and> last path \<noteq> CHR ''/'')
    \<and> (pg_defer_commit p \<longrightarrow> \<not> pg_commit_failed p)"

section \<open>The steps succeed\<close>

lemma encode_page_succeeds:
  assumes "page_size_ok psize" "type = SDB_PAGE_TYPE_DATA \<or> type = SDB_PAGE_TYPE_FREE" "page_id \<noteq> 0"
    and "length payload \<le> psize - (if key = None then 32 else 84)" "\<And>size. env_malloc env n size"
    and "key \<noteq> None \<Longrightarrow> \<exists>nonce. env_random env n = Inr nonce" "nonces_ok env"
  shows "\<exists>page. pager_encode_page env n psize sb key type page_id lsn payload = Inr page"
proof (cases key)
  case None
  then show ?thesis
    using assms by (auto simp: pager_encode_page_def page_encode_image page_args_ok_def sdb_page_type_valid_def page_consts)
next
  case (Some k)
  obtain nonce where nonce: "env_random env n = Inr nonce" "length nonce = 24"
    using assms(6,7) Some by (auto simp: nonces_ok_def)
  have size: "84 \<le> psize" "length payload \<le> psize - 84" "length payload \<le> 4294967295"
    using assms(1,4) Some by (auto simp: page_size_ok_def page_consts)
  let ?aad = "sdb_encrypted_aad sb page_id lsn type (of_nat (length payload))"
  obtain c t where e: "sdb_xchacha20poly1305_encrypt (env_avx2 env) k nonce ?aad payload = Inr (c, t)"
    using size(3) by (cases "sdb_xchacha_setup k nonce") (auto simp: sdb_xchacha20poly1305_encrypt_def UINT32_MAX_def Let_def)
  then have len: "length c = length payload" "length t = 16"
    using xc.seal_lengths by blast+
  have "page_args_ok psize SDB_PAGE_TYPE_ENCRYPTED page_id (sealed_payload nonce type t c)"
    using assms(1,3) size len nonce(2) by (simp add: page_args_ok_def sdb_page_type_valid_def page_consts)
  then have "sdb_encrypted_page_encode (env_malloc env n) (env_random env n) (env_avx2 env) sb k psize type page_id lsn payload
      = Inr (page_image psize SDB_PAGE_TYPE_ENCRYPTED page_id lsn (sealed_payload nonce type t c))"
    using encode_eq [OF nonce(2) assms(3,2) _ _ assms(5) e] size nonce(1) by (simp add: page_encode_image)
  then show ?thesis
    using Some by (simp add: pager_encode_page_def)
qed

lemma commit_encode_succeeds:
  assumes "page_size_ok psize" "\<And>n size. env_malloc env n size" "nonces_ok env"
    and "\<And>n. key \<noteq> None \<Longrightarrow> \<exists>nonce. env_random env n = Inr nonce" "staged_types qs"
    and "\<And>q. q \<in> set qs \<Longrightarrow> tp_page_id q \<noteq> 0 \<and> length (tp_payload q) \<le> psize - (if key = None then 32 else 84)"
  shows "\<exists>ws. commit_encode env index psize target key lsn qs = Inr ws"
  using assms(5,6)
proof (induction qs arbitrary: index)
  case (Cons q qs)
  obtain ws where "commit_encode env (Suc index) psize target key lsn qs = Inr ws"
    using Cons.IH [of "Suc index"] Cons.prems by (auto simp: staged_types_def)
  moreover obtain page where "pager_encode_page env (8 + index) psize target key (tp_type q) (tp_page_id q) lsn (tp_payload q) = Inr page"
    using encode_page_succeeds [of psize "tp_type q" "tp_page_id q" "tp_payload q" key env "8 + index" target lsn] assms(1-4) Cons.prems
    by (auto simp: staged_types_def)
  ultimately show ?case
    by simp
qed simp

lemma ensure_wal_open_succeeds:
  assumes "d_script d = []" "pg_wal_path p = Some path" "path \<noteq> []" "last path \<noteq> CHR ''/''" "\<And>size. malloc_ok size"
  shows "\<exists>p' d'. sdb_pager_ensure_wal_open malloc_ok (p, d) = (Inr (), p', d') \<and> d_script d' = []"
  using assms by (cases "d_names d path")
    (auto simp: sdb_pager_ensure_wal_open_def sdb_file_open_existing_def sdb_file_create_new_def sdb_file_open_posix_def
      sdb_file_sync_parent_directory_def healthy_dir_call Let_def)

lemma commit_log_succeeds:
  assumes "d_script d = []" "\<And>n size. env_malloc env n size" "length (file_id target) = 16"
    and "pages_sized (unat (page_size target)) ws" "txn_accepted target lsn ws" "wal_fits target (unat (pg_wal_tail p)) ws"
  shows "\<exists>new d'. commit_log env target lsn ws (p, d) = Some (Inr new, p, d') \<and> d_script d' = []"
proof -
  let ?t = "unat (pg_wal_tail p)"
  obtain r where r: "sdb_wal_encode_txn (env_malloc env 2) target ?t lsn ws = Some r" "encode_outcome (env_malloc env 2) target ?t lsn ws r"
    using encode_txn_spec [OF assms(3,4)] by blast
  then obtain s where s: "r = Inr s" "s = staged_txn target ?t lsn ws"
    using assms(2,5,6) by (cases r) (auto simp: encode_outcome_def)
  let ?f = "(d_inodes d ! pg_wal_file p)\<lparr>fscript := d_script d\<rparr>"
  have "length (ws_buffer s) = (if ?t = 64 then 64 else 0) + txn_size target ws"
    using length_staged_txn [OF assms(3,4), of ?t lsn] by (simp add: s)
  then have "ws_write_offset s + length (ws_buffer s) \<le> INT64_MAX"
    using assms(6) by (auto simp: s staged_txn_def wal_fits_def SDB_WAL_MAX_BYTES_def INT64_MAX_def split: if_splits)
  then obtain f1 where f1: "sdb_file_write_full (ws_write_offset s) (ws_buffer s) ?f = (Inr (), f1)" "fscript f1 = []"
    using healthy_write [of ?f] assms(1) by auto
  obtain f2 where f2: "sdb_file_sync f1 = (Inr (), f2)" "fscript f2 = []"
    using f1 by (simp add: sdb_file_sync_def healthy_os_call)
  show ?thesis
    using r(1) s(1) f1 f2
    by (simp add: commit_log_def on_file_option_def wal_append_deferred_def sdb_wal_append_txn_def fbind_def freturn_def)
qed

text \<open>The log index has as many entries as it has keys, so that it cannot outgrow the pages in use.\<close>

lemma index_size_card:
  assumes "wal_index_inv ix"
  shows "wi_size ix = card (dom (sdb_wal_index_get ix))"
proof -
  obtain slots where s: "wi_slots ix = Some slots" "table_ok slots" "occupied (map wi_page_id slots) = wi_size ix"
    using assms by (auto simp: wal_index_inv_def)
  let ?ks = "filter (\<lambda>k. k \<noteq> 0) (map wi_page_id slots)"
  have "k \<in> set ?ks \<longleftrightarrow> k \<in> dom (sdb_wal_index_get ix)" for k
    using get_None_iff [OF assms, of k] by (auto simp: s(1) table_slots_def)
  then have "set ?ks = dom (sdb_wal_index_get ix)"
    by (rule set_eqI)
  moreover have "distinct ?ks"
    using s(2) by (intro distinct_table_ids) (simp add: table_ok_def probing_inv_def)
  ultimately show ?thesis
    using s(3) distinct_card [of ?ks] by (simp only: occupied_def)
qed

lemma index_put_succeeds:
  assumes inv: "wal_index_inv ix" "k \<noteq> 0" and few: "dom (sdb_wal_index_get ix) \<subseteq> {j. unat j < 2 ^ 52}" and malloc_ok: "\<forall>size. malloc_ok size"
  obtains ix' where "sdb_wal_index_put malloc_ok ix k v = Some (Inr ix')" "wal_index_inv ix'"
    "sdb_wal_index_get ix' = (sdb_wal_index_get ix)(k \<mapsto> v)"
proof -
  have "unat ` dom (sdb_wal_index_get ix) \<subseteq> {..<2 ^ 52}"
    using few by auto
  then have "card (unat ` dom (sdb_wal_index_get ix)) \<le> card {..<2 ^ 52 :: nat}"
    by (intro card_mono) simp_all
  moreover have "card (unat ` dom (sdb_wal_index_get ix)) = card (dom (sdb_wal_index_get ix))"
    by (intro card_image inj_onI) (simp add: word_unat_eq_iff)
  ultimately have "wi_size ix \<le> 2 ^ 52"
    using index_size_card [OF inv(1)] by simp
  then have "\<not> (wi_size ix * 2 = wi_capacity ix \<and> wi_capacity ix * 2 > SIZE_MAX div 16)"
    by (auto simp: SIZE_MAX_def)
  then show thesis
    using put_spec [OF inv, of malloc_ok v] malloc_ok that by blast
qed

lemma commit_index_succeeds:
  assumes "wal_index_inv ix" "dom (sdb_wal_index_get ix) \<subseteq> {j. unat j < 2 ^ 52}" "\<forall>size. malloc_ok size"
    and "\<forall>w \<in> set ws. wp_page_id w \<noteq> 0 \<and> unat (wp_page_id w) < 2 ^ 52"
  shows "\<exists>ix'. commit_index_loop malloc_ok tail fs index ws ix = Some (Inr (), ix')"
  using assms(1,2,4)
proof (induction ws arbitrary: index ix)
  case (Cons w ws)
  obtain ix' where put: "sdb_wal_index_put malloc_ok ix (wp_page_id w) (tail + of_nat index * of_nat fs) = Some (Inr ix')" "wal_index_inv ix'"
    "sdb_wal_index_get ix' = (sdb_wal_index_get ix)(wp_page_id w \<mapsto> tail + of_nat index * of_nat fs)"
    using index_put_succeeds [OF Cons.prems(1) _ Cons.prems(2) assms(3)] Cons.prems(3) by auto
  have "dom (sdb_wal_index_get ix') \<subseteq> {j. unat j < 2 ^ 52}"
    using Cons.prems(2,3) put(3) by auto
  then show ?case
    using Cons.IH [OF put(2), of "Suc index"] Cons.prems(3) put(1) by auto
qed simp

lemma commit_grow_succeeds:
  assumes "fscript (pg_file p) = []" "next_page_id target \<noteq> 0"
    and "8192 + (unat (next_page_id target) - 1) * pg_page_size p \<le> INT64_MAX" "pg_page_size p \<noteq> 0"
  shows "\<exists>f. commit_grow target (p, d) = Some (Inr (), p\<lparr>pg_file := f\<rparr>, d)"
proof -
  have one: "unat (next_page_id target - 1) = unat (next_page_id target) - 1"
    using assms(2) by (simp add: unat_minus_one)
  have "unat (next_page_id target - 1) \<le> (UINT64_MAX - 8192) div pg_page_size p"
    using assms(3,4) by (simp add: one less_eq_div_iff_mult_less_eq UINT64_MAX_def INT64_MAX_def)
  then show ?thesis
    using assms by (auto simp: commit_grow_def on_database_def fbind_def sdb_file_size_def sdb_file_resize_def freturn_def
        healthy_os_call superblock_consts Let_def one intro: exI [of _ "pg_file p"])
qed

lemma small_pages:
  assumes "8192 + (unat n - 1) * psize \<le> INT64_MAX" "4096 \<le> psize" "k < n"
  shows "unat k < 2 ^ 52"
proof -
  have "unat k \<le> unat n - 1"
    using assms(3) by (simp add: word_less_nat_alt)
  then have "unat k * 4096 \<le> (unat n - 1) * psize"
    using assms(2) by (rule mult_le_mono)
  then show ?thesis
    using assms(1) by (simp add: INT64_MAX_def)
qed

lemma staged_accepted:
  assumes "list_all2 (staged_as fid psize key lsn) qs ws" "\<forall>q \<in> set qs. tp_page_id q \<noteq> 0 \<and> tp_page_id q < limit"
  shows "list_all (txn_page_ok limit lsn) ws"
  using assms by (induction rule: list_all2_induct) (auto simp: staged_as_def txn_page_ok_def)

lemma commit_body_succeeds:
  assumes ok: "pager_ok p d" and txn: "txn_ok p txn" "nonces_ok env"
    and calm: "calm env p d" and complete: "txn_complete txn" and room: "commit_room p txn"
  shows "\<exists>p' d'. commit_body env txn (p, d) = Some (Inr (), p', d')"
proof -
  define target where "target = tx_target_superblock txn"
  define lsn where "lsn = pg_current_lsn p + 1"
  define qs where "qs = tx_pages txn"
  note defs = target_def lsn_def qs_def
  note t = txn_target [OF txn(1), folded target_def]
  note room' = room [unfolded commit_room_def, folded target_def qs_def]
  have fio: "file_in_order p" and log: "log_ok p d" and cache: "cache_ok p d" and psize: "page_size_ok (pg_page_size p)"
    using ok by (simp_all add: pager_ok_def file_in_order_def)
  have ps: "4096 \<le> pg_page_size p" "unat (page_size target) = pg_page_size p" and fid: "length (file_id target) = 16"
    using psize fio t by (simp_all add: page_size_ok_def page_consts file_in_order_def superblock_arrays_def)
  have next_id: "next_page_id target \<noteq> 0"
    using t(3) fio by (auto simp: file_in_order_def)
  have types: "staged_types qs" "distinct (map tp_page_id qs)" and fits: "\<forall>q \<in> set qs. length (tp_payload q) \<le> sdb_pager_payload_capacity p"
    using txn(1) by (simp_all add: txn_ok_def Let_def qs_def)
  have ids: "tp_page_id q \<noteq> 0" "tp_page_id q < next_page_id target" if "q \<in> set qs" for q
    using complete that by (auto simp: txn_complete_def target_def qs_def)
  have malloc: "env_malloc env n size" for n size
    using calm by (simp add: calm_def)
  have calm': "d_script d = []" "fscript (pg_file p) = []"
    using calm by (simp_all add: calm_def)
  have cap: "sdb_pager_payload_capacity p = pg_page_size p - (if pg_key p = None then 32 else 84)"
    using ps(1) by (auto simp: sdb_pager_payload_capacity_def pg_key_def SDB_PAGE_HEADER_SIZE_def SDB_ENCRYPTED_PAYLOAD_HEADER_SIZE_def Let_def)
  obtain ws where enc: "commit_encode env 0 (pg_page_size p) target (pg_key p) lsn qs = Inr ws"
    using commit_encode_succeeds [OF psize malloc txn(2) _ types(1), of "pg_key p" 0 target lsn] calm fits ids
    unfolding cap by (auto simp: calm_def pg_key_def split: if_splits)
  note staged = commit_encode_spec [OF enc psize fid txn(2) types(1)]
  note l = staged_pages [OF staged]
  obtain path where path: "pg_wal_path p = Some path" "path \<noteq> []" "last path \<noteq> CHR ''/''"
    using log room' by (auto simp: log_ok_def)
  obtain p1 d1 where op: "sdb_pager_ensure_wal_open (env_malloc env 5) (p, d) = (Inr (), p1, d1)" "d_script d1 = []"
    using ensure_wal_open_succeeds [OF calm'(1) path, of "env_malloc env 5"] malloc by blast
  obtain h where p1: "p1 = p\<lparr>pg_wal_file := h, pg_wal_file_open := True\<rparr>"
    using ensure_wal_open_spec(1) [OF log op(1)] by blast
  have pages: "wp_page_id w \<noteq> 0 \<and> wp_page_id w < next_page_id target" if "w \<in> set ws" for w
  proof -
    have "wp_page_id w \<in> set (map tp_page_id qs)"
      using that l(1) by (metis image_eqI set_map)
    then show ?thesis
      using ids by auto
  qed
  have "lsn \<noteq> 0"
    using room' unfolding lsn_def eq_neg_iff_add_eq_0 [symmetric] by blast
  moreover have "ws \<noteq> []"
    using l(3) complete by (auto simp: txn_complete_def qs_def)
  moreover have "list_all (txn_page_ok (next_page_id target) lsn) ws"
    using staged_accepted [OF staged] ids by simp
  ultimately have acc: "txn_accepted target lsn ws" and wf: "wal_fits target (unat (pg_wal_tail p1)) ws"
    using room' l types(2) ps(2) by (simp_all add: txn_accepted_def txn_pages_ok_def wal_fits_def txn_size_def p1)
  obtain new d2 where lg: "commit_log env target lsn ws (p1, d1) = Some (Inr new, p1, d2)"
    using commit_log_succeeds [OF op(2) _ fid _ acc wf, of env] malloc l(2) ps(2) by auto
  have small: "unat k < 2 ^ 52" if "k < next_page_id target" for k
    using small_pages [OF _ ps(1) that] room' by simp
  have entry: "page_in_use p k" if "sdb_wal_index_get (pg_wal_index p) k = Some off" for k off
    using log that unfolding log_ok_def by blast
  have few: "dom (sdb_wal_index_get (pg_wal_index p)) \<subseteq> {j. unat j < 2 ^ 52}"
    using entry small less_le_trans [OF _ t(3)] unfolding page_in_use_def by blast
  have inv: "wal_index_inv (pg_wal_index p)"
    using log by (simp add: log_ok_def)
  obtain ix where ix: "commit_index_loop (env_malloc env 3) (pg_wal_tail p) (sdb_wal_frame_size_v5 (pg_page_size p)) 0 ws (pg_wal_index p) = Some (Inr (), ix)"
    using commit_index_succeeds [OF inv few, of "env_malloc env 3" ws] malloc pages small by blast
  define p2 where "p2 = p1\<lparr>pg_wal_index := ix\<rparr>"
  have ixr: "commit_index env ws (p1, d2) = Some (Inr (), p2, d2)"
    using ix by (simp add: commit_index_def p1 p2_def)
  obtain f where gr: "commit_grow target (p2, d2) = Some (Inr (), p2\<lparr>pg_file := f\<rparr>, d2)"
    using commit_grow_succeeds [of p2 target d2] calm room' ps(1) next_id by (auto simp: p1 p2_def calm_def)
  obtain p3 where pb: "commit_publish target lsn new (p2\<lparr>pg_file := f\<rparr>, d2) = Some (Inr (), p3, d2)"
    and p3: "pg_cache p3 = pg_cache p" "pg_page_size p3 = pg_page_size p" "pg_key p3 = pg_key p"
      "pg_defer_commit p3 = pg_defer_commit p" "pg_commit_failed p3 = pg_commit_failed p"
    using room' t(2) by (auto simp: commit_publish_def sdb_generation_bump_def p1 p2_def pg_key_def)
  have "list_all2 (staged_as (file_id target) (pg_page_size p3) (pg_key p3) lsn) qs ws"
    using staged p3 by simp
  then obtain c where ca: "commit_cache env lsn qs ws (p3, d2) = Some (Inr (), p3\<lparr>pg_cache := c\<rparr>, d2)"
    using commit_cache_spec [of target p3 lsn qs ws "pg_cache p" env] cache ids p3(1,2) by (auto simp: cache_ok_def commit_cache_def)
  obtain p4 where ti: "commit_ticket lsn (p3\<lparr>pg_cache := c\<rparr>, d2) = Some (Inr (), p4, d2)"
    using room' p3(4,5) by (auto simp: commit_ticket_def)
  have "commit_body env txn (p, d) = Some (Inr (), p4, d2)"
    by (simp only: commit_body_def Let_def prod.case defs [symmetric] enc sum.case option.case comp_apply op(1) pbind_def lg ixr gr pb ca ti)
  then show ?thesis
    by blast
qed

lemma txn_commit_succeeds:
  assumes ok: "pager_ok p d" "txn_ok p txn" "nonces_ok env"
    and "calm env p d" "txn_complete txn" "commit_room p txn"
  shows "\<exists>txn' p' d'. sdb_txn_commit env txn (p, d) = Some (Inr (), txn', p', d')"
proof -
  obtain p' d' where body: "commit_body env txn (p, d) = Some (Inr (), p', d')"
    using commit_body_succeeds [OF assms] by blast
  have "page_size_ok (pg_page_size p)"
    using ok(1) by (simp add: pager_ok_def file_in_order_def)
  then have "pg_page_size p \<le> 65536" "0 < pg_page_size p"
    by (simp_all add: page_size_ok_def page_consts)
  then have "SIZE_MAX div 65536 \<le> SIZE_MAX div pg_page_size p"
    by (intro div_le_mono2) simp_all
  then have "length (tx_pages txn) \<le> SIZE_MAX div pg_page_size p" "length (tx_pages txn) \<le> SIZE_MAX div sizeof_wal_page"
    using assms(6) by (simp_all add: commit_room_def SDB_WAL_MAX_RECORDS_def SIZE_MAX_def sizeof_wal_page_def)
  moreover have "\<not> list_ex (\<lambda>a. \<not> list_ex (\<lambda>q. tp_page_id q = a) (tx_pages txn)) (tx_allocated_pages txn)"
    using assms(5) by (auto simp: txn_complete_def list_ex_iff)
  ultimately have "sdb_txn_commit env txn (p, d) = Some (commit_finish env (pg_defer_commit p) (Inr ()) (p', d'))"
    using assms(4-6) body unfolding sdb_txn_commit_def calm_def txn_complete_def commit_room_def
    by (simp add: not_less)
  moreover have "\<exists>txn' p'' d''. commit_finish env (pg_defer_commit p) (Inr ()) (p', d') = (Inr (), txn', p'', d'')"
    by (simp add: commit_finish_def sdb_txn_release_def split: prod.splits)
  ultimately show ?thesis
    by simp
qed


section \<open>Properties\<close>

text \<open>
  C4: a commit succeeds when nothing stands in its way. If every call of the operating
  system and every allocation succeeds, the transaction is complete, and the log, the
  file and the counters have room, then the commit of a pager in order, encrypted or
  not, deferred or not, reports success and has applied the transaction.
\<close>

theorem commit_succeeds:
  assumes "pager_ok p d" "txn_ok p txn" "nonces_ok env" "calm env p d" "txn_complete txn" "commit_room p txn"
  shows "\<exists>txn' p' d'. sdb_txn_commit env txn (p, d) = Some (Inr (), txn', p', d') \<and> commit_outcome p d txn (Inr ()) p' d'"
  using txn_commit_succeeds [OF assms] txn_commit_spec [OF assms(1-3)] by auto

lemma example_commit: "calm example_env (example_pager c ix) empty_directory" "txn_complete example_put"
    "commit_room (example_pager c ix) example_put"
  by (simp_all add: calm_def txn_complete_def commit_room_def example_env_def example_pager_def zero_pager_def empty_directory_def
      example_put_def zero_txn_def example_txn_page_def example_superblock_def SDB_WAL_MAX_RECORDS_def SDB_WAL_MAX_BYTES_def INT64_MAX_def)

theorem commit_succeeds_witness:
  "\<exists>c ix txn' p' d'. pager_ok (example_pager c ix) empty_directory
    \<and> sdb_txn_commit example_env example_put (example_pager c ix, empty_directory) = Some (Inr (), txn', p', d')
    \<and> pg_current_lsn p' = 5 \<and> shown_page p' d' 1 = plain_result 4096 SDB_PAGE_TYPE_DATA 1 5 [9, 8]"
proof (rule example_pager_ok)
  fix c ix
  assume ok: "pager_ok (example_pager c ix) empty_directory"
  obtain txn' p' d' where run: "sdb_txn_commit example_env example_put (example_pager c ix, empty_directory) = Some (Inr (), txn', p', d')"
    and out: "commit_outcome (example_pager c ix) empty_directory example_put (Inr ()) p' d'"
    using commit_succeeds [OF ok example_put_ok example_commit] by blast
  have ex: "pg_current_lsn (example_pager c ix) = 4" "pg_page_size (example_pager c ix) = 4096"
    "next_page_id (tx_target_superblock example_put) = 2"
    by (simp_all add: example_pager_def zero_pager_def example_superblock_def example_put_def)
  have "pg_current_lsn p' = 5" "page_in_use p' 1"
    using out ex by (simp_all add: commit_outcome_def page_in_use_def)
  moreover have "shown_page p' d' 1 = plain_result 4096 SDB_PAGE_TYPE_DATA 1 5 [9, 8]"
    using out ex calculation(2) by (simp add: commit_outcome_def shown_after_def example_put_def example_txn_page_def)
  ultimately show ?thesis
    using ok run by blast
qed

end
