(* ===== verification/Pager_Alloc.thy ===== *)
theory Pager_Alloc
  imports Pager_Healthy
begin

text \<open>
  Transactions before their commit. What a transaction keeps to is established when it
  begins and kept by every operation that succeeds, so it holds at the commit; and the
  allocator is a stack: pages that were freed are handed out first, the last one
  first, and a page handed out is neither free nor handed out already.
\<close>

section \<open>The free list\<close>

definition free_next :: "(bytes \<times> sdb_page_view) result \<Rightarrow> u64 option" where
  "free_next r =
    (case r of
       Inl _ \<Rightarrow> None
     | Inr (_, view) \<Rightarrow>
         if pv_type view = SDB_PAGE_TYPE_FREE \<and> unat (pv_payload_size view) = 8
         then Some (sdb_read_u64_le (pv_payload view) 0) else None)"

fun free_chain :: "(u64 \<Rightarrow> u64 option) \<Rightarrow> u64 \<Rightarrow> u64 list \<Rightarrow> bool" where
  "free_chain nx h [] \<longleftrightarrow> h = 0"
| "free_chain nx h (k # ks) \<longleftrightarrow> h = k \<and> k \<noteq> 0 \<and> (\<exists>h'. nx k = Some h' \<and> free_chain nx h' ks)"

lemma free_chain_cong:
  assumes "\<And>k. k \<in> set ks \<Longrightarrow> nx k = nx' k"
  shows "free_chain nx h ks = free_chain nx' h ks"
  using assms by (induction ks arbitrary: h) auto

text \<open>The free list of a transaction, and what else the allocator keeps to.\<close>

definition free_list :: "sdb_pager \<Rightarrow> directory \<Rightarrow> sdb_txn \<Rightarrow> u64 list \<Rightarrow> bool" where
  "free_list p d txn ks \<longleftrightarrow>
    free_chain (free_next \<circ> shown_after p d txn) (freelist_page (tx_target_superblock txn)) ks
    \<and> distinct (ks @ tx_allocated_pages txn)
    \<and> (\<forall>k \<in> set (ks @ tx_allocated_pages txn). k \<noteq> 0 \<and> k < next_page_id (tx_target_superblock txn))"

text \<open>Two states of a pager with the same store are the same to a transaction.\<close>

lemma same_store_txn:
  assumes "same_store p d p' d'" "log_ok p d"
  shows "txn_ok p' txn = txn_ok p txn" "shown_after p' d' txn = shown_after p d txn" "free_list p' d' txn ks = free_list p d txn ks"
proof -
  obtain f c where p': "p' = p\<lparr>pg_file := f, pg_cache := c\<rparr>"
    using assms(1) by (rule same_storeE)
  have cap: "sdb_pager_payload_capacity p' = sdb_pager_payload_capacity p"
    by (simp add: p' sdb_pager_payload_capacity_def)
  show "txn_ok p' txn = txn_ok p txn"
    unfolding txn_ok_def cap by (simp add: p')
  have "pg_page_size p' = pg_page_size p" "pg_current_lsn p' = pg_current_lsn p"
    by (simp_all add: p')
  then show sh: "shown_after p' d' txn = shown_after p d txn"
    using same_store_keeps(2) [OF assms] by (intro ext) (simp only: shown_after_def)
  show "free_list p' d' txn ks = free_list p d txn ks"
    unfolding free_list_def sh ..
qed

section \<open>Beginning and staging\<close>

lemma find_append: "find P (xs @ ys) = (case find P xs of None \<Rightarrow> find P ys | Some y \<Rightarrow> Some y)"
  by (induction xs) auto

lemma begin_ok:
  assumes "sdb_txn_begin p = (Inr txn, p')"
  shows "txn_ok p' txn" "tx_active txn" "tx_allocated_pages txn = []" "shown_after p' d txn k = shown_page p d k"
proof -
  have t: "txn = zero_txn\<lparr>tx_target_superblock := pg_superblock p, tx_active := True\<rparr>" "p' = p\<lparr>pg_transaction_active := True\<rparr>"
    using assms by (auto simp: sdb_txn_begin_def split: if_splits)
  show "txn_ok p' txn" "tx_active txn" "tx_allocated_pages txn = []"
    by (auto simp: t txn_ok_def zero_txn_def staged_types_def Let_def not_less)
  have eq: "p' = p\<lparr>pg_transaction_active := True, pg_needs_recovery := pg_needs_recovery p\<rparr>"
    by (simp add: t)
  show "shown_after p' d txn k = shown_page p d k"
    using flags_keep(2) [OF eq] by (simp add: shown_after_def t(1) zero_txn_def)
qed

lemma put_cases:
  assumes "sdb_txn_put env p page_id type payload txn = (r, txn')"
  shows "r = Inr () \<and> page_id \<noteq> 0 \<and> page_id < next_page_id (tx_target_superblock txn) \<and> page_id \<notin> tp_page_id ` set (tx_pages txn)
      \<and> (type = SDB_PAGE_TYPE_DATA \<or> type = SDB_PAGE_TYPE_FREE) \<and> length payload \<le> sdb_pager_payload_capacity p
      \<and> (\<exists>n. txn' = txn\<lparr>tx_page_capacity := n, tx_pages := tx_pages txn @ [\<lparr>tp_page_id = page_id, tp_type = type, tp_payload = payload\<rparr>]\<rparr>)
    \<or> (\<exists>e. r = Inl e \<and> e \<in> {SDB_E_INVALID_ARGUMENT, SDB_E_OUT_OF_MEMORY, SDB_E_OVERFLOW}) \<and> txn' = txn"
proof -
  let ?A = "\<not> tx_active txn \<or> page_id = 0 \<or> page_id \<ge> next_page_id (tx_target_superblock txn)
        \<or> (type \<noteq> SDB_PAGE_TYPE_DATA \<and> type \<noteq> SDB_PAGE_TYPE_FREE) \<or> (type = SDB_PAGE_TYPE_FREE \<and> length payload \<noteq> 8)
        \<or> length payload > sdb_pager_payload_capacity p"
  let ?B = "type = SDB_PAGE_TYPE_FREE
          \<and> (sdb_read_u64_le payload 0 \<ge> next_page_id (tx_target_superblock txn) \<or> sdb_read_u64_le payload 0 = page_id)"
  let ?C = "list_ex (\<lambda>q. tp_page_id q = page_id) (tx_pages txn)"
  show ?thesis
  proof (cases "?A \<or> ?B \<or> ?C")
    case True
    then have "sdb_txn_put env p page_id type payload txn = (Inl SDB_E_INVALID_ARGUMENT, txn)"
      unfolding sdb_txn_put_def by (cases ?A; cases ?B; cases ?C) simp_all
    then show ?thesis
      using assms by simp
  next
    case False
    then have run: "sdb_txn_put env p page_id type payload txn =
        (if length payload \<noteq> 0 \<and> \<not> env_malloc env 0 (length payload) then (Inl SDB_E_OUT_OF_MEMORY, txn)
         else case grown_pages (env_malloc env 1) txn of
           Inl e \<Rightarrow> (Inl e, txn)
         | Inr n \<Rightarrow> (Inr (), txn\<lparr>tx_page_capacity := n,
             tx_pages := tx_pages txn @ [\<lparr>tp_page_id = page_id, tp_type = type, tp_payload = payload\<rparr>]\<rparr>))"
    proof -
      have "\<not> ?A" "\<not> ?B" "\<not> ?C"
        using False by blast+
      then show ?thesis
        unfolding sdb_txn_put_def by (simp only: if_False)
    qed
    have cond: "page_id \<noteq> 0 \<and> page_id < next_page_id (tx_target_superblock txn) \<and> page_id \<notin> tp_page_id ` set (tx_pages txn)
      \<and> (type = SDB_PAGE_TYPE_DATA \<or> type = SDB_PAGE_TYPE_FREE) \<and> length payload \<le> sdb_pager_payload_capacity p"
      using False by (auto simp: list_ex_iff not_le not_less)
    show ?thesis
    proof (cases "length payload \<noteq> 0 \<and> \<not> env_malloc env 0 (length payload)")
      case True
      then show ?thesis
        using run assms by simp
    next
      case mem: False
      show ?thesis
      proof (cases "grown_pages (env_malloc env 1) txn")
        case (Inl e)
        then have "e \<in> {SDB_E_OUT_OF_MEMORY, SDB_E_OVERFLOW}"
          by (auto simp: grown_pages_def Let_def split: if_splits)
        then show ?thesis
          using run assms Inl mem by auto
      next
        case (Inr n)
        then show ?thesis
          using run assms mem cond by auto
      qed
    qed
  qed
qed

lemma put_ok:
  assumes "sdb_txn_put env p page_id type payload txn = (Inr (), txn')" "txn_ok p txn"
  shows "txn_ok p txn'" "tx_target_superblock txn' = tx_target_superblock txn" "tx_allocated_pages txn' = tx_allocated_pages txn"
    "tx_active txn' = tx_active txn" "shown_after p d txn' page_id = plain_result (pg_page_size p) type page_id (pg_current_lsn p + 1) payload"
    "k \<noteq> page_id \<Longrightarrow> shown_after p d txn' k = shown_after p d txn k"
proof -
  let ?q = "\<lparr>tp_page_id = page_id, tp_type = type, tp_payload = payload\<rparr>"
  have new: "page_id \<notin> tp_page_id ` set (tx_pages txn)" "type = SDB_PAGE_TYPE_DATA \<or> type = SDB_PAGE_TYPE_FREE"
    "length payload \<le> sdb_pager_payload_capacity p"
    and txn': "\<exists>n. txn' = txn\<lparr>tx_page_capacity := n, tx_pages := tx_pages txn @ [?q]\<rparr>"
    using put_cases [OF assms(1)] by auto
  then show "txn_ok p txn'"
    using assms(2) by (auto simp: txn_ok_def Let_def staged_types_def)
  show "tx_target_superblock txn' = tx_target_superblock txn" "tx_allocated_pages txn' = tx_allocated_pages txn" "tx_active txn' = tx_active txn"
    using txn' by auto
  have none: "find (\<lambda>q. tp_page_id q = page_id) (tx_pages txn) = None"
    using new(1) by (auto simp: find_None_iff)
  show "shown_after p d txn' page_id = plain_result (pg_page_size p) type page_id (pg_current_lsn p + 1) payload"
    using txn' none by (auto simp: shown_after_def find_append)
  show "k \<noteq> page_id \<Longrightarrow> shown_after p d txn' k = shown_after p d txn k"
    using txn' by (auto simp: shown_after_def find_append split: option.splits)
qed


section \<open>Allocating\<close>

lemma find_index_find: "find P xs = map_option ((!) xs) (find_index P xs)"
  by (induction xs) (auto simp: option.map_comp comp_def)

lemma find_index_Some: "find_index P xs = Some i \<Longrightarrow> i < length xs \<and> P (xs ! i)"
  by (induction xs arbitrary: i) (auto split: if_splits)

lemma find_index_None: "find_index P xs = None \<longleftrightarrow> (\<forall>x \<in> set xs. \<not> P x)"
  by (induction xs) auto

lemma remove_index_ids:
  assumes "distinct (map f xs)" "i < length xs"
  shows "distinct (map f (remove_index i xs))" "f ` set (remove_index i xs) = f ` set xs - {f (xs ! i)}"
    "set (remove_index i xs) \<subseteq> set xs"
    "find (\<lambda>q. f q = k) (remove_index i xs) = (if k = f (xs ! i) then None else find (\<lambda>q. f q = k) xs)"
proof -
  define ys zs x where "ys = take i xs" and "zs = drop (Suc i) xs" and "x = xs ! i"
  have xs: "xs = ys @ x # zs" "remove_index i xs = ys @ zs"
    using assms(2) by (simp_all add: ys_def zs_def x_def id_take_nth_drop remove_index_def)
  have d: "distinct (map f (ys @ x # zs))"
    using assms(1) xs(1) by simp
  have fx: "\<forall>y \<in> set ys. f y \<noteq> f x" "\<forall>y \<in> set zs. f y \<noteq> f x"
    using d by (auto simp: image_iff)
  show "distinct (map f (remove_index i xs))" "set (remove_index i xs) \<subseteq> set xs"
    unfolding xs(2) using d by (auto simp: xs(1))
  show "f ` set (remove_index i xs) = f ` set xs - {f (xs ! i)}"
    unfolding x_def [symmetric] xs(2) using fx by (auto simp: xs(1))
  have none: "find (\<lambda>q. f q = f x) (ys @ zs) = None"
    using fx by (auto simp: find_None_iff)
  show "find (\<lambda>q. f q = k) (remove_index i xs) = (if k = f (xs ! i) then None else find (\<lambda>q. f q = k) xs)"
  proof (cases "k = f x")
    case True
    then show ?thesis
      unfolding x_def [symmetric] xs(2) using none by simp
  next
    case False
    then show ?thesis
      unfolding x_def [symmetric] xs(2) by (auto simp: xs(1) find_append split: option.splits)
  qed
qed

lemma record_allocation_cases:
  assumes "txn_record_allocation malloc_ok page_id fl nid txn = (r, txn')"
  shows "r = Inr page_id \<and> (\<exists>n. txn' = txn\<lparr>tx_allocated_pages := tx_allocated_pages txn @ [page_id], tx_allocated_page_capacity := n,
      tx_target_superblock := (tx_target_superblock txn)\<lparr>freelist_page := fl, next_page_id := nid\<rparr>\<rparr>)
    \<or> (\<exists>e. r = Inl e \<and> e \<in> {SDB_E_OUT_OF_MEMORY, SDB_E_OVERFLOW}) \<and> txn' = txn"
proof -
  obtain A B b where run: "txn_record_allocation malloc_ok page_id fl nid txn =
      (if A then (Inl SDB_E_OVERFLOW, txn) else if B then (Inl SDB_E_OUT_OF_MEMORY, txn)
       else (Inr page_id, txn\<lparr>tx_allocated_pages := tx_allocated_pages txn @ [page_id], tx_allocated_page_capacity := b,
         tx_target_superblock := (tx_target_superblock txn)\<lparr>freelist_page := fl, next_page_id := nid\<rparr>\<rparr>))"
    by (rule that) (unfold txn_record_allocation_def Let_def, rule refl)
  show ?thesis
    using assms unfolding run by (auto split: if_splits)
qed

lemma unat_next:
  fixes k :: u64
  assumes "k \<noteq> - 1"
  shows "unat (k + 1) = unat k + 1"
proof -
  have "1 + k \<noteq> 0"
    using assms by (simp add: add_eq_0_iff)
  then show ?thesis
    using unatSuc [of k] by (simp add: add.commute)
qed

text \<open>Handing out a page keeps what a transaction keeps to.\<close>

lemma record_allocation_ok:
  assumes txn: "txn_ok p txn" and run: "txn_record_allocation malloc_ok k fl nid txn0 = (Inr k, txn')"
    and txn0: "txn0 = txn\<lparr>tx_pages := qs\<rparr>" "distinct (map tp_page_id qs)" "set qs \<subseteq> set (tx_pages txn)"
      "tp_page_id ` set (tx_pages txn) - {k} \<subseteq> tp_page_id ` set qs"
    and nid: "nid = next_page_id (tx_target_superblock txn) \<and> k < nid \<or> nid = k + 1 \<and> k = next_page_id (tx_target_superblock txn) \<and> k \<noteq> - 1"
  shows "txn_ok p txn'"
proof -
  obtain n where txn': "txn' = txn0\<lparr>tx_allocated_pages := tx_allocated_pages txn0 @ [k], tx_allocated_page_capacity := n,
      tx_target_superblock := (tx_target_superblock txn0)\<lparr>freelist_page := fl, next_page_id := nid\<rparr>\<rparr>"
    using record_allocation_cases [OF run] by auto
  define target where "target = tx_target_superblock txn"
  obtain a b where tg: "target = (pg_superblock p)\<lparr>freelist_page := a, next_page_id := b\<rparr>"
    using txn unfolding txn_ok_def Let_def target_def by blast
  have old: "next_page_id (pg_superblock p) \<le> next_page_id target"
    "staged_types (tx_pages txn) \<and> (\<forall>q \<in> set (tx_pages txn). length (tp_payload q) \<le> sdb_pager_payload_capacity p)"
    "\<forall>j. next_page_id (pg_superblock p) \<le> j \<and> j < next_page_id target \<longrightarrow> j \<in> set (map tp_page_id (tx_pages txn)) \<or> j \<in> set (tx_allocated_pages txn)"
    using txn by (auto simp: txn_ok_def Let_def target_def)
  have types: "staged_types qs" "\<forall>q \<in> set qs. length (tp_payload q) \<le> sdb_pager_payload_capacity p"
    using old(2) txn0(3) by (auto simp: staged_types_def)
  have up: "next_page_id target \<le> nid"
    using nid unat_next [of k] by (auto simp: target_def word_le_nat_alt)
  have cover: "j \<in> tp_page_id ` set qs \<or> j \<in> set (tx_allocated_pages txn) \<or> j = k"
    if "next_page_id (pg_superblock p) \<le> j" "j < nid" for j
  proof (cases "j < next_page_id target")
    case True
    then show ?thesis
      using old(3) that txn0(4) by auto
  next
    case False
    then have "nid = k + 1" "k = next_page_id target" "k \<noteq> - 1"
      using nid that(2) by (auto simp: target_def)
    then have "unat j = unat k"
      using False that(2) unat_next [of k] by (simp add: word_less_nat_alt)
    then show ?thesis
      unfolding word_unat_eq_iff by simp
  qed
  show ?thesis
    unfolding txn_ok_def Let_def txn' txn0(1) using types txn0(2) old(1) up cover
    by (auto simp: tg [unfolded target_def])
qed


lemma staged_free:
  assumes "free_next (plain_result psize type k lsn payload) = Some h" "length payload < 2 ^ 16"
  shows "type = SDB_PAGE_TYPE_FREE" "length payload = 8" "h = sdb_read_u64_le payload 0"
proof -
  have "unat (word_of_nat (length payload) :: u32) = length payload"
    using assms(2) by (simp add: unsigned_of_nat take_bit_nat_eq_self)
  then show "type = SDB_PAGE_TYPE_FREE" "length payload = 8" "h = sdb_read_u64_le payload 0"
    using assms(1) by (auto simp: free_next_def plain_result_def page_view_def split: if_splits)
qed

lemma free_list_ids:
  assumes "free_list p d txn ks" "txn_ok p txn" "k \<in> set ks" "k \<notin> tp_page_id ` set (tx_pages txn)"
  shows "page_in_use p k"
proof -
  have "k \<noteq> 0" "k < next_page_id (tx_target_superblock txn)" "k \<notin> set (tx_allocated_pages txn)"
    using assms(1,3) by (auto simp: free_list_def)
  then show ?thesis
    using assms(2,4) by (auto simp: txn_ok_def Let_def page_in_use_def not_le [symmetric])
qed

lemma payload_small:
  assumes "pager_ok p d" "txn_ok p txn" "q \<in> set (tx_pages txn)"
  shows "length (tp_payload q) < 2 ^ 16"
proof -
  have "length (tp_payload q) \<le> sdb_pager_payload_capacity p"
    using assms(2,3) by (simp add: txn_ok_def Let_def)
  moreover have "sdb_pager_payload_capacity p < 2 ^ 16"
    using assms(1) page_size_ok_bounds [of "pg_page_size p"]
    by (auto simp: pager_ok_def file_in_order_def sdb_pager_payload_capacity_def SDB_PAGE_HEADER_SIZE_def Let_def)
  ultimately show ?thesis
    by simp
qed

definition allocated :: "sdb_pager \<Rightarrow> directory \<Rightarrow> sdb_txn \<Rightarrow> u64 list \<Rightarrow> u64 \<Rightarrow> sdb_txn \<Rightarrow> bool" where
  "allocated p d txn ks k txn' \<longleftrightarrow> txn_ok p txn' \<and> tx_active txn' \<and> tx_allocated_pages txn' = tx_allocated_pages txn @ [k]
    \<and> (case ks of
         [] \<Rightarrow> k = next_page_id (tx_target_superblock txn) \<and> free_list p d txn' []
       | k' # ks' \<Rightarrow> k = k' \<and> free_list p d txn' ks')"

lemma record_allocated:
  assumes txn: "txn_ok p txn" "tx_active txn" and fl: "free_list p d txn ks" and pnz: "next_page_id (pg_superblock p) \<noteq> 0"
    and run: "txn_record_allocation malloc_ok k h nid (txn\<lparr>tx_pages := qs\<rparr>) = (r, txn')"
    and qs: "distinct (map tp_page_id qs)" "set qs \<subseteq> set (tx_pages txn)" "tp_page_id ` set (tx_pages txn) - {k} \<subseteq> tp_page_id ` set qs"
      "\<And>j. j \<noteq> k \<Longrightarrow> find (\<lambda>q. tp_page_id q = j) qs = find (\<lambda>q. tp_page_id q = j) (tx_pages txn)"
    and k: "ks = k # ks' \<and> free_next (shown_after p d txn k) = Some h \<and> nid = next_page_id (tx_target_superblock txn)
      \<or> ks = [] \<and> h = freelist_page (tx_target_superblock txn) \<and> nid = k + 1 \<and> k = next_page_id (tx_target_superblock txn) \<and> k \<noteq> - 1"
  shows "case r of Inl e \<Rightarrow> e \<in> {SDB_E_OUT_OF_MEMORY, SDB_E_OVERFLOW} | Inr k' \<Rightarrow> k' = k \<and> allocated p d txn ks k txn'"
proof (cases r)
  case (Inl e)
  then show ?thesis
    using record_allocation_cases [OF run] by auto
next
  case (Inr k')
  then have k': "k' = k"
    using record_allocation_cases [OF run] by auto
  note run' = run [unfolded Inr k']
  obtain n where txn': "txn' = txn\<lparr>tx_pages := qs, tx_allocated_pages := tx_allocated_pages txn @ [k], tx_allocated_page_capacity := n,
      tx_target_superblock := (tx_target_superblock txn)\<lparr>freelist_page := h, next_page_id := nid\<rparr>\<rparr>"
    using record_allocation_cases [OF run'] by auto
  have ids: "\<forall>j \<in> set (ks @ tx_allocated_pages txn). j \<noteq> 0 \<and> j < next_page_id (tx_target_superblock txn)"
    and dist: "distinct (ks @ tx_allocated_pages txn)"
    and chain: "free_chain (free_next \<circ> shown_after p d txn) (freelist_page (tx_target_superblock txn)) ks"
    using fl by (auto simp: free_list_def)
  have nz: "next_page_id (tx_target_superblock txn) \<noteq> 0"
    using pnz txn_target(3) [OF txn(1)] by auto
  have kn: "nid = next_page_id (tx_target_superblock txn) \<and> k < nid \<or> nid = k + 1 \<and> k = next_page_id (tx_target_superblock txn) \<and> k \<noteq> - 1"
    using k ids by auto
  have ok: "txn_ok p txn'"
    using record_allocation_ok [OF txn(1) run' refl qs(1-3) kn] .
  have shown: "shown_after p d txn' j = shown_after p d txn j" if "j \<noteq> k" for j
    using qs(4) [OF that] by (simp add: shown_after_def txn')
  have "free_list p d txn' ks'" if ks: "ks = k # ks'"
  proof -
    have h: "free_next (shown_after p d txn k) = Some h" "nid = next_page_id (tx_target_superblock txn)"
      using k ks by auto
    then have "free_chain (free_next \<circ> shown_after p d txn) h ks'"
      using chain ks by simp
    moreover have "shown_after p d txn' j = shown_after p d txn j" if "j \<in> set ks'" for j
      using dist that by (intro shown) (auto simp: ks)
    then have "free_chain (free_next \<circ> shown_after p d txn') h ks' = free_chain (free_next \<circ> shown_after p d txn) h ks'"
      by (intro free_chain_cong) simp
    ultimately show ?thesis
      using dist ids h(2) by (auto simp: free_list_def txn' ks)
  qed
  moreover have "k = next_page_id (tx_target_superblock txn) \<and> free_list p d txn' []" if ks: "ks = []"
  proof -
    have k2: "h = 0" "nid = k + 1" "k = next_page_id (tx_target_superblock txn)" "k \<noteq> - 1"
      using k ks chain by auto
    then have "j < nid" if "j \<le> k" for j
      using that unat_next [of k] by (simp add: word_less_nat_alt word_le_nat_alt)
    then show ?thesis
      using k2 ids dist nz ks by (auto simp: free_list_def txn')
  qed
  ultimately have "case ks of [] \<Rightarrow> k = next_page_id (tx_target_superblock txn) \<and> free_list p d txn' [] | j # js \<Rightarrow> k = j \<and> free_list p d txn' js"
    using k by (cases ks) auto
  moreover have "tx_active txn'" "tx_allocated_pages txn' = tx_allocated_pages txn @ [k]"
    using txn(2) by (simp_all add: txn')
  ultimately show ?thesis
    using ok unfolding Inr k' allocated_def by simp
qed

text \<open>What an allocation comes to.\<close>

definition allocate_outcome :: "sdb_env \<Rightarrow> sdb_pager \<Rightarrow> directory \<Rightarrow> sdb_txn \<Rightarrow> u64 list \<Rightarrow> u64 result \<Rightarrow> sdb_txn \<Rightarrow> bool" where
  "allocate_outcome env p d txn ks r txn' \<longleftrightarrow>
    (case r of
       Inr k \<Rightarrow> allocated p d txn ks k txn'
     | Inl e \<Rightarrow> e \<in> {SDB_E_OUT_OF_MEMORY, SDB_E_OVERFLOW} \<or> e = SDB_E_IO \<and> pager_may_fail p d)"

lemma chain_next_in:
  assumes "free_list p d txn (k # ks)" "free_next (shown_after p d txn k) = Some h" "next_page_id (tx_target_superblock txn) \<noteq> 0"
  shows "h < next_page_id (tx_target_superblock txn)" "h \<noteq> k"
proof -
  have "free_chain (free_next \<circ> shown_after p d txn) h ks" "k \<noteq> 0"
    using assms(1,2) by (auto simp: free_list_def)
  then have "h = 0 \<or> h \<in> set ks"
    by (cases ks) auto
  then show "h < next_page_id (tx_target_superblock txn)" "h \<noteq> k"
    using assms(1,3) \<open>k \<noteq> 0\<close> by (auto simp: free_list_def word_neq_0_conv)
qed

lemma allocate_fresh:
  assumes "txn_ok p txn" "tx_active txn" "free_list p d txn []" "next_page_id (pg_superblock p) \<noteq> 0"
  shows "\<exists>r txn'. sdb_txn_allocate env txn (p, d) = Some (r, txn', p, d) \<and> allocate_outcome env p d txn [] r txn'"
proof -
  let ?t = "tx_target_superblock txn"
  have z: "freelist_page ?t = 0"
    using assms(3) by (simp add: free_list_def)
  obtain r txn' where rec: "txn_record_allocation (env_malloc env 1) (next_page_id ?t) (freelist_page ?t) (next_page_id ?t + 1) txn = (r, txn')"
    by fastforce
  show ?thesis
  proof (cases "next_page_id ?t = - 1 \<or> \<not> sdb_page_geometry_valid (next_page_id ?t + 1) (page_size ?t)")
    case True
    then show ?thesis
      using assms(2) z by (auto simp: sdb_txn_allocate_def allocate_outcome_def Let_def)
  next
    case False
    have same: "txn\<lparr>tx_pages := tx_pages txn\<rparr> = txn"
      by simp
    have "case r of Inl e \<Rightarrow> e \<in> {SDB_E_OUT_OF_MEMORY, SDB_E_OVERFLOW} | Inr k' \<Rightarrow> k' = next_page_id ?t \<and> allocated p d txn [] (next_page_id ?t) txn'"
      using record_allocated [OF assms(1-4), of "env_malloc env 1" "next_page_id ?t" "freelist_page ?t" "next_page_id ?t + 1" "tx_pages txn" r txn' "[]"]
        rec False assms(1) unfolding same by (auto simp: txn_ok_def Let_def)
    moreover have "sdb_txn_allocate env txn (p, d) = Some (r, txn', p, d)"
      using rec False assms(2) z by (simp add: sdb_txn_allocate_def Let_def)
    ultimately show ?thesis
      by (cases r) (auto simp: allocate_outcome_def)
  qed
qed

lemma allocate_staged:
  assumes ok: "pager_ok p d" and txn: "txn_ok p txn" "tx_active txn" and fl: "free_list p d txn (k # ks)" and i: "txn_staged txn k = Some i"
  shows "\<exists>r txn'. sdb_txn_allocate env txn (p, d) = Some (r, txn', p, d) \<and> allocate_outcome env p d txn (k # ks) r txn'"
proof -
  let ?t = "tx_target_superblock txn"
  define q where "q = tx_pages txn ! i"
  have k: "freelist_page ?t = k" "k \<noteq> 0" and pnz: "next_page_id (pg_superblock p) \<noteq> 0"
    using fl ok by (auto simp: free_list_def pager_ok_def file_in_order_def)
  have qi: "i < length (tx_pages txn)" "tp_page_id q = k" "q \<in> set (tx_pages txn)"
    using find_index_Some [OF i [unfolded txn_staged_def]] by (auto simp: q_def)
  have shown: "shown_after p d txn k = plain_result (pg_page_size p) (tp_type q) k (pg_current_lsn p + 1) (tp_payload q)"
    using i by (simp add: shown_after_def find_index_find txn_staged_def q_def)
  obtain h where h: "free_next (shown_after p d txn k) = Some h"
    using fl by (auto simp: free_list_def)
  note f = staged_free [OF h [unfolded shown] payload_small [OF ok txn(1) qi(3)]]
  define qs where "qs = remove_index i (tx_pages txn)"
  have dist: "distinct (map tp_page_id (tx_pages txn))"
    using txn(1) by (simp add: txn_ok_def Let_def)
  note rem = remove_index_ids [OF dist qi(1), folded q_def qs_def, unfolded qi(2)]
  obtain r txn' where rec: "txn_record_allocation (env_malloc env 1) k h (next_page_id ?t) (txn\<lparr>tx_pages := qs\<rparr>) = (r, txn')"
    by fastforce
  have "case r of Inl e \<Rightarrow> e \<in> {SDB_E_OUT_OF_MEMORY, SDB_E_OVERFLOW} | Inr k' \<Rightarrow> k' = k \<and> allocated p d txn (k # ks) k txn'"
    using record_allocated [OF txn fl pnz rec rem(1,3), of ks] rem(2,4) h by auto
  moreover have "sdb_txn_allocate env txn (p, d) = Some (r, txn', p, d)"
    using rec txn(2) k i f by (simp add: sdb_txn_allocate_def Let_def q_def qs_def)
  ultimately show ?thesis
    by (cases r) (auto simp: allocate_outcome_def)
qed

lemma allocate_stored:
  assumes ok: "pager_ok p d" "pg_open p" "\<not> pg_needs_recovery p" and txn: "txn_ok p txn" "tx_active txn"
    and fl: "free_list p d txn (k # ks)" and i: "txn_staged txn k = None"
  shows "\<exists>r txn' p' d'. sdb_txn_allocate env txn (p, d) = Some (r, txn', p', d') \<and> same_store p d p' d' \<and> pager_ok p' d'
    \<and> allocate_outcome env p d txn (k # ks) r txn'"
proof -
  let ?t = "tx_target_superblock txn"
  have k: "freelist_page ?t = k" "k \<noteq> 0" and pnz: "next_page_id (pg_superblock p) \<noteq> 0"
    using fl ok by (auto simp: free_list_def pager_ok_def file_in_order_def)
  have tnz: "next_page_id ?t \<noteq> 0" and psize: "unat (page_size ?t) = pg_page_size p"
    using pnz txn_target [OF txn(1)] by auto
  have "k \<notin> tp_page_id ` set (tx_pages txn)"
    using i by (auto simp: txn_staged_def find_index_None)
  then have use: "page_in_use p k"
    using free_list_ids [OF fl txn(1)] by simp
  have shown: "shown_after p d txn k = shown_page p d k"
    using i by (simp add: shown_after_def find_index_find txn_staged_def)
  obtain h where h: "free_next (shown_after p d txn k) = Some h"
    using fl by (auto simp: free_list_def)
  then obtain img view where v: "shown_page p d k = Inr (img, view)" "pv_type view = SDB_PAGE_TYPE_FREE"
    "unat (pv_payload_size view) = 8" "h = sdb_read_u64_le (pv_payload view) 0"
    unfolding shown by (auto simp: free_next_def split: sum.splits if_splits)
  have nx: "freelist_next k (next_page_id ?t) view = Inr h"
    using v chain_next_in [OF fl h tnz] by (simp add: freelist_next_def Let_def not_le [symmetric])
  show ?thesis
  proof (cases "env_malloc env 2 (pg_page_size p)")
    case False
    then show ?thesis
      using txn(2) k i psize ok(1) by (auto simp: sdb_txn_allocate_def Let_def allocate_outcome_def)
  next
    case mem: True
    obtain rr p' d' where rd: "sdb_pager_read env k (pg_page_size p) (p, d) = Some (rr, p', d')" "same_store p d p' d'" "pager_ok p' d'"
      "read_outcome env p d k rr"
      using read_spec [OF ok use, of "pg_page_size p" env] by auto
    show ?thesis
    proof (cases rr)
      case (Inl e)
      then have "e = SDB_E_OUT_OF_MEMORY \<or> e = SDB_E_IO \<and> pager_may_fail p d"
        using rd(4) v(1) by (auto simp: read_outcome_def)
      moreover have "sdb_txn_allocate env txn (p, d) = Some (Inl e, txn, p', d')"
        using rd(1) Inl txn(2) k i mem psize by (simp add: sdb_txn_allocate_def Let_def)
      ultimately show ?thesis
        using rd(2,3) by (auto simp: allocate_outcome_def)
    next
      case (Inr view')
      then have view': "view' = view"
        using rd(4) v(1) by (auto simp: read_outcome_def)
      obtain r txn' where rec: "txn_record_allocation (env_malloc env 1) k h (next_page_id ?t) txn = (r, txn')"
        by fastforce
      have same: "txn\<lparr>tx_pages := tx_pages txn\<rparr> = txn"
        by simp
      have "case r of Inl e \<Rightarrow> e \<in> {SDB_E_OUT_OF_MEMORY, SDB_E_OVERFLOW} | Inr k' \<Rightarrow> k' = k \<and> allocated p d txn (k # ks) k txn'"
        using record_allocated [OF txn fl pnz, of "env_malloc env 1" k h "next_page_id ?t" "tx_pages txn" r txn' ks]
          rec h txn(1) unfolding same by (auto simp: txn_ok_def Let_def)
      moreover have "sdb_txn_allocate env txn (p, d) = Some (r, txn', p', d')"
        using rec rd(1) Inr view' nx txn(2) k i mem psize by (simp add: sdb_txn_allocate_def Let_def)
      ultimately show ?thesis
        using rd(2,3) by (cases r) (auto simp: allocate_outcome_def)
    qed
  qed
qed

lemma allocate_spec:
  assumes "pager_ok p d" "pg_open p" "\<not> pg_needs_recovery p" "txn_ok p txn" "tx_active txn" "free_list p d txn ks"
  shows "\<exists>r txn' p' d'. sdb_txn_allocate env txn (p, d) = Some (r, txn', p', d') \<and> same_store p d p' d' \<and> pager_ok p' d'
    \<and> allocate_outcome env p d txn ks r txn'"
proof (cases ks)
  case Nil
  have "next_page_id (pg_superblock p) \<noteq> 0"
    using assms(1) by (simp add: pager_ok_def file_in_order_def)
  then show ?thesis
    using allocate_fresh [OF assms(4,5) assms(6) [unfolded Nil], of env] assms(1) Nil by fastforce
next
  case (Cons k ks')
  show ?thesis
  proof (cases "txn_staged txn k")
    case None
    then show ?thesis
      using allocate_stored [OF assms(1-5) assms(6) [unfolded Cons]] Cons by simp
  next
    case (Some i)
    then show ?thesis
      using allocate_staged [OF assms(1,4,5) assms(6) [unfolded Cons] Some, of env] assms(1) Cons by fastforce
  qed
qed

section \<open>Freeing\<close>

definition freed :: "sdb_pager \<Rightarrow> directory \<Rightarrow> sdb_txn \<Rightarrow> u64 list \<Rightarrow> u64 \<Rightarrow> sdb_txn \<Rightarrow> bool" where
  "freed p d txn ks k txn' \<longleftrightarrow> txn_ok p txn' \<and> tx_active txn' \<and> k \<notin> set ks \<and> free_list p d txn' (k # ks)
    \<and> set (tx_allocated_pages txn') = set (tx_allocated_pages txn) - {k}
    \<and> (\<forall>j. j \<noteq> k \<longrightarrow> shown_after p d txn' j = shown_after p d txn j)"

lemma pushed_freed:
  assumes txn: "txn_ok p txn" "tx_active txn" "free_list p d txn ks" and k: "k \<notin> set ks" "k \<noteq> 0" "k < next_page_id (tx_target_superblock txn)"
    and qs: "distinct (map tp_page_id qs)" "set qs \<subseteq> set (tx_pages txn)" "tp_page_id ` set (tx_pages txn) - {k} \<subseteq> tp_page_id ` set qs"
      "\<And>j. j \<noteq> k \<Longrightarrow> find (\<lambda>q. tp_page_id q = j) qs = find (\<lambda>q. tp_page_id q = j) (tx_pages txn)"
    and as: "distinct as" "set as = set (tx_allocated_pages txn) - {k}"
    and run: "txn_push_free env p k (txn\<lparr>tx_allocated_pages := as, tx_pages := qs\<rparr>) = (Inr (), txn')"
  shows "freed p d txn ks k txn'"
proof -
  define target where "target = tx_target_superblock txn"
  define w where "w = sdb_write_u64_le (zeros 8) 0 (freelist_page target)"
  let ?q = "\<lparr>tp_page_id = k, tp_type = SDB_PAGE_TYPE_FREE, tp_payload = w\<rparr>"
  have w: "length w = 8" "sdb_read_u64_le w 0 = freelist_page target"
    by (simp_all add: w_def le64.rd_wr le64.length_wr)
  obtain txn1 where put: "sdb_txn_put env p k SDB_PAGE_TYPE_FREE w (txn\<lparr>tx_allocated_pages := as, tx_pages := qs\<rparr>) = (Inr (), txn1)"
    and txn1: "txn' = txn1\<lparr>tx_target_superblock := (tx_target_superblock txn1)\<lparr>freelist_page := k\<rparr>\<rparr>"
    using run by (auto simp: txn_push_free_def w_def target_def split: prod.splits sum.splits)
  obtain n where new: "k \<notin> tp_page_id ` set qs" "length w \<le> sdb_pager_payload_capacity p"
    and txn': "txn' = txn\<lparr>tx_allocated_pages := as, tx_page_capacity := n, tx_pages := qs @ [?q], tx_target_superblock := target\<lparr>freelist_page := k\<rparr>\<rparr>"
    using put_cases [OF put] by (auto simp: txn1 target_def)
  obtain a b where tg: "target = (pg_superblock p)\<lparr>freelist_page := a, next_page_id := b\<rparr>"
    using txn(1) unfolding txn_ok_def Let_def target_def by blast
  have old: "next_page_id (pg_superblock p) \<le> next_page_id target" "staged_types (tx_pages txn)"
    "\<forall>q \<in> set (tx_pages txn). length (tp_payload q) \<le> sdb_pager_payload_capacity p"
    "\<forall>j. next_page_id (pg_superblock p) \<le> j \<and> j < next_page_id target \<longrightarrow> j \<in> set (map tp_page_id (tx_pages txn)) \<or> j \<in> set (tx_allocated_pages txn)"
    using txn(1) by (auto simp: txn_ok_def Let_def target_def)
  have cover: "j = k \<or> j \<in> tp_page_id ` set qs \<or> j \<in> set as" if "next_page_id (pg_superblock p) \<le> j" "j < next_page_id target" for j
    using old(4) that qs(3) as(2) by auto
  have "txn_ok p txn'"
    unfolding txn_ok_def Let_def txn' using old(1-3) cover qs(1,2) new by (auto simp: tg staged_types_def)
  moreover have other: "shown_after p d txn' j = shown_after p d txn j" if "j \<noteq> k" for j
    using qs(4) [OF that] that by (simp add: shown_after_def txn' find_append split: option.splits)
  moreover have "free_list p d txn' (k # ks)"
  proof -
    have "find (\<lambda>q. tp_page_id q = k) qs = None"
      using new(1) by (auto simp: find_None_iff)
    then have "shown_after p d txn' k = plain_result (pg_page_size p) SDB_PAGE_TYPE_FREE k (pg_current_lsn p + 1) w"
      by (simp add: shown_after_def txn' find_append)
    then have head: "free_next (shown_after p d txn' k) = Some (freelist_page target)"
      using w by (simp add: free_next_def plain_result_def page_view_def)
    have "shown_after p d txn' j = shown_after p d txn j" if "j \<in> set ks" for j
      using that k(1) by (intro other) auto
    then have "free_chain (free_next \<circ> shown_after p d txn') (freelist_page target) ks = free_chain (free_next \<circ> shown_after p d txn) (freelist_page target) ks"
      by (intro free_chain_cong) simp
    then have "free_chain (free_next \<circ> shown_after p d txn') k (k # ks)"
      using head txn(3) k(2) by (simp add: free_list_def target_def)
    then show ?thesis
      using txn(3) k as unfolding free_list_def by (auto simp: txn' target_def)
  qed
  ultimately show ?thesis
    using txn(2) k(1) as(2) unfolding freed_def by (simp add: txn')
qed

lemma push_free_error:
  assumes "txn_push_free env p k txn = (Inl e, txn')"
  shows "e \<in> {SDB_E_INVALID_ARGUMENT, SDB_E_OUT_OF_MEMORY, SDB_E_OVERFLOW}"
proof -
  obtain txn1 where "sdb_txn_put env p k SDB_PAGE_TYPE_FREE (sdb_write_u64_le (zeros 8) 0 (freelist_page (tx_target_superblock txn))) txn = (Inl e, txn1)"
    using assms by (auto simp: txn_push_free_def split: prod.splits sum.splits)
  from put_cases [OF this] show ?thesis
    by auto
qed

text \<open>What freeing a page comes to.\<close>

definition free_outcome :: "sdb_pager \<Rightarrow> directory \<Rightarrow> sdb_txn \<Rightarrow> u64 list \<Rightarrow> u64 \<Rightarrow> unit result \<Rightarrow> sdb_txn \<Rightarrow> bool" where
  "free_outcome p d txn ks k r txn' \<longleftrightarrow>
    (case r of
       Inr _ \<Rightarrow> freed p d txn ks k txn'
     | Inl e \<Rightarrow> e \<in> {SDB_E_INVALID_ARGUMENT, SDB_E_OUT_OF_MEMORY, SDB_E_OVERFLOW}
         \<or> e = SDB_E_IO \<and> pager_may_fail p d \<or> shown_page p d k = Inl e)"

lemma push_free_outcome:
  assumes "txn_push_free env p' k txn1 = (r, txn')" "r = Inr () \<Longrightarrow> freed p d txn ks k txn'"
  shows "free_outcome p d txn ks k r txn'"
  using assms push_free_error [of env p' k txn1 _ txn'] by (cases r) (auto simp: free_outcome_def)

lemma free_allocated:
  assumes txn: "txn_ok p txn" "tx_active txn" "free_list p d txn ks" and k: "k \<noteq> 0" "k < next_page_id (tx_target_superblock txn)"
    and i: "find_index (\<lambda>q. q = k) (tx_allocated_pages txn) = Some i"
  shows "\<exists>r txn'. sdb_txn_free env k txn (p, d) = Some (r, txn', p, d) \<and> free_outcome p d txn ks k r txn'"
proof -
  define as where "as = remove_index i (tx_allocated_pages txn)"
  define qs where "qs = (case txn_staged txn k of None \<Rightarrow> tx_pages txn | Some j \<Rightarrow> remove_index j (tx_pages txn))"
  note ki = find_index_Some [OF i]
  have dist: "distinct (map tp_page_id (tx_pages txn))" "distinct (map id (tx_allocated_pages txn))"
    using txn(1,3) by (simp_all add: txn_ok_def Let_def free_list_def)
  have as: "distinct as" "set as = set (tx_allocated_pages txn) - {k}"
    using remove_index_ids(1,2) [OF dist(2), of i] ki by (simp_all add: as_def)
  have nk: "k \<notin> set ks"
    using txn(3) ki nth_mem [of i "tx_allocated_pages txn"] by (auto simp: free_list_def)
  have qs: "distinct (map tp_page_id qs)" "set qs \<subseteq> set (tx_pages txn)" "tp_page_id ` set (tx_pages txn) - {k} \<subseteq> tp_page_id ` set qs"
    "\<And>j. j \<noteq> k \<Longrightarrow> find (\<lambda>q. tp_page_id q = j) qs = find (\<lambda>q. tp_page_id q = j) (tx_pages txn)"
    using remove_index_ids [OF dist(1)] dist(1) find_index_Some [of "\<lambda>q. tp_page_id q = k" "tx_pages txn"]
    by (auto simp: qs_def txn_staged_def split: option.splits)
  define txn1 where "txn1 = txn\<lparr>tx_allocated_pages := as, tx_pages := qs\<rparr>"
  obtain r txn' where push: "txn_push_free env p k txn1 = (r, txn')"
    by fastforce
  have "sdb_txn_free env k txn (p, d) = Some (r, txn', p, d)"
    using push i k txn(2)
    by (cases "txn_staged txn k") (auto simp: sdb_txn_free_def Let_def txn_staged_def txn1_def qs_def as_def not_le)
  moreover have "free_outcome p d txn ks k r txn'"
  proof (rule push_free_outcome [OF push])
    assume "r = Inr ()"
    then show "freed p d txn ks k txn'"
      using pushed_freed [OF txn nk k qs as] push unfolding txn1_def by blast
  qed
  ultimately show ?thesis
    by blast
qed

lemma free_stored:
  assumes ok: "pager_ok p d" and txn: "txn_ok p txn" "tx_active txn" "free_list p d txn ks"
    and k: "k \<noteq> 0" "k < next_page_id (tx_target_superblock txn)" "k \<notin> set (tx_allocated_pages txn)"
    and view: "page_in_use p k" "shown_page p d k = Inr (img, view)" "pv_type view \<noteq> SDB_PAGE_TYPE_FREE"
    and same: "same_store p d p' d'"
    and push: "txn_push_free env p' k txn = (Inr (), txn')"
  shows "freed p d txn ks k txn'"
proof -
  obtain f c where p': "p' = p\<lparr>pg_file := f, pg_cache := c\<rparr>"
    using same by (rule same_storeE)
  have "sdb_txn_put env p' k SDB_PAGE_TYPE_FREE w txn = sdb_txn_put env p k SDB_PAGE_TYPE_FREE w txn" for w
    by (simp add: sdb_txn_put_def sdb_pager_payload_capacity_def p')
  then have push': "txn_push_free env p k (txn\<lparr>tx_allocated_pages := tx_allocated_pages txn, tx_pages := tx_pages txn\<rparr>) = (Inr (), txn')"
    using push by (simp add: txn_push_free_def)
  obtain txn1 where "sdb_txn_put env p' k SDB_PAGE_TYPE_FREE (sdb_write_u64_le (zeros 8) 0 (freelist_page (tx_target_superblock txn))) txn = (Inr (), txn1)"
    using push by (auto simp: txn_push_free_def split: prod.splits sum.splits)
  then have "k \<notin> tp_page_id ` set (tx_pages txn)"
    using put_cases by fastforce
  then have "shown_after p d txn k = shown_page p d k"
    by (auto simp: shown_after_def find_Some_iff split: option.splits)
  then have "free_next (shown_after p d txn k) = None"
    using view by (simp add: free_next_def)
  moreover have "\<exists>h. free_next (shown_after p d txn j) = Some h" if "free_chain (free_next \<circ> shown_after p d txn) a js" "j \<in> set js" for j a js
    using that by (induction js arbitrary: a) auto
  ultimately have "k \<notin> set ks"
    using txn(3) by (fastforce simp: free_list_def)
  moreover have "distinct (map tp_page_id (tx_pages txn))" "distinct (tx_allocated_pages txn)"
    using txn by (simp_all add: txn_ok_def Let_def free_list_def)
  ultimately show ?thesis
    using pushed_freed [OF txn _ k(1,2) _ _ _ _ _ _ push'] k(3) by simp
qed

lemma free_spec:
  assumes ok: "pager_ok p d" and txn: "txn_ok p txn" "tx_active txn" "free_list p d txn ks"
  shows "\<exists>r txn' p' d'. sdb_txn_free env k txn (p, d) = Some (r, txn', p', d') \<and> same_store p d p' d' \<and> pager_ok p' d'
    \<and> free_outcome p d txn ks k r txn'"
proof -
  consider (bad) "k = 0 \<or> k \<ge> next_page_id (tx_target_superblock txn)"
    | (mine) i where "k \<noteq> 0" "k < next_page_id (tx_target_superblock txn)" "find_index (\<lambda>q. q = k) (tx_allocated_pages txn) = Some i"
    | (mem) "k \<noteq> 0" "k < next_page_id (tx_target_superblock txn)" "find_index (\<lambda>q. q = k) (tx_allocated_pages txn) = None"
        "\<not> env_malloc env 2 (pg_page_size p)"
    | (read) "k \<noteq> 0" "k < next_page_id (tx_target_superblock txn)" "find_index (\<lambda>q. q = k) (tx_allocated_pages txn) = None"
        "env_malloc env 2 (pg_page_size p)"
    by (metis not_le option.exhaust)
  then show ?thesis
  proof cases
    case bad
    then show ?thesis
      using ok by (auto simp: sdb_txn_free_def free_outcome_def)
  next
    case mine
    then show ?thesis
      using free_allocated [OF txn mine, of env] ok by fastforce
  next
    case mem
    then show ?thesis
      using ok txn(2) by (auto simp: sdb_txn_free_def free_outcome_def not_le)
  next
    case read
    have na: "k \<notin> set (tx_allocated_pages txn)"
      using read(3) by (auto simp: find_index_None)
    show ?thesis
    proof (cases "\<not> pg_open p \<or> pg_needs_recovery p \<or> \<not> page_in_use p k")
      case True
      then have "sdb_pager_read env k (pg_page_size p) (p, d) = Some (Inl SDB_E_INVALID_ARGUMENT, p, d)"
        using read(1) by (auto simp: sdb_pager_read_def page_in_use_def)
      then show ?thesis
        using ok txn(2) read by (auto simp: sdb_txn_free_def free_outcome_def not_le)
    next
      case False
      then obtain rr p' d' where rd: "sdb_pager_read env k (pg_page_size p) (p, d) = Some (rr, p', d')" "same_store p d p' d'" "pager_ok p' d'"
        "read_outcome env p d k rr"
        using read_spec [OF ok, of k "pg_page_size p" env] by auto
      have run: "sdb_txn_free env k txn (p, d) = (case rr of Inl e \<Rightarrow> Some (Inl e, txn, p', d')
          | Inr view \<Rightarrow> if pv_type view = SDB_PAGE_TYPE_FREE then Some (Inl SDB_E_INVALID_ARGUMENT, txn, p', d')
                  else (case txn_push_free env p' k txn of (r, txn) \<Rightarrow> Some (r, txn, p', d')))"
        using rd(1) read txn(2) by (auto simp: sdb_txn_free_def not_le split: sum.splits)
      show ?thesis
      proof (cases rr)
        case (Inl e)
        then have "free_outcome p d txn ks k (Inl e) txn"
          using rd(4) by (cases "shown_page p d k") (auto simp: read_outcome_def free_outcome_def)
        then show ?thesis
          using run Inl rd(2,3) by simp
      next
        case (Inr view)
        then obtain img where v: "shown_page p d k = Inr (img, view)"
          using rd(4) by (cases "shown_page p d k") (auto simp: read_outcome_def)
        obtain r txn' where push: "txn_push_free env p' k txn = (r, txn')"
          by fastforce
        show ?thesis
        proof (cases "pv_type view = SDB_PAGE_TYPE_FREE")
          case True
          then show ?thesis
            using run Inr rd(2,3) by (auto simp: free_outcome_def)
        next
          case data: False
          have "free_outcome p d txn ks k r txn'"
          proof (rule push_free_outcome [OF push])
            assume "r = Inr ()"
            then show "freed p d txn ks k txn'"
              using free_stored [OF ok txn read(1,2) na _ v data rd(2)] push False by blast
          qed
          then show ?thesis
            using run Inr data push rd(2,3) by simp
        qed
      qed
    qed
  qed
qed

section \<open>Whole transactions\<close>

text \<open>The free list of a pager outside a transaction.\<close>

definition stored_free :: "sdb_pager \<Rightarrow> directory \<Rightarrow> u64 list \<Rightarrow> bool" where
  "stored_free p d ks \<longleftrightarrow> free_chain (free_next \<circ> shown_page p d) (freelist_page (pg_superblock p)) ks
    \<and> distinct ks \<and> (\<forall>k \<in> set ks. page_in_use p k)"

text \<open>
  A transaction as a program runs it, with the free list at each point: it begins, then
  reads, stages pages, allocates and frees, each time in an environment of its own.
  \<open>sdb_txn_put\<close> does not ask whether the page it is given is free, so a program has to
  stage pages outside the free list only. An operation may fail as long as it leaves the
  transaction as it was. An allocation or a freeing that fails for want of memory after
  it has already changed the transaction ends the run, and the program has to give the
  transaction up.
\<close>

inductive txn_run :: "sdb_pager \<Rightarrow> directory \<Rightarrow> sdb_txn \<Rightarrow> u64 list \<Rightarrow> bool" where
  txn_begins: "pager_ok p d \<Longrightarrow> stored_free p d ks \<Longrightarrow> sdb_txn_begin p = (Inr txn, p') \<Longrightarrow> txn_run p' d txn ks"
| txn_reads: "txn_run p d txn ks \<Longrightarrow> sdb_pager_read env k n (p, d) = Some (r, p', d') \<Longrightarrow> txn_run p' d' txn ks"
| txn_puts: "txn_run p d txn ks \<Longrightarrow> k \<notin> set ks \<Longrightarrow> sdb_txn_put env p k type payload txn = (Inr (), txn')
    \<Longrightarrow> txn_run p d txn' ks"
| txn_put_fails: "txn_run p d txn ks \<Longrightarrow> sdb_txn_put env p k type payload txn = (Inl e, txn') \<Longrightarrow> txn_run p d txn' ks"
| txn_allocates: "txn_run p d txn ks \<Longrightarrow> sdb_txn_allocate env txn (p, d) = Some (Inr k, txn', p', d')
    \<Longrightarrow> txn_run p' d' txn' (tl ks)"
| txn_allocate_fails: "txn_run p d txn ks \<Longrightarrow> sdb_txn_allocate env txn (p, d) = Some (Inl e, txn, p', d')
    \<Longrightarrow> txn_run p' d' txn ks"
| txn_frees: "txn_run p d txn ks \<Longrightarrow> sdb_txn_free env k txn (p, d) = Some (Inr (), txn', p', d')
    \<Longrightarrow> txn_run p' d' txn' (k # ks)"
| txn_free_fails: "txn_run p d txn ks \<Longrightarrow> sdb_txn_free env k txn (p, d) = Some (Inl e, txn, p', d')
    \<Longrightarrow> txn_run p' d' txn ks"

definition txn_inv :: "sdb_pager \<Rightarrow> directory \<Rightarrow> sdb_txn \<Rightarrow> u64 list \<Rightarrow> bool" where
  "txn_inv p d txn ks \<longleftrightarrow> pager_ok p d \<and> pg_open p \<and> \<not> pg_needs_recovery p \<and> txn_ok p txn \<and> tx_active txn \<and> free_list p d txn ks"

lemma begun_inv:
  assumes "pager_ok p d" "stored_free p d ks" "sdb_txn_begin p = (Inr txn, p')"
  shows "txn_inv p' d txn ks"
proof -
  note b = begin_ok [OF assms(3)]
  have open_: "pg_open p" "\<not> pg_needs_recovery p" and p': "p' = p\<lparr>pg_transaction_active := True\<rparr>"
    and t: "tx_target_superblock txn = pg_superblock p"
    using assms(3) by (auto simp: sdb_txn_begin_def split: if_splits)
  have "p' = p\<lparr>pg_transaction_active := True, pg_needs_recovery := pg_needs_recovery p\<rparr>"
    by (simp add: p')
  from flags_keep(1) [OF this] have ok: "pager_ok p' d"
    using assms(1) by simp
  have "shown_after p' d txn = shown_page p d"
    by (intro ext b(4))
  then have "free_list p' d txn ks"
    using assms(2) b(3) unfolding free_list_def by (auto simp: t stored_free_def page_in_use_def)
  then show ?thesis
    using ok b(1,2) open_ by (simp add: txn_inv_def p')
qed

lemma staged_inv:
  assumes "txn_inv p d txn ks" "k \<notin> set ks" "sdb_txn_put env p k type payload txn = (Inr (), txn')"
  shows "txn_inv p d txn' ks"
proof -
  have txn: "txn_ok p txn"
    using assms(1) by (simp add: txn_inv_def)
  note u = put_ok [OF assms(3) txn]
  have "shown_after p d txn' j = shown_after p d txn j" if "j \<in> set ks" for j
    using that assms(2) by (intro u(6)) auto
  then have "free_chain (free_next \<circ> shown_after p d txn') h ks = free_chain (free_next \<circ> shown_after p d txn) h ks" for h
    by (intro free_chain_cong) simp
  then show ?thesis
    using assms(1) u(1-4) by (simp add: txn_inv_def free_list_def)
qed

lemma store_inv:
  assumes "txn_inv p d txn ks" "same_store p d p' d'" "pager_ok p' d'" "txn_ok p txn'" "tx_active txn'" "free_list p d txn' ks'"
  shows "txn_inv p' d' txn' ks'"
proof -
  have "log_ok p d"
    using assms(1) by (simp add: txn_inv_def pager_ok_def)
  note same = same_store_txn [OF assms(2) this]
  obtain f c where "p' = p\<lparr>pg_file := f, pg_cache := c\<rparr>"
    using assms(2) by (rule same_storeE)
  then have "pg_open p' = pg_open p" "pg_needs_recovery p' = pg_needs_recovery p"
    by simp_all
  then show ?thesis
    using assms(1,3-6) same by (simp add: txn_inv_def)
qed

text \<open>An operation that leaves the transaction as it was keeps the invariant.\<close>

lemma unchanged_inv:
  assumes "txn_inv p d txn ks" "same_store p d p' d'" "pager_ok p' d'"
  shows "txn_inv p' d' txn ks"
  using store_inv [OF assms, of txn ks] assms(1) by (simp add: txn_inv_def)

lemma read_inv:
  assumes "txn_inv p d txn ks" "sdb_pager_read env k n (p, d) = Some (r, p', d')"
  shows "txn_inv p' d' txn ks"
proof (cases "page_in_use p k \<and> pg_page_size p \<le> n")
  case True
  then have "same_store p d p' d'" "pager_ok p' d'"
    using read_spec [of p d k n env] assms by (auto simp: txn_inv_def)
  then show ?thesis
    by (rule unchanged_inv [OF assms(1)])
next
  case False
  then have "p' = p \<and> d' = d"
    using assms(2) by (auto simp: sdb_pager_read_def page_in_use_def not_le not_less split: if_splits)
  then show ?thesis
    using assms(1) by simp
qed

lemma txn_run_inv: "txn_run p d txn ks \<Longrightarrow> txn_inv p d txn ks"
proof (induction rule: txn_run.induct)
  case (txn_begins p d ks txn p')
  then show ?case
    by (rule begun_inv)
next
  case (txn_reads p d txn ks env k n r p' d')
  then show ?case
    using read_inv by blast
next
  case (txn_puts p d txn ks k env type payload txn')
  then show ?case
    using staged_inv by blast
next
  case (txn_put_fails p d txn ks env k type payload e txn')
  have "txn' = txn"
    using put_cases [OF txn_put_fails.hyps(2)] by simp
  then show ?case
    using txn_put_fails.IH by simp
next
  case (txn_allocates p d txn ks env k txn' p' d')
  then have "same_store p d p' d'" "pager_ok p' d'" "allocated p d txn ks k txn'"
    using allocate_spec [of p d txn ks env] by (auto simp: txn_inv_def allocate_outcome_def)
  then show ?case
    using store_inv [OF txn_allocates.IH, of p' d' txn' "tl ks"] by (cases ks) (auto simp: allocated_def)
next
  case (txn_allocate_fails p d txn ks env e p' d')
  then have "same_store p d p' d'" "pager_ok p' d'"
    using allocate_spec [of p d txn ks env] by (auto simp: txn_inv_def)
  then show ?case
    by (rule unchanged_inv [OF txn_allocate_fails.IH])
next
  case (txn_frees p d txn ks env k txn' p' d')
  then have "same_store p d p' d'" "pager_ok p' d'" "freed p d txn ks k txn'"
    using free_spec [of p d txn ks env k] by (auto simp: txn_inv_def free_outcome_def)
  then show ?case
    using store_inv [OF txn_frees.IH, of p' d' txn' "k # ks"] by (auto simp: freed_def)
next
  case (txn_free_fails p d txn ks env k e p' d')
  then have "same_store p d p' d'" "pager_ok p' d'"
    using free_spec [of p d txn ks env k] by (auto simp: txn_inv_def)
  then show ?case
    by (rule unchanged_inv [OF txn_free_fails.IH])
qed

lemma txn_inv_commit:
  assumes "txn_inv p d txn ks" "nonces_ok env" "sdb_txn_commit env txn (p, d) = Some (Inr (), txn', p', d')"
  shows "pager_ok p' d'" "stored_free p' d' ks" "page_in_use p' k \<Longrightarrow> shown_page p' d' k = shown_after p d txn k"
    "pg_current_lsn p' = pg_current_lsn p + 1"
proof -
  have out: "commit_outcome p d txn (Inr ()) p' d'"
    using txn_commit_spec [of p d txn env] assms by (auto simp: txn_inv_def)
  then show "pager_ok p' d'" "page_in_use p' k \<Longrightarrow> shown_page p' d' k = shown_after p d txn k" "pg_current_lsn p' = pg_current_lsn p + 1"
    by (simp_all add: commit_outcome_def)
  have fl: "free_list p d txn ks"
    using assms(1) by (simp add: txn_inv_def)
  have use: "page_in_use p' j" if "j \<in> set ks" for j
    using that fl out by (auto simp: free_list_def commit_outcome_def page_in_use_def)
  then have "shown_page p' d' j = shown_after p d txn j" if "j \<in> set ks" for j
    using that out by (simp add: commit_outcome_def)
  then have "free_chain (free_next \<circ> shown_page p' d') h ks = free_chain (free_next \<circ> shown_after p d txn) h ks" for h
    by (intro free_chain_cong) simp
  then show "stored_free p' d' ks"
    using fl out use by (simp add: stored_free_def free_list_def commit_outcome_def)
qed

section \<open>Properties\<close>

text \<open>
  C8: an allocation takes the page at the head of the free list, or the first page
  beyond the file when the list is empty; the rest of the list and the pages handed out
  before stay as they were, and no page is handed out twice. It always ends, and fails
  only for want of memory or room or in a system call: a free list in order is never
  taken for a corrupt one.
\<close>

theorem allocate_pops_free_list:
  assumes "pager_ok p d" "pg_open p" "\<not> pg_needs_recovery p" "txn_ok p txn" "tx_active txn" "free_list p d txn ks"
  shows "\<exists>r txn' p' d'. sdb_txn_allocate env txn (p, d) = Some (r, txn', p', d') \<and> same_store p d p' d' \<and> pager_ok p' d'
    \<and> allocate_outcome env p d txn ks r txn'"
  using assms by (rule allocate_spec)

text \<open>
  C9: freeing puts the page in front of the free list and changes no other page. A page
  that is free already, whether it was freed by this transaction or an earlier one, is
  never accepted again.
\<close>

theorem free_pushes_free_list:
  assumes "pager_ok p d" "txn_ok p txn" "tx_active txn" "free_list p d txn ks"
  shows "\<exists>r txn' p' d'. sdb_txn_free env k txn (p, d) = Some (r, txn', p', d') \<and> same_store p d p' d' \<and> pager_ok p' d'
    \<and> free_outcome p d txn ks k r txn' \<and> (k \<in> set ks \<longrightarrow> r \<noteq> Inr ())"
proof -
  obtain r txn' p' d' where "sdb_txn_free env k txn (p, d) = Some (r, txn', p', d')" "same_store p d p' d'" "pager_ok p' d'"
    "free_outcome p d txn ks k r txn'"
    using free_spec [OF assms, of env k] by blast
  moreover from this(4) have "k \<in> set ks \<longrightarrow> r \<noteq> Inr ()"
    by (auto simp: free_outcome_def freed_def)
  ultimately show ?thesis
    by blast
qed

text \<open>
  C5: whole transactions keep the database in order. After any sequence of reads, of
  pages staged outside the free list, of allocations and of freeings, in which an
  operation may also fail provided that it leaves the transaction as it was, a commit
  that succeeds leaves the pager in order, its pages show what the transaction left,
  and its free list is a chain of distinct pages in use, the one the transaction worked
  with, so that the next transaction can begin.
\<close>

theorem transaction_keeps_free_list:
  assumes "txn_run p d txn ks" "nonces_ok env" "sdb_txn_commit env txn (p, d) = Some (Inr (), txn', p', d')"
  shows "pager_ok p' d' \<and> stored_free p' d' ks \<and> (\<forall>k. page_in_use p' k \<longrightarrow> shown_page p' d' k = shown_after p d txn k)
    \<and> pg_current_lsn p' = pg_current_lsn p + 1"
  using txn_inv_commit [OF txn_run_inv [OF assms(1)] assms(2,3)] by blast

definition example_begun :: sdb_txn where
  "example_begun = zero_txn\<lparr>tx_target_superblock := example_superblock\<lparr>next_page_id := 2\<rparr>, tx_active := True\<rparr>"

definition example_allocated :: sdb_txn where
  "example_allocated = example_begun\<lparr>tx_target_superblock := example_superblock\<lparr>next_page_id := 3\<rparr>,
    tx_allocated_pages := [2], tx_allocated_page_capacity := 8\<rparr>"

lemma example_begins:
  assumes "pager_ok (example_pager c ix) empty_directory"
  shows "sdb_txn_begin (example_pager c ix) = (Inr example_begun, example_pager c ix\<lparr>pg_transaction_active := True\<rparr>)"
    "stored_free (example_pager c ix) empty_directory []"
  by (simp_all add: sdb_txn_begin_def example_pager_def zero_pager_def example_begun_def stored_free_def example_superblock_def)

lemma example_allocates:
  "sdb_txn_allocate example_env example_begun s = Some (Inr 2, example_allocated, s)"
  by (cases s) (simp add: sdb_txn_allocate_def example_begun_def example_allocated_def zero_txn_def example_superblock_def
      sdb_page_geometry_valid_def superblock_consts txn_record_allocation_def example_env_def SIZE_MAX_def sizeof_u64_def Let_def)

theorem allocate_pops_free_list_witness:
  "\<exists>c ix p' d'. sdb_txn_allocate example_env example_begun (example_pager c ix, empty_directory) = Some (Inr 2, example_allocated, p', d')
    \<and> allocated (example_pager c ix) empty_directory example_begun [] 2 example_allocated"
proof (rule example_pager_ok)
  fix c ix
  assume ok: "pager_ok (example_pager c ix) empty_directory"
  have "txn_ok (example_pager c ix) example_begun" "tx_active example_begun" "free_list (example_pager c ix) empty_directory example_begun []"
    "pg_open (example_pager c ix)" "\<not> pg_needs_recovery (example_pager c ix)"
    by (auto simp: txn_ok_def Let_def example_pager_def zero_pager_def example_begun_def zero_txn_def staged_types_def free_list_def
        example_superblock_def not_less)
  then show ?thesis
    using allocate_pops_free_list [OF ok, of example_begun "[]" example_env] example_allocates
    by (auto simp: allocate_outcome_def)
qed

theorem free_pushes_free_list_witness:
  "\<exists>c ix txn' p' d'. sdb_txn_free example_env 2 example_allocated (example_pager c ix, empty_directory) = Some (Inr (), txn', p', d')
    \<and> freed (example_pager c ix) empty_directory example_allocated [] 2 txn'"
proof (rule example_pager_ok)
  fix c ix
  assume ok: "pager_ok (example_pager c ix) empty_directory"
  have covered: "j = 2" if "2 \<le> j" "j < 3" for j :: u64
    using that by (simp add: word_le_nat_alt word_less_nat_alt word_unat_eq_iff)
  have txn: "txn_ok (example_pager c ix) example_allocated" "tx_active example_allocated"
    "free_list (example_pager c ix) empty_directory example_allocated []"
    using covered by (auto simp: txn_ok_def Let_def example_pager_def zero_pager_def example_allocated_def example_begun_def zero_txn_def
        staged_types_def free_list_def example_superblock_def)
  have cap: "sdb_pager_payload_capacity (example_pager c ix) = 4064"
    by (simp add: sdb_pager_payload_capacity_def example_pager_def zero_pager_def example_superblock_def SDB_PAGE_HEADER_SIZE_def)
  have w: "length (sdb_write_u64_le (zeros 8) 0 0) = 8" "sdb_read_u64_le (sdb_write_u64_le (zeros 8) 0 0) 0 = 0"
    by (simp_all add: le64.rd_wr le64.length_wr)
  obtain txn' where "sdb_txn_free example_env 2 example_allocated (example_pager c ix, empty_directory)
      = Some (Inr (), txn', example_pager c ix, empty_directory)"
    using cap w by (simp add: sdb_txn_free_def example_allocated_def example_begun_def zero_txn_def example_superblock_def txn_staged_def
        remove_index_def txn_push_free_def sdb_txn_put_def page_consts grown_pages_def example_env_def SIZE_MAX_def sizeof_txn_page_def Let_def)
  then show ?thesis
    using free_pushes_free_list [OF ok txn, of example_env 2] by (fastforce simp: free_outcome_def)
qed

lemma example_run:
  assumes "pager_ok (example_pager c ix) empty_directory"
  shows "txn_run (example_pager c ix\<lparr>pg_transaction_active := True\<rparr>) empty_directory example_put []"
proof -
  let ?p = "example_pager c ix\<lparr>pg_transaction_active := True\<rparr>"
  have begun: "txn_run ?p empty_directory example_begun []"
    by (rule txn_begins [OF assms example_begins(2,1) [OF assms]])
  have "sdb_pager_payload_capacity ?p = 4064"
    by (simp add: sdb_pager_payload_capacity_def example_pager_def zero_pager_def example_superblock_def SDB_PAGE_HEADER_SIZE_def)
  moreover have "\<not> (2 :: u64) \<le> 1"
    by (simp add: word_le_nat_alt)
  ultimately have put: "sdb_txn_put example_env ?p 1 SDB_PAGE_TYPE_DATA [9, 8] example_begun = (Inr (), example_put)"
    by (simp add: sdb_txn_put_def example_begun_def example_put_def example_txn_page_def zero_txn_def example_superblock_def page_consts
        grown_pages_def example_env_def SIZE_MAX_def sizeof_txn_page_def Let_def)
  show ?thesis
    by (rule txn_puts [OF begun _ put]) simp
qed

theorem transaction_keeps_free_list_witness:
  "\<exists>p d txn' p' d'. txn_run p d example_put []
    \<and> sdb_txn_commit example_env example_put (p, d) = Some (Inr (), txn', p', d') \<and> stored_free p' d' [] \<and> pg_current_lsn p' = 5"
proof (rule example_pager_ok)
  fix c ix
  assume ok: "pager_ok (example_pager c ix) empty_directory"
  define p where "p = example_pager c ix\<lparr>pg_transaction_active := True\<rparr>"
  have run: "txn_run p empty_directory example_put []"
    using example_run [OF ok] by (simp add: p_def)
  have "pager_ok p empty_directory" "txn_ok p example_put"
    using txn_run_inv [OF run] by (simp_all add: txn_inv_def)
  moreover have "calm example_env p empty_directory" "commit_room p example_put"
    using example_commit(1,3) [of c ix] by (simp_all add: p_def calm_def commit_room_def)
  ultimately obtain txn' p' d' where com: "sdb_txn_commit example_env example_put (p, empty_directory) = Some (Inr (), txn', p', d')"
    using txn_commit_succeeds [OF _ _ example_put_ok(2) _ example_commit(2)] by blast
  have "stored_free p' d' [] \<and> pg_current_lsn p' = pg_current_lsn p + 1"
    using transaction_keeps_free_list [OF run example_put_ok(2) com] by blast
  moreover have "pg_current_lsn p = 4"
    by (simp add: p_def example_pager_def)
  ultimately have "stored_free p' d' []" "pg_current_lsn p' = 5"
    by simp_all
  with run com show ?thesis
    by (intro exI conjI)
qed

end
