(* ===== verification/Spec2Isabelle.thy ===== *)
theory Spec2Isabelle
  imports Btree_Page Pager_Alloc
begin

text \<open>
  A verification development of shibadb, an embedded transactional key-value store
  written in C (\<open>src/src\<close>, public header \<open>src/include/shibadb.h\<close>).

  \<^bold>\<open>The program.\<close> A database is one file: two mirrored superblock slots of 4096 bytes,
  then pages of equal size. Pages carry a checksum, an id and the number (LSN) of the
  transaction that wrote them; with a password every page is sealed by an
  authenticated cipher under a data key, which the superblock holds wrapped under a
  key derived from the password. A commit appends the changed pages and a commit
  record to a log beside the database; opening the database replays the log.
  A B+ tree on top of the pages maps keys to values, and the engine maps the public
  API to that tree.

  \<^bold>\<open>Theories, in the order of the code's layers.\<close>
  \<^item> \<open>Prelude\<close>: statuses, the result type, byte strings, the shared lemmas on slices and
    overwriting, and the collections of simplification rules.
  \<^item> \<open>Codec\<close> (\<open>codec.c\<close>), \<open>Crc_Tables\<close> and \<open>Checksum\<close> (\<open>checksum.c\<close>): little-endian
    access, checked size arithmetic, the slice-by-eight CRC-32.
  \<^item> \<open>Page\<close> (\<open>page.c\<close>), \<open>Superblock\<close> (\<open>superblock.c\<close>), \<open>Btree_Page\<close> (\<open>btree_page.c\<close>): the
    three on-disk formats.
  \<^item> \<open>File\<close> and \<open>Directory\<close> (POSIX part of \<open>file.c\<close>): a file is its contents, the bytes
    known to be on stable storage, and the writes since; a directory maps names to
    inodes, once as seen now and once as on stable storage.
  \<^item> \<open>Superblock_Store\<close>, \<open>Store_Path\<close> (\<open>superblock_store.c\<close>): the mirrored superblock, in an
    open file and by path.
  \<^item> \<open>Sha256\<close>, \<open>Poly1305\<close>, \<open>Poly1305_Spec\<close>, \<open>Chacha\<close> (\<open>sha256.c\<close>,
    \<open>xchacha20poly1305.c\<close>, \<open>chacha_avx2.c\<close>), \<open>Key_Manager\<close> (\<open>key_manager.c\<close>),
    \<open>Encrypted_Page\<close> (\<open>encrypted_page.c\<close>): the cryptography and its two uses.
  \<^item> \<open>Probing\<close>, \<open>Wal_Index\<close> (\<open>wal_index.c\<close>), \<open>Page_Cache\<close> (\<open>page_cache.c\<close>): linear
    probing, and the two hash structures built on it.
  \<^item> \<open>Wal_Format\<close>, \<open>Wal\<close>, \<open>Wal_Recover\<close>, \<open>Wal_Replay\<close>, \<open>Wal_Safety\<close>, \<open>Wal_Legacy\<close>
    (\<open>wal.c\<close>): the log: records, append, the recovery code, what recovery does with a
    log that append wrote, what it does with any bytes at all, and the log format of
    older versions.
  \<^item> \<open>Replace\<close> (\<open>replace.c\<close>): replacing a database file with the help of a marker file.
  \<^item> \<open>Pager\<close>, \<open>Pager_Txn\<close>, \<open>Pager_Open\<close> (\<open>pager.c\<close>): the open database; its transactions,
    commit and checkpoint; opening, creating, closing and changing the password.
  \<^item> \<open>Pager_View\<close>, \<open>Pager_Commit\<close>, \<open>Pager_Checkpoint\<close>: what a pager in order shows to its
    readers, and what a commit and a checkpoint make of it.
  \<^item> \<open>Pager_Healthy\<close>, \<open>Pager_Alloc\<close>: when a commit is sure to succeed; the free list, and
    whole transactions from their begin to their commit.

  \<^bold>\<open>Conventions.\<close> A byte string is a list of 8-bit words, and machine integers are words of
  their width; \<open>size_t\<close> values are naturals and every test against \<open>SIZE_MAX\<close> is kept.
  A function that returns a status and fills an output returns a sum, the error on the
  left. A buffer the code writes through a pointer is passed in and returned. Whether
  \<open>malloc\<close> succeeds is an argument (\<open>malloc_ok\<close>), as are random bytes and the choice of
  the vector unit (\<open>avx2\<close>). System calls consume a script of outcomes: success,
  interruption, a short transfer, failure (a transfer of nothing, which the code reports as
  an I/O error too, is a failure); a theorem that does not mention the script
  holds for all of them. Tests for null pointers have no counterpart.

  \<^bold>\<open>Loops.\<close> Loops over a buffer are structural recursion or \<open>function\<close> with a measure.
  The probe loops of the hash tables and the sizing loops may in principle run forever
  and are \<open>partial_function (option)\<close>; under the invariant of their table (a free slot
  exists) they are proved to return. No fuel is used.

  \<^bold>\<open>What is shown.\<close> For the formats: round trips, canonical encodings, detection of
  changed bytes. For the files: what remains after any sequence of failing calls; an
  interrupted superblock update leaves the old or the new superblock, provided the
  checksum tells a half-written slot from a whole one, and an interrupted append to the
  log leaves the transactions before it, with the new one if all of it was written. For
  recovery: it replays exactly the committed transactions; whatever the log holds it
  writes only intact pages found in frames of the log, and the log is tied to this
  database by its header, by its frames or by the data key, except for an unencrypted
  log of version 4 whose header is damaged; and it may be repeated. For the pager: a read delivers the newest stored
  version of the page, a commit changes exactly the staged pages and succeeds when
  nothing stands in its way, a checkpoint changes none, and the free list stays a stack
  of distinct pages through every transaction that stages pages outside it and is given
  up after an operation that failed half-way. For the hash structures: they refine a
  finite map.
  For the cryptography: the code computes the functions of the standards (RFC 2104, RFC
  8439) in every variant, and decryption accepts exactly what encryption produces; no
  claim is made about the strength of the ciphers.

  \<^bold>\<open>Interfaces.\<close> The locales state what one part relies on in another, and each is
  interpreted on the definitions that model the code: the fields of a record (\<open>le_field\<close> in
  \<open>Codec\<close>), the probe sequence of an open-addressing table (\<open>forward_scan\<close>,
  \<open>bounded_lookup\<close> and \<open>backward_shift\<close> in \<open>Probing\<close>), the pair of superblock slots
  (\<open>mirrored_slots\<close> in \<open>Superblock_Store\<close>), the index of the log (\<open>offset_index\<close> in
  \<open>Wal_Index\<close>), a cache that may forget (\<open>lossy_cache\<close> in \<open>Page_Cache\<close>) and authenticated
  encryption (\<open>aead_cipher\<close> in \<open>Chacha\<close>).

  \<^bold>\<open>Not modelled.\<close> The Windows half of \<open>file.c\<close>, \<open>windows_path.c\<close>, \<open>sync.c\<close>, \<open>random.c\<close>,
  \<open>cpu_features.c\<close> and \<open>sysinfo.c\<close> are calls into the operating system or the processor.
  \<open>sha256_shani.c\<close> consists of processor intrinsics. Threads are not modelled, and with
  them the group commit of the pager (\<open>sdb_pager_commit_durable\<close>,
  \<open>sdb_pager_group_checkpoint_if_due\<close>). The tree operations of \<open>btree.c\<close> and the engine
  above them (\<open>engine.c\<close>, \<open>engine_convenience.c\<close>) are outside the development; of the tree
  it has the node format. Wiping of key material has no observable effect here.
\<close>

end
